(* ===== verification/Prelude.thy ===== *)
theory Prelude
  imports Main "HOL-Library.Word" "HOL-Library.List_Lexorder" "HOL-Library.Multiset"
begin

text \<open>
  What every component of the development shares: the machine types of the Rust code, byte
  strings with the order TiKV sorts keys by, the standard library's conversions between integers
  and bytes or decimal text (\<^verbatim>\<open>to_be_bytes\<close>, \<^verbatim>\<open>from_be_bytes\<close>, \<^verbatim>\<open>parse::<i64>\<close>,
  \<^verbatim>\<open>to_string\<close>, \<^verbatim>\<open>str::from_utf8\<close>, \<^verbatim>\<open>String::from_utf8_lossy\<close>), and the generic lemmas about
  them. A Rust value that may not exist because the code panics is an \<open>option\<close>, with \<open>None\<close> for
  the panic. The release profile of the crate switches overflow checks off
  (\<^verbatim>\<open>overflow-checks = false\<close>), so arithmetic is the wrapping arithmetic of words.
\<close>

section \<open>Machine types\<close>

unbundle bit_operations_syntax

type_synonym u8 = "8 word"
type_synonym u16 = "16 word"
type_synonym u32 = "32 word"
type_synonym u64 = "64 word"
type_synonym i64 = "64 word"
type_synonym f64 = "64 word"
type_synonym bytes = "u8 list"
type_synonym kv_pair = "bytes \<times> bytes"
type_synonym store = "bytes \<rightharpoonup> bytes"

named_theorems enc_simps \<open>normal forms of the encoded keys and values\<close>
named_theorems wp_simps \<open>equations of the weakest precondition of the store requests\<close>

text \<open>An \<^verbatim>\<open>i64\<close> is the same 64 bits as a \<^verbatim>\<open>u64\<close>; the comparisons of the signed type read it as
  two's complement.\<close>

definition i64_lt :: "i64 \<Rightarrow> i64 \<Rightarrow> bool" where
  "i64_lt a b \<longleftrightarrow> sint a < sint b"

definition i64_le :: "i64 \<Rightarrow> i64 \<Rightarrow> bool" where
  "i64_le a b \<longleftrightarrow> sint a \<le> sint b"

definition i64_of_len :: "nat \<Rightarrow> i64" where
  "i64_of_len n = of_nat n"

text \<open>\<^verbatim>\<open>x.try_into().unwrap()\<close> from \<^verbatim>\<open>i64\<close> to \<^verbatim>\<open>u32\<close>\<close>

definition i64_to_u32 :: "i64 \<Rightarrow> nat option" where
  "i64_to_u32 x = (if 0 \<le> sint x \<and> sint x < 2 ^ 32 then Some (nat (sint x)) else None)"

definition u32_MAX :: nat where "u32_MAX = 4294967295"

definition u64_to_u32 :: "u64 \<Rightarrow> nat option" where
  "u64_to_u32 x = (if unat x \<le> u32_MAX then Some (unat x) else None)"

definition ascii :: "string \<Rightarrow> bytes" where
  "ascii s = map of_char s"

section \<open>Big-endian integers\<close>

primrec be_nat :: "nat \<Rightarrow> nat \<Rightarrow> bytes" where
  "be_nat 0 k = []"
| "be_nat (Suc n) k = be_nat n (k div 256) @ [of_nat (k mod 256)]"

definition nat_of_be :: "bytes \<Rightarrow> nat" where
  "nat_of_be bs = foldl (\<lambda>acc b. acc * 256 + unat b) 0 bs"

definition u16_to_be_bytes :: "u16 \<Rightarrow> bytes" where
  "u16_to_be_bytes w = be_nat 2 (unat w)"

definition u64_to_be_bytes :: "u64 \<Rightarrow> bytes" where
  "u64_to_be_bytes w = be_nat 8 (unat w)"

text \<open>\<^verbatim>\<open>u16::from_be_bytes(slice.try_into().unwrap())\<close>: the conversion to a fixed-size array panics
  on a slice of another length.\<close>

definition u16_from_be_bytes :: "bytes \<Rightarrow> u16 option" where
  "u16_from_be_bytes bs = (if length bs = 2 then Some (of_nat (nat_of_be bs)) else None)"

definition u64_from_be_bytes :: "bytes \<Rightarrow> u64 option" where
  "u64_from_be_bytes bs = (if length bs = 8 then Some (of_nat (nat_of_be bs)) else None)"

text \<open>\<^verbatim>\<open>&v[a..b]\<close> and \<^verbatim>\<open>&v[a..]\<close>: slicing out of range panics.\<close>

definition slice :: "nat \<Rightarrow> nat \<Rightarrow> 'a list \<Rightarrow> 'a list option" where
  "slice a b xs = (if a \<le> b \<and> b \<le> length xs then Some (take (b - a) (drop a xs)) else None)"

definition slice_from :: "nat \<Rightarrow> 'a list \<Rightarrow> 'a list option" where
  "slice_from a xs = (if a \<le> length xs then Some (drop a xs) else None)"

section \<open>Decimal text\<close>

text \<open>\<^verbatim>\<open>i64::to_string\<close>, and \<^verbatim>\<open>str::parse::<i64>\<close>: an optional sign, at least one digit, nothing
  else, and an error when the value does not fit.\<close>

function nat_digits :: "nat \<Rightarrow> bytes" where
  "nat_digits n = (if n < 10 then [48 + of_nat n] else nat_digits (n div 10) @ [48 + of_nat (n mod 10)])"
  by pat_completeness auto
termination
  by (relation "measure id") auto

declare nat_digits.simps [simp del]

definition i64_to_string :: "i64 \<Rightarrow> bytes" where
  "i64_to_string w = (if sint w < 0 then 45 # nat_digits (nat (- sint w)) else nat_digits (nat (sint w)))"

definition is_digit :: "u8 \<Rightarrow> bool" where
  "is_digit b \<longleftrightarrow> 48 \<le> b \<and> b \<le> 57"

definition digits_val :: "bytes \<Rightarrow> nat" where
  "digits_val bs = foldl (\<lambda>acc b. acc * 10 + (unat b - 48)) 0 bs"

definition i64_of_int :: "int \<Rightarrow> i64 option" where
  "i64_of_int k = (if - (2 ^ 63) \<le> k \<and> k < 2 ^ 63 then Some (of_int k) else None)"

definition parse_i64 :: "bytes \<Rightarrow> i64 option" where
  "parse_i64 bs =
     (case bs of
        [] \<Rightarrow> None
      | c # ds \<Rightarrow>
          if c = 45 then (if ds \<noteq> [] \<and> list_all is_digit ds then i64_of_int (- int (digits_val ds)) else None)
          else if c = 43 then (if ds \<noteq> [] \<and> list_all is_digit ds then i64_of_int (int (digits_val ds)) else None)
          else if list_all is_digit bs then i64_of_int (int (digits_val bs)) else None)"

section \<open>UTF-8\<close>

text \<open>One step of the decoder of the standard library: the length of the scalar value at the head of
  the bytes (\<open>Inr\<close>), or the number of bytes of the ill-formed sequence there (\<open>Inl\<close>), which
  \<^verbatim>\<open>from_utf8_lossy\<close> replaces by one U+FFFD.\<close>

definition is_cont :: "u8 \<Rightarrow> bool" where
  "is_cont b \<longleftrightarrow> 128 \<le> b \<and> b \<le> 191"

definition byte_at :: "bytes \<Rightarrow> nat \<Rightarrow> u8" where
  "byte_at bs i = (if i < length bs then bs ! i else 0)"

definition second_of_three :: "u8 \<Rightarrow> u8 \<Rightarrow> bool" where
  "second_of_three b c \<longleftrightarrow>
     b = 224 \<and> 160 \<le> c \<and> c \<le> 191 \<or> 225 \<le> b \<and> b \<le> 236 \<and> is_cont c \<or>
     b = 237 \<and> 128 \<le> c \<and> c \<le> 159 \<or> 238 \<le> b \<and> b \<le> 239 \<and> is_cont c"

definition second_of_four :: "u8 \<Rightarrow> u8 \<Rightarrow> bool" where
  "second_of_four b c \<longleftrightarrow>
     b = 240 \<and> 144 \<le> c \<and> c \<le> 191 \<or> 241 \<le> b \<and> b \<le> 243 \<and> is_cont c \<or>
     b = 244 \<and> 128 \<le> c \<and> c \<le> 143"

definition utf8_step :: "bytes \<Rightarrow> nat + nat" where
  "utf8_step bs =
     (let b = byte_at bs 0; c1 = byte_at bs 1; c2 = byte_at bs 2; c3 = byte_at bs 3 in
      if b < 128 then Inr 1
      else if 194 \<le> b \<and> b \<le> 223 then (if is_cont c1 then Inr 2 else Inl 1)
      else if 224 \<le> b \<and> b \<le> 239 then
        (if \<not> second_of_three b c1 then Inl 1 else if is_cont c2 then Inr 3 else Inl 2)
      else if 240 \<le> b \<and> b \<le> 244 then
        (if \<not> second_of_four b c1 then Inl 1 else if \<not> is_cont c2 then Inl 2
         else if is_cont c3 then Inr 4 else Inl 3)
      else Inl 1)"

lemma utf8_step_shrinks:
  assumes "bs \<noteq> []" and "utf8_step bs = Inr n \<or> utf8_step bs = Inl n"
  shows "length (drop n bs) < length bs"
proof -
  from assms(2) have "0 < n"
    by (auto simp: utf8_step_def Let_def split: if_splits)
  with assms(1) show ?thesis by (cases bs) auto
qed

function utf8_valid :: "bytes \<Rightarrow> bool" where
  "utf8_valid bs =
     (if bs = [] then True
      else case utf8_step bs of Inr n \<Rightarrow> utf8_valid (drop n bs) | Inl n \<Rightarrow> False)"
  by pat_completeness auto
termination
  by (relation "measure length") (use utf8_step_shrinks in force)+

function utf8_lossy :: "bytes \<Rightarrow> bytes" where
  "utf8_lossy bs =
     (if bs = [] then []
      else case utf8_step bs of
             Inr n \<Rightarrow> take n bs @ utf8_lossy (drop n bs)
           | Inl n \<Rightarrow> [239, 191, 189] @ utf8_lossy (drop n bs))"
  by pat_completeness auto
termination
  by (relation "measure length") (use utf8_step_shrinks in force)+

declare utf8_valid.simps [simp del] utf8_lossy.simps [simp del]

section \<open>Ranges of keys and scans\<close>

text \<open>The ranges the code hands to the store (\<^verbatim>\<open>a..\<close>, \<^verbatim>\<open>a..b\<close> and \<^verbatim>\<open>a..=b\<close>), and what a scan of a
  range yields on a finite map: the pairs in key order, at most \<open>limit\<close> of them.\<close>

datatype bound_range = RangeFrom bytes | Range bytes bytes | RangeInclusive bytes bytes

fun in_range :: "bound_range \<Rightarrow> bytes \<Rightarrow> bool" where
  "in_range (RangeFrom a) k \<longleftrightarrow> a \<le> k"
| "in_range (Range a b) k \<longleftrightarrow> a \<le> k \<and> k < b"
| "in_range (RangeInclusive a b) k \<longleftrightarrow> a \<le> k \<and> k \<le> b"

declare in_range.simps [simp del]

definition range_keys :: "store \<Rightarrow> bound_range \<Rightarrow> bytes list" where
  "range_keys m rg = sorted_list_of_set {k \<in> dom m. in_range rg k}"

definition scan_store :: "store \<Rightarrow> bool \<Rightarrow> bound_range \<Rightarrow> nat \<Rightarrow> kv_pair list" where
  "scan_store m backwards rg limit =
     map (\<lambda>k. (k, the (m k)))
       (take limit (if backwards then rev (range_keys m rg) else range_keys m rg))"

section \<open>Floating-point numbers as bit patterns\<close>

text \<open>An \<^verbatim>\<open>f64\<close> is its 64-bit pattern (\<^verbatim>\<open>to_bits\<close>, \<^verbatim>\<open>from_bits\<close>). Comparisons are those of IEEE 754:
  a pattern that is not a NaN is ordered by its sign and magnitude, the two zeros are equal, and
  every comparison with a NaN is false.\<close>

definition f64_magnitude :: "f64 \<Rightarrow> u64" where
  "f64_magnitude x = x AND 0x7FFFFFFFFFFFFFFF"

definition f64_is_nan :: "f64 \<Rightarrow> bool" where
  "f64_is_nan x = (0x7FF0000000000000 < f64_magnitude x)"

definition f64_rank :: "f64 \<Rightarrow> int" where
  "f64_rank x = (if bit x 63 then - uint (f64_magnitude x) else uint (f64_magnitude x))"

definition f64_lt :: "f64 \<Rightarrow> f64 \<Rightarrow> bool" where
  "f64_lt x y = (\<not> f64_is_nan x \<and> \<not> f64_is_nan y \<and> f64_rank x < f64_rank y)"

definition f64_le :: "f64 \<Rightarrow> f64 \<Rightarrow> bool" where
  "f64_le x y = (\<not> f64_is_nan x \<and> \<not> f64_is_nan y \<and> f64_rank x \<le> f64_rank y)"

section \<open>Lemmas on byte strings\<close>

lemma nat_of_be_Nil [simp]: "nat_of_be [] = 0"
  by (simp add: nat_of_be_def)

lemma nat_of_be_snoc [simp]: "nat_of_be (bs @ [b]) = nat_of_be bs * 256 + unat b"
  by (simp add: nat_of_be_def)

lemma length_be_nat [simp]: "length (be_nat n k) = n"
  by (induction n arbitrary: k) auto

lemma unat_of_nat_mod256: "unat (of_nat (k mod 256) :: u8) = k mod 256"
  by (simp add: unat_of_nat take_bit_eq_mod)

lemma nat_of_be_be_nat: "nat_of_be (be_nat n k) = k mod 256 ^ n"
proof (induction n arbitrary: k)
  case 0
  show ?case by simp
next
  case (Suc n)
  have "nat_of_be (be_nat (Suc n) k) = (k div 256) mod 256 ^ n * 256 + k mod 256"
    by (simp add: Suc unat_of_nat_mod256 del: of_nat_mod)
  then show ?case
    by (simp add: mod_mult2_eq)
qed

lemma append_less_iff [simp]: "(xs :: 'a::linorder list) @ ys < xs @ zs \<longleftrightarrow> ys < zs"
  by (induction xs) auto

lemma append_le_iff [simp]: "(xs :: 'a::linorder list) @ ys \<le> xs @ zs \<longleftrightarrow> ys \<le> zs"
  by (induction xs) auto

lemma append_less_append_iff:
  "length xs = length ys \<Longrightarrow> xs @ us < ys @ vs \<longleftrightarrow> xs < ys \<or> xs = ys \<and> us < (vs :: 'a::linorder list)"
  by (induction xs ys rule: list_induct2) auto

lemma append_le_append_iff:
  "length xs = length ys \<Longrightarrow> xs @ us \<le> ys @ vs \<longleftrightarrow> xs < ys \<or> xs = ys \<and> us \<le> (vs :: 'a::linorder list)"
  by (induction xs ys rule: list_induct2) auto

lemma unat_u8_bound: "unat (x :: u8) < 256"
  using unsigned_less [where ?w = x and ?'a = nat] by simp

lemma base256_less_iff:
  fixes a b x y :: nat
  assumes "x < 256" and "y < 256"
  shows "a * 256 + x < b * 256 + y \<longleftrightarrow> a < b \<or> a = b \<and> x < y"
  using assms by linarith

lemma base256_eq_iff:
  fixes a b x y :: nat
  assumes "x < 256" and "y < 256"
  shows "a * 256 + x = b * 256 + y \<longleftrightarrow> a = b \<and> x = y"
  using assms by (metis base256_less_iff less_irrefl linorder_neqE_nat)

lemma nat_of_be_eq_iff:
  "length xs = length ys \<Longrightarrow> nat_of_be xs = nat_of_be ys \<longleftrightarrow> xs = ys"
proof (induction xs arbitrary: ys rule: rev_induct)
  case Nil
  then show ?case by simp
next
  case (snoc x xs)
  then obtain y zs where ys: "ys = zs @ [y]" and len: "length xs = length zs"
    by (cases ys rule: rev_cases) auto
  show ?case
    using snoc.IH [OF len]
    by (simp add: ys base256_eq_iff [OF unat_u8_bound unat_u8_bound] word_unat_eq_iff)
qed

lemma nat_of_be_less_iff:
  "length xs = length ys \<Longrightarrow> nat_of_be xs < nat_of_be ys \<longleftrightarrow> xs < ys"
proof (induction xs arbitrary: ys rule: rev_induct)
  case Nil
  then show ?case by simp
next
  case (snoc x xs)
  then obtain y zs where ys: "ys = zs @ [y]" and len: "length xs = length zs"
    by (cases ys rule: rev_cases) auto
  have "nat_of_be (xs @ [x]) < nat_of_be ys \<longleftrightarrow>
      nat_of_be xs < nat_of_be zs \<or> nat_of_be xs = nat_of_be zs \<and> unat x < unat y"
    by (simp only: ys nat_of_be_snoc base256_less_iff [OF unat_u8_bound unat_u8_bound])
  moreover note nat_of_be_eq_iff [OF len]
  ultimately show ?case
    using snoc.IH [OF len] len
    by (simp add: ys append_less_append_iff word_less_nat_alt)
qed

lemma be_nat_less_iff: "a < 256 ^ n \<Longrightarrow> b < 256 ^ n \<Longrightarrow> be_nat n a < be_nat n b \<longleftrightarrow> a < b"
  using nat_of_be_less_iff [of "be_nat n a" "be_nat n b"] by (simp add: nat_of_be_be_nat)

lemma be_nat_eq_iff: "a < 256 ^ n \<Longrightarrow> b < 256 ^ n \<Longrightarrow> be_nat n a = be_nat n b \<longleftrightarrow> a = b"
  by (metis nat_of_be_be_nat mod_less)

lemma unat_u16_bound: "unat (w :: u16) < 256 ^ 2"
  using unsigned_less [where ?w = w and ?'a = nat] by simp

lemma unat_u64_bound: "unat (w :: u64) < 256 ^ 8"
  using unsigned_less [where ?w = w and ?'a = nat] by simp

lemma u16_be_length [simp]: "length (u16_to_be_bytes w) = 2"
  by (simp add: u16_to_be_bytes_def)

lemma u64_be_length [simp]: "length (u64_to_be_bytes w) = 8"
  by (simp add: u64_to_be_bytes_def)

lemma unat_of_nat_u64: "n < 2 ^ 64 \<Longrightarrow> unat (of_nat n :: u64) = n"
  by (simp add: unat_of_nat)

lemma u16_be_roundtrip [simp]: "u16_from_be_bytes (u16_to_be_bytes w) = Some w"
  using unat_u16_bound [of w] by (simp add: u16_from_be_bytes_def u16_to_be_bytes_def nat_of_be_be_nat)

lemma u64_be_roundtrip [simp]: "u64_from_be_bytes (u64_to_be_bytes w) = Some w"
  using unat_u64_bound [of w] by (simp add: u64_from_be_bytes_def u64_to_be_bytes_def nat_of_be_be_nat)

lemma u16_be_inject [simp]: "u16_to_be_bytes v = u16_to_be_bytes w \<longleftrightarrow> v = w"
  by (metis u16_be_roundtrip option.inject)

lemma u64_be_inject [simp]: "u64_to_be_bytes v = u64_to_be_bytes w \<longleftrightarrow> v = w"
  by (metis u64_be_roundtrip option.inject)

lemma u64_be_less_iff [simp]: "u64_to_be_bytes v < u64_to_be_bytes w \<longleftrightarrow> v < w"
  using unat_u64_bound [of v] unat_u64_bound [of w]
  by (simp add: u64_to_be_bytes_def be_nat_less_iff word_less_nat_alt)

lemma u64_be_le_iff [simp]: "u64_to_be_bytes v \<le> u64_to_be_bytes w \<longleftrightarrow> v \<le> w"
  by (simp add: linorder_not_less [symmetric])

lemma u16_be_less_iff [simp]: "u16_to_be_bytes v < u16_to_be_bytes w \<longleftrightarrow> v < w"
  using unat_u16_bound [of v] unat_u16_bound [of w]
  by (simp add: u16_to_be_bytes_def be_nat_less_iff word_less_nat_alt)

lemma u64_of_append: "length bs = 8 \<Longrightarrow> take 8 (bs @ cs) = bs" "length bs = 8 \<Longrightarrow> drop 8 (bs @ cs) = cs"
  by simp_all

lemma be_append_inject [simp]:
  "u16_to_be_bytes v @ xs = u16_to_be_bytes w @ ys \<longleftrightarrow> v = w \<and> xs = ys"
  "u64_to_be_bytes a @ xs = u64_to_be_bytes b @ ys \<longleftrightarrow> a = b \<and> xs = ys"
  by simp_all

section \<open>Decimal text: printing and parsing are inverse\<close>

lemma digit_byte: "d < 10 \<Longrightarrow> is_digit (48 + of_nat d)" "d < 10 \<Longrightarrow> unat (48 + of_nat d :: u8) = 48 + d"
proof -
  assume d: "d < 10"
  have "unat (48 + of_nat d :: u8) = (48 + d) mod 256"
    by (simp add: unat_word_ariths unat_of_nat take_bit_eq_mod mod_simps)
  with d show u: "unat (48 + of_nat d :: u8) = 48 + d" by simp
  show "is_digit (48 + of_nat d)"
    using d u by (simp add: is_digit_def word_le_nat_alt)
qed

lemma digits_val_snoc [simp]: "digits_val (bs @ [b]) = digits_val bs * 10 + (unat b - 48)"
  by (simp add: digits_val_def)

lemma digits_val_single [simp]: "digits_val [b] = unat b - 48"
  by (simp add: digits_val_def)

lemma nat_digits_props:
  "digits_val (nat_digits n) = n" "list_all is_digit (nat_digits n)" "nat_digits n \<noteq> []"
proof (induction n rule: nat_digits.induct)
  case (1 n)
  {
    case 1
    show ?case
      using "1.IH" digit_byte(2) [of n] digit_byte(2) [of "n mod 10"]
      by (simp add: nat_digits.simps [of n])
  next
    case 2
    show ?case
      using "1.IH" digit_byte(1) [of n] digit_byte(1) [of "n mod 10"]
      by (simp add: nat_digits.simps [of n])
  next
    case 3
    show ?case by (simp add: nat_digits.simps [of n])
  }
qed

lemma parse_i64_digits:
  assumes "list_all is_digit bs" and "bs \<noteq> []"
  shows "parse_i64 bs = i64_of_int (int (digits_val bs))"
  using assms by (cases bs) (auto simp: parse_i64_def is_digit_def)

lemma parse_i64_to_string [simp]: "parse_i64 (i64_to_string w) = Some w"
proof -
  have bounds: "- (2 ^ 63) \<le> sint w" "sint w < 2 ^ 63"
    using sint_greater_eq [of w] sint_less [of w] by simp_all
  show ?thesis
  proof (cases "sint w < 0")
    case True
    with bounds show ?thesis
      by (simp add: i64_to_string_def parse_i64_def nat_digits_props i64_of_int_def)
  next
    case False
    with bounds show ?thesis
      by (simp add: i64_to_string_def parse_i64_digits nat_digits_props i64_of_int_def)
  qed
qed

section \<open>UTF-8\<close>

lemma utf8_lossy_valid: "utf8_valid bs \<Longrightarrow> utf8_lossy bs = bs"
proof (induction bs rule: utf8_lossy.induct)
  case (1 bs)
  show ?case
  proof (cases "bs = []")
    case True
    then show ?thesis by (simp add: utf8_lossy.simps)
  next
    case False
    with 1 show ?thesis
      by (cases "utf8_step bs") (simp_all add: utf8_valid.simps [of bs] utf8_lossy.simps [of bs])
  qed
qed

lemma utf8_valid_ascii: "list_all (\<lambda>b. b < 128) bs \<Longrightarrow> utf8_valid bs"
proof (induction bs)
  case Nil
  show ?case by (simp add: utf8_valid.simps)
next
  case (Cons b bs)
  then show ?case
    by (simp add: utf8_valid.simps [of "b # bs"] utf8_step_def byte_at_def)
qed

section \<open>Scans\<close>

lemma set_range_keys [simp]: "finite (dom m) \<Longrightarrow> set (range_keys m rg) = {k \<in> dom m. in_range rg k}"
  by (simp add: range_keys_def)

lemma range_keys_sorted [simp]: "sorted (range_keys m rg)" "distinct (range_keys m rg)"
  by (simp_all add: range_keys_def)

text \<open>The keys of a range, when they are the images of a strictly increasing list.\<close>

lemma range_keys_eqI:
  assumes "sorted ks" and "distinct ks" and "set ks = {k \<in> dom m. in_range rg k}"
  shows "range_keys m rg = ks"
  using assms by (metis range_keys_def sorted_list_of_set.idem_if_sorted_distinct)

lemma length_scan_store: "length (scan_store m r rg n) \<le> n"
  by (simp add: scan_store_def)

lemma set_scan_store:
  "set (scan_store m r rg n) \<subseteq> (\<lambda>k. (k, the (m k))) ` set (range_keys m rg)"
  using set_take_subset [of n "range_keys m rg"] set_take_subset [of n "rev (range_keys m rg)"]
  by (simp add: scan_store_def image_mono)

lemma scan_store_mem:
  assumes "finite (dom m)" and "(k, v) \<in> set (scan_store m r rg n)"
  shows "m k = Some v" and "in_range rg k"
  using set_scan_store [of m r rg n] assms by auto

lemma scan_store_all:
  assumes "finite (dom m)" and "card {k \<in> dom m. in_range rg k} \<le> n"
  shows "scan_store m r rg n =
    map (\<lambda>k. (k, the (m k))) (if r then rev (range_keys m rg) else range_keys m rg)"
proof -
  have "length (range_keys m rg) \<le> n"
    using assms by (simp add: range_keys_def)
  then show ?thesis by (simp add: scan_store_def)
qed

section \<open>Signed readings of 64-bit words\<close>

lemma unat_u64_less: "unat w < 2 ^ 64" for w :: u64
  using unsigned_less [where ?w = w and ?'a = nat] by simp

lemma bit_63_iff: "bit w 63 \<longleftrightarrow> 2 ^ 63 \<le> unat w" for w :: u64
proof -
  have "take_bit (Suc 63) (uint w) = 2 ^ 63 * of_bool (bit (uint w) 63) + take_bit 63 (uint w)"
    by (rule take_bit_Suc_from_most)
  moreover have "take_bit (Suc 63) (uint w) = uint w"
    by (simp add: take_bit_int_eq_self_iff) (use uint_bounded [of w] in simp)
  ultimately have w: "uint w = 2 ^ 63 * of_bool (bit w 63) + take_bit 63 (uint w)"
    by (simp add: bit_uint_iff)
  have t: "0 \<le> take_bit 63 (uint w)" "take_bit 63 (uint w) < 2 ^ 63"
    by (simp_all only: take_bit_nonnegative take_bit_int_less_exp)
  have "bit w 63 \<longleftrightarrow> 2 ^ 63 \<le> uint w"
  proof (cases "bit w 63")
    case True
    then have "uint w = 2 ^ 63 + take_bit 63 (uint w)" using w by simp
    then show ?thesis using True t by linarith
  next
    case False
    then have "uint w = take_bit 63 (uint w)" using w by simp
    then show ?thesis using False t by linarith
  qed
  also have "\<dots> \<longleftrightarrow> 2 ^ 63 \<le> unat w"
    using of_nat_le_iff [of "2 ^ 63" "unat w", where ?'a = int] by simp
  finally show ?thesis .
qed

lemma sint_unat: "sint w = (if unat w < 2 ^ 63 then int (unat w) else int (unat w) - 2 ^ 64)" for w :: u64
proof -
  have "sint w = signed_take_bit 63 (uint w)"
    by (simp add: sint_uint)
  also have "\<dots> = take_bit (Suc 63) (uint w) - 2 ^ Suc 63 * of_bool (bit (uint w) 63)"
    by (rule signed_take_bit_eq_take_bit_minus)
  also have "take_bit (Suc 63) (uint w) = uint w"
    by (simp add: take_bit_int_eq_self_iff) (use uint_bounded [of w] in simp)
  also have "bit (uint w) 63 \<longleftrightarrow> \<not> unat w < 2 ^ 63"
    using bit_63_iff [of w] by (simp add: bit_uint_iff not_less)
  finally show ?thesis by simp
qed

lemma unat_add_u64: "unat (a + b) = (unat a + unat b) mod 2 ^ 64" for a b :: u64
  by (simp add: unat_word_ariths)

lemma unat_sub_u64: "unat (a - b) = (2 ^ 64 + unat a - unat b) mod 2 ^ 64" for a b :: u64
proof -
  have "unat (a - b) = nat (uint (a - b))" by simp
  also have "uint (a - b) = (uint a - uint b) mod 2 ^ 64" by (simp add: uint_word_ariths)
  also have "\<dots> = int ((2 ^ 64 + unat a - unat b) mod 2 ^ 64)"
  proof -
    have "unat b \<le> 2 ^ 64 + unat a" using unat_u64_less [of b] by simp
    then have "int (2 ^ 64 + unat a - unat b) = uint a - uint b + 2 ^ 64"
      by (simp add: of_nat_diff)
    then show ?thesis by (simp add: zmod_int)
  qed
  finally show ?thesis by simp
qed

lemma unat_add_cases:
  "unat (a + b) = (if unat a + unat b < 2 ^ 64 then unat a + unat b else unat a + unat b - 2 ^ 64)" for a b :: u64
proof (cases "unat a + unat b < 2 ^ 64")
  case False
  then have "unat a + unat b - 2 ^ 64 < 2 ^ 64" using unat_u64_less [of a] unat_u64_less [of b] by linarith
  then have "(unat a + unat b) mod 2 ^ 64 = unat a + unat b - 2 ^ 64"
    using False by (metis le_mod_geq mod_less not_less)
  then show ?thesis using False unfolding unat_add_u64 by simp
qed (simp add: unat_add_u64)

lemma unat_sub_cases:
  "unat (a - b) = (if unat b \<le> unat a then unat a - unat b else 2 ^ 64 + unat a - unat b)" for a b :: u64
proof (cases "unat b \<le> unat a")
  case True
  then show ?thesis by (simp add: unat_sub word_le_nat_alt)
next
  case False
  then have "2 ^ 64 + unat a - unat b < 2 ^ 64" using unat_u64_less [of b] by linarith
  then show ?thesis using False unfolding unat_sub_u64 by simp
qed

lemma sint_ge: "- (2 ^ 63) \<le> sint w" for w :: u64
  using unat_u64_less [of w] unfolding sint_unat
  by (auto simp del: of_nat_unat split: if_splits)

lemma sint_less: "sint w < 2 ^ 63" for w :: u64
  using unat_u64_less [of w] unfolding sint_unat
  by (auto simp del: of_nat_unat split: if_splits)

lemma unat_of_sint: "0 \<le> sint w \<Longrightarrow> int (unat w) = sint w" for w :: u64
  using unat_u64_less [of w] unfolding sint_unat
  by (auto simp del: of_nat_unat split: if_splits)

lemma unat_less_iff_sint: "n \<le> 2 ^ 63 \<Longrightarrow> unat w < n \<longleftrightarrow> 0 \<le> sint w \<and> sint w < int n" for w :: u64
  using unat_u64_less [of w] unfolding sint_unat
  by (auto simp del: of_nat_unat split: if_splits)

lemma sint_of_nat_small: "n < 2 ^ 63 \<Longrightarrow> sint (of_nat n :: u64) = int n"
  using unat_of_nat_u64 [of n] unfolding sint_unat by simp

text \<open>Signed additions and subtractions that stay in range.\<close>

lemma sint_add_small:
  fixes a b :: u64
  assumes "- (2 ^ 63) \<le> sint a + sint b" "sint a + sint b < 2 ^ 63"
  shows "sint (a + b) = sint a + sint b"
  using assms unat_u64_less [of a] unat_u64_less [of b] unfolding sint_unat unat_add_cases
  by (auto simp del: of_nat_unat split: if_splits)

lemma sint_sub_small:
  fixes a b :: u64
  assumes "- (2 ^ 63) \<le> sint a - sint b" "sint a - sint b < 2 ^ 63"
  shows "sint (a - b) = sint a - sint b"
  using assms unat_u64_less [of a] unat_u64_less [of b] unfolding sint_unat unat_sub_cases
  by (auto simp del: of_nat_unat split: if_splits)

lemma unat_minus_of_nat: "n \<le> unat l \<Longrightarrow> unat (l - of_nat n) = unat l - n" for l :: u64
proof -
  assume n: "n \<le> unat l"
  then have "n < 2 ^ 64" using unat_u64_bound [of l] by simp
  then have "of_nat n \<le> l" using n by (simp add: word_le_nat_alt unat_of_nat_u64)
  then show ?thesis using \<open>n < 2 ^ 64\<close> by (simp add: unat_sub unat_of_nat_u64)
qed

lemma sint_add_wrap:
  fixes a b :: u64
  assumes "2 ^ 63 \<le> sint a + sint b"
  shows "sint (a + b) = sint a + sint b - 2 ^ 64"
  using assms unat_u64_less [of a] unat_u64_less [of b] unfolding sint_unat unat_add_cases
  by (auto simp del: of_nat_unat split: if_splits)

lemma sint_add_len:
  assumes "unat l + n < 2 ^ 63"
  shows "sint (l + of_nat n :: u64) = int (unat l) + int n" "sint l = int (unat l)"
    "unat (l + of_nat n :: u64) = unat l + n"
proof -
  have n: "unat (of_nat n :: u64) = n" using assms by (intro unat_of_nat_u64) simp
  then show u: "unat (l + of_nat n :: u64) = unat l + n" using assms by (simp add: unat_add_cases)
  then show "sint (l + of_nat n :: u64) = int (unat l) + int n" using assms by (simp add: sint_unat del: of_nat_unat)
  show "sint l = int (unat l)" using assms by (simp add: sint_unat del: of_nat_unat)
qed

lemma of_nat_u64_eq: "j < 2 ^ 64 \<Longrightarrow> k < 2 ^ 64 \<Longrightarrow> (of_nat j :: u64) = of_nat k \<longleftrightarrow> j = k"
  by (metis unat_of_nat_u64)

lemma find_map_option: "find P (map f xs) = map_option f (find (\<lambda>x. P (f x)) xs)"
  by (induction xs) auto

lemma sorted_list_of_set_split:
  assumes "finite S" "S = A \<union> B" "\<And>a b. a \<in> A \<Longrightarrow> b \<in> B \<Longrightarrow> a < b"
  shows "sorted_list_of_set S = sorted_list_of_set A @ sorted_list_of_set (B :: 'a::linorder set)"
proof -
  have fin: "finite A" "finite B" using assms by auto
  have "sorted (sorted_list_of_set A @ sorted_list_of_set B)"
    using fin assms(3) by (force simp: sorted_append intro: less_imp_le)
  moreover have "distinct (sorted_list_of_set A @ sorted_list_of_set B)"
    using fin assms(3) by (force simp: disjoint_iff)
  moreover have "set (sorted_list_of_set A @ sorted_list_of_set B) = S" using fin assms(2) by simp
  ultimately show ?thesis by (metis sorted_list_of_set.idem_if_sorted_distinct)
qed

lemma prefix_between:
  "p @ x \<le> y \<Longrightarrow> y \<le> p @ z \<Longrightarrow> \<exists>r. y = p @ r" for x y z :: bytes
proof (induction p arbitrary: y)
  case (Cons a p)
  then show ?case by (cases y) auto
qed simp

lemma ascii_digits: "list_all (\<lambda>b. b < 128) (nat_digits n)"
proof -
  have "b < 128" if "is_digit b" for b :: u8
    using that unfolding is_digit_def by (auto intro: le_less_trans)
  then show ?thesis using nat_digits_props [of n] by (auto simp: list_all_iff)
qed

lemma i64_to_string_valid: "utf8_valid (i64_to_string x)"
  by (rule utf8_valid_ascii) (use ascii_digits in \<open>auto simp: i64_to_string_def\<close>)

lemma utf8_lossy_i64_to_string [simp]: "utf8_lossy (i64_to_string x) = i64_to_string x"
  by (rule utf8_lossy_valid) (rule i64_to_string_valid)

lemma utf8_lossy_ascii: "list_all (\<lambda>b. b < 128) s \<Longrightarrow> utf8_lossy s = s"
  by (simp add: utf8_lossy_valid utf8_valid_ascii)

lemma those_map_Some [simp]: "those (map (\<lambda>x. Some (f x)) xs) = Some (map f xs)"
  by (induction xs) auto

end
