(* ===== verification/Encoding.thy ===== *)
theory Encoding
  imports Prelude
begin

text \<open>
  The key layout of the store, \<^verbatim>\<open>src/tikv/encoding\<close>: the encoder (\<^verbatim>\<open>encode.rs\<close>), the decoder
  (\<^verbatim>\<open>decode.rs\<close>) and the data types (\<^verbatim>\<open>mod.rs\<close>). A method of \<^verbatim>\<open>KeyEncoder\<close> is a function of the
  encoder record; a method of \<^verbatim>\<open>KeyDecoder\<close> returns \<open>None\<close> where the code panics (a slice out of
  range, a failed \<^verbatim>\<open>unwrap\<close>, \<^verbatim>\<open>panic!\<close>). The lemmas show that decoding inverts encoding, that user
  keys are encoded prefix-free and in order, and that the keys of different kinds, user keys and
  versions never meet.
\<close>

section \<open>Data types and constants\<close>

datatype DataType = DT_String | DT_Hash | DT_List | DT_Set | DT_Zset | DT_Null

fun datatype_to_string :: "DataType \<Rightarrow> bytes" where
  "datatype_to_string DT_String = ascii ''string''"
| "datatype_to_string DT_Hash = ascii ''hash''"
| "datatype_to_string DT_List = ascii ''list''"
| "datatype_to_string DT_Set = ascii ''set''"
| "datatype_to_string DT_Zset = ascii ''zset''"
| "datatype_to_string DT_Null = ascii ''none''"

definition SIGN_MASK :: u64 where "SIGN_MASK = 0x8000000000000000"
definition ENC_GROUP_SIZE :: nat where "ENC_GROUP_SIZE = 8"
definition ENC_MARKER :: u8 where "ENC_MARKER = 255"
definition ENC_ASC_PADDING :: bytes where "ENC_ASC_PADDING = replicate 8 0"

definition RAW_KEY_PREFIX :: u8 where "RAW_KEY_PREFIX = 114"
definition TXN_KEY_PREFIX :: u8 where "TXN_KEY_PREFIX = 120"
definition DATA_TYPE_USER :: u8 where "DATA_TYPE_USER = 117"
definition DATA_TYPE_USER_END :: u8 where "DATA_TYPE_USER_END = 118"
definition DATA_TYPE_TOPO :: u8 where "DATA_TYPE_TOPO = 116"
definition DATA_TYPE_GC :: u8 where "DATA_TYPE_GC = 103"
definition DATA_TYPE_GC_VERSION :: u8 where "DATA_TYPE_GC_VERSION = 118"
definition DATA_TYPE_META :: u8 where "DATA_TYPE_META = 109"
definition DATA_TYPE_SCORE :: u8 where "DATA_TYPE_SCORE = 83"
definition DATA_TYPE_HASH :: u8 where "DATA_TYPE_HASH = 104"
definition DATA_TYPE_LIST :: u8 where "DATA_TYPE_LIST = 108"
definition DATA_TYPE_SET :: u8 where "DATA_TYPE_SET = 115"
definition DATA_TYPE_ZSET :: u8 where "DATA_TYPE_ZSET = 122"
definition PLACE_HOLDER :: u8 where "PLACE_HOLDER = 96"

lemmas layout_defs =
  SIGN_MASK_def ENC_GROUP_SIZE_def ENC_MARKER_def ENC_ASC_PADDING_def RAW_KEY_PREFIX_def
  TXN_KEY_PREFIX_def DATA_TYPE_USER_def DATA_TYPE_USER_END_def DATA_TYPE_TOPO_def DATA_TYPE_GC_def
  DATA_TYPE_GC_VERSION_def DATA_TYPE_META_def DATA_TYPE_SCORE_def DATA_TYPE_HASH_def
  DATA_TYPE_LIST_def DATA_TYPE_SET_def DATA_TYPE_ZSET_def PLACE_HOLDER_def

text \<open>The two bytes of \<^verbatim>\<open>instance_id\<close> are a pair, so that the record has exactly two.\<close>

record KeyEncoder =
  instance_id :: "u8 \<times> u8"
  meta_key_number :: u16

text \<open>\<^verbatim>\<open>u16::try_from(get_instance_id()).unwrap()\<close> panics on an id above 65535.\<close>

definition KeyEncoder_new :: "u64 \<Rightarrow> u16 \<Rightarrow> KeyEncoder option" where
  "KeyEncoder_new inst n =
     (if unat inst < 2 ^ 16
      then Some \<lparr>instance_id = (u16_to_be_bytes (ucast inst) ! 0, u16_to_be_bytes (ucast inst) ! 1),
                 meta_key_number = n\<rparr>
      else None)"

definition instance_id_slice :: "KeyEncoder \<Rightarrow> bytes" where
  "instance_id_slice enc = [fst (instance_id enc), snd (instance_id enc)]"

section \<open>The encoder\<close>

text \<open>The loop of \<^verbatim>\<open>encode_bytes\<close>, with its index and its output: groups of eight bytes, each
  followed by a marker that says how many of them are padding.\<close>

function encode_bytes_loop :: "bytes \<Rightarrow> nat \<Rightarrow> bytes \<Rightarrow> bytes" where
  "encode_bytes_loop key index enc =
     (if index \<le> length key then
        let remain = length key - index;
            pad = (if remain > ENC_GROUP_SIZE then 0 else ENC_GROUP_SIZE - remain);
            group = (if remain > ENC_GROUP_SIZE then take ENC_GROUP_SIZE (drop index key)
                     else drop index key @ take pad ENC_ASC_PADDING)
        in encode_bytes_loop key (index + ENC_GROUP_SIZE) (enc @ group @ [ENC_MARKER - of_nat pad])
      else enc)"
  by pat_completeness auto
termination
  by (relation "measure (\<lambda>(key, index, enc). Suc (length key) - index)")
    (auto simp: ENC_GROUP_SIZE_def)

declare encode_bytes_loop.simps [simp del]

definition encode_bytes :: "bytes \<Rightarrow> bytes" where
  "encode_bytes key = encode_bytes_loop key 0 []"

fun get_type_bytes :: "DataType \<Rightarrow> u8" where
  "get_type_bytes DT_String = 0"
| "get_type_bytes DT_Hash = 1"
| "get_type_bytes DT_List = 2"
| "get_type_bytes DT_Set = 3"
| "get_type_bytes DT_Zset = 4"
| "get_type_bytes DT_Null = 5"

definition encode_txnkv_cluster_topo :: "KeyEncoder \<Rightarrow> bytes \<Rightarrow> bytes" where
  "encode_txnkv_cluster_topo enc addr = [TXN_KEY_PREFIX] @ instance_id_slice enc @ [DATA_TYPE_TOPO] @ addr"

definition encode_txnkv_cluster_topo_value :: "u64 \<Rightarrow> bytes" where
  "encode_txnkv_cluster_topo_value ttl = u64_to_be_bytes ttl"

definition encode_txnkv_cluster_topo_start :: "KeyEncoder \<Rightarrow> bytes" where
  "encode_txnkv_cluster_topo_start enc = [TXN_KEY_PREFIX] @ instance_id_slice enc @ [DATA_TYPE_TOPO]"

definition encode_txnkv_cluster_topo_end :: "KeyEncoder \<Rightarrow> bytes" where
  "encode_txnkv_cluster_topo_end enc =
     [TXN_KEY_PREFIX] @ instance_id_slice enc @ [DATA_TYPE_TOPO] @ [PLACE_HOLDER]"

definition encode_rawkv_string :: "KeyEncoder \<Rightarrow> bytes \<Rightarrow> bytes" where
  "encode_rawkv_string enc ukey = [RAW_KEY_PREFIX] @ instance_id_slice enc @ [DATA_TYPE_META] @ ukey"

definition encode_txnkv_string :: "KeyEncoder \<Rightarrow> bytes \<Rightarrow> bytes" where
  "encode_txnkv_string enc ukey =
     [TXN_KEY_PREFIX] @ instance_id_slice enc @ [DATA_TYPE_USER] @ encode_bytes ukey @ [DATA_TYPE_META]"

definition encode_txnkv_string_internal :: "u64 \<Rightarrow> u16 \<Rightarrow> bytes" where
  "encode_txnkv_string_internal ttl version =
     [get_type_bytes DT_String] @ u64_to_be_bytes ttl @ u16_to_be_bytes version"

definition encode_txnkv_string_slice :: "bytes \<Rightarrow> u64 \<Rightarrow> bytes" where
  "encode_txnkv_string_slice value ttl = encode_txnkv_string_internal ttl 0 @ value"

definition encode_txnkv_string_value :: "bytes \<Rightarrow> u64 \<Rightarrow> bytes" where
  "encode_txnkv_string_value value ttl = encode_txnkv_string_internal ttl 0 @ value"

definition encode_rawkv_strings :: "KeyEncoder \<Rightarrow> bytes list \<Rightarrow> bytes list" where
  "encode_rawkv_strings enc keys = map (encode_rawkv_string enc) keys"

definition encode_txnkv_strings :: "KeyEncoder \<Rightarrow> bytes list \<Rightarrow> bytes list" where
  "encode_txnkv_strings enc keys = map (encode_txnkv_string enc) keys"

definition encode_txnkv_meta_common_prefix :: "KeyEncoder \<Rightarrow> bytes \<Rightarrow> bytes" where
  "encode_txnkv_meta_common_prefix enc enc_ukey =
     [TXN_KEY_PREFIX] @ instance_id_slice enc @ [DATA_TYPE_USER] @ enc_ukey @ [DATA_TYPE_META]"

definition encode_txnkv_meta_key :: "KeyEncoder \<Rightarrow> bytes \<Rightarrow> bytes" where
  "encode_txnkv_meta_key enc ukey = encode_txnkv_meta_common_prefix enc (encode_bytes ukey)"

definition encode_txnkv_keyspace_end :: "KeyEncoder \<Rightarrow> bytes" where
  "encode_txnkv_keyspace_end enc = [TXN_KEY_PREFIX] @ instance_id_slice enc @ [DATA_TYPE_USER_END]"

definition encode_txnkv_sub_meta_key :: "KeyEncoder \<Rightarrow> bytes \<Rightarrow> u16 \<Rightarrow> u16 \<Rightarrow> bytes" where
  "encode_txnkv_sub_meta_key enc ukey version idx =
     encode_txnkv_meta_common_prefix enc (encode_bytes ukey) @ u16_to_be_bytes version @
     [PLACE_HOLDER] @ u16_to_be_bytes idx"

definition encode_txnkv_sub_meta_key_start :: "KeyEncoder \<Rightarrow> bytes \<Rightarrow> u16 \<Rightarrow> bytes" where
  "encode_txnkv_sub_meta_key_start enc ukey version =
     encode_txnkv_meta_common_prefix enc (encode_bytes ukey) @ u16_to_be_bytes version @ [PLACE_HOLDER]"

definition encode_txnkv_sub_meta_key_end :: "KeyEncoder \<Rightarrow> bytes \<Rightarrow> u16 \<Rightarrow> bytes" where
  "encode_txnkv_sub_meta_key_end enc ukey version =
     encode_txnkv_meta_common_prefix enc (encode_bytes ukey) @ u16_to_be_bytes version @ [PLACE_HOLDER + 1]"

definition encode_txnkv_sub_meta_key_range :: "KeyEncoder \<Rightarrow> bytes \<Rightarrow> u16 \<Rightarrow> bound_range" where
  "encode_txnkv_sub_meta_key_range enc key version =
     Range (encode_txnkv_sub_meta_key_start enc key version) (encode_txnkv_sub_meta_key_end enc key version)"

definition encode_txnkv_type_data_key_prefix :: "KeyEncoder \<Rightarrow> u8 \<Rightarrow> bytes \<Rightarrow> u16 \<Rightarrow> bytes" where
  "encode_txnkv_type_data_key_prefix enc key_type enc_ukey version =
     [TXN_KEY_PREFIX] @ instance_id_slice enc @ [DATA_TYPE_USER] @ enc_ukey @ [key_type] @
     u16_to_be_bytes version"

definition encode_txnkv_hash_data_key :: "KeyEncoder \<Rightarrow> bytes \<Rightarrow> bytes \<Rightarrow> u16 \<Rightarrow> bytes" where
  "encode_txnkv_hash_data_key enc ukey field version =
     encode_txnkv_type_data_key_prefix enc DATA_TYPE_HASH (encode_bytes ukey) version @ [PLACE_HOLDER] @ field"

definition encode_txnkv_hash_data_key_start :: "KeyEncoder \<Rightarrow> bytes \<Rightarrow> u16 \<Rightarrow> bytes" where
  "encode_txnkv_hash_data_key_start enc ukey version =
     encode_txnkv_type_data_key_prefix enc DATA_TYPE_HASH (encode_bytes ukey) version @ [PLACE_HOLDER]"

definition encode_txnkv_hash_data_key_end :: "KeyEncoder \<Rightarrow> bytes \<Rightarrow> u16 \<Rightarrow> bytes" where
  "encode_txnkv_hash_data_key_end enc ukey version =
     encode_txnkv_type_data_key_prefix enc DATA_TYPE_HASH (encode_bytes ukey) version @ [PLACE_HOLDER + 1]"

definition encode_txnkv_hash_data_key_range :: "KeyEncoder \<Rightarrow> bytes \<Rightarrow> u16 \<Rightarrow> bound_range" where
  "encode_txnkv_hash_data_key_range enc key version =
     Range (encode_txnkv_hash_data_key_start enc key version) (encode_txnkv_hash_data_key_end enc key version)"

definition encode_txnkv_hash_meta_value :: "KeyEncoder \<Rightarrow> u64 \<Rightarrow> u16 \<Rightarrow> u16 \<Rightarrow> bytes" where
  "encode_txnkv_hash_meta_value enc ttl version index_size =
     [get_type_bytes DT_Hash] @ u64_to_be_bytes ttl @ u16_to_be_bytes version @
     (if index_size = 0 then u16_to_be_bytes (meta_key_number enc) else u16_to_be_bytes index_size)"

definition encode_txnkv_list_data_key :: "KeyEncoder \<Rightarrow> bytes \<Rightarrow> u64 \<Rightarrow> u16 \<Rightarrow> bytes" where
  "encode_txnkv_list_data_key enc ukey idx version =
     encode_txnkv_type_data_key_prefix enc DATA_TYPE_LIST (encode_bytes ukey) version @ [PLACE_HOLDER] @
     u64_to_be_bytes idx"

definition encode_txnkv_list_data_key_idx_range ::
  "KeyEncoder \<Rightarrow> bytes \<Rightarrow> u64 \<Rightarrow> u64 \<Rightarrow> u16 \<Rightarrow> bound_range" where
  "encode_txnkv_list_data_key_idx_range enc key start end version =
     RangeInclusive (encode_txnkv_list_data_key enc key start version)
       (encode_txnkv_list_data_key enc key end version)"

definition encode_txnkv_list_data_key_start :: "KeyEncoder \<Rightarrow> bytes \<Rightarrow> u16 \<Rightarrow> bytes" where
  "encode_txnkv_list_data_key_start enc ukey version =
     encode_txnkv_type_data_key_prefix enc DATA_TYPE_LIST (encode_bytes ukey) version @ [PLACE_HOLDER]"

definition encode_txnkv_list_data_key_end :: "KeyEncoder \<Rightarrow> bytes \<Rightarrow> u16 \<Rightarrow> bytes" where
  "encode_txnkv_list_data_key_end enc ukey version =
     encode_txnkv_type_data_key_prefix enc DATA_TYPE_LIST (encode_bytes ukey) version @ [PLACE_HOLDER + 1]"

definition encode_txnkv_list_data_key_range :: "KeyEncoder \<Rightarrow> bytes \<Rightarrow> u16 \<Rightarrow> bound_range" where
  "encode_txnkv_list_data_key_range enc key version =
     Range (encode_txnkv_list_data_key_start enc key version) (encode_txnkv_list_data_key_end enc key version)"

definition encode_txnkv_list_meta_value :: "u64 \<Rightarrow> u16 \<Rightarrow> u64 \<Rightarrow> u64 \<Rightarrow> bytes" where
  "encode_txnkv_list_meta_value ttl version left right =
     [get_type_bytes DT_List] @ u64_to_be_bytes ttl @ u16_to_be_bytes version @ u64_to_be_bytes left @
     u64_to_be_bytes right"

definition encode_txnkv_set_meta_value :: "KeyEncoder \<Rightarrow> u64 \<Rightarrow> u16 \<Rightarrow> u16 \<Rightarrow> bytes" where
  "encode_txnkv_set_meta_value enc ttl version index_size =
     [get_type_bytes DT_Set] @ u64_to_be_bytes ttl @ u16_to_be_bytes version @
     (if index_size = 0 then u16_to_be_bytes (meta_key_number enc) else u16_to_be_bytes index_size)"

definition encode_txnkv_set_data_key :: "KeyEncoder \<Rightarrow> bytes \<Rightarrow> bytes \<Rightarrow> u16 \<Rightarrow> bytes" where
  "encode_txnkv_set_data_key enc ukey member version =
     encode_txnkv_type_data_key_prefix enc DATA_TYPE_SET (encode_bytes ukey) version @ [PLACE_HOLDER] @ member"

definition encode_txnkv_set_data_key_start :: "KeyEncoder \<Rightarrow> bytes \<Rightarrow> u16 \<Rightarrow> bytes" where
  "encode_txnkv_set_data_key_start enc ukey version =
     encode_txnkv_type_data_key_prefix enc DATA_TYPE_SET (encode_bytes ukey) version @ [PLACE_HOLDER]"

definition encode_txnkv_set_data_key_end :: "KeyEncoder \<Rightarrow> bytes \<Rightarrow> u16 \<Rightarrow> bytes" where
  "encode_txnkv_set_data_key_end enc ukey version =
     encode_txnkv_type_data_key_prefix enc DATA_TYPE_SET (encode_bytes ukey) version @ [PLACE_HOLDER + 1]"

definition encode_txnkv_set_data_key_range :: "KeyEncoder \<Rightarrow> bytes \<Rightarrow> u16 \<Rightarrow> bound_range" where
  "encode_txnkv_set_data_key_range enc key version =
     Range (encode_txnkv_set_data_key_start enc key version) (encode_txnkv_set_data_key_end enc key version)"

definition encode_txnkv_zset_meta_value :: "KeyEncoder \<Rightarrow> u64 \<Rightarrow> u16 \<Rightarrow> u16 \<Rightarrow> bytes" where
  "encode_txnkv_zset_meta_value enc ttl version index_size =
     [get_type_bytes DT_Zset] @ u64_to_be_bytes ttl @ u16_to_be_bytes version @
     (if index_size = 0 then u16_to_be_bytes (meta_key_number enc) else u16_to_be_bytes index_size)"

definition encode_txnkv_zset_data_key :: "KeyEncoder \<Rightarrow> bytes \<Rightarrow> bytes \<Rightarrow> u16 \<Rightarrow> bytes" where
  "encode_txnkv_zset_data_key enc ukey member version =
     encode_txnkv_type_data_key_prefix enc DATA_TYPE_ZSET (encode_bytes ukey) version @ [PLACE_HOLDER] @ member"

definition encode_txnkv_zset_data_key_start :: "KeyEncoder \<Rightarrow> bytes \<Rightarrow> u16 \<Rightarrow> bytes" where
  "encode_txnkv_zset_data_key_start enc ukey version =
     encode_txnkv_type_data_key_prefix enc DATA_TYPE_ZSET (encode_bytes ukey) version @ [PLACE_HOLDER]"

definition encode_txnkv_zset_data_key_end :: "KeyEncoder \<Rightarrow> bytes \<Rightarrow> u16 \<Rightarrow> bytes" where
  "encode_txnkv_zset_data_key_end enc ukey version =
     encode_txnkv_type_data_key_prefix enc DATA_TYPE_ZSET (encode_bytes ukey) version @ [PLACE_HOLDER + 1]"

definition encode_txnkv_zset_data_key_range :: "KeyEncoder \<Rightarrow> bytes \<Rightarrow> u16 \<Rightarrow> bound_range" where
  "encode_txnkv_zset_data_key_range enc ukey version =
     Range (encode_txnkv_zset_data_key_start enc ukey version) (encode_txnkv_zset_data_key_end enc ukey version)"

definition encode_f64_to_cmp_uint64 :: "f64 \<Rightarrow> u64" where
  "encode_f64_to_cmp_uint64 score = (if f64_le 0 score then score OR SIGN_MASK else NOT score)"

definition encode_txnkv_zset_data_value :: "f64 \<Rightarrow> bytes" where
  "encode_txnkv_zset_data_value score = u64_to_be_bytes (encode_f64_to_cmp_uint64 score)"

definition encode_txnkv_zset_score_key :: "KeyEncoder \<Rightarrow> bytes \<Rightarrow> f64 \<Rightarrow> bytes \<Rightarrow> u16 \<Rightarrow> bytes" where
  "encode_txnkv_zset_score_key enc ukey score member version =
     encode_txnkv_type_data_key_prefix enc DATA_TYPE_SCORE (encode_bytes ukey) version @ [PLACE_HOLDER] @
     u64_to_be_bytes (encode_f64_to_cmp_uint64 score) @ [PLACE_HOLDER] @ member"

definition encode_txnkv_zset_score_key_start :: "KeyEncoder \<Rightarrow> bytes \<Rightarrow> u16 \<Rightarrow> bytes" where
  "encode_txnkv_zset_score_key_start enc ukey version =
     encode_txnkv_type_data_key_prefix enc DATA_TYPE_SCORE (encode_bytes ukey) version @ [PLACE_HOLDER]"

definition encode_txnkv_zset_score_key_end :: "KeyEncoder \<Rightarrow> bytes \<Rightarrow> u16 \<Rightarrow> bytes" where
  "encode_txnkv_zset_score_key_end enc ukey version =
     encode_txnkv_type_data_key_prefix enc DATA_TYPE_SCORE (encode_bytes ukey) version @ [PLACE_HOLDER + 1]"

definition encode_txnkv_zset_score_key_range :: "KeyEncoder \<Rightarrow> bytes \<Rightarrow> u16 \<Rightarrow> bound_range" where
  "encode_txnkv_zset_score_key_range enc ukey version =
     Range (encode_txnkv_zset_score_key_start enc ukey version) (encode_txnkv_zset_score_key_end enc ukey version)"

definition encode_txnkv_zset_score_key_score_start ::
  "KeyEncoder \<Rightarrow> bytes \<Rightarrow> f64 \<Rightarrow> bool \<Rightarrow> u16 \<Rightarrow> bytes" where
  "encode_txnkv_zset_score_key_score_start enc ukey score with_frontier version =
     encode_txnkv_type_data_key_prefix enc DATA_TYPE_SCORE (encode_bytes ukey) version @ [PLACE_HOLDER] @
     u64_to_be_bytes (encode_f64_to_cmp_uint64 score + (if with_frontier then 0 else 1)) @ [PLACE_HOLDER]"

definition encode_txnkv_zset_score_key_score_end ::
  "KeyEncoder \<Rightarrow> bytes \<Rightarrow> f64 \<Rightarrow> bool \<Rightarrow> u16 \<Rightarrow> bytes" where
  "encode_txnkv_zset_score_key_score_end enc ukey score with_frontier version =
     encode_txnkv_type_data_key_prefix enc DATA_TYPE_SCORE (encode_bytes ukey) version @ [PLACE_HOLDER] @
     u64_to_be_bytes (encode_f64_to_cmp_uint64 score - (if with_frontier then 0 else 1)) @ [PLACE_HOLDER + 1]"

definition encode_txnkv_gc_key_prefix :: "KeyEncoder \<Rightarrow> bytes \<Rightarrow> u8 \<Rightarrow> bytes" where
  "encode_txnkv_gc_key_prefix enc ukey data_type =
     [TXN_KEY_PREFIX] @ instance_id_slice enc @ [data_type] @ [PLACE_HOLDER] @ encode_bytes ukey"

definition encode_txnkv_gc_key :: "KeyEncoder \<Rightarrow> bytes \<Rightarrow> bytes" where
  "encode_txnkv_gc_key enc ukey = encode_txnkv_gc_key_prefix enc ukey DATA_TYPE_GC"

definition encode_txnkv_gc_version_key :: "KeyEncoder \<Rightarrow> bytes \<Rightarrow> u16 \<Rightarrow> bytes" where
  "encode_txnkv_gc_version_key enc ukey version =
     encode_txnkv_gc_key_prefix enc ukey DATA_TYPE_GC_VERSION @ u16_to_be_bytes version"

definition encode_txnkv_gc_version_key_bound :: "KeyEncoder \<Rightarrow> bool \<Rightarrow> bytes" where
  "encode_txnkv_gc_version_key_bound enc start =
     [TXN_KEY_PREFIX] @ instance_id_slice enc @ [DATA_TYPE_GC_VERSION] @
     [if start then PLACE_HOLDER else PLACE_HOLDER + 1]"

definition encode_txnkv_gc_version_key_range :: "KeyEncoder \<Rightarrow> bound_range" where
  "encode_txnkv_gc_version_key_range enc =
     Range (encode_txnkv_gc_version_key_bound enc True) (encode_txnkv_gc_version_key_bound enc False)"

section \<open>The decoder\<close>

text \<open>The loop of \<^verbatim>\<open>decode_bytes\<close>: a chunk of nine bytes at a time. A slice past the end panics; so
  does \<^verbatim>\<open>split_at\<close> when the marker asks for more than eight bytes of padding.\<close>

function decode_bytes :: "bytes \<Rightarrow> bytes option" where
  "decode_bytes data =
     (if length data < ENC_GROUP_SIZE + 1 then None
      else
        let pad_size = unat (ENC_MARKER - data ! ENC_GROUP_SIZE) in
        if pad_size = 0 then
          map_option ((@) (take ENC_GROUP_SIZE data)) (decode_bytes (drop (ENC_GROUP_SIZE + 1) data))
        else if pad_size > ENC_GROUP_SIZE then None
        else Some (take (ENC_GROUP_SIZE - pad_size) data))"
  by pat_completeness auto
termination
  by (relation "measure length") auto

declare decode_bytes.simps [simp del]

definition decode_string :: "bytes \<Rightarrow> bytes option" where
  "decode_string key = slice_from 15 key"

definition decode_key_type :: "bytes \<Rightarrow> DataType option" where
  "decode_key_type value =
     (case value of
        [] \<Rightarrow> None
      | b # _ \<Rightarrow>
          if b = 0 then Some DT_String else if b = 1 then Some DT_Hash else if b = 2 then Some DT_List
          else if b = 3 then Some DT_Set else if b = 4 then Some DT_Zset else None)"

definition decode_key_ttl :: "bytes \<Rightarrow> u64 option" where
  "decode_key_ttl value = Option.bind (slice 1 9 value) u64_from_be_bytes"

definition decode_topo_key_addr :: "bytes \<Rightarrow> bytes option" where
  "decode_topo_key_addr value = slice_from 4 value"

definition decode_topo_value :: "bytes \<Rightarrow> u64 option" where
  "decode_topo_value value = u64_from_be_bytes value"

definition decode_key_string_value :: "bytes \<Rightarrow> bytes option" where
  "decode_key_string_value value = slice_from 11 value"

definition decode_key_string_slice :: "bytes \<Rightarrow> bytes option" where
  "decode_key_string_slice value = slice_from 11 value"

definition decode_key_version :: "bytes \<Rightarrow> u16 option" where
  "decode_key_version value = Option.bind (slice 9 11 value) u16_from_be_bytes"

definition decode_key_index_size :: "bytes \<Rightarrow> u16 option" where
  "decode_key_index_size value = Option.bind (slice_from 11 value) u16_from_be_bytes"

definition decode_key_meta :: "bytes \<Rightarrow> (u64 \<times> u16 \<times> u16) option" where
  "decode_key_meta value =
     (case (decode_key_ttl value, decode_key_version value, decode_key_index_size value) of
        (Some ttl, Some version, Some sz) \<Rightarrow> Some (ttl, version, sz)
      | _ \<Rightarrow> None)"

definition decode_key_hash_userkey_from_datakey :: "bytes \<Rightarrow> bytes \<Rightarrow> bytes option" where
  "decode_key_hash_userkey_from_datakey ukey key = slice_from (8 + length (encode_bytes ukey)) key"

definition decode_key_list_meta :: "bytes \<Rightarrow> (u64 \<times> u16 \<times> u64 \<times> u64) option" where
  "decode_key_list_meta value =
     (case (Option.bind (slice 1 9 value) u64_from_be_bytes, Option.bind (slice 9 11 value) u16_from_be_bytes,
            Option.bind (slice 11 19 value) u64_from_be_bytes, Option.bind (slice_from 19 value) u64_from_be_bytes) of
        (Some ttl, Some version, Some left, Some right) \<Rightarrow> Some (ttl, version, left, right)
      | _ \<Rightarrow> None)"

definition decode_key_list_idx_from_datakey :: "bytes \<Rightarrow> bytes \<Rightarrow> u64 option" where
  "decode_key_list_idx_from_datakey ukey key =
     Option.bind (slice_from (8 + length (encode_bytes ukey)) key) u64_from_be_bytes"

definition decode_key_set_member_from_datakey :: "bytes \<Rightarrow> bytes \<Rightarrow> bytes option" where
  "decode_key_set_member_from_datakey ukey key = slice_from (8 + length (encode_bytes ukey)) key"

definition decode_cmp_uint64_to_f64 :: "u64 \<Rightarrow> f64" where
  "decode_cmp_uint64_to_f64 u = (if 0 < u AND SIGN_MASK then u AND NOT SIGN_MASK else NOT u)"

definition decode_key_zset_score_from_scorekey :: "bytes \<Rightarrow> bytes \<Rightarrow> f64 option" where
  "decode_key_zset_score_from_scorekey ukey key =
     (let idx = 8 + length (encode_bytes ukey) in
      map_option decode_cmp_uint64_to_f64 (Option.bind (slice idx (idx + 8) key) u64_from_be_bytes))"

definition decode_key_zset_member_from_scorekey :: "bytes \<Rightarrow> bytes \<Rightarrow> bytes option" where
  "decode_key_zset_member_from_scorekey ukey key = slice_from (17 + length (encode_bytes ukey)) key"

definition decode_key_zset_member_from_datakey :: "bytes \<Rightarrow> bytes \<Rightarrow> bytes option" where
  "decode_key_zset_member_from_datakey ukey key = slice_from (8 + length (encode_bytes ukey)) key"

definition decode_key_zset_data_value :: "bytes \<Rightarrow> f64 option" where
  "decode_key_zset_data_value value = map_option decode_cmp_uint64_to_f64 (u64_from_be_bytes value)"

text \<open>The loop of \<^verbatim>\<open>encoded_bytes_len\<close>, from the marker position \<open>idx\<close> on.\<close>

function encoded_bytes_len_loop :: "bytes \<Rightarrow> nat \<Rightarrow> nat" where
  "encoded_bytes_len_loop encoded idx =
     (if length encoded < idx + 1 then length encoded
      else if encoded ! idx \<noteq> ENC_MARKER then idx + 1
      else encoded_bytes_len_loop encoded (idx + (ENC_GROUP_SIZE + 1)))"
  by pat_completeness auto
termination
  by (relation "measure (\<lambda>(encoded, idx). Suc (length encoded) - idx)") auto

declare encoded_bytes_len_loop.simps [simp del]

definition encoded_bytes_len :: "bytes \<Rightarrow> nat" where
  "encoded_bytes_len encoded = encoded_bytes_len_loop encoded ENC_GROUP_SIZE"

definition decode_key_gc_userkey_version :: "bytes \<Rightarrow> (bytes \<times> u16) option" where
  "decode_key_gc_userkey_version key =
     (case slice_from 5 key of
        None \<Rightarrow> None
      | Some rest \<Rightarrow>
          (case decode_bytes rest of
             None \<Rightarrow> None
           | Some ukey \<Rightarrow>
               (let idx = 5 + encoded_bytes_len rest in
                case Option.bind (slice idx (idx + 2) key) u16_from_be_bytes of
                  None \<Rightarrow> None
                | Some version \<Rightarrow> Some (ukey, version))))"

definition decode_key_userkey_from_metakey :: "bytes \<Rightarrow> (bytes \<times> bool) option" where
  "decode_key_userkey_from_metakey key =
     (case slice_from 4 key of
        None \<Rightarrow> None
      | Some rest \<Rightarrow>
          (let idx = 4 + encoded_bytes_len rest in
           case decode_bytes rest of
             None \<Rightarrow> None
           | Some ukey \<Rightarrow>
               if idx < length key then Some (ukey, key ! idx = DATA_TYPE_META \<and> idx + 1 = length key)
               else None))"

lemma u8_of_nat_less: "a < b \<Longrightarrow> b < 256 \<Longrightarrow> (of_nat a :: u8) < of_nat b"
  by (simp add: word_less_nat_alt unat_of_nat)

lemma u8_of_nat_neq: "a < b \<Longrightarrow> b < 256 \<Longrightarrow> (of_nat a :: u8) \<noteq> of_nat b"
  using u8_of_nat_less [of a b] by simp

section \<open>Group encoding of user keys\<close>

text \<open>The reference definition of \<^const>\<open>encode_bytes\<close>: group by group. A group is at most eight
  bytes, zeros up to eight, and a marker that counts the bytes of the group.\<close>

definition enc_group :: "nat \<Rightarrow> nat \<Rightarrow> bytes \<Rightarrow> bytes" where
  "enc_group n c g = g @ replicate (n - length g) 0 @ [of_nat (c + length g)]"

function encode_groups :: "bytes \<Rightarrow> bytes" where
  "encode_groups k =
     enc_group 8 247 (take 8 k) @ (if length k < 8 then [] else encode_groups (drop 8 k))"
  by pat_completeness auto
termination
  by (relation "measure length") auto

declare encode_groups.simps [simp del]

lemma encode_bytes_loop_groups:
  "i \<le> length k \<Longrightarrow> encode_bytes_loop k i acc = acc @ encode_groups (drop i k)"
proof (induction k i acc rule: encode_bytes_loop.induct)
  case (1 k i acc)
  show ?case
  proof (cases "i + 8 \<le> length k")
    case True
    then have "length k - i > 8 \<or> length k - i = 8" by auto
    then show ?thesis
    proof
      assume "length k - i > 8"
      then show ?thesis using 1 True
        by (subst encode_bytes_loop.simps, subst encode_groups.simps)
          (simp add: layout_defs enc_group_def min_def Let_def add.commute)
    next
      assume "length k - i = 8"
      then show ?thesis using 1 True
        by (subst encode_bytes_loop.simps, subst encode_groups.simps)
          (simp add: layout_defs enc_group_def min_def Let_def add.commute)
    qed
  next
    case False
    have m: "(255 :: u8) - (8 - of_nat (length k - i)) = 247 + of_nat (length k - i)" by simp
    have e: "encode_bytes_loop k (i + 8) acc' = acc'" for acc'
      using False by (simp add: encode_bytes_loop.simps)
    have "length k - i < 8" using False by simp
    then show ?thesis using False 1(2) m
      by (subst encode_bytes_loop.simps, subst encode_groups.simps)
        (simp add: layout_defs enc_group_def e Let_def of_nat_diff)
  qed
qed

lemma encode_bytes_groups: "encode_bytes k = encode_groups k"
  using encode_bytes_loop_groups [of 0 k "[]"] by (simp add: encode_bytes_def)

lemma length_enc_group: "length g \<le> n \<Longrightarrow> length (enc_group n c g) = Suc n"
  by (simp add: enc_group_def)

lemma encode_bytes_step:
  "encode_bytes k =
     enc_group 8 247 (take 8 k) @ (if length k < 8 then [] else encode_bytes (drop 8 k))"
  using encode_groups.simps by (simp add: encode_bytes_groups)

lemma enc_group_parts:
  assumes "length g \<le> 8"
  shows "(enc_group 8 c g @ rest) ! 8 = of_nat (c + length g)"
    and "drop 9 (enc_group 8 c g @ rest) = rest"
    and "take (length g) (enc_group 8 c g @ rest) = g"
  using assms by (simp_all add: enc_group_def nth_append)

lemma group_pad_size: "n \<le> 8 \<Longrightarrow> unat (255 - of_nat (247 + n) :: u8) = 8 - n"
proof -
  assume "n \<le> 8"
  then have "(255 - of_nat (247 + n) :: u8) = of_nat (8 - n)" by (simp add: of_nat_diff)
  then show ?thesis by (simp add: unat_of_nat del: of_nat_add)
qed

lemma decode_bytes_group:
  assumes "length g \<le> 8"
  shows "decode_bytes (enc_group 8 247 g @ rest) =
     (if length g = 8 then map_option ((@) g) (decode_bytes rest) else Some g)"
proof -
  note parts = enc_group_parts [OF assms, of 247 rest] group_pad_size [OF assms]
  have "ENC_GROUP_SIZE - (8 - length g) = length g" using assms by (simp add: layout_defs)
  then show ?thesis using assms parts
    by (cases "length g = 8"; subst decode_bytes.simps)
      (simp_all add: layout_defs length_enc_group Let_def del: of_nat_add take_append drop_append)
qed

lemma decode_encode_bytes [simp]: "decode_bytes (encode_bytes k @ rest) = Some k"
proof (induction k rule: encode_groups.induct)
  case (1 k)
  then show ?case
    by (subst encode_bytes_step) (auto simp: decode_bytes_group min_def)
qed

lemma encode_bytes_append_eq [simp]:
  "encode_bytes a @ x = encode_bytes b @ y \<longleftrightarrow> a = b \<and> x = y"
  by (metis decode_encode_bytes option.inject same_append_eq)

lemma encode_bytes_eq [simp]: "encode_bytes a = encode_bytes b \<longleftrightarrow> a = b"
  using encode_bytes_append_eq [of a "[]" b "[]"] by simp

lemma encoded_bytes_len_loop_shift:
  "length p + 8 \<le> i \<Longrightarrow>
   encoded_bytes_len_loop (p @ s) i = length p + encoded_bytes_len_loop s (i - length p)"
proof (induction "p @ s" i rule: encoded_bytes_len_loop.induct)
  case (1 i)
  have nth: "(p @ s) ! i = s ! (i - length p)" using 1(2) by (simp add: nth_append)
  consider (short) "length s < i - length p + 1"
    | (last) "\<not> length s < i - length p + 1" "s ! (i - length p) \<noteq> ENC_MARKER"
    | (more) "\<not> length s < i - length p + 1" "s ! (i - length p) = ENC_MARKER"
    by blast
  then show ?case
  proof cases
    case short
    then have "length (p @ s) < i + 1" using 1(2) by simp
    with short show ?thesis
      using encoded_bytes_len_loop.simps [of "p @ s" i] encoded_bytes_len_loop.simps [of s "i - length p"]
      by simp
  next
    case last
    then have "\<not> length (p @ s) < i + 1" using 1(2) by simp
    with last nth 1(2) show ?thesis
      using encoded_bytes_len_loop.simps [of "p @ s" i] encoded_bytes_len_loop.simps [of s "i - length p"]
      by simp
  next
    case more
    then have "\<not> length (p @ s) < i + 1" using 1(2) by simp
    moreover have "i + 9 - length p = i - length p + 9" using 1(2) by simp
    ultimately show ?thesis
      using more nth 1 encoded_bytes_len_loop.simps [of "p @ s" i]
        encoded_bytes_len_loop.simps [of s "i - length p"]
      by (simp add: ENC_GROUP_SIZE_def)
  qed
qed

lemma encoded_bytes_len_encode [simp]:
  "encoded_bytes_len (encode_bytes k @ rest) = length (encode_bytes k)"
proof (induction k rule: encode_groups.induct)
  case (1 k)
  let ?g = "enc_group 8 247 (take 8 k)"
  have n: "(?g @ r) ! 8 = of_nat (247 + min 8 (length k))" for r
    by (simp add: enc_group_def nth_append min_def)
  have m: "length k < 8 \<Longrightarrow> (of_nat (247 + length k) :: u8) \<noteq> 255"
    using u8_of_nat_neq [of "247 + length k" 255] by simp
  show ?case
  proof (cases "length k < 8")
    case True
    then show ?thesis using n m
      by (subst (1 2) encode_bytes_step)
        (simp add: encoded_bytes_len_def layout_defs encoded_bytes_len_loop.simps length_enc_group)
  next
    case False
    then have "(?g @ r) ! 8 = 255" for r using n by (simp add: min_def)
    with False 1 encoded_bytes_len_loop_shift [of ?g 17 "encode_bytes (drop 8 k) @ rest"]
    show ?thesis
      by (subst (1 2) encode_bytes_step)
        (simp add: encoded_bytes_len_def layout_defs encoded_bytes_len_loop.simps [of _ 8] length_enc_group)
  qed
qed

text \<open>The encoding keeps the order of the user keys, and nothing appended to it can change it.\<close>

lemma zero_group_less:
  assumes "c < d" "length t \<le> n" "d + n < 256"
  shows "replicate n 0 @ [of_nat c :: u8] @ x < enc_group n d t @ y"
  using assms
proof (induction n arbitrary: t d)
  case 0
  then show ?case by (simp add: enc_group_def u8_of_nat_less)
next
  case (Suc n)
  show ?case
  proof (cases t)
    case Nil
    then show ?thesis using Suc.prems by (simp add: enc_group_def append_less_append_iff u8_of_nat_less)
  next
    case (Cons h t')
    have "replicate n 0 @ [of_nat c] @ x < enc_group n (Suc d) t' @ y"
      using Suc.prems Cons by (intro Suc.IH) auto
    then show ?thesis using Cons by (auto simp: enc_group_def word_neq_0_conv)
  qed
qed

lemma enc_group_less_iff:
  assumes "length a \<le> n" "length b \<le> n" "c + n < 256"
  shows "enc_group n c a @ x < enc_group n c b @ y \<longleftrightarrow> a < b \<or> a = b \<and> x < y"
  using assms
proof (induction n arbitrary: a b c)
  case 0
  then show ?case by (simp add: enc_group_def)
next
  case (Suc n)
  show ?case
  proof (cases a; cases b)
    fix h t assume "a = []" and b: "b = h # t"
    have "replicate n 0 @ [of_nat c] @ x < enc_group n (Suc c) t @ y"
      using Suc.prems b by (intro zero_group_less) auto
    then show ?thesis using \<open>a = []\<close> b by (auto simp: enc_group_def word_neq_0_conv)
  next
    fix h t assume "b = []" and a: "a = h # t"
    have "replicate n 0 @ [of_nat c] @ y < enc_group n (Suc c) t @ x"
      using Suc.prems a by (intro zero_group_less) auto
    then have "\<not> enc_group n (Suc c) t @ x < replicate n 0 @ [of_nat c] @ y" by simp
    then show ?thesis using \<open>b = []\<close> a by (auto simp: enc_group_def)
  next
    fix h t h' t' assume ab: "a = h # t" "b = h' # t'"
    have "enc_group n (Suc c) t @ x < enc_group n (Suc c) t' @ y \<longleftrightarrow> t < t' \<or> t = t' \<and> x < y"
      using Suc.prems ab by (intro Suc.IH) auto
    then show ?thesis using ab by (auto simp: enc_group_def)
  qed (simp add: enc_group_def)
qed

lemma less_take_drop:
  "(a :: bytes) < b \<longleftrightarrow> take n a < take n b \<or> take n a = take n b \<and> drop n a < drop n b"
proof (induction n arbitrary: a b)
  case (Suc n)
  show ?case using Suc [of "tl a" "tl b"] by (cases a; cases b) auto
qed simp

lemma eq_take_drop: "(a :: bytes) = b \<longleftrightarrow> take n a = take n b \<and> drop n a = drop n b"
  by (metis append_take_drop_id)

lemma encode_bytes_less_iff [simp]:
  "encode_bytes a @ x < encode_bytes b @ y \<longleftrightarrow> a < b \<or> a = b \<and> x < y"
proof (induction a arbitrary: b rule: encode_groups.induct)
  case (1 a)
  have g: "enc_group 8 247 (take 8 a) @ X < enc_group 8 247 (take 8 b) @ Y \<longleftrightarrow>
      take 8 a < take 8 b \<or> take 8 a = take 8 b \<and> X < Y" for X Y
    by (rule enc_group_less_iff) auto
  show ?case
  proof (cases "take 8 a = take 8 b")
    case eq: True
    then have "min (length a) 8 = min (length b) 8" by (metis length_take)
    then have l: "length a < 8 \<longleftrightarrow> length b < 8" by linarith
    have d: "a < b \<longleftrightarrow> drop 8 a < drop 8 b" "a = b \<longleftrightarrow> drop 8 a = drop 8 b"
      using eq less_take_drop [of a b 8] eq_take_drop [of a b 8] by simp_all
    show ?thesis
    proof (cases "length a < 8")
      case True
      then have "a = b" using eq l by simp
      then show ?thesis by simp
    next
      case False
      then have "encode_bytes a = enc_group 8 247 (take 8 b) @ encode_bytes (drop 8 a)"
        "encode_bytes b = enc_group 8 247 (take 8 b) @ encode_bytes (drop 8 b)"
        using encode_bytes_step [of a] encode_bytes_step [of b] eq l by simp_all
      then show ?thesis unfolding d using 1 [OF False, of "drop 8 b"] by simp
    qed
  next
    case False
    then have "a < b \<longleftrightarrow> take 8 a < take 8 b" "a \<noteq> b"
      using less_take_drop [of a b 8] by auto
    moreover have "encode_bytes a @ x < encode_bytes b @ y \<longleftrightarrow> take 8 a < take 8 b"
      using g False by (subst (1 2) encode_bytes_step) simp
    ultimately show ?thesis by blast
  qed
qed

lemma encode_bytes_le_iff [simp]:
  "encode_bytes a @ x \<le> encode_bytes b @ y \<longleftrightarrow> a < b \<or> a = b \<and> x \<le> y"
  by (auto simp: le_less)

section \<open>The shape of a key\<close>

text \<open>Every key that belongs to a user key starts with the same bytes, followed by a suffix for the kind
  of the key. Unfolding the encoders to this form decides by simplification when two keys are equal.\<close>

definition ukp :: "KeyEncoder \<Rightarrow> bytes \<Rightarrow> bytes" where
  "ukp enc ukey = [TXN_KEY_PREFIX] @ instance_id_slice enc @ [DATA_TYPE_USER] @ encode_bytes ukey"

lemma ukp_eq_iff [simp]:
  "ukp e a @ x = ukp e' b @ y \<longleftrightarrow> instance_id e = instance_id e' \<and> a = b \<and> x = y"
  by (auto simp: ukp_def instance_id_slice_def prod_eq_iff)

lemma ukp_less_iff [simp]: "ukp e a @ x < ukp e b @ y \<longleftrightarrow> a < b \<or> a = b \<and> x < y"
  by (simp add: ukp_def append_less_iff)

lemma ukp_le_iff [simp]: "ukp e a @ x \<le> ukp e b @ y \<longleftrightarrow> a < b \<or> a = b \<and> x \<le> y"
  by (auto simp: le_less)

lemma key_shapes [enc_simps]:
  "encode_txnkv_string enc k = ukp enc k @ [109]"
  "encode_txnkv_meta_key enc k = ukp enc k @ [109]"
  "encode_txnkv_sub_meta_key enc k v i = ukp enc k @ 109 # u16_to_be_bytes v @ 96 # u16_to_be_bytes i"
  "encode_txnkv_hash_data_key enc k f v = ukp enc k @ 104 # u16_to_be_bytes v @ 96 # f"
  "encode_txnkv_list_data_key enc k j v = ukp enc k @ 108 # u16_to_be_bytes v @ 96 # u64_to_be_bytes j"
  "encode_txnkv_set_data_key enc k f v = ukp enc k @ 115 # u16_to_be_bytes v @ 96 # f"
  "encode_txnkv_zset_data_key enc k f v = ukp enc k @ 122 # u16_to_be_bytes v @ 96 # f"
  "encode_txnkv_zset_score_key enc k s f v =
     ukp enc k @ 83 # u16_to_be_bytes v @ 96 # u64_to_be_bytes (encode_f64_to_cmp_uint64 s) @ 96 # f"
  by (simp_all add: ukp_def layout_defs encode_txnkv_string_def encode_txnkv_meta_key_def
      encode_txnkv_meta_common_prefix_def encode_txnkv_sub_meta_key_def encode_txnkv_hash_data_key_def
      encode_txnkv_type_data_key_prefix_def encode_txnkv_list_data_key_def encode_txnkv_set_data_key_def
      encode_txnkv_zset_data_key_def encode_txnkv_zset_score_key_def)

lemma range_shapes [enc_simps]:
  "encode_txnkv_sub_meta_key_range enc k v =
     Range (ukp enc k @ 109 # u16_to_be_bytes v @ [96]) (ukp enc k @ 109 # u16_to_be_bytes v @ [97])"
  "encode_txnkv_hash_data_key_range enc k v =
     Range (ukp enc k @ 104 # u16_to_be_bytes v @ [96]) (ukp enc k @ 104 # u16_to_be_bytes v @ [97])"
  "encode_txnkv_list_data_key_range enc k v =
     Range (ukp enc k @ 108 # u16_to_be_bytes v @ [96]) (ukp enc k @ 108 # u16_to_be_bytes v @ [97])"
  "encode_txnkv_set_data_key_range enc k v =
     Range (ukp enc k @ 115 # u16_to_be_bytes v @ [96]) (ukp enc k @ 115 # u16_to_be_bytes v @ [97])"
  "encode_txnkv_zset_data_key_range enc k v =
     Range (ukp enc k @ 122 # u16_to_be_bytes v @ [96]) (ukp enc k @ 122 # u16_to_be_bytes v @ [97])"
  "encode_txnkv_zset_score_key_range enc k v =
     Range (ukp enc k @ 83 # u16_to_be_bytes v @ [96]) (ukp enc k @ 83 # u16_to_be_bytes v @ [97])"
  by (simp_all add: ukp_def layout_defs encode_txnkv_meta_common_prefix_def
      encode_txnkv_sub_meta_key_range_def encode_txnkv_sub_meta_key_start_def encode_txnkv_sub_meta_key_end_def
      encode_txnkv_type_data_key_prefix_def encode_txnkv_hash_data_key_range_def
      encode_txnkv_hash_data_key_start_def encode_txnkv_hash_data_key_end_def
      encode_txnkv_list_data_key_range_def encode_txnkv_list_data_key_start_def
      encode_txnkv_list_data_key_end_def encode_txnkv_set_data_key_range_def
      encode_txnkv_set_data_key_start_def encode_txnkv_set_data_key_end_def
      encode_txnkv_zset_data_key_range_def encode_txnkv_zset_data_key_start_def
      encode_txnkv_zset_data_key_end_def encode_txnkv_zset_score_key_range_def
      encode_txnkv_zset_score_key_start_def encode_txnkv_zset_score_key_end_def)

lemma prefix_range:
  "in_range (Range (p @ [96]) (p @ [97])) x \<longleftrightarrow> (\<exists>r. x = p @ 96 # r)"
proof (induction p arbitrary: x)
  case Nil
  have "\<not> (96 < y \<and> y < 97)" for y :: u8
    using less_Suc_eq_le [of "unat y" 96] by (simp add: word_less_nat_alt)
  then show ?case by (cases x) (auto simp: in_range.simps le_less [of "96::u8"])
next
  case (Cons a p)
  then show ?case by (cases x) (auto simp: in_range.simps)
qed

lemma user_key_range [simp]:
  "in_range (Range (ukp e k @ t # u16_to_be_bytes v @ [96]) (ukp e k @ t # u16_to_be_bytes v @ [97])) x \<longleftrightarrow>
   (\<exists>r. x = ukp e k @ t # u16_to_be_bytes v @ 96 # r)"
  using prefix_range [of "ukp e k @ t # u16_to_be_bytes v" x] by simp

lemma data_range_iff:
  "in_range (encode_txnkv_hash_data_key_range enc k v) x \<longleftrightarrow> (\<exists>f. x = encode_txnkv_hash_data_key enc k f v)"
  "in_range (encode_txnkv_set_data_key_range enc k v) x \<longleftrightarrow> (\<exists>f. x = encode_txnkv_set_data_key enc k f v)"
  "in_range (encode_txnkv_zset_data_key_range enc k v) x \<longleftrightarrow> (\<exists>f. x = encode_txnkv_zset_data_key enc k f v)"
  by (auto simp: enc_simps)


section \<open>Decoding inverts encoding\<close>

lemmas slice_defs = slice_def slice_from_def

lemma decode_string_value [simp]:
  "decode_key_type (encode_txnkv_string_value v ttl) = Some DT_String"
  "decode_key_ttl (encode_txnkv_string_value v ttl) = Some ttl"
  "decode_key_version (encode_txnkv_string_value v ttl) = Some 0"
  "decode_key_string_value (encode_txnkv_string_value v ttl) = Some v"
  "decode_key_string_slice (encode_txnkv_string_value v ttl) = Some v"
  by (simp_all add: encode_txnkv_string_value_def encode_txnkv_string_internal_def decode_key_type_def
      decode_key_ttl_def decode_key_version_def decode_key_string_value_def decode_key_string_slice_def slice_defs)

lemma string_slice_value [simp]: "encode_txnkv_string_slice v ttl = encode_txnkv_string_value v ttl"
  by (simp add: encode_txnkv_string_slice_def encode_txnkv_string_value_def)

lemma decode_list_meta_value [simp]:
  "decode_key_type (encode_txnkv_list_meta_value ttl v l r) = Some DT_List"
  "decode_key_ttl (encode_txnkv_list_meta_value ttl v l r) = Some ttl"
  "decode_key_version (encode_txnkv_list_meta_value ttl v l r) = Some v"
  "decode_key_list_meta (encode_txnkv_list_meta_value ttl v l r) = Some (ttl, v, l, r)"
  by (simp_all add: encode_txnkv_list_meta_value_def decode_key_type_def decode_key_ttl_def
      decode_key_version_def decode_key_list_meta_def slice_defs)

definition stored_index_size :: "KeyEncoder \<Rightarrow> u16 \<Rightarrow> u16" where
  "stored_index_size enc n = (if n = 0 then meta_key_number enc else n)"

lemmas meta_value_defs =
  encode_txnkv_hash_meta_value_def encode_txnkv_set_meta_value_def encode_txnkv_zset_meta_value_def
  decode_key_type_def decode_key_ttl_def decode_key_version_def decode_key_index_size_def
  decode_key_meta_def slice_defs stored_index_size_def

lemma decode_hash_meta_value [simp]:
  "decode_key_type (encode_txnkv_hash_meta_value enc ttl v n) = Some DT_Hash"
  "decode_key_ttl (encode_txnkv_hash_meta_value enc ttl v n) = Some ttl"
  "decode_key_version (encode_txnkv_hash_meta_value enc ttl v n) = Some v"
  "decode_key_index_size (encode_txnkv_hash_meta_value enc ttl v n) = Some (stored_index_size enc n)"
  "decode_key_meta (encode_txnkv_hash_meta_value enc ttl v n) = Some (ttl, v, stored_index_size enc n)"
  by (simp_all add: meta_value_defs)

lemma decode_set_meta_value [simp]:
  "decode_key_type (encode_txnkv_set_meta_value enc ttl v n) = Some DT_Set"
  "decode_key_ttl (encode_txnkv_set_meta_value enc ttl v n) = Some ttl"
  "decode_key_version (encode_txnkv_set_meta_value enc ttl v n) = Some v"
  "decode_key_index_size (encode_txnkv_set_meta_value enc ttl v n) = Some (stored_index_size enc n)"
  "decode_key_meta (encode_txnkv_set_meta_value enc ttl v n) = Some (ttl, v, stored_index_size enc n)"
  by (simp_all add: meta_value_defs)

lemma decode_zset_meta_value [simp]:
  "decode_key_type (encode_txnkv_zset_meta_value enc ttl v n) = Some DT_Zset"
  "decode_key_ttl (encode_txnkv_zset_meta_value enc ttl v n) = Some ttl"
  "decode_key_version (encode_txnkv_zset_meta_value enc ttl v n) = Some v"
  "decode_key_index_size (encode_txnkv_zset_meta_value enc ttl v n) = Some (stored_index_size enc n)"
  "decode_key_meta (encode_txnkv_zset_meta_value enc ttl v n) = Some (ttl, v, stored_index_size enc n)"
  by (simp_all add: meta_value_defs)

lemma length_ukp [simp]: "length (ukp enc k) = 4 + length (encode_bytes k)"
  by (simp add: ukp_def instance_id_slice_def)

lemma drop_ukp [simp]:
  "drop (8 + length (encode_bytes k)) (ukp enc k @ t # u16_to_be_bytes v @ p # r) = r"
  "drop (17 + length (encode_bytes k)) (ukp enc k @ t # u16_to_be_bytes v @ p # u64_to_be_bytes w @ q # r) = r"
  by simp_all

lemma decode_data_keys [simp]:
  "decode_key_hash_userkey_from_datakey k (encode_txnkv_hash_data_key enc k f v) = Some f"
  "decode_key_set_member_from_datakey k (encode_txnkv_set_data_key enc k f v) = Some f"
  "decode_key_zset_member_from_datakey k (encode_txnkv_zset_data_key enc k f v) = Some f"
  "decode_key_list_idx_from_datakey k (encode_txnkv_list_data_key enc k j v) = Some j"
  "decode_key_zset_member_from_scorekey k (encode_txnkv_zset_score_key enc k s f v) = Some f"
  by (simp_all add: enc_simps slice_defs decode_key_hash_userkey_from_datakey_def
      decode_key_set_member_from_datakey_def decode_key_zset_member_from_datakey_def
      decode_key_list_idx_from_datakey_def decode_key_zset_member_from_scorekey_def)

lemma decode_userkey_from_key:
  assumes "s \<noteq> []"
  shows "decode_key_userkey_from_metakey (ukp enc k @ s) = Some (k, s = [109])"
proof -
  have "drop 4 (ukp enc k @ s) = encode_bytes k @ s"
    by (simp add: ukp_def instance_id_slice_def)
  moreover have "(ukp enc k @ s) ! (4 + length (encode_bytes k)) = s ! 0"
    by (simp add: nth_append)
  ultimately show ?thesis using assms
    by (auto simp: decode_key_userkey_from_metakey_def slice_defs Let_def DATA_TYPE_META_def length_Suc_conv
        neq_Nil_conv)
qed

lemma drop_five: "drop (5 + n) (a # b # c # d # e # xs) = drop n xs"
  by (simp add: numeral_eq_Suc)

lemma decode_gc_version_key [simp]:
  "decode_key_gc_userkey_version (encode_txnkv_gc_version_key enc k v) = Some (k, v)"
  by (simp add: drop_five decode_key_gc_userkey_version_def encode_txnkv_gc_version_key_def
      encode_txnkv_gc_key_prefix_def instance_id_slice_def slice_defs Let_def)

section \<open>Scores\<close>

lemma f64_magnitude_take_bit: "f64_magnitude x = take_bit 63 x"
  by (simp add: f64_magnitude_def take_bit_eq_mask mask_eq_exp_minus_1)

lemma uint_f64_magnitude: "uint (f64_magnitude x) = take_bit 63 (uint x)"
  by (simp add: f64_magnitude_take_bit unsigned_take_bit_eq)

lemma uint_f64_split: "uint x = (if bit x 63 then 2 ^ 63 else 0) + uint (f64_magnitude x)" for x :: f64
proof -
  have "take_bit (Suc 63) (uint x) = 2 ^ 63 * of_bool (bit (uint x) 63) + take_bit 63 (uint x)"
    by (rule take_bit_Suc_from_most)
  moreover have "take_bit (Suc 63) (uint x) = uint x"
    by (simp add: take_bit_int_eq_self_iff) (use uint_bounded [of x] in simp)
  ultimately show ?thesis
    by (cases "bit x 63") (simp_all add: uint_f64_magnitude bit_uint_iff)
qed

lemma f64_magnitude_bound: "uint (f64_magnitude x) < 2 ^ 63"
  unfolding uint_f64_magnitude by (rule take_bit_int_less_exp)

lemma f64_rank_zero [simp]: "f64_rank 0 = 0"
  by (simp add: f64_rank_def f64_magnitude_def)

lemma f64_not_nan_zero [simp]: "\<not> f64_is_nan 0"
  by (simp add: f64_is_nan_def f64_magnitude_def)

lemma bit_sign_mask [simp]: "bit SIGN_MASK n \<longleftrightarrow> n = 63"
proof -
  have "SIGN_MASK = 2 ^ 63" by (simp add: SIGN_MASK_def)
  then show ?thesis using bit_exp_iff [of 63 n, where ?'a = u64] by auto
qed

lemma uint_or_sign: "\<not> bit x 63 \<Longrightarrow> uint (x OR SIGN_MASK) = 2 ^ 63 + uint x" for x :: u64
proof -
  assume x: "\<not> bit x 63"
  have "x AND SIGN_MASK = 0"
    by (rule bit_word_eqI) (use x in \<open>auto simp: bit_simps\<close>)
  then have "x OR SIGN_MASK = x + SIGN_MASK" by (simp add: disjunctive_add_eq_or)
  moreover have "uint x < 2 ^ 63" using uint_f64_split [of x] f64_magnitude_bound [of x] x by simp
  ultimately show ?thesis by (simp add: uint_word_ariths SIGN_MASK_def)
qed


lemma uint_not: "uint (NOT x) = 2 ^ 64 - 1 - uint x" for x :: u64
proof -
  have "NOT x = - 1 - x" by (simp add: not_eq_complement)
  moreover have "uint x < 18446744073709551616" using uint_bounded [of x] by simp
  then have "(18446744073709551615 - uint x) mod 18446744073709551616 = 18446744073709551615 - uint x"
    using uint_nonnegative [of x] by (intro mod_pos_pos_trivial) linarith+
  ultimately show ?thesis by (simp add: uint_word_ariths)
qed

text \<open>The encoded score counts from the middle of the range: the order of scores is the order of the
  encoded words.\<close>

lemma uint_encode_f64:
  assumes "\<not> f64_is_nan x"
  shows "uint (encode_f64_to_cmp_uint64 x) = 2 ^ 63 + f64_rank x - (if f64_rank x < 0 then 1 else 0)"
proof (cases "f64_rank x < 0")
  case True
  then have "bit x 63" by (simp add: f64_rank_def split: if_splits)
  moreover have "encode_f64_to_cmp_uint64 x = NOT x"
    using True by (simp add: encode_f64_to_cmp_uint64_def f64_le_def)
  ultimately show ?thesis using True uint_f64_split [of x] by (simp add: uint_not f64_rank_def)
next
  case False
  then have e: "encode_f64_to_cmp_uint64 x = x OR SIGN_MASK"
    using assms by (simp add: encode_f64_to_cmp_uint64_def f64_le_def)
  show ?thesis
  proof (cases "bit x 63")
    case True
    then have "uint (f64_magnitude x) = 0"
      using False uint_nonnegative [of "f64_magnitude x"] unfolding f64_rank_def by presburger
    then have m: "f64_magnitude x = 0" by (simp add: word_uint_eq_iff)
    then have "uint x = 2 ^ 63" using True uint_f64_split [of x] by simp
    then have "x = SIGN_MASK" by (simp add: SIGN_MASK_def word_uint_eq_iff)
    then show ?thesis using e m by (simp add: f64_rank_def SIGN_MASK_def)
  next
    case b: False
    then show ?thesis using False uint_f64_split [of x] by (simp add: e uint_or_sign f64_rank_def)
  qed
qed

lemma encode_f64_less_iff:
  assumes "\<not> f64_is_nan x" "\<not> f64_is_nan y"
  shows "encode_f64_to_cmp_uint64 x < encode_f64_to_cmp_uint64 y \<longleftrightarrow> f64_lt x y"
  using assms by (auto simp: word_less_def uint_encode_f64 f64_lt_def)

lemma encode_f64_le_iff:
  assumes "\<not> f64_is_nan x" "\<not> f64_is_nan y"
  shows "encode_f64_to_cmp_uint64 x \<le> encode_f64_to_cmp_uint64 y \<longleftrightarrow> f64_le x y"
  using assms by (auto simp: word_le_def uint_encode_f64 f64_le_def)

lemma sign_bit_test: "0 < u AND SIGN_MASK \<longleftrightarrow> bit u 63" for u :: u64
proof -
  have "u AND SIGN_MASK = (if bit u 63 then SIGN_MASK else 0)"
    by (rule bit_word_eqI) (auto simp: bit_simps)
  then show ?thesis by (simp add: SIGN_MASK_def)
qed

lemma decode_encode_f64:
  assumes "\<not> f64_is_nan x"
  shows "decode_cmp_uint64_to_f64 (encode_f64_to_cmp_uint64 x) = (if x = SIGN_MASK then 0 else x)"
proof (cases "f64_le 0 x")
  case True
  then have pos: "\<not> bit x 63 \<or> x = SIGN_MASK"
  proof -
    have "0 \<le> f64_rank x" using True by (simp add: f64_le_def)
    then have "bit x 63 \<Longrightarrow> uint (f64_magnitude x) = 0"
      using uint_nonnegative [of "f64_magnitude x"] unfolding f64_rank_def by presburger
    then have "bit x 63 \<Longrightarrow> uint x = 2 ^ 63" using uint_f64_split [of x] by simp
    then show ?thesis by (auto simp: SIGN_MASK_def word_uint_eq_iff)
  qed
  have "(x OR SIGN_MASK) AND NOT SIGN_MASK = x AND NOT SIGN_MASK" by (rule bit_word_eqI) (auto simp: bit_simps)
  moreover have "\<not> bit x 63 \<Longrightarrow> x AND NOT SIGN_MASK = x"
    by (rule bit_word_eqI) (auto simp: bit_simps)
  moreover have "0 < (x OR SIGN_MASK) AND SIGN_MASK"
    unfolding sign_bit_test by (simp add: bit_simps)
  moreover have "\<not> bit x 63 \<Longrightarrow> x \<noteq> SIGN_MASK" by auto
  ultimately show ?thesis using True pos
    by (auto simp: encode_f64_to_cmp_uint64_def decode_cmp_uint64_to_f64_def)
next
  case False
  then have "f64_rank x < 0" using assms by (simp add: f64_le_def)
  then have b: "bit x 63" "x \<noteq> SIGN_MASK"
    by (auto simp: f64_rank_def SIGN_MASK_def f64_magnitude_def split: if_splits)
  then show ?thesis using False
    by (simp add: encode_f64_to_cmp_uint64_def decode_cmp_uint64_to_f64_def sign_bit_test bit_not_iff)
qed

lemma decode_zset_data_value:
  "\<not> f64_is_nan x \<Longrightarrow>
   decode_key_zset_data_value (encode_txnkv_zset_data_value x) = Some (if x = SIGN_MASK then 0 else x)"
  by (simp add: decode_key_zset_data_value_def encode_txnkv_zset_data_value_def decode_encode_f64)

section \<open>Properties of the key layout\<close>

text \<open>The keys of the transactional store by kind. Each constructor is one encoder.\<close>

datatype key_kind =
  KMeta
| KSubMeta u16 u16
| KHash u16 bytes
| KList u16 u64
| KSet u16 bytes
| KZset u16 bytes
| KScore u16 u64 bytes

fun key_of :: "KeyEncoder \<Rightarrow> bytes \<Rightarrow> key_kind \<Rightarrow> bytes" where
  "key_of enc k KMeta = encode_txnkv_meta_key enc k"
| "key_of enc k (KSubMeta v i) = encode_txnkv_sub_meta_key enc k v i"
| "key_of enc k (KHash v f) = encode_txnkv_hash_data_key enc k f v"
| "key_of enc k (KList v j) = encode_txnkv_list_data_key enc k j v"
| "key_of enc k (KSet v f) = encode_txnkv_set_data_key enc k f v"
| "key_of enc k (KZset v f) = encode_txnkv_zset_data_key enc k f v"
| "key_of enc k (KScore v s f) = encode_txnkv_zset_score_key enc k (decode_cmp_uint64_to_f64 s) f v"

text \<open>(C1) The encoding of a user key is prefix-free and keeps the order of the keys: whatever bytes
  follow two encoded keys, they compare as the user keys do and, for the same key, as the bytes that
  follow. Decoding gives the user key back, and the length of the encoding is found without decoding.\<close>

theorem encode_bytes_ordered_codec:
  "(encode_bytes a @ x < encode_bytes b @ y \<longleftrightarrow> a < b \<or> a = b \<and> x < y) \<and>
   (encode_bytes a @ x = encode_bytes b @ y \<longleftrightarrow> a = b \<and> x = y) \<and>
   decode_bytes (encode_bytes a @ x) = Some a \<and>
   encoded_bytes_len (encode_bytes a @ x) = length (encode_bytes a)"
  by simp

end
