(* ===== verification/Config.thy ===== *)
theory Config
  imports Encoding
begin

text \<open>
  The server configuration, \<^verbatim>\<open>src/config.rs\<close>, with every field and every getter (\<^verbatim>\<open>usize\<close> is 64 bits wide), and
  the environment a command runs in: the global \<^verbatim>\<open>SERVER_CONFIG\<close>, the instance id, the clock and whether the
  backend is connected. Every \<^verbatim>\<open>..._or_default\<close> function reads an optional field of the optional
  configuration. \<^verbatim>\<open>src/utils.rs\<close> adds the reading of the clock.
\<close>

record Server =
  listen :: "bytes option"
  port :: "u16 option"
  tls_listen :: "bytes option"
  tls_port :: "u16 option"
  tls_key_file :: "bytes option"
  tls_cert_file :: "bytes option"
  tls_auth_client :: "bool option"
  tls_ca_cert_file :: "bytes option"
  pd_addrs :: "bytes option"
  instance_id_str :: "bytes option"
  prometheus_listen :: "bytes option"
  prometheus_port :: "u16 option"
  password :: "bytes option"
  log_level_field :: "bytes option"
  log_file_field :: "bytes option"
  cluster_broadcast_addr :: "bytes option"
  cluster_topology_interval :: "u64 option"
  cluster_topology_expire :: "u64 option"
  meta_key_number_opt :: "u16 option"

record Backend =
  timeout_ms :: "u64 option"
  ca_file :: "bytes option"
  cert_file :: "bytes option"
  key_file :: "bytes option"
  conn_concurrency :: "u64 option"
  use_txn_api :: "bool option"
  use_async_commit :: "bool option"
  try_one_pc_commit :: "bool option"
  use_pessimistic_txn :: "bool option"
  local_pool_number :: "u64 option"
  completion_queue_size :: "u64 option"
  grpc_keepalive_time :: "u64 option"
  grpc_keepalive_timeout :: "u64 option"
  allow_batch :: "bool option"
  overload_threshold :: "u64 option"
  max_batch_wait_time :: "u64 option"
  max_batch_size :: "u64 option"
  max_inflight_requests :: "u64 option"
  txn_retry_count_opt :: "u32 option"
  txn_region_backoff_delay_ms_opt :: "u64 option"
  txn_region_backoff_delay_attemps_opt :: "u32 option"
  txn_lock_backoff_delay_ms_opt :: "u64 option"
  txn_lock_backoff_delay_attemps_opt :: "u32 option"
  cmd_lrem_length_limit :: "u32 option"
  cmd_linsert_length_limit :: "u32 option"
  async_deletion_enabled :: "bool option"
  async_gc_worker_number :: "u64 option"
  async_gc_worker_queue_size :: "u64 option"
  async_gc_interval :: "u64 option"
  async_del_list_threshold :: "u32 option"
  async_del_hash_threshold :: "u32 option"
  async_del_set_threshold :: "u32 option"
  async_del_zset_threshold :: "u32 option"
  async_expire_list_threshold :: "u32 option"
  async_expire_hash_threshold :: "u32 option"
  async_expire_set_threshold :: "u32 option"
  async_expire_zset_threshold :: "u32 option"

record Config =
  server :: Server
  backend :: Backend

type_synonym config = "Config option"

text \<open>The shape all getters share: the field of the configuration if both are set.\<close>

definition server_or :: "(Server \<Rightarrow> 'a option) \<Rightarrow> 'a \<Rightarrow> config \<Rightarrow> 'a" where
  "server_or fld d c =
     (case c of Some c \<Rightarrow> (case fld (server c) of Some s \<Rightarrow> s | None \<Rightarrow> d) | None \<Rightarrow> d)"

definition backend_or :: "(Backend \<Rightarrow> 'a option) \<Rightarrow> 'a \<Rightarrow> config \<Rightarrow> 'a" where
  "backend_or fld d c =
     (case c of Some c \<Rightarrow> (case fld (backend c) of Some b \<Rightarrow> b | None \<Rightarrow> d) | None \<Rightarrow> d)"

definition is_auth_enabled :: "config \<Rightarrow> bool" where
  "is_auth_enabled c = (case c of Some c \<Rightarrow> password (server c) \<noteq> None | None \<Rightarrow> False)"

definition is_auth_matched :: "config \<Rightarrow> bytes \<Rightarrow> bool" where
  "is_auth_matched c pass =
     (case c of
        Some c \<Rightarrow> (case password (server c) of Some s \<Rightarrow> s = pass | None \<Rightarrow> True)
      | None \<Rightarrow> True)"

definition txn_retry_count :: "config \<Rightarrow> u32" where
  "txn_retry_count = backend_or txn_retry_count_opt 3"

definition config_listen_or_default :: "config \<Rightarrow> bytes" where
  "config_listen_or_default = server_or listen (ascii ''0.0.0.0'')"

definition config_port_or_default :: "config \<Rightarrow> bytes" where
  "config_port_or_default =
     server_or (\<lambda>s. map_option (\<lambda>p. nat_digits (unat p)) (port s)) (ascii ''6379'')"

definition config_tls_listen_or_default :: "config \<Rightarrow> bytes" where
  "config_tls_listen_or_default = server_or tls_listen (ascii ''0.0.0.0'')"

definition config_tls_port_or_default :: "config \<Rightarrow> bytes" where
  "config_tls_port_or_default =
     server_or (\<lambda>s. map_option (\<lambda>p. nat_digits (unat p)) (tls_port s)) (ascii ''6443'')"

definition config_tls_cert_file_or_default :: "config \<Rightarrow> bytes" where
  "config_tls_cert_file_or_default = server_or tls_cert_file []"

definition config_tls_key_file_or_default :: "config \<Rightarrow> bytes" where
  "config_tls_key_file_or_default = server_or tls_key_file []"

definition config_tls_auth_client_or_default :: "config \<Rightarrow> bool" where
  "config_tls_auth_client_or_default = server_or tls_auth_client False"

definition config_tls_ca_cert_file_or_default :: "config \<Rightarrow> bytes" where
  "config_tls_ca_cert_file_or_default = server_or tls_ca_cert_file []"

definition config_pd_addrs_or_default :: "config \<Rightarrow> bytes" where
  "config_pd_addrs_or_default = server_or pd_addrs (ascii ''127.0.0.1:2379'')"

definition config_instance_id_or_default :: "config \<Rightarrow> bytes" where
  "config_instance_id_or_default = server_or instance_id_str (ascii ''1'')"

definition config_prometheus_listen_or_default :: "config \<Rightarrow> bytes" where
  "config_prometheus_listen_or_default = server_or prometheus_listen (ascii ''0.0.0.0'')"

definition config_prometheus_port_or_default :: "config \<Rightarrow> bytes" where
  "config_prometheus_port_or_default =
     server_or (\<lambda>s. map_option (\<lambda>p. nat_digits (unat p)) (prometheus_port s)) (ascii ''8080'')"

definition config_local_pool_number :: "config \<Rightarrow> u64" where
  "config_local_pool_number = backend_or local_pool_number 8"

definition config_cluster_broadcast_addr_or_default :: "config \<Rightarrow> bytes" where
  "config_cluster_broadcast_addr_or_default c =
     server_or cluster_broadcast_addr
       (config_listen_or_default c @ ascii '':'' @ config_port_or_default c) c"

definition config_cluster_topology_interval_or_default :: "config \<Rightarrow> u64" where
  "config_cluster_topology_interval_or_default = server_or cluster_topology_interval 10000"

definition config_cluster_topology_expire_or_default :: "config \<Rightarrow> u64" where
  "config_cluster_topology_expire_or_default = server_or cluster_topology_expire 30000"

definition config_meta_key_number_or_default :: "config \<Rightarrow> u16" where
  "config_meta_key_number_or_default = server_or meta_key_number_opt 100"

definition log_level_str :: "config \<Rightarrow> bytes" where
  "log_level_str = server_or log_level_field (ascii ''info'')"

definition log_level :: "config \<Rightarrow> nat" where
  "log_level c =
     (let s = log_level_str c in
      if s = ascii ''off'' then 0 else if s = ascii ''critical'' then 1 else if s = ascii ''error'' then 2
      else if s = ascii ''warning'' then 3 else if s = ascii ''info'' then 4 else if s = ascii ''debug'' then 5
      else if s = ascii ''trace'' then 6 else 0)"

definition log_file :: "config \<Rightarrow> bytes" where
  "log_file = server_or log_file_field (ascii ''tikv-service.log'')"

definition is_use_txn_api :: "config \<Rightarrow> bool" where
  "is_use_txn_api = backend_or use_txn_api True"

definition is_use_async_commit :: "config \<Rightarrow> bool" where
  "is_use_async_commit = backend_or use_async_commit True"

definition is_try_one_pc_commit :: "config \<Rightarrow> bool" where
  "is_try_one_pc_commit = backend_or try_one_pc_commit True"

definition is_use_pessimistic_txn :: "config \<Rightarrow> bool" where
  "is_use_pessimistic_txn = backend_or use_pessimistic_txn False"

definition txn_region_backoff_delay_ms :: "config \<Rightarrow> u64" where
  "txn_region_backoff_delay_ms = backend_or txn_region_backoff_delay_ms_opt 2"

definition txn_region_backoff_delay_attemps :: "config \<Rightarrow> u32" where
  "txn_region_backoff_delay_attemps = backend_or txn_region_backoff_delay_attemps_opt 2"

definition txn_lock_backoff_delay_ms :: "config \<Rightarrow> u64" where
  "txn_lock_backoff_delay_ms = backend_or txn_lock_backoff_delay_ms_opt 2"

definition txn_lock_backoff_delay_attemps :: "config \<Rightarrow> u32" where
  "txn_lock_backoff_delay_attemps = backend_or txn_lock_backoff_delay_attemps_opt 2"

definition cmd_lrem_length_limit_or_default :: "config \<Rightarrow> u32" where
  "cmd_lrem_length_limit_or_default = backend_or cmd_lrem_length_limit 0"

definition cmd_linsert_length_limit_or_default :: "config \<Rightarrow> u32" where
  "cmd_linsert_length_limit_or_default = backend_or cmd_linsert_length_limit 0"

definition async_deletion_enabled_or_default :: "config \<Rightarrow> bool" where
  "async_deletion_enabled_or_default = backend_or async_deletion_enabled True"

definition default_threshold :: "config \<Rightarrow> u32" where
  "default_threshold c = (if async_deletion_enabled_or_default c then 1000 else - 1)"

definition async_del_list_threshold_or_default :: "config \<Rightarrow> u32" where
  "async_del_list_threshold_or_default c = backend_or async_del_list_threshold (default_threshold c) c"

definition async_del_hash_threshold_or_default :: "config \<Rightarrow> u32" where
  "async_del_hash_threshold_or_default c = backend_or async_del_hash_threshold (default_threshold c) c"

definition async_del_set_threshold_or_default :: "config \<Rightarrow> u32" where
  "async_del_set_threshold_or_default c = backend_or async_del_set_threshold (default_threshold c) c"

definition async_del_zset_threshold_or_default :: "config \<Rightarrow> u32" where
  "async_del_zset_threshold_or_default c = backend_or async_del_zset_threshold (default_threshold c) c"

definition async_expire_list_threshold_or_default :: "config \<Rightarrow> u32" where
  "async_expire_list_threshold_or_default c = backend_or async_expire_list_threshold (default_threshold c) c"

definition async_expire_hash_threshold_or_default :: "config \<Rightarrow> u32" where
  "async_expire_hash_threshold_or_default c = backend_or async_expire_hash_threshold (default_threshold c) c"

definition async_expire_set_threshold_or_default :: "config \<Rightarrow> u32" where
  "async_expire_set_threshold_or_default c = backend_or async_expire_set_threshold (default_threshold c) c"

definition async_expire_zset_threshold_or_default :: "config \<Rightarrow> u32" where
  "async_expire_zset_threshold_or_default c = backend_or async_expire_zset_threshold (default_threshold c) c"

definition async_gc_interval_or_default :: "config \<Rightarrow> u64" where
  "async_gc_interval_or_default = backend_or async_gc_interval 10000"

definition async_gc_worker_number_or_default :: "config \<Rightarrow> u64" where
  "async_gc_worker_number_or_default = backend_or async_gc_worker_number 10"

definition async_gc_worker_queue_size_or_default :: "config \<Rightarrow> u64" where
  "async_gc_worker_queue_size_or_default = backend_or async_gc_worker_queue_size 100000"

definition backend_timeout_or_default :: "config \<Rightarrow> u64" where
  "backend_timeout_or_default = backend_or timeout_ms 10000"

definition backend_ca_file_or_default :: "config \<Rightarrow> bytes" where
  "backend_ca_file_or_default = backend_or ca_file []"

definition backend_cert_file_or_default :: "config \<Rightarrow> bytes" where
  "backend_cert_file_or_default = backend_or cert_file []"

definition backend_key_file_or_default :: "config \<Rightarrow> bytes" where
  "backend_key_file_or_default = backend_or key_file []"

definition conn_concurrency_or_default :: "config \<Rightarrow> u64" where
  "conn_concurrency_or_default = backend_or conn_concurrency 5"

definition backend_completion_queue_size_or_default :: "config \<Rightarrow> u64" where
  "backend_completion_queue_size_or_default = backend_or completion_queue_size 1"

definition backend_grpc_keepalive_time_or_default :: "config \<Rightarrow> u64" where
  "backend_grpc_keepalive_time_or_default = backend_or grpc_keepalive_time 10000"

definition backend_grpc_keepalive_timeout_or_default :: "config \<Rightarrow> u64" where
  "backend_grpc_keepalive_timeout_or_default = backend_or grpc_keepalive_timeout 2000"

definition backend_allow_batch_or_default :: "config \<Rightarrow> bool" where
  "backend_allow_batch_or_default = backend_or allow_batch False"

definition backend_overload_threshold_or_default :: "config \<Rightarrow> u64" where
  "backend_overload_threshold_or_default = backend_or overload_threshold 0"

definition backend_max_batch_wait_time_or_default :: "config \<Rightarrow> u64" where
  "backend_max_batch_wait_time_or_default = backend_or max_batch_wait_time 10"

definition backend_max_batch_size_or_default :: "config \<Rightarrow> u64" where
  "backend_max_batch_size_or_default = backend_or max_batch_size 8"

definition backend_max_inflight_requests_or_default :: "config \<Rightarrow> u64" where
  "backend_max_inflight_requests_or_default = backend_or max_inflight_requests 100"

section \<open>The environment of a command\<close>

text \<open>The global state a command reads and never writes. The clock is read as one value for the
  duration of a command: the code reads it at every check.\<close>

record env =
  INSTANCE_ID :: "u8 \<times> u8"
  SERVER_CONFIG :: config
  now_timestamp_in_millis :: u64
  TIKV_TXN_CLIENTS :: bool
  TIKV_RAW_CLIENT :: bool

definition KEY_ENCODER :: "env \<Rightarrow> KeyEncoder" where
  "KEY_ENCODER env = \<lparr>instance_id = INSTANCE_ID env,
     meta_key_number = config_meta_key_number_or_default (SERVER_CONFIG env)\<rparr>"

definition key_is_expired :: "env \<Rightarrow> u64 \<Rightarrow> bool" where
  "key_is_expired env ttl = (0 < ttl \<and> ttl < now_timestamp_in_millis env)"

definition timestamp_from_ttl :: "env \<Rightarrow> u64 \<Rightarrow> u64" where
  "timestamp_from_ttl env ttl = ttl + now_timestamp_in_millis env"

definition ttl_from_timestamp :: "env \<Rightarrow> u64 \<Rightarrow> u64" where
  "ttl_from_timestamp env timestamp =
     (let now = now_timestamp_in_millis env in if timestamp < now then 0 else timestamp - now)"

lemma not_expired_zero [simp]: "\<not> key_is_expired env 0"
  by (simp add: key_is_expired_def)

lemma meta_key_number_KEY_ENCODER [simp]:
  "meta_key_number (KEY_ENCODER env) = config_meta_key_number_or_default (SERVER_CONFIG env)"
  by (simp add: KEY_ENCODER_def)

lemma config0 [simp]: "async_deletion_enabled_or_default None" "config_meta_key_number_or_default None = 100"
  by (simp_all add: async_deletion_enabled_or_default_def config_meta_key_number_or_default_def backend_or_def server_or_def)

end
