(* ===== verification/Frames.thy ===== *)
theory Frames
  imports Prelude
begin

text \<open>
  Replies and errors: the frames of the protocol (\<^verbatim>\<open>src/frame.rs\<close>), the error type of the commands
  (\<^verbatim>\<open>src/tikv/errors.rs\<close>) and the reply constructors (\<^verbatim>\<open>src/utils.rs\<close>). A static string of the code is a
  HOL string, an owned string is its bytes.
\<close>

section \<open>Errors\<close>

text \<open>The constructors of \<^verbatim>\<open>tikv_client::Error\<close> that the code distinguishes, the error a commit returns
  when its effect is unknown, and one for all the others.\<close>

datatype tikv_error =
  RegionError
| EntryNotFoundInRegionCache
| KvError
| MultipleKeyErrors
| PessimisticLockError
| UndeterminedError
| StringError string
| OtherTikvError nat

datatype RTError =
  TikvClient tikv_error
| RTString string
| RTOwned bytes

definition REDIS_WRONG_TYPE_ERR :: RTError where
  "REDIS_WRONG_TYPE_ERR = RTString ''WRONGTYPE Operation against a key holding the wrong kind of value''"
definition REDIS_NO_SUCH_KEY_ERR :: RTError where
  "REDIS_NO_SUCH_KEY_ERR = RTString ''ERR no such key''"
definition REDIS_INDEX_OUT_OF_RANGE_ERR :: RTError where
  "REDIS_INDEX_OUT_OF_RANGE_ERR = RTString ''ERR index out of range''"
definition REDIS_VALUE_IS_NOT_INTEGER_ERR :: RTError where
  "REDIS_VALUE_IS_NOT_INTEGER_ERR = RTString ''ERR value is not an integer or out of range''"
definition REDIS_VALUE_IS_NOT_VALID_FLOAT_ERR :: RTError where
  "REDIS_VALUE_IS_NOT_VALID_FLOAT_ERR = RTString ''ERR value is not a valid float''"
definition REDIS_BACKEND_NOT_CONNECTED_ERR :: RTError where
  "REDIS_BACKEND_NOT_CONNECTED_ERR = RTString ''ERR backend not connected''"
definition REDIS_COMPARE_AND_SWAP_EXHAUSTED_ERR :: RTError where
  "REDIS_COMPARE_AND_SWAP_EXHAUSTED_ERR = RTString ''ERR compare-and-swap exhausted''"
definition REDIS_LIST_TOO_LARGE_ERR :: RTError where
  "REDIS_LIST_TOO_LARGE_ERR = RTString ''ERR list is too large to execute''"
definition DECREMENT_OVERFLOW :: RTError where
  "DECREMENT_OVERFLOW = RTString ''Decrement would overflow''"
definition KEY_VERSION_EXHUSTED_ERR :: RTError where
  "KEY_VERSION_EXHUSTED_ERR = RTString ''ERR key version exhausted''"

section \<open>Frames\<close>

datatype Frame =
  Simple bytes
| ErrorOwned bytes
| ErrorString string
| Integer i64
| Bulk bytes
| Null
| Array "Frame list"

fun frame_of_error :: "RTError \<Rightarrow> Frame" where
  "frame_of_error (RTOwned s) = ErrorOwned s"
| "frame_of_error (RTString s) = ErrorString s"
| "frame_of_error (TikvClient _) = ErrorString ''ERR tikv client error''"

definition resp_ok :: Frame where "resp_ok = Simple (ascii ''OK'')"
definition resp_queued :: Frame where "resp_queued = Simple (ascii ''QUEUED'')"
definition resp_ok_ignore :: "'a \<Rightarrow> Frame" where "resp_ok_ignore x = resp_ok"
definition resp_invalid_arguments :: Frame where "resp_invalid_arguments = ErrorString ''Invalid arguments''"
definition resp_err :: "RTError \<Rightarrow> Frame" where "resp_err e = frame_of_error e"
definition resp_sstr :: "string \<Rightarrow> Frame" where "resp_sstr val = Simple (ascii val)"
definition resp_str :: "bytes \<Rightarrow> Frame" where "resp_str val = Simple val"
definition resp_int :: "i64 \<Rightarrow> Frame" where "resp_int val = Integer val"
definition resp_bulk :: "bytes \<Rightarrow> Frame" where "resp_bulk val = Bulk val"
definition resp_nil :: Frame where "resp_nil = Null"
definition resp_array :: "Frame list \<Rightarrow> Frame" where "resp_array val = Array val"

text \<open>The frame of a value that may be missing.\<close>

definition bulk_or_null :: "bytes option \<Rightarrow> Frame" where
  "bulk_or_null s = (case s of None \<Rightarrow> Null | Some val \<Rightarrow> Bulk val)"

lemmas resp_defs = resp_ok_def resp_err_def resp_int_def resp_bulk_def resp_nil_def resp_array_def
  resp_sstr_def resp_str_def

end
