(* ===== verification/Txn.thy ===== *)
theory Txn
  imports Config Frames
begin

text \<open>
  Programs over transactions. \<^verbatim>\<open>tikv_client\<close> is not part of the sources: a command is a program
  (\<open>prog\<close>) whose steps are the calls it makes to the client library and to the mutex around a
  transaction, with what follows as a function of the answer. A record of functions (\<open>api\<close>) stands for
  the library; \<open>run\<close> executes a program with it.
\<close>

section \<open>Programs\<close>

text \<open>\<open>Crash\<close> is a panic. \<open>Lock\<close> and \<open>Unlock\<close> are \<^verbatim>\<open>txn_rc.lock().await\<close> and the drop of the guard, for the
  mutex of the innermost open transaction. \<open>Scan\<close> has the direction, the range and the limit.
  \<open>FetchIdx\<close> is \<^verbatim>\<open>fetch_idx_and_add\<close>. \<open>Begin\<close> opens a transaction, \<open>Commit\<close> and \<open>Rollback\<close> close the innermost one.
  \<open>BeginLatest\<close> opens a read-only transaction on the latest data, which is a local operation, and \<open>DropTxn\<close>
  drops it. The \<open>Raw\<close> steps are the calls of the raw client, which has no transactions.\<close>

datatype 'a prog =
  Ret 'a
| Crash
| Lock "'a prog"
| Unlock "'a prog"
| Get bytes "tikv_error + bytes option \<Rightarrow> 'a prog"
| KeyExists bytes "tikv_error + bool \<Rightarrow> 'a prog"
| Put bytes bytes "tikv_error + unit \<Rightarrow> 'a prog"
| Delete bytes "tikv_error + unit \<Rightarrow> 'a prog"
| BatchGet "bytes list" "tikv_error + kv_pair list \<Rightarrow> 'a prog"
| Scan bool bound_range nat "tikv_error + kv_pair list \<Rightarrow> 'a prog"
| FetchIdx "u16 \<Rightarrow> 'a prog"
| Begin "tikv_error + unit \<Rightarrow> 'a prog"
| Commit "tikv_error + unit \<Rightarrow> 'a prog"
| Rollback "tikv_error + unit \<Rightarrow> 'a prog"
| BeginLatest "'a prog"
| DropTxn "'a prog"
| RawGet bytes "tikv_error + bytes option \<Rightarrow> 'a prog"
| RawPut bytes bytes "tikv_error + unit \<Rightarrow> 'a prog"
| RawCas bytes "bytes option" bytes "tikv_error + bytes option \<times> bool \<Rightarrow> 'a prog"
| RawBatchDelete "bytes list" "tikv_error + unit \<Rightarrow> 'a prog"
| RawScan bound_range nat "tikv_error + kv_pair list \<Rightarrow> 'a prog"
| RawBatchGet "bytes list" "tikv_error + kv_pair list \<Rightarrow> 'a prog"
| RawBatchPut "kv_pair list" "tikv_error + unit \<Rightarrow> 'a prog"
| RawDeleteRange bound_range "tikv_error + unit \<Rightarrow> 'a prog"

primrec bindp :: "'a prog \<Rightarrow> ('a \<Rightarrow> 'b prog) \<Rightarrow> 'b prog" where
  "bindp (Ret x) g = g x"
| "bindp Crash g = Crash"
| "bindp (Lock p) g = Lock (bindp p g)"
| "bindp (Unlock p) g = Unlock (bindp p g)"
| "bindp (Get k f) g = Get k (\<lambda>r. bindp (f r) g)"
| "bindp (KeyExists k f) g = KeyExists k (\<lambda>r. bindp (f r) g)"
| "bindp (Put k v f) g = Put k v (\<lambda>r. bindp (f r) g)"
| "bindp (Delete k f) g = Delete k (\<lambda>r. bindp (f r) g)"
| "bindp (BatchGet ks f) g = BatchGet ks (\<lambda>r. bindp (f r) g)"
| "bindp (Scan d rg n f) g = Scan d rg n (\<lambda>r. bindp (f r) g)"
| "bindp (FetchIdx f) g = FetchIdx (\<lambda>r. bindp (f r) g)"
| "bindp (Begin f) g = Begin (\<lambda>r. bindp (f r) g)"
| "bindp (Commit f) g = Commit (\<lambda>r. bindp (f r) g)"
| "bindp (Rollback f) g = Rollback (\<lambda>r. bindp (f r) g)"
| "bindp (BeginLatest p) g = BeginLatest (bindp p g)"
| "bindp (DropTxn p) g = DropTxn (bindp p g)"
| "bindp (RawGet k f) g = RawGet k (\<lambda>r. bindp (f r) g)"
| "bindp (RawPut k v f) g = RawPut k v (\<lambda>r. bindp (f r) g)"
| "bindp (RawCas k old v f) g = RawCas k old v (\<lambda>r. bindp (f r) g)"
| "bindp (RawBatchDelete ks f) g = RawBatchDelete ks (\<lambda>r. bindp (f r) g)"
| "bindp (RawScan rg n f) g = RawScan rg n (\<lambda>r. bindp (f r) g)"
| "bindp (RawBatchGet ks f) g = RawBatchGet ks (\<lambda>r. bindp (f r) g)"
| "bindp (RawBatchPut kvs f) g = RawBatchPut kvs (\<lambda>r. bindp (f r) g)"
| "bindp (RawDeleteRange rg f) g = RawDeleteRange rg (\<lambda>r. bindp (f r) g)"

type_synonym 'a result = "RTError + 'a"
type_synonym 'a action = "'a result prog"

text \<open>The library calls with the \<^verbatim>\<open>?\<close> operator: an error of the library is returned at once, wrapped in
  \<open>TikvClient\<close>; \<open>call\<close> is \<^verbatim>\<open>?\<close> after a call of another function; \<open>unwrap\<close> panics on \<open>None\<close>.\<close>

definition try_tikv :: "('a \<Rightarrow> 'b action) \<Rightarrow> tikv_error + 'a \<Rightarrow> 'b action" where
  "try_tikv f r = (case r of Inl e \<Rightarrow> Ret (Inl (TikvClient e)) | Inr x \<Rightarrow> f x)"

definition Throw :: "RTError \<Rightarrow> 'a action" where "Throw e = Ret (Inl e)"
definition Return :: "'a \<Rightarrow> 'a action" where "Return x = Ret (Inr x)"

definition txn_get :: "bytes \<Rightarrow> (bytes option \<Rightarrow> 'a action) \<Rightarrow> 'a action" where
  "txn_get k f = Get k (try_tikv f)"
definition txn_key_exists :: "bytes \<Rightarrow> (bool \<Rightarrow> 'a action) \<Rightarrow> 'a action" where
  "txn_key_exists k f = KeyExists k (try_tikv f)"
definition txn_put :: "bytes \<Rightarrow> bytes \<Rightarrow> 'a action \<Rightarrow> 'a action" where
  "txn_put k v p = Put k v (try_tikv (\<lambda>_. p))"
definition txn_delete :: "bytes \<Rightarrow> 'a action \<Rightarrow> 'a action" where
  "txn_delete k p = Delete k (try_tikv (\<lambda>_. p))"
definition txn_batch_get :: "bytes list \<Rightarrow> (kv_pair list \<Rightarrow> 'a action) \<Rightarrow> 'a action" where
  "txn_batch_get ks f = BatchGet ks (try_tikv f)"
definition txn_scan :: "bound_range \<Rightarrow> nat \<Rightarrow> (kv_pair list \<Rightarrow> 'a action) \<Rightarrow> 'a action" where
  "txn_scan rg n f = Scan False rg n (try_tikv f)"
definition txn_scan_reverse :: "bound_range \<Rightarrow> nat \<Rightarrow> (kv_pair list \<Rightarrow> 'a action) \<Rightarrow> 'a action" where
  "txn_scan_reverse rg n f = Scan True rg n (try_tikv f)"
definition txn_scan_keys :: "bound_range \<Rightarrow> nat \<Rightarrow> (bytes list \<Rightarrow> 'a action) \<Rightarrow> 'a action" where
  "txn_scan_keys rg n f = Scan False rg n (try_tikv (\<lambda>kvs. f (map fst kvs)))"

definition txn_scan_keys_reverse :: "bound_range \<Rightarrow> nat \<Rightarrow> (bytes list \<Rightarrow> 'a action) \<Rightarrow> 'a action" where
  "txn_scan_keys_reverse rg n f = Scan True rg n (try_tikv (\<lambda>kvs. f (map fst kvs)))"

definition call :: "'a action \<Rightarrow> ('a \<Rightarrow> 'b action) \<Rightarrow> 'b action" where
  "call p f = bindp p (\<lambda>r. case r of Inl e \<Rightarrow> Ret (Inl e) | Inr x \<Rightarrow> f x)"

definition unwrap :: "'a option \<Rightarrow> ('a \<Rightarrow> 'b prog) \<Rightarrow> 'b prog" where
  "unwrap r f = (case r of None \<Rightarrow> Crash | Some x \<Rightarrow> f x)"

text \<open>A body that takes the lock drops its guard when it returns, with a value or with an error.\<close>

definition scoped :: "'a action \<Rightarrow> 'a action" where
  "scoped p = bindp p (\<lambda>r. Unlock (Ret r))"

text \<open>\<^verbatim>\<open>for key in keys { txn.delete(key).await?; }\<close>\<close>

primrec delete_all :: "bytes list \<Rightarrow> 'a action \<Rightarrow> 'a action" where
  "delete_all [] p = p"
| "delete_all (k # ks) p = txn_delete k (delete_all ks p)"

text \<open>\<^verbatim>\<open>result.into_iter().map(|pair| (pair.0, pair.1)).collect()\<close> into a \<^verbatim>\<open>HashMap\<close>: a later pair replaces an earlier
  one.\<close>

definition collect_pairs :: "kv_pair list \<Rightarrow> store" where
  "collect_pairs kvs = map_of (rev kvs)"

section \<open>The transaction client\<close>

definition error_retryable :: "tikv_error \<Rightarrow> bool" where
  "error_retryable err =
     (case err of
        RegionError \<Rightarrow> True
      | EntryNotFoundInRegionCache \<Rightarrow> True
      | KvError \<Rightarrow> True
      | MultipleKeyErrors \<Rightarrow> True
      | PessimisticLockError \<Rightarrow> True
      | _ \<Rightarrow> False)"

text \<open>The loop of \<^verbatim>\<open>exec_in_txn\<close> for a call outside a transaction. The argument is \<^verbatim>\<open>self.retries\<close> before
  an iteration. The guard of the closure is dropped when it returns. An error of the commit that is
  not retryable falls out of the \<^verbatim>\<open>match\<close>, sleeps and goes round the loop.\<close>

primrec exec_loop :: "nat \<Rightarrow> 'a action \<Rightarrow> 'a action" where
  "exec_loop 0 f = Ret (Inl (TikvClient (StringError ''retry count exceeded'')))"
| "exec_loop (Suc retries) f =
     Begin (\<lambda>b. case b of
         Inl e \<Rightarrow> if retries = 0 then Ret (Inl (TikvClient e)) else exec_loop retries f
       | Inr _ \<Rightarrow>
           bindp (scoped f) (\<lambda>result. Lock (
             case result of
               Inr res \<Rightarrow>
                 Commit (\<lambda>c. case c of
                     Inr _ \<Rightarrow> Ret (Inr res)
                   | Inl e \<Rightarrow>
                       if error_retryable e then
                         (if retries = 0 then Ret (Inl (TikvClient e)) else exec_loop retries f)
                       else exec_loop retries f)
             | Inl e \<Rightarrow>
                 Rollback (\<lambda>c. case c of
                     Inl re \<Rightarrow> Ret (Inl (TikvClient re))
                   | Inr _ \<Rightarrow>
                       (case e of
                          TikvClient client_err \<Rightarrow>
                            if error_retryable client_err then
                              (if retries = 0 then Ret (Inl (TikvClient client_err)) else exec_loop retries f)
                            else Ret (Inl (TikvClient client_err))
                        | _ \<Rightarrow> Ret (Inl e))))))"

text \<open>\<open>in_txn\<close> is whether the caller has a transaction (\<^verbatim>\<open>self.txn\<close> is \<^verbatim>\<open>Some\<close>): the innermost open one.\<close>

definition exec_in_txn :: "env \<Rightarrow> bool \<Rightarrow> 'a action \<Rightarrow> 'a action" where
  "exec_in_txn env in_txn f =
     (if in_txn then scoped f
      else exec_loop (unat (txn_retry_count (SERVER_CONFIG env))) f)"

definition get_txn_client :: "env \<Rightarrow> 'a action \<Rightarrow> 'a action" where
  "get_txn_client env p = (if TIKV_TXN_CLIENTS env then p else Throw REDIS_BACKEND_NOT_CONNECTED_ERR)"

text \<open>The version a new key gets. It takes the lock itself.\<close>

definition get_version_for_new :: "env \<Rightarrow> bytes \<Rightarrow> u16 action" where
  "get_version_for_new env key =
     (if \<not> async_deletion_enabled_or_default (SERVER_CONFIG env) then Return 0
      else
        scoped (Lock (
        txn_get (encode_txnkv_gc_key (KEY_ENCODER env) key) (\<lambda>gc.
        unwrap (case gc of
                  None \<Rightarrow> Some 0
                | Some v \<Rightarrow> map_option (\<lambda>version. if version = - 1 then 0 else version + 1) (u16_from_be_bytes v))
          (\<lambda>next_version.
            txn_get (encode_txnkv_gc_version_key (KEY_ENCODER env) key next_version) (\<lambda>r.
            case r of None \<Rightarrow> Return next_version | Some _ \<Rightarrow> Throw KEY_VERSION_EXHUSTED_ERR))))))"

text \<open>\<^verbatim>\<open>gen_next_meta_index\<close>: the remainder by zero panics.\<close>

definition gen_next_meta_index :: "env \<Rightarrow> (u16 \<Rightarrow> 'a action) \<Rightarrow> 'a action" where
  "gen_next_meta_index env f =
     FetchIdx (\<lambda>i.
       let n = config_meta_key_number_or_default (SERVER_CONFIG env) in
       if n = 0 then Crash else f (i mod n))"

section \<open>Running a program with a client library\<close>

record ('w, 't) api =
  api_begin :: "'w \<Rightarrow> (tikv_error + 't) \<times> 'w"
  api_get :: "bytes \<Rightarrow> 't \<Rightarrow> (tikv_error + bytes option) \<times> 't"
  api_key_exists :: "bytes \<Rightarrow> 't \<Rightarrow> (tikv_error + bool) \<times> 't"
  api_put :: "bytes \<Rightarrow> bytes \<Rightarrow> 't \<Rightarrow> (tikv_error + unit) \<times> 't"
  api_delete :: "bytes \<Rightarrow> 't \<Rightarrow> (tikv_error + unit) \<times> 't"
  api_batch_get :: "bytes list \<Rightarrow> 't \<Rightarrow> (tikv_error + kv_pair list) \<times> 't"
  api_scan :: "bool \<Rightarrow> bound_range \<Rightarrow> nat \<Rightarrow> 't \<Rightarrow> (tikv_error + kv_pair list) \<times> 't"
  api_commit :: "'t \<Rightarrow> 'w \<Rightarrow> (tikv_error + unit) \<times> 'w"
  api_rollback :: "'t \<Rightarrow> 'w \<Rightarrow> (tikv_error + unit) \<times> 'w"
  api_new_transaction :: "'w \<Rightarrow> 't"
  api_raw_get :: "bytes \<Rightarrow> 'w \<Rightarrow> (tikv_error + bytes option) \<times> 'w"
  api_raw_put :: "bytes \<Rightarrow> bytes \<Rightarrow> 'w \<Rightarrow> (tikv_error + unit) \<times> 'w"
  api_raw_cas :: "bytes \<Rightarrow> bytes option \<Rightarrow> bytes \<Rightarrow> 'w \<Rightarrow> (tikv_error + bytes option \<times> bool) \<times> 'w"
  api_raw_batch_delete :: "bytes list \<Rightarrow> 'w \<Rightarrow> (tikv_error + unit) \<times> 'w"
  api_raw_scan :: "bound_range \<Rightarrow> nat \<Rightarrow> 'w \<Rightarrow> (tikv_error + kv_pair list) \<times> 'w"
  api_raw_batch_get :: "bytes list \<Rightarrow> 'w \<Rightarrow> (tikv_error + kv_pair list) \<times> 'w"
  api_raw_batch_put :: "kv_pair list \<Rightarrow> 'w \<Rightarrow> (tikv_error + unit) \<times> 'w"
  api_raw_delete_range :: "bound_range \<Rightarrow> 'w \<Rightarrow> (tikv_error + unit) \<times> 'w"

text \<open>The state of a run: the cluster, the counter \<^verbatim>\<open>INDEX_COUNT\<close> and the open transactions, innermost
  first, each with whether its mutex is held.\<close>

record ('w, 't) world =
  cluster :: 'w
  INDEX_COUNT :: u16
  txns :: "('t \<times> bool) list"

datatype 'a outcome = Done 'a | Panicked | Deadlocked

text \<open>A call on a transaction needs its guard. Locking a mutex that is held never returns: the mutex of
  \<^verbatim>\<open>tokio\<close> is not re-entrant and a command runs as one task.\<close>

definition on_txn ::
  "('t \<Rightarrow> 'r \<times> 't) \<Rightarrow> ('r \<Rightarrow> ('w, 't) world \<Rightarrow> 'a outcome \<times> ('w, 't) world) \<Rightarrow> ('w, 't) world
   \<Rightarrow> 'a outcome \<times> ('w, 't) world" where
  "on_txn act cont w =
     (case txns w of
        (t, True) # ts \<Rightarrow> (case act t of (r, t') \<Rightarrow> cont r (w\<lparr>txns := (t', True) # ts\<rparr>))
      | _ \<Rightarrow> (Panicked, w))"

definition close_txn ::
  "('t \<Rightarrow> 'w \<Rightarrow> 'r \<times> 'w) \<Rightarrow> ('r \<Rightarrow> ('w, 't) world \<Rightarrow> 'a outcome \<times> ('w, 't) world) \<Rightarrow> ('w, 't) world
   \<Rightarrow> 'a outcome \<times> ('w, 't) world" where
  "close_txn act cont w =
     (case txns w of
        (t, True) # ts \<Rightarrow> (case act t (cluster w) of (r, c) \<Rightarrow> cont r (w\<lparr>cluster := c, txns := ts\<rparr>))
      | _ \<Rightarrow> (Panicked, w))"

definition on_cluster ::
  "('w \<Rightarrow> 'r \<times> 'w) \<Rightarrow> ('r \<Rightarrow> ('w, 't) world \<Rightarrow> 'a outcome \<times> ('w, 't) world) \<Rightarrow> ('w, 't) world
   \<Rightarrow> 'a outcome \<times> ('w, 't) world" where
  "on_cluster act cont w = (case act (cluster w) of (r, c) \<Rightarrow> cont r (w\<lparr>cluster := c\<rparr>))"

primrec run :: "('w, 't) api \<Rightarrow> 'a prog \<Rightarrow> ('w, 't) world \<Rightarrow> 'a outcome \<times> ('w, 't) world" where
  "run api (Ret x) = (\<lambda>w. (Done x, w))"
| "run api Crash = (\<lambda>w. (Panicked, w))"
| "run api (Lock p) =
     (\<lambda>w. case txns w of
            (t, False) # ts \<Rightarrow> run api p (w\<lparr>txns := (t, True) # ts\<rparr>)
          | (t, True) # ts \<Rightarrow> (Deadlocked, w)
          | [] \<Rightarrow> (Panicked, w))"
| "run api (Unlock p) =
     (\<lambda>w. case txns w of
            (t, h) # ts \<Rightarrow> run api p (w\<lparr>txns := (t, False) # ts\<rparr>)
          | [] \<Rightarrow> (Panicked, w))"
| "run api (Get k f) = on_txn (api_get api k) (\<lambda>r. run api (f r))"
| "run api (KeyExists k f) = on_txn (api_key_exists api k) (\<lambda>r. run api (f r))"
| "run api (Put k v f) = on_txn (api_put api k v) (\<lambda>r. run api (f r))"
| "run api (Delete k f) = on_txn (api_delete api k) (\<lambda>r. run api (f r))"
| "run api (BatchGet ks f) = on_txn (api_batch_get api ks) (\<lambda>r. run api (f r))"
| "run api (Scan d rg n f) = on_txn (api_scan api d rg n) (\<lambda>r. run api (f r))"
| "run api (FetchIdx f) =
     (\<lambda>w. run api (f (INDEX_COUNT w)) (w\<lparr>INDEX_COUNT := INDEX_COUNT w + 1\<rparr>))"
| "run api (Begin f) =
     (\<lambda>w. case api_begin api (cluster w) of
            (Inl e, c) \<Rightarrow> run api (f (Inl e)) (w\<lparr>cluster := c\<rparr>)
          | (Inr t, c) \<Rightarrow> run api (f (Inr ())) (w\<lparr>cluster := c, txns := (t, False) # txns w\<rparr>))"
| "run api (Commit f) = close_txn (api_commit api) (\<lambda>r. run api (f r))"
| "run api (Rollback f) = close_txn (api_rollback api) (\<lambda>r. run api (f r))"
| "run api (BeginLatest p) =
     (\<lambda>w. run api p (w\<lparr>txns := (api_new_transaction api (cluster w), False) # txns w\<rparr>))"
| "run api (DropTxn p) =
     (\<lambda>w. case txns w of t # ts \<Rightarrow> run api p (w\<lparr>txns := ts\<rparr>) | [] \<Rightarrow> (Panicked, w))"
| "run api (RawGet k f) = on_cluster (api_raw_get api k) (\<lambda>r. run api (f r))"
| "run api (RawPut k v f) = on_cluster (api_raw_put api k v) (\<lambda>r. run api (f r))"
| "run api (RawCas k old v f) = on_cluster (api_raw_cas api k old v) (\<lambda>r. run api (f r))"
| "run api (RawBatchDelete ks f) = on_cluster (api_raw_batch_delete api ks) (\<lambda>r. run api (f r))"
| "run api (RawScan rg n f) = on_cluster (api_raw_scan api rg n) (\<lambda>r. run api (f r))"
| "run api (RawBatchGet ks f) = on_cluster (api_raw_batch_get api ks) (\<lambda>r. run api (f r))"
| "run api (RawBatchPut kvs f) = on_cluster (api_raw_batch_put api kvs) (\<lambda>r. run api (f r))"
| "run api (RawDeleteRange rg f) = on_cluster (api_raw_delete_range api rg) (\<lambda>r. run api (f r))"

lemma run_bindp:
  "run api (bindp p g) w =
   (case run api p w of
      (Done x, w') \<Rightarrow> run api (g x) w' | (Panicked, w') \<Rightarrow> (Panicked, w') | (Deadlocked, w') \<Rightarrow> (Deadlocked, w'))"
  by (induction p arbitrary: w)
    (auto simp: on_txn_def close_txn_def on_cluster_def split: list.splits prod.splits bool.splits sum.splits)

section \<open>Weakest preconditions\<close>

text \<open>What a run can do with any client library that keeps its promises, whatever it answers where
  the promises leave a choice. A state is the committed data and, for each open transaction, the data
  it was begun on, the data it sees and whether its mutex is held. \<open>F\<close> are the errors the library may
  answer with. The data of the raw client is apart from that of transactions: its calls change nothing
  here, and may answer anything.\<close>

type_synonym txn_view = "store \<times> store \<times> bool"
type_synonym db_state = "store \<times> txn_view list"

text \<open>The answer to \<^verbatim>\<open>batch_get\<close>: the pairs of the requested keys that exist, in any order, none of them
  more often than it was requested.\<close>

definition batch_answer :: "store \<Rightarrow> bytes list \<Rightarrow> kv_pair list \<Rightarrow> bool" where
  "batch_answer m ks kvs \<longleftrightarrow>
     set kvs = {(k, v). k \<in> set ks \<and> m k = Some v} \<and> mset (map fst kvs) \<subseteq># mset ks"

definition with_txn :: "(store \<Rightarrow> bool) \<Rightarrow> bool \<Rightarrow> db_state \<Rightarrow> bool" where
  "with_txn ok bad s = (case snd s of (sn, m, True) # ts \<Rightarrow> ok m | _ \<Rightarrow> bad)"

fun set_view :: "db_state \<Rightarrow> store \<Rightarrow> db_state" where
  "set_view (db, (sn, m, h) # ts) m' = (db, (sn, m', h) # ts)"
| "set_view (db, []) m' = (db, [])"

primrec wp :: "tikv_error set \<Rightarrow> 'a prog \<Rightarrow> ('a outcome \<Rightarrow> db_state \<Rightarrow> bool) \<Rightarrow> db_state \<Rightarrow> bool" where
  "wp F (Ret x) Q s = Q (Done x) s"
| "wp F Crash Q s = Q Panicked s"
| "wp F (Lock p) Q s =
     (case s of
        (db, (sn, m, False) # ts) \<Rightarrow> wp F p Q (db, (sn, m, True) # ts)
      | (db, (sn, m, True) # ts) \<Rightarrow> Q Deadlocked s
      | _ \<Rightarrow> Q Panicked s)"
| "wp F (Unlock p) Q s =
     (case s of
        (db, (sn, m, h) # ts) \<Rightarrow> wp F p Q (db, (sn, m, False) # ts)
      | _ \<Rightarrow> Q Panicked s)"
| "wp F (Get k f) Q s =
     with_txn (\<lambda>m. (\<forall>e\<in>F. wp F (f (Inl e)) Q s) \<and> wp F (f (Inr (m k))) Q s) (Q Panicked s) s"
| "wp F (KeyExists k f) Q s =
     with_txn (\<lambda>m. (\<forall>e\<in>F. wp F (f (Inl e)) Q s) \<and> wp F (f (Inr (m k \<noteq> None))) Q s) (Q Panicked s) s"
| "wp F (Put k v f) Q s =
     with_txn (\<lambda>m. (\<forall>e\<in>F. wp F (f (Inl e)) Q s) \<and> wp F (f (Inr ())) Q (set_view s (m(k \<mapsto> v))))
       (Q Panicked s) s"
| "wp F (Delete k f) Q s =
     with_txn (\<lambda>m. (\<forall>e\<in>F. wp F (f (Inl e)) Q s) \<and> wp F (f (Inr ())) Q (set_view s (m(k := None))))
       (Q Panicked s) s"
| "wp F (BatchGet ks f) Q s =
     with_txn (\<lambda>m. (\<forall>e\<in>F. wp F (f (Inl e)) Q s) \<and>
         (\<forall>kvs. batch_answer m ks kvs \<longrightarrow> wp F (f (Inr kvs)) Q s))
       (Q Panicked s) s"
| "wp F (Scan d rg n f) Q s =
     with_txn (\<lambda>m. (\<forall>e\<in>F. wp F (f (Inl e)) Q s) \<and>
         (finite (dom m) \<longrightarrow> wp F (f (Inr (scan_store m d rg n))) Q s))
       (Q Panicked s) s"
| "wp F (FetchIdx f) Q s = (\<forall>i. wp F (f i) Q s)"
| "wp F (Begin f) Q s =
     ((\<forall>e\<in>F. wp F (f (Inl e)) Q s) \<and>
      (case s of (db, ts) \<Rightarrow> wp F (f (Inr ())) Q (db, (db, db, False) # ts)))"
| "wp F (Commit f) Q s =
     (case s of
        (db, (sn, m, True) # ts) \<Rightarrow>
          (\<forall>e\<in>F. wp F (f (Inl e)) Q (db, ts)) \<and>
          (\<forall>db'. (db = sn \<longrightarrow> db' = m) \<longrightarrow>
             (UndeterminedError \<in> F \<longrightarrow> wp F (f (Inl UndeterminedError)) Q (db', ts)) \<and>
             wp F (f (Inr ())) Q (db', ts))
      | _ \<Rightarrow> Q Panicked s)"
| "wp F (Rollback f) Q s =
     (case s of
        (db, (sn, m, True) # ts) \<Rightarrow> (\<forall>e\<in>F. wp F (f (Inl e)) Q (db, ts)) \<and> wp F (f (Inr ())) Q (db, ts)
      | _ \<Rightarrow> Q Panicked s)"
| "wp F (BeginLatest p) Q s = (case s of (db, ts) \<Rightarrow> wp F p Q (db, (db, db, False) # ts))"
| "wp F (DropTxn p) Q s = (case s of (db, t # ts) \<Rightarrow> wp F p Q (db, ts) | _ \<Rightarrow> Q Panicked s)"
| "wp F (RawGet k f) Q s = (\<forall>r. wp F (f r) Q s)"
| "wp F (RawPut k v f) Q s = (\<forall>r. wp F (f r) Q s)"
| "wp F (RawCas k old v f) Q s = (\<forall>r. wp F (f r) Q s)"
| "wp F (RawBatchDelete ks f) Q s = (\<forall>r. wp F (f r) Q s)"
| "wp F (RawScan rg n f) Q s = (\<forall>r. wp F (f r) Q s)"
| "wp F (RawBatchGet ks f) Q s = (\<forall>r. wp F (f r) Q s)"
| "wp F (RawBatchPut kvs f) Q s = (\<forall>r. wp F (f r) Q s)"
| "wp F (RawDeleteRange rg f) Q s = (\<forall>r. wp F (f r) Q s)"

section \<open>Soundness of the preconditions\<close>

lemma wp_bindp:
  "wp F (bindp p g) Q s \<longleftrightarrow>
   wp F p (\<lambda>out s'. case out of Done x \<Rightarrow> wp F (g x) Q s' | Panicked \<Rightarrow> Q Panicked s' | Deadlocked \<Rightarrow> Q Deadlocked s') s"
proof (induction p arbitrary: s)
  case (Lock p) then show ?case by (auto split: prod.splits list.splits bool.splits)
next
  case (Unlock p) then show ?case by (auto split: prod.splits list.splits)
next
  case (Begin f) then show ?case by (auto split: prod.splits)
next
  case (Commit f) then show ?case by (auto split: prod.splits list.splits bool.splits)
next
  case (Rollback f) then show ?case by (auto split: prod.splits list.splits bool.splits)
next
  case (BeginLatest p) then show ?case by (auto split: prod.splits)
next
  case (DropTxn p) then show ?case by (auto split: prod.splits list.splits)
qed simp_all

lemma world_cases [case_names none held free]:
  fixes w :: "('w, 't) world"
  obtains "txns w = []" | t ts where "txns w = (t, True) # ts" | t ts where "txns w = (t, False) # ts"
  by (metis (full_types) list.exhaust surj_pair)

text \<open>What the commands rely on of the client library. \<open>data\<close> is what a cluster has committed, \<open>snap\<close> what a
  transaction was begun on, \<open>view\<close> what it reads, its own writes included. An error leaves everything as
  it was, except that of a commit whose effect is undetermined. A commit makes the view of the
  transaction the committed data when nothing was committed since it was begun.\<close>

definition abs_world :: "('w \<Rightarrow> store) \<Rightarrow> ('t \<Rightarrow> store) \<Rightarrow> ('t \<Rightarrow> store) \<Rightarrow> ('w, 't) world \<Rightarrow> db_state" where
  "abs_world data snap view w = (data (cluster w), map (\<lambda>(t, h). (snap t, view t, h)) (txns w))"

locale tikv_laws =
  fixes api :: "('w, 't) api"
    and data :: "'w \<Rightarrow> store"
    and snap :: "'t \<Rightarrow> store"
    and view :: "'t \<Rightarrow> store"
    and F :: "tikv_error set"
  assumes begin_law: "api_begin api c = (b, c') \<Longrightarrow>
      data c' = data c \<and> (case b of Inl e \<Rightarrow> e \<in> F | Inr t \<Rightarrow> snap t = data c \<and> view t = data c)"
    and get_law: "api_get api k t = (g, t') \<Longrightarrow>
      snap t' = snap t \<and> view t' = view t \<and> (case g of Inl e \<Rightarrow> e \<in> F | Inr r \<Rightarrow> r = view t k)"
    and key_exists_law: "api_key_exists api k t = (x, t') \<Longrightarrow>
      snap t' = snap t \<and> view t' = view t \<and> (case x of Inl e \<Rightarrow> e \<in> F | Inr r \<Rightarrow> r = (view t k \<noteq> None))"
    and put_law: "api_put api k v t = (u, t') \<Longrightarrow>
      snap t' = snap t \<and>
      (case u of Inl e \<Rightarrow> e \<in> F \<and> view t' = view t | Inr _ \<Rightarrow> view t' = (view t)(k \<mapsto> v))"
    and delete_law: "api_delete api k t = (u, t') \<Longrightarrow>
      snap t' = snap t \<and>
      (case u of Inl e \<Rightarrow> e \<in> F \<and> view t' = view t | Inr _ \<Rightarrow> view t' = (view t)(k := None))"
    and batch_get_law: "api_batch_get api ks t = (l, t') \<Longrightarrow>
      snap t' = snap t \<and> view t' = view t \<and>
      (case l of Inl e \<Rightarrow> e \<in> F | Inr kvs \<Rightarrow> batch_answer (view t) ks kvs)"
    and scan_law: "api_scan api d rg n t = (l, t') \<Longrightarrow>
      snap t' = snap t \<and> view t' = view t \<and>
      (case l of Inl e \<Rightarrow> e \<in> F | Inr kvs \<Rightarrow> kvs = scan_store (view t) d rg n)"
    and commit_law: "api_commit api t c = (u, c') \<Longrightarrow>
      (case u of
         Inl e \<Rightarrow> e \<in> F \<and> (data c' = data c \<or> e = UndeterminedError \<and> (data c = snap t \<longrightarrow> data c' = view t))
       | Inr _ \<Rightarrow> data c = snap t \<longrightarrow> data c' = view t)"
    and rollback_law: "api_rollback api t c = (u, c') \<Longrightarrow>
      data c' = data c \<and> (case u of Inl e \<Rightarrow> e \<in> F | Inr _ \<Rightarrow> True)"
    and new_transaction_law: "snap (api_new_transaction api c) = data c \<and> view (api_new_transaction api c) = data c"
    and finite_view: "finite (dom (view t))"
    and raw_frame: "data (snd (api_raw_get api k c)) = data c" "data (snd (api_raw_put api k v c)) = data c"
      "data (snd (api_raw_cas api k old v c)) = data c" "data (snd (api_raw_batch_delete api ks c)) = data c"
      "data (snd (api_raw_scan api rg n c)) = data c" "data (snd (api_raw_batch_get api ks c)) = data c"
      "data (snd (api_raw_batch_put api kvs c)) = data c" "data (snd (api_raw_delete_range api rg c)) = data c"
begin

abbreviation holds_after :: "('a outcome \<Rightarrow> db_state \<Rightarrow> bool) \<Rightarrow> 'a outcome \<times> ('w, 't) world \<Rightarrow> bool" where
  "holds_after Q \<equiv> case_prod (\<lambda>out w'. Q out (abs_world data snap view w'))"

lemma on_txn_sound:
  assumes "with_txn ok (Q Panicked s) s" "s = abs_world data snap view w"
    and "\<And>t ts r t'. \<lbrakk>txns w = (t, True) # ts; act t = (r, t'); ok (view t)\<rbrakk> \<Longrightarrow>
      holds_after Q (cont r (w\<lparr>txns := (t', True) # ts\<rparr>))"
  shows "holds_after Q (on_txn act cont w)"
proof (cases "\<exists>t ts. txns w = (t, True) # ts")
  case True
  then obtain t ts where w: "txns w = (t, True) # ts" by blast
  obtain r t' where a: "act t = (r, t')" by fastforce
  from assms(1,2) w have "ok (view t)" by (simp add: with_txn_def abs_world_def)
  then show ?thesis using assms(3) [OF w a] by (simp add: on_txn_def w a)
next
  case False
  then show ?thesis using assms(1,2)
    by (auto simp: on_txn_def with_txn_def abs_world_def split: list.splits bool.splits prod.splits)
qed

lemma on_cluster_sound:
  assumes "\<And>r w'. abs_world data snap view w' = abs_world data snap view w \<Longrightarrow> holds_after Q (cont r w')"
    and "data (snd (act (cluster w))) = data (cluster w)"
  shows "holds_after Q (on_cluster act cont w)"
proof -
  obtain r c where act: "act (cluster w) = (r, c)" by fastforce
  then show ?thesis using assms(1) [of "w\<lparr>cluster := c\<rparr>" r] assms(2)
    by (simp add: on_cluster_def abs_world_def)
qed

lemma run_sound: "wp F p Q (abs_world data snap view w) \<Longrightarrow> holds_after Q (run api p w)"
proof (induction p arbitrary: w)
  case (Lock p)
  show ?case
  proof (cases w rule: world_cases)
    case (free t ts)
    then show ?thesis using Lock.prems Lock.IH [of "w\<lparr>txns := (t, True) # ts\<rparr>"] by (simp add: abs_world_def)
  qed (use Lock.prems in \<open>simp_all add: abs_world_def\<close>)
next
  case (Unlock p)
  show ?case
  proof (cases "txns w")
    case (Cons t ts)
    then show ?thesis using Unlock.prems Unlock.IH [of "w\<lparr>txns := (fst t, False) # ts\<rparr>"]
      by (simp add: abs_world_def case_prod_beta)
  qed (use Unlock.prems in \<open>simp_all add: abs_world_def\<close>)
next
  case (Get k f)
  show ?case unfolding run.simps
  proof (rule on_txn_sound [where Q = Q, OF Get.prems [unfolded wp.simps] refl], goal_cases)
    case (1 t ts r t')
    then show ?case using get_law [OF 1(2)]
      by (intro Get.IH) (auto simp: abs_world_def split: sum.splits)
  qed
next
  case (KeyExists k f)
  show ?case unfolding run.simps
  proof (rule on_txn_sound [where Q = Q, OF KeyExists.prems [unfolded wp.simps] refl], goal_cases)
    case (1 t ts r t')
    then show ?case using key_exists_law [OF 1(2)]
      by (intro KeyExists.IH) (auto simp: abs_world_def split: sum.splits)
  qed
next
  case (Put k v f)
  show ?case unfolding run.simps
  proof (rule on_txn_sound [where Q = Q, OF Put.prems [unfolded wp.simps] refl], goal_cases)
    case (1 t ts r t')
    then show ?case using put_law [OF 1(2)]
      by (intro Put.IH) (auto simp: abs_world_def split: sum.splits)
  qed
next
  case (Delete k f)
  show ?case unfolding run.simps
  proof (rule on_txn_sound [where Q = Q, OF Delete.prems [unfolded wp.simps] refl], goal_cases)
    case (1 t ts r t')
    then show ?case using delete_law [OF 1(2)]
      by (intro Delete.IH) (auto simp: abs_world_def split: sum.splits)
  qed
next
  case (BatchGet ks f)
  show ?case unfolding run.simps
  proof (rule on_txn_sound [where Q = Q, OF BatchGet.prems [unfolded wp.simps] refl], goal_cases)
    case (1 t ts r t')
    then show ?case using batch_get_law [OF 1(2)]
      by (intro BatchGet.IH) (auto simp: abs_world_def split: sum.splits)
  qed
next
  case (Scan d rg n f)
  show ?case unfolding run.simps
  proof (rule on_txn_sound [where Q = Q, OF Scan.prems [unfolded wp.simps] refl], goal_cases)
    case (1 t ts r t')
    then show ?case using scan_law [OF 1(2)] finite_view [of t]
      by (intro Scan.IH) (auto simp: abs_world_def split: sum.splits)
  qed
next
  case (FetchIdx f)
  then show ?case by (auto simp: abs_world_def)
next
  case (Begin f)
  obtain b c where b: "api_begin api (cluster w) = (b, c)" by fastforce
  show ?case
  proof (cases b)
    case (Inl e)
    then show ?thesis using Begin.prems begin_law [OF b] Begin.IH [of "f (Inl e)" "w\<lparr>cluster := c\<rparr>"]
      by (simp add: b abs_world_def)
  next
    case (Inr t)
    then show ?thesis using Begin.prems begin_law [OF b]
        Begin.IH [of "f (Inr ())" "w\<lparr>cluster := c, txns := (t, False) # txns w\<rparr>"]
      by (simp add: b abs_world_def)
  qed
next
  case (Commit f)
  show ?case
  proof (cases w rule: world_cases)
    case (held t ts)
    obtain u c where u: "api_commit api t (cluster w) = (u, c)" by fastforce
    show ?thesis using Commit.prems commit_law [OF u] held Commit.IH [of "f u" "w\<lparr>cluster := c, txns := ts\<rparr>"]
      by (cases u) (auto simp: u close_txn_def abs_world_def)
  qed (use Commit.prems in \<open>simp_all add: abs_world_def close_txn_def\<close>)
next
  case (Rollback f)
  show ?case
  proof (cases w rule: world_cases)
    case (held t ts)
    obtain u c where u: "api_rollback api t (cluster w) = (u, c)" by fastforce
    show ?thesis using Rollback.prems rollback_law [OF u] held Rollback.IH [of "f u" "w\<lparr>cluster := c, txns := ts\<rparr>"]
      by (cases u) (auto simp: u close_txn_def abs_world_def)
  qed (use Rollback.prems in \<open>simp_all add: abs_world_def close_txn_def\<close>)
next
  case (BeginLatest p)
  then show ?case
    using BeginLatest.IH [of "w\<lparr>txns := (api_new_transaction api (cluster w), False) # txns w\<rparr>"]
      new_transaction_law [of "cluster w"]
    by (simp add: abs_world_def)
next
  case (DropTxn p)
  show ?case
  proof (cases "txns w")
    case (Cons t ts)
    then show ?thesis using DropTxn.prems DropTxn.IH [of "w\<lparr>txns := ts\<rparr>"] by (simp add: abs_world_def)
  qed (use DropTxn.prems in \<open>simp_all add: abs_world_def\<close>)
next
  case (RawGet k f)
  show ?case unfolding run.simps
    by (rule on_cluster_sound [OF RawGet.IH]) (use RawGet.prems in \<open>simp_all add: raw_frame\<close>)
next
  case (RawPut k v f)
  show ?case unfolding run.simps
    by (rule on_cluster_sound [OF RawPut.IH]) (use RawPut.prems in \<open>simp_all add: raw_frame\<close>)
next
  case (RawCas k old v f)
  show ?case unfolding run.simps
    by (rule on_cluster_sound [OF RawCas.IH]) (use RawCas.prems in \<open>simp_all add: raw_frame\<close>)
next
  case (RawBatchDelete ks f)
  show ?case unfolding run.simps
    by (rule on_cluster_sound [OF RawBatchDelete.IH]) (use RawBatchDelete.prems in \<open>simp_all add: raw_frame\<close>)
next
  case (RawScan rg n f)
  show ?case unfolding run.simps
    by (rule on_cluster_sound [OF RawScan.IH]) (use RawScan.prems in \<open>simp_all add: raw_frame\<close>)
next
  case (RawBatchGet ks f)
  show ?case unfolding run.simps
    by (rule on_cluster_sound [OF RawBatchGet.IH]) (use RawBatchGet.prems in \<open>simp_all add: raw_frame\<close>)
next
  case (RawBatchPut kvs f)
  show ?case unfolding run.simps
    by (rule on_cluster_sound [OF RawBatchPut.IH]) (use RawBatchPut.prems in \<open>simp_all add: raw_frame\<close>)
next
  case (RawDeleteRange rg f)
  show ?case unfolding run.simps
    by (rule on_cluster_sound [OF RawDeleteRange.IH]) (use RawDeleteRange.prems in \<open>simp_all add: raw_frame\<close>)
qed simp_all

end

section \<open>Rules for the preconditions\<close>

lemma db_state_cases [case_names none held free]:
  fixes s :: db_state
  obtains db where "s = (db, [])" | db sn m ts where "s = (db, (sn, m, True) # ts)"
  | db sn m ts where "s = (db, (sn, m, False) # ts)"
  by (metis (full_types) list.exhaust surj_pair)

lemma wp_mono:
  "wp F p Q s \<Longrightarrow> (\<And>out s'. Q out s' \<Longrightarrow> Q' out s') \<Longrightarrow> wp F p Q' s"
proof (induction p arbitrary: s)
  case (Lock p)
  then show ?case by (cases s rule: db_state_cases) simp_all
next
  case (Unlock p)
  then show ?case by (cases s rule: db_state_cases) simp_all
next
  case (Get k f)
  then have "wp F (f r) Q s \<Longrightarrow> wp F (f r) Q' s" for r s by blast
  then show ?case using Get.prems by (cases s rule: db_state_cases) (simp_all add: with_txn_def)
next
  case (KeyExists k f)
  then have "wp F (f r) Q s \<Longrightarrow> wp F (f r) Q' s" for r s by blast
  then show ?case using KeyExists.prems by (cases s rule: db_state_cases) (simp_all add: with_txn_def)
next
  case (Put k v f)
  then have "wp F (f r) Q s \<Longrightarrow> wp F (f r) Q' s" for r s by blast
  then show ?case using Put.prems by (cases s rule: db_state_cases) (simp_all add: with_txn_def)
next
  case (Delete k f)
  then have "wp F (f r) Q s \<Longrightarrow> wp F (f r) Q' s" for r s by blast
  then show ?case using Delete.prems by (cases s rule: db_state_cases) (simp_all add: with_txn_def)
next
  case (BatchGet ks f)
  then have "wp F (f r) Q s \<Longrightarrow> wp F (f r) Q' s" for r s by blast
  then show ?case using BatchGet.prems by (cases s rule: db_state_cases) (simp_all add: with_txn_def)
next
  case (Scan d rg n f)
  then have "wp F (f r) Q s \<Longrightarrow> wp F (f r) Q' s" for r s by blast
  then show ?case using Scan.prems by (cases s rule: db_state_cases) (simp_all add: with_txn_def)
next
  case (Begin f)
  then have "wp F (f r) Q s \<Longrightarrow> wp F (f r) Q' s" for r s by blast
  then show ?case using Begin.prems by (cases s rule: db_state_cases) simp_all
next
  case (Commit f)
  then have "wp F (f r) Q s \<Longrightarrow> wp F (f r) Q' s" for r s by blast
  then show ?case using Commit.prems by (cases s rule: db_state_cases) simp_all
next
  case (Rollback f)
  then have "wp F (f r) Q s \<Longrightarrow> wp F (f r) Q' s" for r s by blast
  then show ?case using Rollback.prems by (cases s rule: db_state_cases) simp_all
next
  case (BeginLatest p)
  then show ?case by (cases s rule: db_state_cases) simp_all
next
  case (DropTxn p)
  then show ?case by (cases s rule: db_state_cases) simp_all
qed simp_all

lemma wp_held [wp_simps]:
  fixes db sn ts and m :: store
  defines "s \<equiv> (db, (sn, m, True) # ts)"
  shows "wp F (txn_get k f) Q s \<longleftrightarrow> (\<forall>e\<in>F. Q (Done (Inl (TikvClient e))) s) \<and> wp F (f (m k)) Q s"
    and "wp F (txn_key_exists k j) Q s \<longleftrightarrow>
      (\<forall>e\<in>F. Q (Done (Inl (TikvClient e))) s) \<and> wp F (j (m k \<noteq> None)) Q s"
    and "wp F (txn_put k v p) Q s \<longleftrightarrow>
      (\<forall>e\<in>F. Q (Done (Inl (TikvClient e))) s) \<and> wp F p Q (db, (sn, m(k \<mapsto> v), True) # ts)"
    and "wp F (txn_delete k p) Q s \<longleftrightarrow>
      (\<forall>e\<in>F. Q (Done (Inl (TikvClient e))) s) \<and> wp F p Q (db, (sn, m(k := None), True) # ts)"
    and "wp F (txn_batch_get ks g) Q s \<longleftrightarrow>
      (\<forall>e\<in>F. Q (Done (Inl (TikvClient e))) s) \<and> (\<forall>kvs. batch_answer m ks kvs \<longrightarrow> wp F (g kvs) Q s)"
    and "wp F (txn_scan rg n g) Q s \<longleftrightarrow>
      (\<forall>e\<in>F. Q (Done (Inl (TikvClient e))) s) \<and>
      (finite (dom m) \<longrightarrow> wp F (g (scan_store m False rg n)) Q s)"
    and "wp F (txn_scan_reverse rg n g) Q s \<longleftrightarrow>
      (\<forall>e\<in>F. Q (Done (Inl (TikvClient e))) s) \<and>
      (finite (dom m) \<longrightarrow> wp F (g (scan_store m True rg n)) Q s)"
    and "wp F (txn_scan_keys rg n h) Q s \<longleftrightarrow>
      (\<forall>e\<in>F. Q (Done (Inl (TikvClient e))) s) \<and>
      (finite (dom m) \<longrightarrow> wp F (h (map fst (scan_store m False rg n))) Q s)"
    and "wp F (txn_scan_keys_reverse rg n h) Q s \<longleftrightarrow>
      (\<forall>e\<in>F. Q (Done (Inl (TikvClient e))) s) \<and>
      (finite (dom m) \<longrightarrow> wp F (h (map fst (scan_store m True rg n))) Q s)"
  by (simp_all add: s_def with_txn_def try_tikv_def txn_get_def txn_key_exists_def txn_put_def txn_delete_def
      txn_batch_get_def txn_scan_def txn_scan_reverse_def txn_scan_keys_def txn_scan_keys_reverse_def)

lemma wp_control [wp_simps]:
  "wp F (Throw e) Q s \<longleftrightarrow> Q (Done (Inl e)) s"
  "wp F (Return x) Q s \<longleftrightarrow> Q (Done (Inr x)) s"
  "wp F (unwrap r f) Q s \<longleftrightarrow> (case r of None \<Rightarrow> Q Panicked s | Some x \<Rightarrow> wp F (f x) Q s)"
  by (simp_all add: Throw_def Return_def unwrap_def split: option.splits)

lemma restrict_map_UNIV [simp]: "m |` UNIV = m"
  by (rule ext) simp

lemma wp_delete_all [wp_simps]:
  assumes "\<And>e m'. e \<in> F \<Longrightarrow> Q (Done (Inl (TikvClient e))) (db, (sn, m', True) # ts)"
  shows "wp F (delete_all ks p) Q (db, (sn, m, True) # ts) \<longleftrightarrow> wp F p Q (db, (sn, m |` (- set ks), True) # ts)"
proof (induction ks arbitrary: m)
  case (Cons k ks)
  have "(m(k := None)) |` (- set ks) = m |` (- set (k # ks))" by (auto simp: restrict_map_def)
  then show ?case using Cons assms by (simp add: wp_simps del: fun_upd_apply restrict_fun_upd)
qed simp

text \<open>The specification of a body: it returns, with the transaction it was started in still the
  innermost one and nothing committed, and an error of the library or a result \<open>R\<close> allows.\<close>

fun result_ok :: "tikv_error set \<Rightarrow> ('a result \<Rightarrow> store \<Rightarrow> bool) \<Rightarrow> 'a result \<Rightarrow> store \<Rightarrow> bool" where
  "result_ok F R (Inl (TikvClient e)) m = (e \<in> F)"
| "result_ok F R (Inl (RTString s)) m = R (Inl (RTString s)) m"
| "result_ok F R (Inl (RTOwned b)) m = R (Inl (RTOwned b)) m"
| "result_ok F R (Inr x) m = R (Inr x) m"

definition body_post ::
  "tikv_error set \<Rightarrow> store \<Rightarrow> store \<Rightarrow> txn_view list \<Rightarrow> bool set \<Rightarrow> ('a result \<Rightarrow> store \<Rightarrow> bool) \<Rightarrow>
   'a result outcome \<Rightarrow> db_state \<Rightarrow> bool" where
  "body_post F db sn ts H R out s \<longleftrightarrow>
     (\<exists>r m h. out = Done r \<and> s = (db, (sn, m, h) # ts) \<and> h \<in> H \<and> result_ok F R r m)"

definition body_spec :: "tikv_error set \<Rightarrow> bool set \<Rightarrow> 'a action \<Rightarrow> store \<Rightarrow> ('a result \<Rightarrow> store \<Rightarrow> bool) \<Rightarrow> bool" where
  "body_spec F H p m R \<longleftrightarrow> (\<forall>db sn ts. wp F p (body_post F db sn ts H R) (db, (sn, m, False) # ts))"

lemma body_post_simps [wp_simps]:
  "body_post F db sn ts H R (Done (Inr x)) (db, (sn, m, h) # ts) \<longleftrightarrow> h \<in> H \<and> R (Inr x) m"
  "body_post F db sn ts H R (Done (Inl (TikvClient e))) (db, (sn, m, h) # ts) \<longleftrightarrow> h \<in> H \<and> e \<in> F"
  "body_post F db sn ts H R (Done (Inl (RTString s))) (db, (sn, m, h) # ts) \<longleftrightarrow> h \<in> H \<and> R (Inl (RTString s)) m"
  "body_post F db sn ts H R (Done (Inl (RTOwned b))) (db, (sn, m, h) # ts) \<longleftrightarrow> h \<in> H \<and> R (Inl (RTOwned b)) m"
  "\<not> body_post F db sn ts H R Panicked st"
  "\<not> body_post F db sn ts H R Deadlocked st"
  by (auto simp: body_post_def)

lemma error_constants [wp_simps]:
  "REDIS_WRONG_TYPE_ERR \<noteq> TikvClient e" "REDIS_NO_SUCH_KEY_ERR \<noteq> TikvClient e"
  "REDIS_INDEX_OUT_OF_RANGE_ERR \<noteq> TikvClient e" "REDIS_VALUE_IS_NOT_INTEGER_ERR \<noteq> TikvClient e"
  "REDIS_LIST_TOO_LARGE_ERR \<noteq> TikvClient e" "KEY_VERSION_EXHUSTED_ERR \<noteq> TikvClient e"
  "DECREMENT_OVERFLOW \<noteq> TikvClient e"
  by (simp_all add: REDIS_WRONG_TYPE_ERR_def REDIS_NO_SUCH_KEY_ERR_def REDIS_INDEX_OUT_OF_RANGE_ERR_def
      REDIS_VALUE_IS_NOT_INTEGER_ERR_def REDIS_LIST_TOO_LARGE_ERR_def KEY_VERSION_EXHUSTED_ERR_def
      DECREMENT_OVERFLOW_def)

lemma body_post_error [wp_simps]:
  "(\<And>t. e \<noteq> TikvClient t) \<Longrightarrow>
   body_post F db sn ts H R (Done (Inl e)) (db, (sn, m, h) # ts) \<longleftrightarrow> h \<in> H \<and> R (Inl e) m"
  by (cases e) (auto simp: body_post_def)


lemma body_postE:
  assumes "body_post F db sn ts H R out s"
  obtains (ok) x m h where "out = Done (Inr x)" "s = (db, (sn, m, h) # ts)" "h \<in> H" "R (Inr x) m"
  | (tikv) e m h where "out = Done (Inl (TikvClient e))" "s = (db, (sn, m, h) # ts)" "h \<in> H" "e \<in> F"
  | (error) e m h where "out = Done (Inl e)" "s = (db, (sn, m, h) # ts)" "h \<in> H" "\<And>t. e \<noteq> TikvClient t" "R (Inl e) m"
proof -
  obtain r m h where r: "out = Done r" "s = (db, (sn, m, h) # ts)" "h \<in> H" "result_ok F R r m"
    using assms unfolding body_post_def by blast
  then show thesis using that by (cases "(F, R, r, m)" rule: result_ok.cases) auto
qed

lemma body_specI:
  "(\<And>db sn ts. wp F p (body_post F db sn ts H R) (db, (sn, m, False) # ts)) \<Longrightarrow> body_spec F H p m R"
  by (simp add: body_spec_def)

lemma body_spec_mono:
  "body_spec F H p m R \<Longrightarrow> (\<And>r m'. R r m' \<Longrightarrow> R' r m') \<Longrightarrow> H \<subseteq> H' \<Longrightarrow> body_spec F H' p m R'"
  unfolding body_spec_def
  by (intro allI, erule allE, erule allE, erule allE, erule wp_mono) (auto simp: wp_simps elim!: body_postE)

lemma body_spec_scoped:
  assumes "body_spec F H p m R"
  shows "body_spec F {False} (scoped p) m R"
proof (rule body_specI)
  fix db sn ts
  have "wp F p (body_post F db sn ts H R) (db, (sn, m, False) # ts)"
    using assms by (simp add: body_spec_def)
  then show "wp F (scoped p) (body_post F db sn ts {False} R) (db, (sn, m, False) # ts)"
    unfolding scoped_def wp_bindp
    by (rule wp_mono) (auto simp: wp_simps elim!: body_postE)
qed

text \<open>A call of a function that runs in the transaction of the caller.\<close>

lemma wp_call:
  assumes "body_spec F {False} p m R"
    and "\<And>x m'. R (Inr x) m' \<Longrightarrow> wp F (f x) Q (db, (sn, m', False) # ts)"
    and "\<And>e m'. e \<in> F \<Longrightarrow> Q (Done (Inl (TikvClient e))) (db, (sn, m', False) # ts)"
    and "\<And>e m'. R (Inl e) m' \<Longrightarrow> (\<And>t. e \<noteq> TikvClient t) \<Longrightarrow> Q (Done (Inl e)) (db, (sn, m', False) # ts)"
  shows "wp F (call p f) Q (db, (sn, m, False) # ts)"
proof -
  have "wp F p (body_post F db sn ts {False} R) (db, (sn, m, False) # ts)"
    using assms(1) by (simp add: body_spec_def)
  then show ?thesis
    unfolding call_def wp_bindp by (rule wp_mono) (use assms in \<open>auto elim!: body_postE\<close>)
qed

lemma batch_answer_distinct:
  assumes "batch_answer m ks kvs" "distinct ks" "\<And>k. k \<in> set ks \<Longrightarrow> m k \<noteq> None"
  shows "fst ` set kvs = set ks" "mset (map snd kvs) = mset (map (\<lambda>k. the (m k)) ks)"
proof -
  have s: "set kvs = {(k, v). k \<in> set ks \<and> m k = Some v}" and sub: "mset (map fst kvs) \<subseteq># mset ks"
    using assms(1) by (auto simp: batch_answer_def)
  show keys: "fst ` set kvs = set ks" using s assms(3) by (force simp: image_iff)
  have "distinct (map fst kvs)" using sub assms(2)
    by (metis distinct_append mset_append mset_subset_eq_exists_conv mset_eq_imp_distinct_iff ex_mset)
  then have perm: "mset (map fst kvs) = mset ks"
    using keys assms(2) set_eq_iff_mset_eq_distinct [of "map fst kvs" ks] by simp
  have "map snd kvs = map (\<lambda>k. the (m k)) (map fst kvs)" using s by auto
  then have "mset (map snd kvs) = image_mset (\<lambda>k. the (m k)) (mset (map fst kvs))" by (metis mset_map)
  then show "mset (map snd kvs) = mset (map (\<lambda>k. the (m k)) ks)" using perm by simp
qed

lemma collect_batch:
  assumes "batch_answer m ks kvs" "k \<in> set ks"
  shows "collect_pairs kvs k = m k"
proof (cases "m k")
  case None
  then have "k \<notin> fst ` set (rev kvs)" using assms by (auto simp: batch_answer_def)
  then show ?thesis using None by (simp add: collect_pairs_def map_of_eq_None_iff)
next
  case (Some v)
  then have "(k, v) \<in> set (rev kvs)" using assms by (auto simp: batch_answer_def)
  then obtain v' where v': "map_of (rev kvs) k = Some v'" by (meson weak_map_of_SomeI)
  then have "(k, v') \<in> set kvs" using map_of_SomeD by fastforce
  then show ?thesis using v' assms(1) by (auto simp: collect_pairs_def batch_answer_def)
qed

section \<open>Transactions\<close>

text \<open>What a closure in a transaction of its own leaves behind: the result with the data the closure
  wrote, or an error with the data untouched.\<close>

fun txn_result :: "tikv_error set \<Rightarrow> nat \<Rightarrow> store \<Rightarrow> ('a result \<Rightarrow> store \<Rightarrow> bool) \<Rightarrow> 'a result \<Rightarrow> store \<Rightarrow> bool" where
  "txn_result F n db R (Inl (TikvClient e)) m = (m = db \<and> (F = {} \<longrightarrow> n = 0))"
| "txn_result F n db R (Inl (RTString s)) m = (m = db \<and> (\<exists>m'. R (Inl (RTString s)) m'))"
| "txn_result F n db R (Inl (RTOwned b)) m = (m = db \<and> (\<exists>m'. R (Inl (RTOwned b)) m'))"
| "txn_result F n db R (Inr x) m = R (Inr x) m"

definition txn_post ::
  "tikv_error set \<Rightarrow> nat \<Rightarrow> store \<Rightarrow> txn_view list \<Rightarrow> ('a result \<Rightarrow> store \<Rightarrow> bool) \<Rightarrow>
   'a result outcome \<Rightarrow> db_state \<Rightarrow> bool" where
  "txn_post F n db ts R out s \<longleftrightarrow> (\<exists>r m. out = Done r \<and> s = (m, ts) \<and> txn_result F n db R r m)"

lemma txn_post_Done [wp_simps]:
  "txn_post F n db ts R (Done r) (m, ts') \<longleftrightarrow> ts' = ts \<and> txn_result F n db R r m"
  by (auto simp: txn_post_def)

lemma txn_result_retry: "txn_result F n db R r m \<Longrightarrow> F \<noteq> {} \<Longrightarrow> txn_result F k db R r m"
  by (cases "(F, n, db, R, r, m)" rule: txn_result.cases) auto

lemma wp_exec_loop:
  assumes f: "body_spec F H f db R" and definite: "UndeterminedError \<notin> F"
  shows "wp F (exec_loop n f) (txn_post F n db ts R) (db, ts)"
proof (induction n)
  case 0
  show ?case by (simp add: wp_simps)
next
  case (Suc n)
  let ?Q = "txn_post F (Suc n) db ts R"
  have again: "wp F (exec_loop n f) ?Q (db, ts)" if "F \<noteq> {}"
    using that by (intro wp_mono [OF Suc.IH]) (auto simp: txn_post_def intro: txn_result_retry)
  have body: "wp F (scoped f) (body_post F db db ts {False} R) (db, (db, db, False) # ts)"
    using body_spec_scoped [OF f] by (simp add: body_spec_def)
  have seq: "wp F (bindp (scoped f) g) ?Q (db, (db, db, False) # ts)"
    if "\<And>r m. result_ok F R r m \<Longrightarrow> wp F (g r) ?Q (db, (db, m, False) # ts)" for g
    unfolding wp_bindp by (rule wp_mono [OF body]) (use that in \<open>auto simp: body_post_def\<close>)
  have after: "wp F (Lock (case r of
        Inr res \<Rightarrow> Commit (commit_then res)
      | Inl e \<Rightarrow> Rollback (rollback_then e))) ?Q (db, (db, m, False) # ts)"
    if "result_ok F R r m"
      "\<And>x e. e \<in> F \<Longrightarrow> wp F (commit_then x (Inl e)) ?Q (db, ts)"
      "\<And>x. commit_then x (Inr ()) = Ret (Inr x)"
      "\<And>x e. e \<in> F \<Longrightarrow> wp F (rollback_then x (Inl e)) ?Q (db, ts)"
      "\<And>t. t \<in> F \<Longrightarrow> wp F (rollback_then (TikvClient t) (Inr ())) ?Q (db, ts)"
      "\<And>e m. R (Inl e) m \<Longrightarrow> (\<And>t. e \<noteq> TikvClient t) \<Longrightarrow> wp F (rollback_then e (Inr ())) ?Q (db, ts)"
    for r m commit_then rollback_then
    using that definite by (cases "(F, R, r, m)" rule: result_ok.cases) (auto simp: wp_simps)
  show ?case
    unfolding exec_loop.simps wp.simps prod.case sum.case
    by (intro conjI ballI seq after)
      (use again in \<open>auto simp: wp_simps split: RTError.splits\<close>)
qed

section \<open>Commands\<close>

text \<open>\<^verbatim>\<open>match resp { Ok(x) => Ok(ok(x)), Err(e) => Ok(resp_err(e)) }\<close>\<close>

definition reply :: "('a \<Rightarrow> Frame) \<Rightarrow> 'a action \<Rightarrow> Frame action" where
  "reply ok p = bindp p (\<lambda>resp. Return (case resp of Inr x \<Rightarrow> ok x | Inl e \<Rightarrow> resp_err e))"

definition tikv_error_reply :: Frame where
  "tikv_error_reply = ErrorString ''ERR tikv client error''"

definition retries :: "env \<Rightarrow> nat" where
  "retries env = unat (txn_retry_count (SERVER_CONFIG env))"

text \<open>A command started on the data \<open>m\<close>, in the transaction of the caller or in one of its own, answers
  with a frame and leaves data that \<open>R\<close> allows, or it reports an error of the library. In a transaction
  of its own that error comes with the data untouched.\<close>

definition tikv_failure :: "Frame result \<Rightarrow> bool" where
  "tikv_failure r \<longleftrightarrow> r = Inr tikv_error_reply \<or> (\<exists>e. r = Inl (TikvClient e))"

definition served :: "tikv_error set \<Rightarrow> env \<Rightarrow> bool \<Rightarrow> Frame action \<Rightarrow> store \<Rightarrow> (Frame \<Rightarrow> store \<Rightarrow> bool) \<Rightarrow> bool" where
  "served F env in_txn p m R \<longleftrightarrow>
     (if in_txn then
        body_spec F {False} p m (\<lambda>r m'. F \<noteq> {} \<and> r = Inr tikv_error_reply \<or> (\<exists>fr. r = Inr fr \<and> R fr m'))
      else
        (\<forall>ts. wp F p (\<lambda>out s. \<exists>r m'. out = Done r \<and> s = (m', ts) \<and>
            ((F = {} \<longrightarrow> retries env = 0) \<and> tikv_failure r \<and> m' = m \<or> (\<exists>fr. r = Inr fr \<and> R fr m')))
          (m, ts)))"

lemma served_exec:
  assumes f: "body_spec F H f m R0" and definite: "UndeterminedError \<notin> F"
    and ok: "\<And>x m'. R0 (Inr x) m' \<Longrightarrow> R (ok x) m'"
    and err: "\<And>e m'. R0 (Inl e) m' \<Longrightarrow> (\<And>t. e \<noteq> TikvClient t) \<Longrightarrow> R (resp_err e) (if in_txn then m' else m)"
  shows "served F env in_txn (reply ok (exec_in_txn env in_txn f)) m R"
proof (cases in_txn)
  case True
  have "body_spec F {False} (reply ok (scoped f)) m
      (\<lambda>r m'. F \<noteq> {} \<and> r = Inr tikv_error_reply \<or> (\<exists>fr. r = Inr fr \<and> R fr m'))"
  proof (rule body_specI)
    fix db sn ts
    have "wp F (scoped f) (body_post F db sn ts {False} R0) (db, (sn, m, False) # ts)"
      using body_spec_scoped [OF f] by (simp add: body_spec_def)
    then show "wp F (reply ok (scoped f)) (body_post F db sn ts {False}
        (\<lambda>r m'. F \<noteq> {} \<and> r = Inr tikv_error_reply \<or> (\<exists>fr. r = Inr fr \<and> R fr m'))) (db, (sn, m, False) # ts)"
      unfolding reply_def wp_bindp
      by (rule wp_mono)
        (use ok err True in \<open>auto simp: wp_simps tikv_error_reply_def resp_err_def elim!: body_postE\<close>)
  qed
  then show ?thesis using True by (simp add: served_def exec_in_txn_def)
next
  case False
  have errs: "R0 (Inl (RTString s)) x \<Longrightarrow> R (ErrorString s) m" "R0 (Inl (RTOwned b)) x \<Longrightarrow> R (ErrorOwned b) m"
    for s b x
    using err [of "RTString s" x] err [of "RTOwned b" x] False by (simp_all add: resp_err_def)
  have res: "txn_result F n m R0 r m' \<Longrightarrow>
      (F = {} \<longrightarrow> n = 0) \<and> (case r of Inr x \<Rightarrow> ok x | Inl e \<Rightarrow> resp_err e) = tikv_error_reply \<and> m' = m \<or>
      R (case r of Inr x \<Rightarrow> ok x | Inl e \<Rightarrow> resp_err e) m'" for n r m'
    using ok errs
    by (cases "(F, n, m, R0, r, m')" rule: txn_result.cases)
      (auto simp: tikv_error_reply_def resp_err_def)
  have "wp F (reply ok (exec_loop n f)) (\<lambda>out s. \<exists>r m'. out = Done r \<and> s = (m', ts) \<and>
      ((F = {} \<longrightarrow> n = 0) \<and> tikv_failure r \<and> m' = m \<or> (\<exists>fr. r = Inr fr \<and> R fr m'))) (m, ts)" for n ts
    unfolding reply_def wp_bindp
    by (rule wp_mono [OF wp_exec_loop [OF f definite]])
      (use res in \<open>auto simp: txn_post_def Return_def tikv_failure_def\<close>)
  then show ?thesis using False by (simp add: served_def exec_in_txn_def retries_def)
qed

text \<open>A command that returns the frame of its closure as it is.\<close>

lemma served_exec_frame:
  assumes f: "body_spec F H f m R0" and definite: "UndeterminedError \<notin> F"
    and ok: "\<And>fr m'. R0 (Inr fr) m' \<Longrightarrow> R fr m'"
    and err: "\<And>e m'. \<not> R0 (Inl e) m'"
  shows "served F env in_txn (exec_in_txn env in_txn f) m R"
proof (cases in_txn)
  case True
  have "R0 r m' \<Longrightarrow> F \<noteq> {} \<and> r = Inr tikv_error_reply \<or> (\<exists>fr. r = Inr fr \<and> R fr m')" for r m'
    using ok err by (cases r) auto
  then have "body_spec F {False} (scoped f) m
      (\<lambda>r m'. F \<noteq> {} \<and> r = Inr tikv_error_reply \<or> (\<exists>fr. r = Inr fr \<and> R fr m'))"
    by (rule body_spec_mono [OF body_spec_scoped [OF f] _ order_refl])
  then show ?thesis using True by (simp add: served_def exec_in_txn_def)
next
  case False
  have res: "txn_result F n m R0 r m' \<Longrightarrow>
      (F = {} \<longrightarrow> n = 0) \<and> tikv_failure r \<and> m' = m \<or> (\<exists>fr. r = Inr fr \<and> R fr m')" for n r m'
    using ok err by (cases "(F, n, m, R0, r, m')" rule: txn_result.cases) (auto simp: tikv_failure_def)
  have "wp F (exec_loop n f) (\<lambda>out s. \<exists>r m'. out = Done r \<and> s = (m', ts) \<and>
      ((F = {} \<longrightarrow> n = 0) \<and> tikv_failure r \<and> m' = m \<or> (\<exists>fr. r = Inr fr \<and> R fr m'))) (m, ts)" for n ts
    by (rule wp_mono [OF wp_exec_loop [OF f definite]]) (use res in \<open>auto simp: txn_post_def\<close>)
  then show ?thesis using False by (simp add: served_def exec_in_txn_def retries_def)
qed

lemma served_connected:
  "TIKV_TXN_CLIENTS env \<Longrightarrow> served F env in_txn (get_txn_client env p) m R = served F env in_txn p m R"
  by (simp add: get_txn_client_def)

text \<open>The same, said of a run with a client library.\<close>

definition completes ::
  "('w, 't) api \<Rightarrow> ('w \<Rightarrow> store) \<Rightarrow> tikv_error set \<Rightarrow> env \<Rightarrow> Frame action \<Rightarrow> ('w, 't) world \<Rightarrow>
   (Frame \<Rightarrow> store \<Rightarrow> bool) \<Rightarrow> bool" where
  "completes api data F env p w R \<longleftrightarrow>
     (\<exists>r w'. run api p w = (Done r, w') \<and> txns w' = txns w \<and>
        ((F = {} \<longrightarrow> retries env = 0) \<and> tikv_failure r \<and> data (cluster w') = data (cluster w) \<or>
         (\<exists>fr. r = Inr fr \<and> R fr (data (cluster w')))))"

definition client_ready ::
  "('w, 't) api \<Rightarrow> ('w \<Rightarrow> store) \<Rightarrow> ('t \<Rightarrow> store) \<Rightarrow> ('t \<Rightarrow> store) \<Rightarrow> tikv_error set \<Rightarrow> env \<Rightarrow> ('w, 't) world \<Rightarrow> bool" where
  "client_ready api data snap view F env w \<longleftrightarrow>
     tikv_laws api data snap view F \<and> UndeterminedError \<notin> F \<and> TIKV_TXN_CLIENTS env \<and> txns w = []"

lemma completesI:
  assumes "client_ready api data snap view F env w"
    and served: "\<lbrakk>UndeterminedError \<notin> F; TIKV_TXN_CLIENTS env\<rbrakk> \<Longrightarrow> served F env False p (data (cluster w)) R"
  shows "completes api data F env p w R"
proof -
  have laws: "tikv_laws api data snap view F" and w: "txns w = []"
    using assms(1) by (auto simp: client_ready_def)
  let ?Q = "\<lambda>out s. \<exists>r m'. out = Done r \<and> s = (m', []) \<and>
      ((F = {} \<longrightarrow> retries env = 0) \<and> tikv_failure r \<and> m' = data (cluster w) \<or> (\<exists>fr. r = Inr fr \<and> R fr m'))"
  have "wp F p ?Q (abs_world data snap view w)"
    using served assms(1) w by (simp add: served_def client_ready_def abs_world_def)
  from tikv_laws.run_sound [OF laws this]
  show ?thesis using w by (auto simp: completes_def abs_world_def)
qed

lemma completes_exec:
  assumes ready: "client_ready api data snap view F env w"
    and f: "body_spec F H f (data (cluster w)) R0"
    and ok: "\<And>x m'. R0 (Inr x) m' \<Longrightarrow> R (ok x) m'"
    and err: "\<And>e m'. R0 (Inl e) m' \<Longrightarrow> (\<And>t. e \<noteq> TikvClient t) \<Longrightarrow> R (resp_err e) (data (cluster w))"
  shows "completes api data F env (get_txn_client env (reply ok (exec_in_txn env False f))) w R"
  by (rule completesI [OF ready]) (simp add: served_connected, rule served_exec [OF f], use ok err in auto)

lemma completes_exec_frame:
  assumes ready: "client_ready api data snap view F env w"
    and f: "body_spec F H f (data (cluster w)) R0"
    and ok: "\<And>fr m'. R0 (Inr fr) m' \<Longrightarrow> R fr m'"
    and err: "\<And>e m'. \<not> R0 (Inl e) m'"
  shows "completes api data F env (get_txn_client env (exec_in_txn env False f)) w R"
  by (rule completesI [OF ready]) (simp add: served_connected, rule served_exec_frame [OF f], use ok err in auto)

lemma completes_exec_map:
  assumes ready: "client_ready api data snap view F env w"
    and f: "body_spec F H f (data (cluster w)) R0"
    and ok: "\<And>x m'. R0 (Inr x) m' \<Longrightarrow> R (ok x) m'"
    and err: "\<And>e m'. \<not> R0 (Inl e) m'"
  shows "completes api data F env (get_txn_client env (call (exec_in_txn env False f) (\<lambda>x. Return (ok x)))) w R"
proof (rule completesI [OF ready])
  assume definite: "UndeterminedError \<notin> F" and conn: "TIKV_TXN_CLIENTS env"
  have res: "txn_result F n (data (cluster w)) R0 r m' \<Longrightarrow>
      (F = {} \<longrightarrow> n = 0) \<and> (\<exists>e. r = Inl (TikvClient e)) \<and> m' = data (cluster w) \<or> (\<exists>x. r = Inr x \<and> R (ok x) m')" for n r m'
    using ok err by (cases "(F, n, data (cluster w), R0, r, m')" rule: txn_result.cases) auto
  have "wp F (call (exec_loop n f) (\<lambda>x. Return (ok x))) (\<lambda>out s. \<exists>r m'. out = Done r \<and> s = (m', ts) \<and>
      ((F = {} \<longrightarrow> n = 0) \<and> tikv_failure r \<and> m' = data (cluster w) \<or> (\<exists>fr. r = Inr fr \<and> R fr m')))
      (data (cluster w), ts)" for n ts
    unfolding call_def wp_bindp
    by (rule wp_mono [OF wp_exec_loop [OF f definite]])
      (use res in \<open>fastforce simp: txn_post_def Return_def tikv_failure_def\<close>)
  then show "served F env False (get_txn_client env (call (exec_in_txn env False f) (\<lambda>x. Return (ok x)))) (data (cluster w)) R"
    using conn by (simp add: served_def exec_in_txn_def retries_def get_txn_client_def)
qed

lemma completes_run:
  assumes "completes api data F env p w R" "run api p w = (Done (Inr fr), w')" "fr \<noteq> tikv_error_reply"
  shows "R fr (data (cluster w'))" "txns w' = txns w"
  using assms by (auto simp: completes_def tikv_failure_def)

lemma ready_after: "client_ready api data snap view F env w \<Longrightarrow> txns w' = txns w \<Longrightarrow> client_ready api data snap view F env w'"
  by (simp add: client_ready_def)

lemma ready_connected: "client_ready api data snap view F env w \<Longrightarrow> TIKV_TXN_CLIENTS env"
  by (simp add: client_ready_def)

section \<open>Atomicity\<close>

text \<open>A program that neither opens nor closes a transaction.\<close>

primrec txn_local :: "'a prog \<Rightarrow> bool" where
  "txn_local (Ret x) = True"
| "txn_local Crash = True"
| "txn_local (Lock p) = txn_local p"
| "txn_local (Unlock p) = txn_local p"
| "txn_local (Get k f) = (\<forall>r. txn_local (f r))"
| "txn_local (KeyExists k f) = (\<forall>r. txn_local (f r))"
| "txn_local (Put k v f) = (\<forall>r. txn_local (f r))"
| "txn_local (Delete k f) = (\<forall>r. txn_local (f r))"
| "txn_local (BatchGet ks f) = (\<forall>r. txn_local (f r))"
| "txn_local (Scan d rg n f) = (\<forall>r. txn_local (f r))"
| "txn_local (FetchIdx f) = (\<forall>r. txn_local (f r))"
| "txn_local (Begin f) = False"
| "txn_local (Commit f) = False"
| "txn_local (Rollback f) = False"
| "txn_local (BeginLatest p) = False"
| "txn_local (DropTxn p) = False"
| "txn_local (RawGet k f) = (\<forall>r. txn_local (f r))"
| "txn_local (RawPut k v f) = (\<forall>r. txn_local (f r))"
| "txn_local (RawCas k old v f) = (\<forall>r. txn_local (f r))"
| "txn_local (RawBatchDelete ks f) = (\<forall>r. txn_local (f r))"
| "txn_local (RawScan rg n f) = (\<forall>r. txn_local (f r))"
| "txn_local (RawBatchGet ks f) = (\<forall>r. txn_local (f r))"
| "txn_local (RawBatchPut kvs f) = (\<forall>r. txn_local (f r))"
| "txn_local (RawDeleteRange rg f) = (\<forall>r. txn_local (f r))"

lemma wp_txn_local:
  "txn_local p \<Longrightarrow> wp F p (\<lambda>out s. \<exists>m h. s = (db, (sn, m, h) # ts)) (db, (sn, m, h) # ts)"
  by (induction p arbitrary: m h) (auto simp: with_txn_def split: bool.splits)

text \<open>Whatever the closure of a transaction does, if the call does not return \<^verbatim>\<open>Ok\<close> then nothing was written,
  be it for an error of the command, an error of the library, a panic or a deadlock.\<close>

definition all_or_nothing :: "store \<Rightarrow> 'a result outcome \<Rightarrow> db_state \<Rightarrow> bool" where
  "all_or_nothing db out s \<longleftrightarrow> fst s = db \<or> (\<exists>x. out = Done (Inr x))"

lemma all_or_nothing_simps [simp]:
  "all_or_nothing db (Done (Inr x)) s" "all_or_nothing db out (db, ts)"
  by (simp_all add: all_or_nothing_def)

lemma wp_exec_loop_atomic:
  assumes f: "txn_local f" and definite: "UndeterminedError \<notin> F"
  shows "wp F (exec_loop n f) (all_or_nothing db) (db, ts)"
proof (induction n)
  case 0
  show ?case by simp
next
  case (Suc n)
  have seq: "wp F (bindp (scoped f) g) (all_or_nothing db) (db, (db, db, False) # ts)"
    if "\<And>r m. wp F (g r) (all_or_nothing db) (db, (db, m, False) # ts)" for g
    unfolding scoped_def wp_bindp
    by (rule wp_mono [OF wp_txn_local [OF f]])
      (use that in \<open>auto simp: wp_bindp split: outcome.splits\<close>)
  have after: "wp F (Lock (case r of
        Inr res \<Rightarrow> Commit (commit_then res)
      | Inl e \<Rightarrow> Rollback (rollback_then e))) (all_or_nothing db) (db, (db, m, False) # ts)"
    if "\<And>x e. wp F (commit_then x (Inl e)) (all_or_nothing db) (db, ts)"
      "\<And>x. commit_then x (Inr ()) = Ret (Inr x)"
      "\<And>x u. wp F (rollback_then x u) (all_or_nothing db) (db, ts)"
    for r m commit_then rollback_then
    using that definite by (cases r) auto
  show ?case
    unfolding exec_loop.simps wp.simps prod.case sum.case
    by (intro conjI ballI seq after)
      (use Suc.IH in \<open>auto split: RTError.splits sum.splits\<close>)
qed

end
