(* ===== verification/Keyspace.thy ===== *)
theory Keyspace
  imports Txn
begin

text \<open>
  The keys that belong to one user key, and the invariant on its versions. Deleting a large collection
  only removes its meta key and records the version for the garbage collector (\<^verbatim>\<open>src/gc.rs\<close>); the next
  collection under the same user key gets another version (\<^verbatim>\<open>get_version_for_new\<close>), which must have no
  keys left over. The invariant \<open>gc_ok\<close> says so, and the components keep it.
\<close>

section \<open>Keys of a user key\<close>

definition owned :: "KeyEncoder \<Rightarrow> bytes \<Rightarrow> bytes \<Rightarrow> bool" where
  "owned enc key x \<longleftrightarrow>
     (\<exists>s. x = ukp enc key @ s) \<or> x = encode_txnkv_gc_key enc key \<or>
     (\<exists>v. x = encode_txnkv_gc_version_key enc key v)"

text \<open>Nothing but keys of this user key changed.\<close>

definition others_same :: "KeyEncoder \<Rightarrow> bytes \<Rightarrow> store \<Rightarrow> store \<Rightarrow> bool" where
  "others_same enc key m m' \<longleftrightarrow> (\<forall>x. \<not> owned enc key x \<longrightarrow> m' x = m x)"

text \<open>A key of the collection with the given version: a data key or a sub-meta key.\<close>

definition versioned :: "KeyEncoder \<Rightarrow> bytes \<Rightarrow> u16 \<Rightarrow> bytes \<Rightarrow> bool" where
  "versioned enc key v x \<longleftrightarrow> (\<exists>t r. x = ukp enc key @ t # u16_to_be_bytes v @ 96 # r)"

definition gc_ok :: "KeyEncoder \<Rightarrow> store \<Rightarrow> bytes \<Rightarrow> u16 option \<Rightarrow> bool" where
  "gc_ok enc m key live \<longleftrightarrow>
     (\<forall>b. m (encode_txnkv_gc_key enc key) = Some b \<longrightarrow> (\<exists>v. b = u16_to_be_bytes v)) \<and>
     (\<forall>v x. live \<noteq> Some v \<and> m (encode_txnkv_gc_version_key enc key v) = None \<and> versioned enc key v x \<longrightarrow> m x = None)"

abbreviation mkey :: "env \<Rightarrow> bytes \<Rightarrow> bytes" where
  "mkey env key \<equiv> encode_txnkv_meta_key (KEY_ENCODER env) key"

text \<open>There is nothing under the user key.\<close>

definition no_key :: "env \<Rightarrow> store \<Rightarrow> bytes \<Rightarrow> bool" where
  "no_key env m key \<longleftrightarrow> m (mkey env key) = None \<and> gc_ok (KEY_ENCODER env) m key None"

lemma gc_key_shapes [enc_simps]:
  "encode_txnkv_gc_key enc k = [120, fst (instance_id enc), snd (instance_id enc), 103, 96] @ encode_bytes k"
  "encode_txnkv_gc_version_key enc k v =
     [120, fst (instance_id enc), snd (instance_id enc), 118, 96] @ encode_bytes k @ u16_to_be_bytes v"
  by (simp_all add: encode_txnkv_gc_key_def encode_txnkv_gc_version_key_def encode_txnkv_gc_key_prefix_def
      instance_id_slice_def layout_defs)

lemma ukp_not_gc [simp]:
  "ukp enc k @ s \<noteq> encode_txnkv_gc_key enc' k'" "encode_txnkv_gc_key enc' k' \<noteq> ukp enc k @ s"
  "ukp enc k @ s \<noteq> encode_txnkv_gc_version_key enc' k' v" "encode_txnkv_gc_version_key enc' k' v \<noteq> ukp enc k @ s"
  by (auto simp: enc_simps ukp_def instance_id_slice_def layout_defs)

lemma gc_keys_eq [simp]:
  "encode_txnkv_gc_key enc k \<noteq> encode_txnkv_gc_version_key enc k' v"
  "encode_txnkv_gc_version_key enc k' v \<noteq> encode_txnkv_gc_key enc k"
  "encode_txnkv_gc_key enc k = encode_txnkv_gc_key enc k' \<longleftrightarrow> k = k'"
  "encode_txnkv_gc_version_key enc k v = encode_txnkv_gc_version_key enc k' v' \<longleftrightarrow> k = k' \<and> v = v'"
  by (simp_all add: enc_simps)

lemma owned_ukp [simp]: "owned enc key (ukp enc key' @ s) \<longleftrightarrow> key = key'"
  by (auto simp: owned_def)

lemma owned_gc [simp]:
  "owned enc key (encode_txnkv_gc_key enc key') \<longleftrightarrow> key = key'"
  "owned enc key (encode_txnkv_gc_version_key enc key' v) \<longleftrightarrow> key = key'"
  by (auto simp: owned_def)

lemma owned_meta_key [simp]: "owned enc key (encode_txnkv_meta_key enc key') \<longleftrightarrow> key = key'"
  by (simp add: enc_simps)

lemma owned_unique: "owned enc key x \<Longrightarrow> owned enc key' x \<Longrightarrow> key = key'"
  unfolding owned_def [of enc key] by auto

lemma versioned_owned: "versioned enc key v x \<Longrightarrow> owned enc key x"
  by (auto simp: versioned_def owned_def)

lemma versioned_ukp [simp]:
  "versioned enc key v (ukp enc key' @ t # u16_to_be_bytes v' @ 96 # r) \<longleftrightarrow> key = key' \<and> v = v'"
  by (auto simp: versioned_def)

lemma not_versioned [simp]:
  "\<not> versioned enc key v (encode_txnkv_meta_key enc key')"
  "\<not> versioned enc key v (encode_txnkv_gc_key enc key')"
  "\<not> versioned enc key v (encode_txnkv_gc_version_key enc key' v')"
  by (auto simp: versioned_def enc_simps(2))

lemma others_same_refl [simp]: "others_same enc key m m"
  by (simp add: others_same_def)

lemma others_same_trans: "others_same enc key m m' \<Longrightarrow> others_same enc key m' m'' \<Longrightarrow> others_same enc key m m''"
  by (simp add: others_same_def)

lemma others_same_upd: "others_same enc key m m' \<Longrightarrow> owned enc key k \<Longrightarrow> others_same enc key m (m'(k := v))"
  by (auto simp: others_same_def)

section \<open>The version of a new key\<close>

text \<open>What \<^const>\<open>get_version_for_new\<close> computes; \<open>None\<close> is the error that versions are exhausted.\<close>

definition next_version :: "env \<Rightarrow> store \<Rightarrow> bytes \<Rightarrow> u16 option" where
  "next_version env m key =
     (if \<not> async_deletion_enabled_or_default (SERVER_CONFIG env) then Some 0
      else
        let v = (case m (encode_txnkv_gc_key (KEY_ENCODER env) key) of
                   None \<Rightarrow> 0
                 | Some b \<Rightarrow> (let g = the (u16_from_be_bytes b) in if g = - 1 then 0 else g + 1)) in
        if m (encode_txnkv_gc_version_key (KEY_ENCODER env) key v) = None then Some v else None)"

lemma get_version_for_new_spec:
  assumes "gc_ok (KEY_ENCODER env) m key live"
  shows "body_spec F {False} (get_version_for_new env key) m
    (\<lambda>r m'. m' = m \<and>
       r = (case next_version env m key of Some v \<Rightarrow> Inr v | None \<Rightarrow> Inl KEY_VERSION_EXHUSTED_ERR))"
proof (cases "async_deletion_enabled_or_default (SERVER_CONFIG env)")
  case False
  then show ?thesis
    by (auto simp: body_spec_def get_version_for_new_def next_version_def wp_simps)
next
  case True
  consider "m (encode_txnkv_gc_key (KEY_ENCODER env) key) = None"
    | g where "m (encode_txnkv_gc_key (KEY_ENCODER env) key) = Some (u16_to_be_bytes g)"
    using assms by (cases "m (encode_txnkv_gc_key (KEY_ENCODER env) key)") (auto simp: gc_ok_def)
  then show ?thesis
    using True unfolding get_version_for_new_def
    by cases
      (simp_all, (intro body_spec_scoped [where H = UNIV] body_specI,
        auto simp: wp_simps next_version_def Let_def split: option.splits)+)
qed

lemma next_version_fresh:
  assumes "async_deletion_enabled_or_default (SERVER_CONFIG env)" "gc_ok (KEY_ENCODER env) m key None"
    "next_version env m key = Some v"
  shows "versioned (KEY_ENCODER env) key v x \<Longrightarrow> m x = None"
    and "m (encode_txnkv_gc_version_key (KEY_ENCODER env) key v) = None"
  using assms by (auto simp: next_version_def gc_ok_def Let_def split: if_splits)

lemma key_not_expired0 [simp]: "\<not> key_is_expired env 0"
  by (simp add: key_is_expired_def)

lemma no_key_empty [simp]: "no_key env Map.empty key"
  by (simp add: no_key_def gc_ok_def)

end
