(* ===== verification/Lists.thy ===== *)
theory Lists
  imports Keyspace
begin

text \<open>
  The list commands, \<^verbatim>\<open>src/tikv/list.rs\<close>. A list has a meta key with its time to live, version and the
  two indices \<^verbatim>\<open>left\<close> and \<^verbatim>\<open>right\<close>; its elements are the data keys from \<^verbatim>\<open>left\<close> up to \<^verbatim>\<open>right\<close>. Every method of
  \<^verbatim>\<open>ListCommandCtx\<close> is a definition: \<open>in_txn\<close> says whether \<^verbatim>\<open>self.txn\<close> is set, the closure given to
  \<^verbatim>\<open>exec_in_txn\<close> is the definition with the suffix \<open>body\<close>. \<open>List_Sequences\<close> and the theories after it show
  that the commands implement operations on sequences.
\<close>

section \<open>The commands\<close>

definition INIT_INDEX :: u64 where "INIT_INDEX = 2 ^ 32"

text \<open>\<^verbatim>\<open>for idx in a..b\<close>\<close>

definition u64_range :: "u64 \<Rightarrow> u64 \<Rightarrow> u64 list" where
  "u64_range a b = map of_nat [unat a..<unat b]"

text \<open>The part that removing and expiring a list share: a long list is left to the garbage collector.\<close>

definition list_clear :: "env \<Rightarrow> bytes \<Rightarrow> u16 \<Rightarrow> u64 \<Rightarrow> u64 \<Rightarrow> 'a action \<Rightarrow> 'a action" where
  "list_clear env key version left right p =
     (let enc = KEY_ENCODER env; meta_key = encode_txnkv_meta_key enc key; len = right - left in
      if ucast (async_del_list_threshold_or_default (SERVER_CONFIG env)) \<le> len then
        txn_delete meta_key (
        txn_put (encode_txnkv_gc_key enc key) (u16_to_be_bytes version) (
        txn_put (encode_txnkv_gc_version_key enc key version) [get_type_bytes DT_List] p))
      else
        txn_scan_keys (encode_txnkv_list_data_key_range enc key version) u32_MAX (\<lambda>ks.
        delete_all ks (txn_delete meta_key p)))"

definition list_del_body :: "env \<Rightarrow> bytes \<Rightarrow> i64 action" where
  "list_del_body env key =
     Lock (txn_get (encode_txnkv_meta_key (KEY_ENCODER env) key) (\<lambda>meta.
       case meta of
         Some meta_value \<Rightarrow>
           unwrap (decode_key_list_meta meta_value) (\<lambda>(_, version, left, right).
             list_clear env key version left right (Return 1))
       | None \<Rightarrow> Return 0))"

definition do_async_txnkv_list_del :: "env \<Rightarrow> bool \<Rightarrow> bytes \<Rightarrow> i64 action" where
  "do_async_txnkv_list_del env in_txn key = get_txn_client env (exec_in_txn env in_txn (list_del_body env key))"

definition list_expire_body :: "env \<Rightarrow> bytes \<Rightarrow> i64 action" where
  "list_expire_body env key =
     Lock (txn_get (encode_txnkv_meta_key (KEY_ENCODER env) key) (\<lambda>meta.
       case meta of
         Some meta_value \<Rightarrow>
           unwrap (decode_key_list_meta meta_value) (\<lambda>(ttl, version, left, right).
             if \<not> key_is_expired env ttl then Return 0
             else list_clear env key version left right (Return 1))
       | None \<Rightarrow> Return 0))"

definition do_async_txnkv_list_expire_if_needed :: "env \<Rightarrow> bool \<Rightarrow> bytes \<Rightarrow> i64 action" where
  "do_async_txnkv_list_expire_if_needed env in_txn key =
     get_txn_client env (exec_in_txn env in_txn (list_expire_body env key))"

text \<open>The frame all the commands share: read the meta key, check the type, and give the fields to the
  command. \<open>wrong_type\<close> is what the command does with a key of another type.\<close>

definition with_list_meta ::
  "env \<Rightarrow> bytes \<Rightarrow> 'a action \<Rightarrow> 'a action \<Rightarrow> (u64 \<Rightarrow> u16 \<Rightarrow> u64 \<Rightarrow> u64 \<Rightarrow> 'a action) \<Rightarrow> 'a action" where
  "with_list_meta env key wrong_type absent f =
     Lock (txn_get (encode_txnkv_meta_key (KEY_ENCODER env) key) (\<lambda>meta.
       case meta of
         Some meta_value \<Rightarrow>
           unwrap (decode_key_type meta_value) (\<lambda>dt.
           if dt \<noteq> DT_List then wrong_type
           else unwrap (decode_key_list_meta meta_value) (\<lambda>(ttl, version, left, right).
             f ttl version left right))
       | None \<Rightarrow> absent))"

text \<open>\<^verbatim>\<open>drop(txn); self.clone().do_async_txnkv_list_expire_if_needed(&key).await?; ...\<close>\<close>

definition list_expire_then :: "env \<Rightarrow> bytes \<Rightarrow> 'a action \<Rightarrow> 'a action" where
  "list_expire_then env key p = Unlock (call (do_async_txnkv_list_expire_if_needed env True key) (\<lambda>_. p))"

fun push_loop ::
  "env \<Rightarrow> bytes \<Rightarrow> u16 \<Rightarrow> bool \<Rightarrow> bytes list \<Rightarrow> u64 \<Rightarrow> u64 \<Rightarrow> (u64 \<Rightarrow> u64 \<Rightarrow> 'a action) \<Rightarrow> 'a action" where
  "push_loop env key version op_left [] left right f = f left right"
| "push_loop env key version op_left (value # values) left right f =
     (if op_left then
        txn_put (encode_txnkv_list_data_key (KEY_ENCODER env) key (left - 1) version) value
          (push_loop env key version op_left values (left - 1) right f)
      else
        txn_put (encode_txnkv_list_data_key (KEY_ENCODER env) key right version) value
          (push_loop env key version op_left values left (right + 1) f))"

definition push_values ::
  "env \<Rightarrow> bytes \<Rightarrow> bytes list \<Rightarrow> bool \<Rightarrow> u64 \<Rightarrow> u16 \<Rightarrow> u64 \<Rightarrow> u64 \<Rightarrow> u64 action" where
  "push_values env key values op_left ttl version left right =
     push_loop env key version op_left values left right (\<lambda>left right.
       txn_put (encode_txnkv_meta_key (KEY_ENCODER env) key) (encode_txnkv_list_meta_value ttl version left right)
         (Return (right - left)))"

definition push_body :: "env \<Rightarrow> bytes \<Rightarrow> bytes list \<Rightarrow> bool \<Rightarrow> u64 action" where
  "push_body env key values op_left =
     with_list_meta env key (Throw REDIS_WRONG_TYPE_ERR)
       (Unlock (call (get_version_for_new env key) (\<lambda>version.
          Lock (push_values env key values op_left 0 version INIT_INDEX INIT_INDEX))))
       (\<lambda>ttl version left right.
          if key_is_expired env ttl then
            list_expire_then env key (call (get_version_for_new env key) (\<lambda>version.
              Lock (push_values env key values op_left ttl version INIT_INDEX INIT_INDEX)))
          else push_values env key values op_left ttl version left right)"

definition do_async_txnkv_push :: "env \<Rightarrow> bool \<Rightarrow> bytes \<Rightarrow> bytes list \<Rightarrow> bool \<Rightarrow> Frame action" where
  "do_async_txnkv_push env in_txn key values op_left =
     get_txn_client env (reply resp_int (exec_in_txn env in_txn (push_body env key values op_left)))"

text \<open>\<^verbatim>\<open>if left == right { txn.delete(meta_key) } else { txn.put(meta_key, new_meta_value) }\<close>\<close>

definition put_list_meta :: "env \<Rightarrow> bytes \<Rightarrow> bool \<Rightarrow> u64 \<Rightarrow> u16 \<Rightarrow> u64 \<Rightarrow> u64 \<Rightarrow> 'a action \<Rightarrow> 'a action" where
  "put_list_meta env key is_empty ttl version left right p =
     (let meta_key = encode_txnkv_meta_key (KEY_ENCODER env) key in
      if is_empty then txn_delete meta_key p
      else txn_put meta_key (encode_txnkv_list_meta_value ttl version left right) p)"

text \<open>The keys the loop of a pop collects, with the indices after it.\<close>

primrec pop_keys :: "env \<Rightarrow> bytes \<Rightarrow> u16 \<Rightarrow> bool \<Rightarrow> nat \<Rightarrow> u64 \<Rightarrow> u64 \<Rightarrow> bytes list \<times> u64 \<times> u64" where
  "pop_keys env key version op_left 0 left right = ([], left, right)"
| "pop_keys env key version op_left (Suc n) left right =
     (let idx = (if op_left then left else right - 1);
          (ks, left', right') =
            (if op_left then pop_keys env key version op_left n (left + 1) right
             else pop_keys env key version op_left n left (right - 1))
      in (encode_txnkv_list_data_key (KEY_ENCODER env) key idx version # ks, left', right'))"

text \<open>\<^verbatim>\<open>for pair in txn.batch_get(data_keys).await? { values.push(..); txn.delete(pair.0).await?; }\<close>\<close>

primrec pop_pairs :: "kv_pair list \<Rightarrow> Frame list \<Rightarrow> (Frame list \<Rightarrow> 'a action) \<Rightarrow> 'a action" where
  "pop_pairs [] values f = f values"
| "pop_pairs (pair # pairs) values f =
     txn_delete (fst pair) (pop_pairs pairs (values @ [resp_bulk (snd pair)]) f)"

definition pop_one :: "env \<Rightarrow> bytes \<Rightarrow> bool \<Rightarrow> u64 \<Rightarrow> u16 \<Rightarrow> u64 \<Rightarrow> u64 \<Rightarrow> Frame list action" where
  "pop_one env key op_left ttl version left right =
     (let idx = (if op_left then left else right - 1);
          left' = (if op_left then left + 1 else left);
          right' = (if op_left then right else right - 1);
          data_key = encode_txnkv_list_data_key (KEY_ENCODER env) key idx version
      in
        Get data_key (\<lambda>r. case r of
            Inr (Some value) \<Rightarrow>
              txn_delete data_key (
              put_list_meta env key (left' = right') ttl version left' right' (Return [resp_bulk value]))
          | _ \<Rightarrow> Crash))"

definition pop_many :: "env \<Rightarrow> bytes \<Rightarrow> bool \<Rightarrow> i64 \<Rightarrow> u64 \<Rightarrow> u16 \<Rightarrow> u64 \<Rightarrow> u64 \<Rightarrow> Frame list action" where
  "pop_many env key op_left cnt ttl version left right =
     (let real_count = (if right - left < cnt then right - left else cnt);
          (data_keys, left', right') = pop_keys env key version op_left (unat real_count) left right
      in
        txn_batch_get data_keys (\<lambda>pairs.
        pop_pairs pairs [] (\<lambda>values.
        put_list_meta env key (left' = right') ttl version left' right' (Return values))))"

definition pop_body :: "env \<Rightarrow> bytes \<Rightarrow> bool \<Rightarrow> i64 \<Rightarrow> Frame list action" where
  "pop_body env key op_left cnt =
     with_list_meta env key (Throw REDIS_WRONG_TYPE_ERR) (Return [])
       (\<lambda>ttl version left right.
          if key_is_expired env ttl then list_expire_then env key (Return [])
          else if cnt = 1 then pop_one env key op_left ttl version left right
          else pop_many env key op_left cnt ttl version left right)"

definition pop_reply :: "Frame list \<Rightarrow> Frame" where
  "pop_reply values =
     (if values = [] then resp_nil else if length values = 1 then values ! 0 else resp_array values)"

definition do_async_txnkv_pop :: "env \<Rightarrow> bool \<Rightarrow> bytes \<Rightarrow> bool \<Rightarrow> i64 \<Rightarrow> Frame action" where
  "do_async_txnkv_pop env in_txn key op_left cnt =
     get_txn_client env (reply pop_reply (exec_in_txn env in_txn (pop_body env key op_left cnt)))"

definition ltrim_at :: "env \<Rightarrow> bytes \<Rightarrow> i64 \<Rightarrow> i64 \<Rightarrow> u64 \<Rightarrow> u16 \<Rightarrow> u64 \<Rightarrow> u64 \<Rightarrow> unit action" where
  "ltrim_at env key start end ttl version left right =
     (let len = right - left;
          start = (if i64_lt start 0 then start + len else start);
          end = (if i64_lt end 0 then end + len else end);
          start = (if i64_lt start 0 then 0 else start);
          start = (if i64_lt (len - 1) start then len - 1 else start);
          end = (if i64_lt end 0 then 0 else end);
          end = (if i64_lt (len - 1) end then len - 1 else end);
          start = start + left;
          end = end + left;
          data_key = (\<lambda>idx. encode_txnkv_list_data_key (KEY_ENCODER env) key idx version);
          left_trim = start - left;
          left' = (if i64_lt 0 left_trim then left + left_trim else left);
          right_trim = right - end - 1;
          right' = (if i64_lt 0 right_trim then right - right_trim else right)
      in
        delete_all (map data_key (u64_range left start)) (
        delete_all (map data_key (u64_range (end + 1) right)) (
        put_list_meta env key (right' \<le> left') ttl version left' right' (Return ()))))"

definition ltrim_body :: "env \<Rightarrow> bytes \<Rightarrow> i64 \<Rightarrow> i64 \<Rightarrow> unit action" where
  "ltrim_body env key start end =
     with_list_meta env key (Throw REDIS_WRONG_TYPE_ERR) (Return ())
       (\<lambda>ttl version left right.
          if key_is_expired env ttl then list_expire_then env key (Return ())
          else ltrim_at env key start end ttl version left right)"

definition do_async_txnkv_ltrim :: "env \<Rightarrow> bool \<Rightarrow> bytes \<Rightarrow> i64 \<Rightarrow> i64 \<Rightarrow> Frame action" where
  "do_async_txnkv_ltrim env in_txn key start end =
     get_txn_client env (reply resp_ok_ignore (exec_in_txn env in_txn (ltrim_body env key start end)))"

definition lrange_at :: "env \<Rightarrow> bytes \<Rightarrow> i64 \<Rightarrow> i64 \<Rightarrow> u16 \<Rightarrow> u64 \<Rightarrow> u64 \<Rightarrow> Frame action" where
  "lrange_at env key r_left r_right version left right =
     (let llen = right - left;
          r_left = (if i64_lt r_left 0 then r_left + llen else r_left);
          r_right = (if i64_lt r_right 0 then r_right + llen else r_right)
      in
        if i64_lt r_right r_left \<or> i64_lt llen r_left then Return (resp_array [])
        else
          let real_left = r_left + left;
              real_length = r_right - r_left + 1;
              real_length = (if i64_lt llen real_length then llen else real_length)
          in
            unwrap (i64_to_u32 real_length) (\<lambda>limit.
            txn_scan (RangeFrom (encode_txnkv_list_data_key (KEY_ENCODER env) key real_left version)) limit
              (\<lambda>kvs. Return (resp_array (map (\<lambda>kv. resp_bulk (snd kv)) kvs)))))"

definition lrange_body :: "env \<Rightarrow> bytes \<Rightarrow> i64 \<Rightarrow> i64 \<Rightarrow> Frame action" where
  "lrange_body env key r_left r_right =
     with_list_meta env key (Return (resp_err REDIS_WRONG_TYPE_ERR)) (Return (resp_array []))
       (\<lambda>ttl version left right.
          if key_is_expired env ttl then list_expire_then env key (Return (resp_array []))
          else lrange_at env key r_left r_right version left right)"

definition do_async_txnkv_lrange :: "env \<Rightarrow> bool \<Rightarrow> bytes \<Rightarrow> i64 \<Rightarrow> i64 \<Rightarrow> Frame action" where
  "do_async_txnkv_lrange env in_txn key r_left r_right =
     get_txn_client env (exec_in_txn env in_txn (lrange_body env key r_left r_right))"

definition llen_body :: "env \<Rightarrow> bytes \<Rightarrow> Frame action" where
  "llen_body env key =
     with_list_meta env key (Return (resp_err REDIS_WRONG_TYPE_ERR)) (Return (resp_int 0))
       (\<lambda>ttl version left right.
          if key_is_expired env ttl then list_expire_then env key (Return (resp_int 0))
          else Return (resp_int (right - left)))"

definition do_async_txnkv_llen :: "env \<Rightarrow> bool \<Rightarrow> bytes \<Rightarrow> Frame action" where
  "do_async_txnkv_llen env in_txn key = get_txn_client env (exec_in_txn env in_txn (llen_body env key))"

definition lindex_body :: "env \<Rightarrow> bytes \<Rightarrow> i64 \<Rightarrow> Frame action" where
  "lindex_body env key idx =
     with_list_meta env key (Return (resp_err REDIS_WRONG_TYPE_ERR)) (Return resp_nil)
       (\<lambda>ttl version left right.
          if key_is_expired env ttl then list_expire_then env key (Return resp_nil)
          else
            let idx = (if i64_lt idx 0 then idx + (right - left) else idx);
                real_idx = left + idx
            in
              txn_get (encode_txnkv_list_data_key (KEY_ENCODER env) key real_idx version) (\<lambda>r.
                case r of Some value \<Rightarrow> Return (resp_bulk value) | None \<Rightarrow> Return resp_nil))"

definition do_async_txnkv_lindex :: "env \<Rightarrow> bool \<Rightarrow> bytes \<Rightarrow> i64 \<Rightarrow> Frame action" where
  "do_async_txnkv_lindex env in_txn key idx = get_txn_client env (exec_in_txn env in_txn (lindex_body env key idx))"

definition lset_body :: "env \<Rightarrow> bytes \<Rightarrow> i64 \<Rightarrow> bytes \<Rightarrow> unit action" where
  "lset_body env key idx ele =
     with_list_meta env key (Throw REDIS_WRONG_TYPE_ERR) (Throw REDIS_NO_SUCH_KEY_ERR)
       (\<lambda>ttl version left right.
          if key_is_expired env ttl then list_expire_then env key (Throw REDIS_NO_SUCH_KEY_ERR)
          else
            let idx = (if i64_lt idx 0 then idx + (right - left) else idx);
                uidx = idx + left
            in
              if i64_lt idx 0 \<or> i64_lt uidx left \<or> i64_lt (right - 1) uidx then Throw REDIS_INDEX_OUT_OF_RANGE_ERR
              else txn_put (encode_txnkv_list_data_key (KEY_ENCODER env) key uidx version) ele (Return ()))"

definition do_async_txnkv_lset :: "env \<Rightarrow> bool \<Rightarrow> bytes \<Rightarrow> i64 \<Rightarrow> bytes \<Rightarrow> Frame action" where
  "do_async_txnkv_lset env in_txn key idx ele =
     get_txn_client env (reply resp_ok_ignore (exec_in_txn env in_txn (lset_body env key idx ele)))"

text \<open>The loop that moves elements by one place.\<close>

primrec shift_elements :: "env \<Rightarrow> bytes \<Rightarrow> u16 \<Rightarrow> u64 \<Rightarrow> kv_pair list \<Rightarrow> 'a action \<Rightarrow> 'a action" where
  "shift_elements env key version delta [] p = p"
| "shift_elements env key version delta (kv # kvs) p =
     unwrap (decode_key_list_idx_from_datakey key (fst kv)) (\<lambda>key_idx.
     txn_put (encode_txnkv_list_data_key (KEY_ENCODER env) key (key_idx + delta) version) (snd kv)
       (shift_elements env key version delta kvs p))"

definition linsert_at ::
  "env \<Rightarrow> bytes \<Rightarrow> bool \<Rightarrow> bytes \<Rightarrow> u64 \<Rightarrow> u16 \<Rightarrow> u64 \<Rightarrow> u64 \<Rightarrow> u64 \<Rightarrow> i64 action" where
  "linsert_at env key before_pivot element ttl version left right idx =
     (let enc = KEY_ENCODER env;
          finish = (\<lambda>idx_op left right.
            txn_put (encode_txnkv_list_data_key enc key idx_op version) element (
            txn_put (encode_txnkv_meta_key enc key) (encode_txnkv_list_meta_value ttl version left right) (
            Return (right - left))))
      in
        if idx - left < right - idx then
          let idx_op = (if before_pivot then idx - 1 else idx) in
          if left \<le> idx_op then
            txn_scan (encode_txnkv_list_data_key_idx_range enc key left idx_op version) u32_MAX (\<lambda>kvs.
            shift_elements env key version (- 1) kvs (finish idx_op (left - 1) right))
          else finish idx_op (left - 1) right
        else
          let idx_op = (if before_pivot then idx else idx + 1) in
          if idx_op < right then
            txn_scan (encode_txnkv_list_data_key_idx_range enc key idx_op (right - 1) version) u32_MAX (\<lambda>kvs.
            shift_elements env key version 1 kvs (finish idx_op left (right + 1)))
          else finish idx_op left (right + 1))"

definition linsert_body :: "env \<Rightarrow> bytes \<Rightarrow> bool \<Rightarrow> bytes \<Rightarrow> bytes \<Rightarrow> i64 action" where
  "linsert_body env key before_pivot pivot element =
     with_list_meta env key (Throw REDIS_WRONG_TYPE_ERR) (Return 0)
       (\<lambda>ttl version left right.
          if key_is_expired env ttl then list_expire_then env key (Return 0)
          else
            let limit_len = cmd_linsert_length_limit_or_default (SERVER_CONFIG env) in
            if 0 < limit_len \<and> ucast limit_len < right - left then Throw REDIS_LIST_TOO_LARGE_ERR
            else
              txn_scan (encode_txnkv_list_data_key_range (KEY_ENCODER env) key version) u32_MAX (\<lambda>kvs.
                case find (\<lambda>kv. snd kv = pivot) kvs of
                  Some kv \<Rightarrow>
                    unwrap (decode_key_list_idx_from_datakey key (fst kv)) (\<lambda>idx.
                    linsert_at env key before_pivot element ttl version left right idx)
                | None \<Rightarrow> Return (- 1)))"

definition do_async_txnkv_linsert :: "env \<Rightarrow> bool \<Rightarrow> bytes \<Rightarrow> bool \<Rightarrow> bytes \<Rightarrow> bytes \<Rightarrow> Frame action" where
  "do_async_txnkv_linsert env in_txn key before_pivot pivot element =
     get_txn_client env (reply resp_int
       (exec_in_txn env in_txn (linsert_body env key before_pivot pivot element)))"

text \<open>The loop of \<^verbatim>\<open>LREM\<close> over the elements, from the head or from the tail: the elements at the
  positions of \<open>hole\<close> are deleted, up to \<open>cnt\<close> of them, and the others move into the gap.\<close>

fun lrem_loop ::
  "env \<Rightarrow> bytes \<Rightarrow> u16 \<Rightarrow> bool \<Rightarrow> nat \<Rightarrow> u64 list \<Rightarrow> kv_pair list \<Rightarrow> nat \<Rightarrow> (nat \<Rightarrow> 'a action) \<Rightarrow> 'a action" where
  "lrem_loop env key version from_head cnt hole [] removed f = f removed"
| "lrem_loop env key version from_head cnt hole (kv # kvs) removed f =
     unwrap (decode_key_list_idx_from_datakey key (fst kv)) (\<lambda>key_idx.
       if hole = [] then f removed
       else if \<not> (0 < cnt \<and> removed = cnt \<or> removed = length hole) \<and> hole ! removed = key_idx then
         txn_delete (fst kv) (lrem_loop env key version from_head cnt hole kvs (removed + 1) f)
       else if 0 < removed then
         txn_put (encode_txnkv_list_data_key (KEY_ENCODER env) key
             (if from_head then key_idx - of_nat removed else key_idx + of_nat removed) version) (snd kv) (
         txn_delete (fst kv) (lrem_loop env key version from_head cnt hole kvs removed f))
       else lrem_loop env key version from_head cnt hole kvs removed f)"

definition lrem_body :: "env \<Rightarrow> bytes \<Rightarrow> nat \<Rightarrow> bool \<Rightarrow> bytes \<Rightarrow> i64 action" where
  "lrem_body env key cnt from_head ele =
     with_list_meta env key (Throw REDIS_WRONG_TYPE_ERR) (Return 0)
       (\<lambda>ttl version left right.
          if key_is_expired env ttl then list_expire_then env key (Return 0)
          else
            let len = right - left;
                limit_len = cmd_lrem_length_limit_or_default (SERVER_CONFIG env);
                bound_range = encode_txnkv_list_data_key_range (KEY_ENCODER env) key version
            in
              if 0 < limit_len \<and> ucast limit_len < len then Throw REDIS_LIST_TOO_LARGE_ERR
              else
                txn_scan bound_range u32_MAX (\<lambda>kvs.
                unwrap (those (map (\<lambda>kv. decode_key_list_idx_from_datakey key (fst kv))
                    (filter (\<lambda>kv. snd kv = ele) kvs))) (\<lambda>hole.
                if hole = [] then Return 0
                else if from_head then
                  txn_scan bound_range u32_MAX (\<lambda>kvs.
                  lrem_loop env key version True cnt hole kvs 0 (\<lambda>removed.
                  put_list_meta env key (len = of_nat removed) ttl version left (right - of_nat removed)
                    (Return (of_nat removed))))
                else
                  txn_scan_reverse bound_range u32_MAX (\<lambda>kvs.
                  lrem_loop env key version False cnt (rev hole) kvs 0 (\<lambda>removed.
                  put_list_meta env key (len = of_nat removed) ttl version (left + of_nat removed) right
                    (Return (of_nat removed)))))))"

definition do_async_txnkv_lrem :: "env \<Rightarrow> bool \<Rightarrow> bytes \<Rightarrow> nat \<Rightarrow> bool \<Rightarrow> bytes \<Rightarrow> Frame action" where
  "do_async_txnkv_lrem env in_txn key cnt from_head ele =
     get_txn_client env (reply resp_int (exec_in_txn env in_txn (lrem_body env key cnt from_head ele)))"

end
