(* ===== verification/List_Sequences.thy ===== *)
theory List_Sequences
  imports Lists
begin

text \<open>
  Lists as sequences of values: the representation of a sequence in the store, and the commands that work
  at the ends of a list or at one index.
\<close>

section \<open>Lists as sequences\<close>

text \<open>The element at an index of a list that starts at \<open>l\<close>.\<close>

definition cell :: "u64 \<Rightarrow> bytes list \<Rightarrow> u64 \<Rightarrow> bytes option" where
  "cell l xs i = (if unat (i - l) < length xs then Some (xs ! unat (i - l)) else None)"

lemma cell_Nil [simp]: "cell l [] i = None"
  by (simp add: cell_def)

lemma cell_Cons: "cell l (x # xs) i = (if i = l then Some x else cell (l + 1) xs i)"
proof (cases "i = l")
  case False
  then have "1 + (i - (l + 1)) \<noteq> 0" by simp
  then have "unat (1 + (i - (l + 1))) = Suc (unat (i - (l + 1)))" by (rule unatSuc)
  then have "unat (i - l) = Suc (unat (i - (l + 1)))" by simp
  then show ?thesis using False by (simp add: cell_def)
qed (simp add: cell_def)

lemma cell_before: "length xs < 2 ^ 64 \<Longrightarrow> cell (l + 1) xs l = None"
  by (simp add: cell_def unsigned_minus_1_eq_mask mask_eq_exp_minus_1)

lemma cell_append:
  "length xs + length ys < 2 ^ 64 \<Longrightarrow>
   cell l (xs @ ys) i = (case cell l xs i of Some x \<Rightarrow> Some x | None \<Rightarrow> cell (l + of_nat (length xs)) ys i)"
  by (induction xs arbitrary: l) (auto simp: cell_Cons ac_simps split: option.split)

lemma cell_nth: "j < length xs \<Longrightarrow> length xs < 2 ^ 64 \<Longrightarrow> cell l xs (l + of_nat j) = Some (xs ! j)"
  by (simp add: cell_def unat_of_nat_u64)

lemma cell_outside: "length xs \<le> j \<Longrightarrow> j < 2 ^ 64 \<Longrightarrow> cell l xs (l + of_nat j) = None"
  by (simp add: cell_def unat_of_nat_u64)

lemma cell_None_iff: "cell l xs i = None \<longleftrightarrow> length xs \<le> unat (i - l)"
  by (auto simp: cell_def)

lemma cell_SomeE:
  assumes "cell l xs i = Some x"
  obtains j where "j < length xs" "i = l + of_nat j" "x = xs ! j"
  using assms that [of "unat (i - l)"] by (auto simp: cell_def split: if_splits)

lemma cell_snoc:
  assumes "length xs < 2 ^ 63"
  shows "cell l (xs @ [x]) i = (if i = l + of_nat (length xs) then Some x else cell l xs i)"
proof -
  have "cell l xs (l + of_nat (length xs)) = None" using assms by (intro cell_outside) auto
  then show ?thesis using assms by (auto simp: cell_append cell_Cons split: option.splits)
qed

lemma cell_update:
  assumes "j < length xs" "length xs < 2 ^ 63"
  shows "cell l (xs[j := x]) i = (if i = l + of_nat j then Some x else cell l xs i)"
proof (cases "i = l + of_nat j")
  case True
  then show ?thesis using assms by (simp add: cell_nth)
next
  case False
  then have "unat (i - l) \<noteq> j" by auto
  then show ?thesis using False by (simp add: cell_def)
qed

text \<open>\<open>list_rep env m key ttl v l xs\<close>: the store has under \<open>key\<close> the list \<open>xs\<close> with version \<open>v\<close>, from index \<open>l\<close> on,
  and nothing else with that version. The indices stay below \<open>2 ^ 63\<close>, where they are non-negative as
  \<^verbatim>\<open>i64\<close>.\<close>

abbreviation lkey :: "env \<Rightarrow> bytes \<Rightarrow> u16 \<Rightarrow> u64 \<Rightarrow> bytes" where
  "lkey env key v i \<equiv> encode_txnkv_list_data_key (KEY_ENCODER env) key i v"

definition list_cells :: "env \<Rightarrow> store \<Rightarrow> bytes \<Rightarrow> u16 \<Rightarrow> u64 \<Rightarrow> bytes list \<Rightarrow> bool" where
  "list_cells env m key v l xs \<longleftrightarrow> (\<forall>i. m (lkey env key v i) = cell l xs i)"

text \<open>The keys with version \<open>v\<close> are elements of the list, and no other version has keys the collector does
  not know of.\<close>

definition list_frame :: "env \<Rightarrow> store \<Rightarrow> bytes \<Rightarrow> u16 \<Rightarrow> bool" where
  "list_frame env m key v \<longleftrightarrow>
     (\<forall>x. versioned (KEY_ENCODER env) key v x \<and> m x \<noteq> None \<longrightarrow> (\<exists>i. x = lkey env key v i)) \<and>
     gc_ok (KEY_ENCODER env) m key (Some v)"

definition list_rep :: "env \<Rightarrow> store \<Rightarrow> bytes \<Rightarrow> u64 \<Rightarrow> u16 \<Rightarrow> u64 \<Rightarrow> bytes list \<Rightarrow> bool" where
  "list_rep env m key ttl v l xs \<longleftrightarrow>
     m (mkey env key) = Some (encode_txnkv_list_meta_value ttl v l (l + of_nat (length xs))) \<and>
     xs \<noteq> [] \<and> unat l + length xs < 2 ^ 63 \<and> list_cells env m key v l xs \<and> list_frame env m key v"

definition list_state :: "env \<Rightarrow> store \<Rightarrow> bytes \<Rightarrow> u64 \<Rightarrow> bytes list \<Rightarrow> bool" where
  "list_state env m key ttl xs \<longleftrightarrow>
     (if xs = [] then no_key env m key else \<exists>v l. list_rep env m key ttl v l xs)"

text \<open>Nothing changed but the elements.\<close>

definition only_cells :: "env \<Rightarrow> bytes \<Rightarrow> u16 \<Rightarrow> store \<Rightarrow> store \<Rightarrow> bool" where
  "only_cells env key v m m' \<longleftrightarrow> (\<forall>x. (\<forall>i. x \<noteq> lkey env key v i) \<longrightarrow> m' x = m x)"

lemma data_key_simps [simp]:
  "lkey env key v i = lkey env key v j \<longleftrightarrow> i = j"
  "lkey env key v i \<noteq> mkey env key'" "mkey env key' \<noteq> lkey env key v i"
  "lkey env key v i \<noteq> encode_txnkv_gc_key enc key'" "encode_txnkv_gc_key enc key' \<noteq> lkey env key v i"
  "lkey env key v i \<noteq> encode_txnkv_gc_version_key enc key' v'"
  "encode_txnkv_gc_version_key enc key' v' \<noteq> lkey env key v i"
  "mkey env key' \<noteq> encode_txnkv_gc_key enc key'" "encode_txnkv_gc_key enc key \<noteq> mkey env key'"
  "mkey env key' \<noteq> encode_txnkv_gc_version_key enc key' v'"
  "encode_txnkv_gc_version_key enc key' v' \<noteq> mkey env key'"
  by (simp_all add: key_shapes)

lemma owned_data_key [simp]: "owned (KEY_ENCODER env) key (lkey env key v i)"
  by (simp add: key_shapes)

lemma versioned_data_key [simp]: "versioned (KEY_ENCODER env) key v (lkey env key v' i) \<longleftrightarrow> v = v'"
  by (simp add: key_shapes)

lemma only_cells_refl [simp]: "only_cells env key v m m"
  by (simp add: only_cells_def)

lemma only_cells_upd [simp]:
  "only_cells env key v m (m'(lkey env key v i := y)) \<longleftrightarrow> only_cells env key v m m'"
  by (auto simp: only_cells_def)

lemma gc_ok_only_cells:
  assumes "gc_ok (KEY_ENCODER env) m key (Some v)" "only_cells env key v m m'"
  shows "gc_ok (KEY_ENCODER env) m' key (Some v)"
proof -
  have same: "m' x = m x" if "\<not> versioned (KEY_ENCODER env) key v x" for x
    using assms(2) that unfolding only_cells_def by (metis versioned_data_key)
  have "versioned (KEY_ENCODER env) key v' x \<Longrightarrow> v' \<noteq> v \<Longrightarrow> \<not> versioned (KEY_ENCODER env) key v x" for v' x
    by (auto simp: versioned_def)
  then show ?thesis using assms(1) same unfolding gc_ok_def by (metis not_versioned(2,3) option.sel)
qed

lemma others_same_only_cells:
  "only_cells env key v m m' \<Longrightarrow> others_same (KEY_ENCODER env) key m m'"
  unfolding only_cells_def others_same_def by (metis owned_data_key)

text \<open>What a command leaves behind when it wrote the elements \<open>xs'\<close> and then the meta key.\<close>

lemma list_state_after:
  assumes frame: "list_frame env m key v"
    and cells: "list_cells env m' key v l' xs'" and only: "only_cells env key v m m'"
    and bound: "unat l' + length xs' < 2 ^ 63"
  shows "list_state env (m'(mkey env key :=
           (if xs' = [] then None else Some (encode_txnkv_list_meta_value ttl v l' (l' + of_nat (length xs'))))))
           key ttl xs'"
    and "others_same (KEY_ENCODER env) key m (m'(mkey env key := y))"
proof -
  let ?m = "\<lambda>y. m'(mkey env key := y)"
  have gc': "gc_ok (KEY_ENCODER env) m' key (Some v)"
    using frame only gc_ok_only_cells by (auto simp: list_frame_def)
  then have gc: "gc_ok (KEY_ENCODER env) (?m y) key (Some v)" for y
    by (auto simp: gc_ok_def)
  have only': "\<exists>i. x = lkey env key v i" if "versioned (KEY_ENCODER env) key v x" "m' x \<noteq> None" for x
    using frame only that unfolding list_frame_def only_cells_def by metis
  have cells': "list_cells env (?m y) key v l' xs'" for y
    using cells by (simp add: list_cells_def)
  show "list_state env (?m (if xs' = [] then None else
      Some (encode_txnkv_list_meta_value ttl v l' (l' + of_nat (length xs'))))) key ttl xs'"
  proof (cases "xs' = []")
    case True
    have "m' x = None" if "versioned (KEY_ENCODER env) key v x" for x
    proof (rule ccontr)
      assume "m' x \<noteq> None"
      with only' [OF that] obtain i where "x = lkey env key v i" by blast
      with \<open>m' x \<noteq> None\<close> cells True show False by (simp add: list_cells_def)
    qed
    with gc' have "gc_ok (KEY_ENCODER env) m' key None"
      unfolding gc_ok_def by (metis option.sel)
    then show ?thesis using True by (simp add: list_state_def no_key_def gc_ok_def)
  next
    case False
    then have "list_rep env (?m (Some (encode_txnkv_list_meta_value ttl v l' (l' + of_nat (length xs')))))
        key ttl v l' xs'"
      unfolding list_rep_def list_frame_def using gc cells' bound only' by auto
    then show ?thesis using False by (auto simp: list_state_def)
  qed
  show "others_same (KEY_ENCODER env) key m (?m y)"
    using only by (intro others_same_upd others_same_only_cells) auto
qed

section \<open>Reading the meta key\<close>

lemma wp_with_list_meta_absent:
  assumes "m (mkey env key) = None"
  shows "wp F (with_list_meta env key wt ab f) Q (db, (sn, m, False) # ts) \<longleftrightarrow>
    (\<forall>e\<in>F. Q (Done (Inl (TikvClient e))) (db, (sn, m, True) # ts)) \<and> wp F ab Q (db, (sn, m, True) # ts)"
  using assms by (simp add: with_list_meta_def wp_simps)

lemma wp_with_list_meta_wrong:
  assumes "m (mkey env key) = Some b" "decode_key_type b = Some dt" "dt \<noteq> DT_List"
  shows "wp F (with_list_meta env key wt ab f) Q (db, (sn, m, False) # ts) \<longleftrightarrow>
    (\<forall>e\<in>F. Q (Done (Inl (TikvClient e))) (db, (sn, m, True) # ts)) \<and> wp F wt Q (db, (sn, m, True) # ts)"
  using assms by (simp add: with_list_meta_def wp_simps)

lemma wp_with_list_meta:
  assumes "m (mkey env key) = Some (encode_txnkv_list_meta_value ttl v l r)"
  shows "wp F (with_list_meta env key wt ab f) Q (db, (sn, m, False) # ts) \<longleftrightarrow>
    (\<forall>e\<in>F. Q (Done (Inl (TikvClient e))) (db, (sn, m, True) # ts)) \<and> wp F (f ttl v l r) Q (db, (sn, m, True) # ts)"
  using assms by (simp add: with_list_meta_def wp_simps)

lemma wp_put_list_meta [wp_simps]:
  "wp F (put_list_meta env key gone ttl v l r p) Q (db, (sn, m, True) # ts) \<longleftrightarrow>
   (\<forall>e\<in>F. Q (Done (Inl (TikvClient e))) (db, (sn, m, True) # ts)) \<and>
   wp F p Q (db, (sn, m(mkey env key := (if gone then None else Some (encode_txnkv_list_meta_value ttl v l r))), True) # ts)"
  by (simp add: put_list_meta_def wp_simps)

section \<open>Pushing\<close>

definition pushed :: "bool \<Rightarrow> bytes list \<Rightarrow> bytes list \<Rightarrow> bytes list" where
  "pushed op_left vs xs = (if op_left then rev vs @ xs else xs @ vs)"

lemma only_cells_upd_left [simp]:
  "only_cells env key v (m(lkey env key v i := y)) m' \<longleftrightarrow> only_cells env key v m m'"
  by (auto simp: only_cells_def)

lemma wp_push_loop:
  assumes "list_cells env m key v l xs" "length xs + length vs < 2 ^ 63"
    and "\<And>e m'. e \<in> F \<Longrightarrow> Q (Done (Inl (TikvClient e))) (db, (sn, m', True) # ts)"
    and "\<And>m'. \<lbrakk>list_cells env m' key v (if op_left then l - of_nat (length vs) else l) (pushed op_left vs xs);
        only_cells env key v m m'\<rbrakk> \<Longrightarrow>
      wp F (f (if op_left then l - of_nat (length vs) else l)
         (l + of_nat (length xs) + (if op_left then 0 else of_nat (length vs)))) Q (db, (sn, m', True) # ts)"
  shows "wp F (push_loop env key v op_left vs l (l + of_nat (length xs)) f) Q (db, (sn, m, True) # ts)"
  using assms
proof (induction vs arbitrary: m l xs)
  case Nil
  from Nil.prems(1,3) Nil.prems(4) [of m] show ?case by (cases op_left) (simp_all add: pushed_def)
next
  case (Cons x vs)
  show ?case
  proof (cases op_left)
    case True
    let ?m = "m(lkey env key v (l - 1) \<mapsto> x)"
    have "list_cells env ?m key v (l - 1) (x # xs)"
      using Cons.prems(1,2) by (auto simp: list_cells_def cell_Cons)
    then show ?thesis using Cons.IH [of ?m "l - 1" "x # xs"] Cons.prems True
      by (simp add: wp_simps pushed_def algebra_simps del: fun_upd_apply)
  next
    case False
    let ?m = "m(lkey env key v (l + of_nat (length xs)) \<mapsto> x)"
    have "list_cells env ?m key v l (xs @ [x])"
      using Cons.prems(1,2) by (auto simp: list_cells_def cell_snoc)
    then show ?thesis using Cons.IH [of ?m l "xs @ [x]"] Cons.prems False
      by (simp add: wp_simps pushed_def algebra_simps del: fun_upd_apply)
  qed
qed

lemma list_rep_length:
  "list_rep env m key ttl v l xs \<Longrightarrow> length xs < 2 ^ 63 \<and> unat l + length xs < 2 ^ 63"
  by (auto simp: list_rep_def)

lemma wp_push_values:
  assumes cells: "list_cells env m key v l xs" and frame: "list_frame env m key v"
    and room: "op_left \<Longrightarrow> length vs \<le> unat l" "unat l + length xs + length vs < 2 ^ 63"
    and ne: "pushed op_left vs xs \<noteq> []"
    and Q: "\<And>m'. \<lbrakk>list_state env m' key ttl (pushed op_left vs xs); others_same (KEY_ENCODER env) key m m'\<rbrakk> \<Longrightarrow>
      Q (Done (Inr (of_nat (length xs + length vs)))) (db, (sn, m', True) # ts)"
    and err: "\<And>e m'. e \<in> F \<Longrightarrow> Q (Done (Inl (TikvClient e))) (db, (sn, m', True) # ts)"
  shows "wp F (push_values env key vs op_left ttl v l (l + of_nat (length xs))) Q (db, (sn, m, True) # ts)"
  unfolding push_values_def
proof (rule wp_push_loop [OF cells])
  show "length xs + length vs < 2 ^ 63" using room by simp
next
  show "\<And>e m'. e \<in> F \<Longrightarrow> Q (Done (Inl (TikvClient e))) (db, (sn, m', True) # ts)" by (rule err)
next
  fix m'
  let ?l = "if op_left then l - of_nat (length vs) else l"
  let ?r = "l + of_nat (length xs) + (if op_left then 0 else of_nat (length vs))"
  assume c: "list_cells env m' key v ?l (pushed op_left vs xs)" "only_cells env key v m m'"
  have r: "?r = ?l + of_nat (length (pushed op_left vs xs))" by (simp add: pushed_def)
  have diff: "?r - ?l = of_nat (length xs + length vs)" by simp
  have "unat ?l + length (pushed op_left vs xs) < 2 ^ 63"
    using room by (auto simp: pushed_def unat_minus_of_nat)
  note after = list_state_after [OF frame c this]
  have "Q (Done (Inr (of_nat (length xs + length vs)))) (db, (sn, m'(mkey env key \<mapsto>
      encode_txnkv_list_meta_value ttl v ?l ?r), True) # ts)"
    using Q [OF _ after(2)] after(1) [of ttl] ne by (simp add: r)
  then show "wp F (txn_put (mkey env key) (encode_txnkv_list_meta_value ttl v ?l ?r) (Return (?r - ?l))) Q
      (db, (sn, m', True) # ts)"
    unfolding diff using err by (simp only: wp_simps simp_thms) blast
qed

lemma push_body_rep:
  assumes rep: "list_rep env m key ttl v l xs" and live: "\<not> key_is_expired env ttl"
    and room: "op_left \<Longrightarrow> length vs \<le> unat l" "unat l + length xs + length vs < 2 ^ 63"
  shows "body_spec F UNIV (push_body env key vs op_left) m
    (\<lambda>r m'. r = Inr (of_nat (length xs + length vs)) \<and> list_state env m' key ttl (pushed op_left vs xs) \<and>
       others_same (KEY_ENCODER env) key m m')"
proof (rule body_specI)
  fix db sn ts
  have "xs \<noteq> []" using rep by (simp add: list_rep_def)
  then have "pushed op_left vs xs \<noteq> []" by (simp add: pushed_def)
  then show "wp F (push_body env key vs op_left) (body_post F db sn ts UNIV
      (\<lambda>r m'. r = Inr (of_nat (length xs + length vs)) \<and> list_state env m' key ttl (pushed op_left vs xs) \<and>
       others_same (KEY_ENCODER env) key m m')) (db, (sn, m, False) # ts)"
    using rep live room unfolding push_body_def list_rep_def
    by (auto simp: wp_with_list_meta wp_simps intro!: wp_push_values)
qed

text \<open>The values pushed on a list that is not there: \<open>m\<close> is the store after its version was chosen.\<close>

lemma wp_push_new:
  assumes absent: "no_key env m key" and async: "async_deletion_enabled_or_default (SERVER_CONFIG env)"
    and vs: "vs \<noteq> []" "length vs \<le> 2 ^ 32"
    and exhausted: "next_version env m key = None \<Longrightarrow> Q (Done (Inl KEY_VERSION_EXHUSTED_ERR)) (db, (sn, m, False) # ts)"
    and Q: "\<And>m' v. \<lbrakk>next_version env m key = Some v; list_state env m' key ttl (pushed op_left vs []);
        others_same (KEY_ENCODER env) key m m'\<rbrakk> \<Longrightarrow>
      Q (Done (Inr (of_nat (length vs)))) (db, (sn, m', True) # ts)"
    and err: "\<And>e m' h. e \<in> F \<Longrightarrow> Q (Done (Inl (TikvClient e))) (db, (sn, m', h) # ts)"
  shows "wp F (call (get_version_for_new env key) (\<lambda>version. Lock (push_values env key vs op_left ttl version INIT_INDEX INIT_INDEX)))
    Q (db, (sn, m, False) # ts)"
proof (rule wp_call)
  have gc: "gc_ok (KEY_ENCODER env) m key None" using absent by (simp add: no_key_def)
  show "body_spec F {False} (get_version_for_new env key) m (\<lambda>r m'. m' = m \<and>
      r = (case next_version env m key of Some v \<Rightarrow> Inr v | None \<Rightarrow> Inl KEY_VERSION_EXHUSTED_ERR))"
    by (rule get_version_for_new_spec [OF gc])
  have init: "unat INIT_INDEX = 2 ^ 32" by (simp add: INIT_INDEX_def)
  fix v m' assume "m' = m \<and> Inr v = (case next_version env m key of Some v \<Rightarrow> Inr v | None \<Rightarrow> Inl KEY_VERSION_EXHUSTED_ERR)"
  then have v: "next_version env m key = Some v" and m': "m' = m" by (auto split: option.splits)
  note fresh = next_version_fresh [OF async gc v]
  have "list_cells env m key v INIT_INDEX []" using fresh by (simp add: list_cells_def)
  moreover have "list_frame env m key v" using gc fresh by (auto simp: list_frame_def gc_ok_def)
  moreover have "pushed op_left vs [] \<noteq> []" using vs by (simp add: pushed_def)
  ultimately show "wp F (Lock (push_values env key vs op_left ttl v INIT_INDEX INIT_INDEX)) Q (db, (sn, m', False) # ts)"
    using wp_push_values [of env m key v INIT_INDEX "[]" op_left vs ttl Q db sn ts F] vs init Q [OF v] err m' by simp
qed (use exhausted err in \<open>auto split: option.splits\<close>)

lemma push_body_absent:
  assumes absent: "no_key env m key" and async: "async_deletion_enabled_or_default (SERVER_CONFIG env)"
    and vs: "vs \<noteq> []" "length vs \<le> 2 ^ 32"
  shows "body_spec F UNIV (push_body env key vs op_left) m
    (\<lambda>r m'. case next_version env m key of
        None \<Rightarrow> r = Inl KEY_VERSION_EXHUSTED_ERR \<and> m' = m
      | Some v \<Rightarrow> r = Inr (of_nat (length vs)) \<and> list_state env m' key 0 (pushed op_left vs []) \<and>
          others_same (KEY_ENCODER env) key m m')" (is "body_spec _ _ _ _ ?R")
proof (rule body_specI)
  fix db sn ts
  have "wp F (call (get_version_for_new env key) (\<lambda>version. Lock (push_values env key vs op_left 0 version INIT_INDEX INIT_INDEX)))
      (body_post F db sn ts UNIV ?R) (db, (sn, m, False) # ts)"
    by (rule wp_push_new [OF absent async vs]) (auto simp: wp_simps)
  then show "wp F (push_body env key vs op_left) (body_post F db sn ts UNIV ?R) (db, (sn, m, False) # ts)"
    using absent by (simp add: push_body_def wp_with_list_meta_absent wp_simps no_key_def)
qed

section \<open>Reading and writing by index\<close>

text \<open>The element at a Redis index: a negative index counts from the end.\<close>

definition redis_index :: "nat \<Rightarrow> i64 \<Rightarrow> nat option" where
  "redis_index n idx =
     (let i = (if sint idx < 0 then sint idx + int n else sint idx) in
      if 0 \<le> i \<and> i < int n then Some (nat i) else None)"

lemma list_index_offset:
  fixes idx :: i64
  assumes n: "n < 2 ^ 63"
  defines "j \<equiv> (if i64_lt idx 0 then idx + of_nat n else idx)"
  shows "unat j < n \<longleftrightarrow> redis_index n idx \<noteq> None"
    and "redis_index n idx = Some i \<Longrightarrow> j = of_nat i \<and> i < n"
    and "sint j = (if sint idx < 0 then sint idx + int n else sint idx)"
proof -
  have sn: "sint (of_nat n :: i64) = int n" by (rule sint_of_nat_small [OF n])
  have s: "sint j = (if sint idx < 0 then sint idx + int n else sint idx)"
    using sint_ge [of idx] n sn
    by (auto simp: j_def i64_lt_def intro!: sint_add_small [where b = "of_nat n", unfolded sn])
  then show "sint j = (if sint idx < 0 then sint idx + int n else sint idx)" .
  have u: "unat j < n \<longleftrightarrow> 0 \<le> sint j \<and> sint j < int n" using n by (intro unat_less_iff_sint) simp
  then show "unat j < n \<longleftrightarrow> redis_index n idx \<noteq> None" by (auto simp: redis_index_def s Let_def)
  show "j = of_nat i \<and> i < n" if "redis_index n idx = Some i"
  proof -
    have i: "0 \<le> sint j" "sint j < int n" "i = nat (sint j)"
      using that by (auto simp: redis_index_def s Let_def split: if_splits)
    then have "unat j = i" using unat_of_sint [of j] by linarith
    then show ?thesis using i by auto
  qed
qed

lemma cell_redis_index:
  assumes "length xs < 2 ^ 63"
  shows "cell l xs (l + (if i64_lt idx 0 then idx + of_nat (length xs) else idx)) =
    map_option ((!) xs) (redis_index (length xs) idx)"
proof (cases "redis_index (length xs) idx")
  case None
  then show ?thesis using list_index_offset(1) [OF assms, of idx] by (simp add: cell_def)
next
  case (Some i)
  then show ?thesis using list_index_offset(2) [OF assms Some] assms by (simp add: cell_nth)
qed

lemma llen_body_rep:
  assumes "list_rep env m key ttl v l xs" "\<not> key_is_expired env ttl"
  shows "body_spec F UNIV (llen_body env key) m (\<lambda>r m'. r = Inr (Integer (of_nat (length xs))) \<and> m' = m)"
  using assms unfolding llen_body_def list_rep_def
  by (auto simp: body_spec_def wp_with_list_meta wp_simps resp_defs)

lemma llen_body_absent:
  assumes "no_key env m key"
  shows "body_spec F UNIV (llen_body env key) m (\<lambda>r m'. r = Inr (Integer 0) \<and> m' = m)"
  using assms unfolding llen_body_def no_key_def
  by (auto simp: body_spec_def wp_with_list_meta_absent wp_simps resp_defs)

definition bulk_or_nil :: "bytes option \<Rightarrow> Frame" where
  "bulk_or_nil r = (case r of Some x \<Rightarrow> Bulk x | None \<Rightarrow> Null)"

lemma lindex_body_rep:
  assumes rep: "list_rep env m key ttl v l xs" and "\<not> key_is_expired env ttl"
  shows "body_spec F UNIV (lindex_body env key idx) m
    (\<lambda>r m'. r = Inr (bulk_or_nil (map_option ((!) xs) (redis_index (length xs) idx))) \<and> m' = m)"
proof -
  note cell = cell_redis_index [of xs l idx]
  show ?thesis
    using assms cell unfolding lindex_body_def list_rep_def list_cells_def
    by (auto simp: body_spec_def wp_with_list_meta wp_simps resp_defs Let_def bulk_or_nil_def
        split: option.splits if_splits)
qed

lemma lset_guard:
  fixes idx l :: u64
  assumes n: "unat l + n < 2 ^ 63" "0 < n"
  defines "j \<equiv> (if i64_lt idx 0 then idx + of_nat n else idx)"
  shows "(i64_lt j 0 \<or> i64_lt (j + l) l \<or> i64_lt (l + of_nat n - 1) (j + l)) \<longleftrightarrow> redis_index n idx = None"
proof -
  have sj: "sint j = (if sint idx < 0 then sint idx + int n else sint idx)"
    unfolding j_def using n by (intro list_index_offset(3)) simp
  then have ri: "redis_index n idx = None \<longleftrightarrow> \<not> (0 \<le> sint j \<and> sint j < int n)"
    by (auto simp: redis_index_def Let_def)
  have "l + of_nat n - 1 = l + of_nat (n - 1)" using n by (simp add: of_nat_diff)
  moreover have "sint (l + of_nat (n - 1)) = int (unat l) + int (n - 1)"
    using n by (intro sint_add_len(1)) linarith
  ultimately have last: "sint (l + of_nat n - 1) = int (unat l) + int n - 1"
    using n by (metis One_nat_def Suc_leI add_diff_eq of_nat_1 of_nat_diff)
  have sl: "sint l = int (unat l)" using sint_add_len(2) [OF n(1)] .
  show ?thesis
  proof (cases "sint j + sint l < 2 ^ 63")
    case True
    then have "0 \<le> sint j \<Longrightarrow> sint (j + l) = sint j + sint l"
      using sl by (intro sint_add_small) linarith+
    then show ?thesis unfolding ri i64_lt_def last using sl by fastforce
  next
    case False
    then have "sint (j + l) = sint j + sint l - 2 ^ 64" by (intro sint_add_wrap) simp
    moreover have "int (unat l) + int n < 2 ^ 63"
      using of_nat_less_iff [of "unat l + n" "2 ^ 63", where ?'a = int] n(1) by (simp del: of_nat_unat)
    then have "\<not> sint j < int n" using sl False by linarith
    ultimately show ?thesis unfolding ri i64_lt_def last using sint_less [of j] by simp
  qed
qed

lemma lset_body_rep:
  assumes rep: "list_rep env m key ttl v l xs" and live: "\<not> key_is_expired env ttl"
  shows "body_spec F UNIV (lset_body env key idx x) m
    (\<lambda>r m'. case redis_index (length xs) idx of
        None \<Rightarrow> r = Inl REDIS_INDEX_OUT_OF_RANGE_ERR \<and> m' = m
      | Some i \<Rightarrow> r = Inr () \<and> list_rep env m' key ttl v l (xs[i := x]) \<and> others_same (KEY_ENCODER env) key m m')"
    (is "body_spec _ _ _ _ ?R")
proof (rule body_specI)
  fix db sn ts
  let ?n = "length xs"
  let ?j = "if i64_lt idx 0 then idx + of_nat ?n else idx"
  have n: "?n < 2 ^ 63" "unat l + ?n < 2 ^ 63" "0 < ?n"
    using list_rep_length [OF rep] rep by (auto simp: list_rep_def)
  note guard = lset_guard [OF n(2,3), of idx]
  have meta: "m (mkey env key) = Some (encode_txnkv_list_meta_value ttl v l (l + of_nat ?n))"
    using rep by (simp add: list_rep_def)
  have upd: "?R (Inr ()) (m(lkey env key v (?j + l) \<mapsto> x))" if i: "redis_index ?n idx = Some i" for i
  proof -
    have j: "?j = of_nat i" "i < ?n" using list_index_offset(2) [OF n(1) i] by auto
    have "list_rep env (m(lkey env key v (l + of_nat i) \<mapsto> x)) key ttl v l (xs[i := x])"
      using rep j n by (auto simp: list_rep_def list_cells_def cell_update list_frame_def gc_ok_def)
    then show ?thesis using i j by (simp add: add.commute others_same_upd)
  qed
  show "wp F (lset_body env key idx x) (body_post F db sn ts UNIV ?R) (db, (sn, m, False) # ts)"
    using live guard upd meta
    by (cases "redis_index ?n idx"; cases "i64_lt idx 0")
      (simp_all add: lset_body_def wp_with_list_meta wp_simps Let_def del: fun_upd_apply)
qed

section \<open>Popping and trimming\<close>

lemma cell_take: "cell l (take n xs) i = (if n \<le> unat (i - l) then None else cell l xs i)"
  by (auto simp: cell_def)

lemma cell_drop:
  assumes "n \<le> length xs" "length xs < 2 ^ 63"
  shows "cell (l + of_nat n) (drop n xs) i = (if unat (i - l) < n then None else cell l xs i)"
proof -
  have n: "unat (of_nat n :: u64) = n" using assms by (intro unat_of_nat_u64) simp
  have eq: "i - (l + of_nat n) = (i - l) - of_nat n" by simp
  have u: "unat (i - (l + of_nat n)) = (if n \<le> unat (i - l) then unat (i - l) - n else 2 ^ 64 + unat (i - l) - n)"
    unfolding eq unat_sub_cases n ..
  show ?thesis unfolding cell_def u using assms by auto
qed

lemma index_less_iff: "n < 2 ^ 64 \<Longrightarrow> unat (i - l) < n \<longleftrightarrow> (\<exists>j<n. i = l + of_nat j)" for i l :: u64
proof
  assume n: "n < 2 ^ 64" "unat (i - l) < n"
  then show "\<exists>j<n. i = l + of_nat j" by (intro exI [of _ "unat (i - l)"]) simp
next
  assume n: "n < 2 ^ 64" "\<exists>j<n. i = l + of_nat j"
  then show "unat (i - l) < n" by (auto simp: unat_of_nat_u64)
qed

text \<open>Removing the elements at one end.\<close>

lemma list_cells_drop:
  assumes "list_cells env m key v l xs" "n \<le> length xs" "length xs < 2 ^ 63"
    and "\<And>i. unat (i - l) < n \<Longrightarrow> m' (lkey env key v i) = None"
    and "\<And>i. \<not> unat (i - l) < n \<Longrightarrow> m' (lkey env key v i) = m (lkey env key v i)"
  shows "list_cells env m' key v (l + of_nat n) (drop n xs)"
  using assms by (auto simp: list_cells_def cell_drop)

lemma list_cells_take:
  assumes "list_cells env m key v l xs"
    and "\<And>i. n \<le> unat (i - l) \<Longrightarrow> unat (i - l) < length xs \<Longrightarrow> m' (lkey env key v i) = None"
    and "\<And>i. \<not> (n \<le> unat (i - l) \<and> unat (i - l) < length xs) \<Longrightarrow> m' (lkey env key v i) = m (lkey env key v i)"
  shows "list_cells env m' key v l (take n xs)"
  using assms unfolding list_cells_def cell_take
  by (metis cell_None_iff linorder_not_le)

lemma only_cells_restrict:
  "(\<And>x. x \<in> ks \<Longrightarrow> \<exists>i. x = lkey env key v i) \<Longrightarrow> only_cells env key v m (m |` (- ks))"
  by (auto simp: only_cells_def restrict_map_def)

definition removed_values :: "bool \<Rightarrow> nat \<Rightarrow> bytes list \<Rightarrow> bytes list" where
  "removed_values op_left n xs = (if op_left then take n xs else rev (drop (length xs - n) xs))"

definition kept_values :: "bool \<Rightarrow> nat \<Rightarrow> bytes list \<Rightarrow> bytes list" where
  "kept_values op_left n xs = (if op_left then drop n xs else take (length xs - n) xs)"

definition removed_indices :: "bool \<Rightarrow> nat \<Rightarrow> u64 \<Rightarrow> nat \<Rightarrow> u64 list" where
  "removed_indices op_left n l len =
     (if op_left then map (\<lambda>j. l + of_nat j) [0..<n] else map (\<lambda>j. l + of_nat (len - Suc j)) [0..<n])"

lemma removed_indices_iff:
  assumes "n \<le> len" "len < 2 ^ 63"
  shows "i \<in> set (removed_indices op_left n l len) \<longleftrightarrow>
    (if op_left then unat (i - l) < n else len - n \<le> unat (i - l) \<and> unat (i - l) < len)"
proof (cases op_left)
  case True
  then show ?thesis using assms index_less_iff [of n i l] by (auto simp: removed_indices_def)
next
  case False
  have "(\<exists>j<n. i = l + of_nat (len - Suc j)) \<longleftrightarrow> len - n \<le> unat (i - l) \<and> unat (i - l) < len"
  proof
    assume "\<exists>j<n. i = l + of_nat (len - Suc j)"
    then obtain j where j: "j < n" "i - l = of_nat (len - Suc j)" by (auto simp del: of_nat_diff)
    then have "unat (i - l) = len - Suc j"
      unfolding j(2) using assms by (intro unat_of_nat_u64) simp
    then show "len - n \<le> unat (i - l) \<and> unat (i - l) < len" using assms j by linarith
  next
    assume a: "len - n \<le> unat (i - l) \<and> unat (i - l) < len"
    then have "len - Suc (len - Suc (unat (i - l))) = unat (i - l)" by linarith
    then have "i = l + of_nat (len - Suc (len - Suc (unat (i - l))))" by (simp del: of_nat_diff)
    moreover have "len - Suc (unat (i - l)) < n" using a assms by linarith
    ultimately show "\<exists>j<n. i = l + of_nat (len - Suc j)" by blast
  qed
  then show ?thesis using False by (auto simp: removed_indices_def)
qed

text \<open>The state after the elements at one end are deleted.\<close>

lemma list_cells_removed:
  fixes op_left :: bool
  assumes cells: "list_cells env m key v l xs" and n: "n \<le> length xs" "length xs < 2 ^ 63"
  defines "ks \<equiv> lkey env key v ` set (removed_indices op_left n l (length xs))"
  shows "list_cells env (m |` (- ks)) key v (if op_left then l + of_nat n else l) (kept_values op_left n xs)"
    and "only_cells env key v m (m |` (- ks))"
proof -
  have ks: "lkey env key v i \<in> ks \<longleftrightarrow>
      (if op_left then unat (i - l) < n else length xs - n \<le> unat (i - l) \<and> unat (i - l) < length xs)" for i
    unfolding ks_def using removed_indices_iff [OF n, of i op_left l] by auto
  show "list_cells env (m |` (- ks)) key v (if op_left then l + of_nat n else l) (kept_values op_left n xs)"
  proof (cases op_left)
    case True
    then show ?thesis
      using list_cells_drop [OF cells n, of "m |` (- ks)"] ks by (simp add: kept_values_def restrict_map_def)
  next
    case False
    then show ?thesis
      using list_cells_take [OF cells, of "length xs - n" "m |` (- ks)"] ks
      by (simp add: kept_values_def restrict_map_def)
  qed
  show "only_cells env key v m (m |` (- ks))"
    by (rule only_cells_restrict) (auto simp: ks_def)
qed

lemma length_kept: "n \<le> length xs \<Longrightarrow> length (kept_values op_left n xs) = length xs - n"
  by (simp add: kept_values_def)

lemma kept_bound:
  fixes l :: u64
  assumes "n \<le> length xs" "unat l + length xs < 2 ^ 63"
  shows "unat (if op_left then l + of_nat n else l) + length (kept_values op_left n xs) < 2 ^ 63"
  using assms sint_add_len(3) [of l n] by (auto simp: length_kept)

lemma kept_right:
  fixes l :: u64
  assumes "n \<le> length xs"
  shows "(if op_left then l + of_nat n else l) + of_nat (length (kept_values op_left n xs)) =
    (if op_left then l + of_nat (length xs) else l + of_nat (length xs) - of_nat n)"
  using assms by (simp add: length_kept of_nat_diff)


text \<open>The meta key written after that.\<close>

lemma list_state_removed:
  assumes rep: "list_rep env m key ttl v l xs" and n: "n \<le> length xs"
    and m': "m' = m |` (- lkey env key v ` set (removed_indices op_left n l (length xs)))"
    and l': "l' = (if op_left then l + of_nat n else l)"
    and r': "r' = (if op_left then l + of_nat (length xs) else l + of_nat (length xs) - of_nat n)"
  shows "list_state env (m'(mkey env key :=
           (if l' = r' then None else Some (encode_txnkv_list_meta_value ttl v l' r')))) key ttl
           (kept_values op_left n xs)"
    and "others_same (KEY_ENCODER env) key m (m'(mkey env key := y))"
proof -
  note len = list_rep_length [OF rep]
  have cells: "list_cells env m' key v l' (kept_values op_left n xs)" "only_cells env key v m m'"
    using list_cells_removed [of env m key v l xs n op_left] rep n len unfolding m' l'
    by (auto simp: list_rep_def)
  have bound: "unat l' + length (kept_values op_left n xs) < 2 ^ 63"
    unfolding l' using kept_bound n len by blast
  have r: "r' = l' + of_nat (length (kept_values op_left n xs))"
    unfolding l' r' using kept_right [OF n, of op_left l] by simp
  have "l' = r' \<longleftrightarrow> kept_values op_left n xs = []"
  proof -
    have "unat (of_nat (length (kept_values op_left n xs)) :: u64) = length (kept_values op_left n xs)"
      using bound by (intro unat_of_nat_u64) simp
    then have "of_nat (length (kept_values op_left n xs)) = (0 :: u64) \<longleftrightarrow> kept_values op_left n xs = []"
      by (auto dest: arg_cong [where f = unat])
    then show ?thesis unfolding r by simp
  qed
  then show "list_state env (m'(mkey env key :=
           (if l' = r' then None else Some (encode_txnkv_list_meta_value ttl v l' r')))) key ttl
           (kept_values op_left n xs)"
    using list_state_after(1) [of env m key v m' l' "kept_values op_left n xs" ttl] cells bound rep r
    by (cases "kept_values op_left n xs = []") (simp_all add: list_rep_def)
  show "others_same (KEY_ENCODER env) key m (m'(mkey env key := y))"
    using list_state_after(2) [of env m key v m' l' "kept_values op_left n xs"] cells bound rep
    by (simp add: list_rep_def)
qed

text \<open>The single pop panics when the library fails to read the element, so that the library must not
  fail here.\<close>

lemma pop_body_one:
  assumes rep: "list_rep env m key ttl v l xs" and live: "\<not> key_is_expired env ttl"
  shows "body_spec {} UNIV (pop_body env key op_left 1) m
    (\<lambda>r m'. r = Inr (map Bulk (removed_values op_left 1 xs)) \<and> list_state env m' key ttl (kept_values op_left 1 xs) \<and>
       others_same (KEY_ENCODER env) key m m')" (is "body_spec _ _ _ _ ?R")
proof (rule body_specI)
  fix db sn ts
  let ?i = "if op_left then l else l + of_nat (length xs) - 1"
  let ?x = "if op_left then hd xs else last xs"
  let ?l = "if op_left then l + 1 else l"
  let ?r = "if op_left then l + of_nat (length xs) else l + of_nat (length xs) - 1"
  have ne: "xs \<noteq> []" and meta: "m (mkey env key) = Some (encode_txnkv_list_meta_value ttl v l (l + of_nat (length xs)))"
    and cells: "list_cells env m key v l xs"
    using rep by (auto simp: list_rep_def)
  have i: "?i = (if op_left then l + of_nat 0 else l + of_nat (length xs - 1))"
    using ne by (simp add: of_nat_diff Suc_leI)
  then have idx: "set (removed_indices op_left 1 l (length xs)) = {?i}"
    by (simp add: removed_indices_def)
  have x: "m (lkey env key v ?i) = Some ?x"
    using cells cell_nth [of 0 xs l] cell_nth [of "length xs - 1" xs l] ne list_rep_length [OF rep] i
    by (auto simp: list_cells_def hd_conv_nth last_conv_nth)
  have vals: "map Bulk (removed_values op_left 1 xs) = [resp_bulk ?x]"
  proof (cases op_left)
    case True
    then show ?thesis using ne by (cases xs) (simp_all add: removed_values_def resp_defs)
  next
    case False
    then show ?thesis using ne by (cases xs rule: rev_cases) (simp_all add: removed_values_def resp_defs)
  qed
  have del: "m(lkey env key v ?i := None) = m |` (- lkey env key v ` set (removed_indices op_left 1 l (length xs)))"
    unfolding idx by (auto simp: restrict_map_def)
  have post: "?R (Inr [resp_bulk ?x]) (m(lkey env key v ?i := None, mkey env key :=
      (if ?l = ?r then None else Some (encode_txnkv_list_meta_value ttl v ?l ?r))))"
    using list_state_removed [OF rep _ del, of ?l ?r] ne unfolding vals by (auto simp: Suc_leI)
  show "wp {} (pop_body env key op_left 1) (body_post {} db sn ts UNIV ?R) (db, (sn, m, False) # ts)"
    using live meta x post
    by (cases op_left)
      (simp_all add: pop_body_def pop_one_def wp_with_list_meta wp_simps with_txn_def Let_def resp_defs
        del: fun_upd_apply cong del: if_weak_cong)
qed

lemma pop_keys_indices:
  "n \<le> len \<Longrightarrow> pop_keys env key v op_left n l (l + of_nat len) =
     (map (lkey env key v) (removed_indices op_left n l len), if op_left then l + of_nat n else l,
      if op_left then l + of_nat len else l + of_nat len - of_nat n)"
proof (induction n arbitrary: l len)
  case 0
  then show ?case by (simp add: removed_indices_def)
next
  case (Suc n)
  then obtain len' where len: "len = Suc len'" by (metis Suc_le_D)
  show ?case
  proof (cases op_left)
    case True
    have "removed_indices True (Suc n) l len = l # removed_indices True n (l + 1) len'"
      by (simp add: removed_indices_def map_upt_Suc ac_simps del: upt_Suc)
    then show ?thesis using Suc True len Suc.IH [of len' "l + 1"] by (simp add: ac_simps)
  next
    case False
    have "removed_indices False (Suc n) l len = (l + of_nat len') # removed_indices False n l len'"
      by (simp add: removed_indices_def map_upt_Suc len del: upt_Suc of_nat_diff)
    then show ?thesis using Suc False len Suc.IH [of len' l] by (simp add: ac_simps)
  qed
qed

lemma wp_pop_pairs:
  assumes "\<And>e m'. e \<in> F \<Longrightarrow> Q (Done (Inl (TikvClient e))) (db, (sn, m', True) # ts)"
  shows "wp F (pop_pairs pairs vals f) Q (db, (sn, m, True) # ts) \<longleftrightarrow>
    wp F (f (vals @ map (\<lambda>p. Bulk (snd p)) pairs)) Q (db, (sn, m |` (- fst ` set pairs), True) # ts)"
proof (induction pairs arbitrary: m vals)
  case (Cons p pairs)
  have "(m(fst p := None)) |` (- fst ` set pairs) = m |` (- fst ` set (p # pairs))" by (auto simp: restrict_map_def)
  then show ?case using Cons assms by (simp add: wp_simps resp_defs del: fun_upd_apply restrict_fun_upd)
qed simp

lemma removed_values_indices:
  assumes "list_cells env m key v l xs" "n \<le> length xs" "length xs < 2 ^ 63"
  shows "map (\<lambda>i. m (lkey env key v i)) (removed_indices op_left n l (length xs)) = map Some (removed_values op_left n xs)"
proof (cases op_left)
  case True
  then show ?thesis using assms
    by (intro nth_equalityI) (auto simp: removed_indices_def removed_values_def list_cells_def cell_nth)
next
  case False
  have "j < n \<Longrightarrow> cell l xs (l + of_nat (length xs - Suc j)) = Some (xs ! (length xs - Suc j))" for j
    using assms by (intro cell_nth) auto
  then show ?thesis using assms False
    by (intro nth_equalityI)
      (auto simp: removed_indices_def removed_values_def list_cells_def rev_nth simp del: of_nat_diff)
qed

lemma distinct_removed_indices:
  assumes "n \<le> len" "len < 2 ^ 63"
  shows "distinct (removed_indices op_left n l len)"
proof -
  have inj: "inj_on (\<lambda>j. l + of_nat (g j)) (set [0..<n])" if "\<And>j. j < n \<Longrightarrow> g j < 2 ^ 64" "inj_on g {0..<n}" for g
  proof (rule inj_onI)
    fix i j assume "i \<in> set [0..<n]" "j \<in> set [0..<n]" "l + of_nat (g i) = l + of_nat (g j)"
    then have "unat (of_nat (g i) :: u64) = unat (of_nat (g j) :: u64)" "i < n" "j < n" by simp_all
    then have "g i = g j" using that(1) unat_of_nat_u64 [of "g i"] unat_of_nat_u64 [of "g j"] by metis
    then show "i = j" using that(2) \<open>i < n\<close> \<open>j < n\<close> by (simp add: inj_on_def)
  qed
  have "inj_on (\<lambda>j. len - Suc j) {0..<n}" using assms by (auto simp: inj_on_def)
  then show ?thesis using inj [of "\<lambda>j. j"] inj [of "\<lambda>j. len - Suc j"] assms
    by (auto simp: removed_indices_def distinct_map simp del: of_nat_diff)
qed

lemma pop_body_many:
  assumes rep: "list_rep env m key ttl v l xs" and live: "\<not> key_is_expired env ttl" and cnt: "cnt \<noteq> 1"
  defines "n \<equiv> min (unat cnt) (length xs)"
  shows "body_spec F UNIV (pop_body env key op_left cnt) m
    (\<lambda>r m'. \<exists>vals. r = Inr (map Bulk vals) \<and> mset vals = mset (removed_values op_left n xs) \<and>
       list_state env m' key ttl (kept_values op_left n xs) \<and> others_same (KEY_ENCODER env) key m m')"
    (is "body_spec _ _ _ _ ?R")
proof (rule body_specI)
  fix db sn ts
  have meta: "m (mkey env key) = Some (encode_txnkv_list_meta_value ttl v l (l + of_nat (length xs)))"
    and cells: "list_cells env m key v l xs" using rep by (auto simp: list_rep_def)
  have len: "length xs < 2 ^ 63" "n \<le> length xs" using list_rep_length [OF rep] by (auto simp: n_def)
  have ulen: "unat (of_nat (length xs) :: u64) = length xs" using len by (intro unat_of_nat_u64) simp
  have real: "unat (if of_nat (length xs) < cnt then of_nat (length xs) else cnt) = n"
    using ulen by (simp add: n_def word_less_nat_alt)
  let ?idx = "removed_indices op_left n l (length xs)"
  let ?l = "if op_left then l + of_nat n else l"
  let ?r = "if op_left then l + of_nat (length xs) else l + of_nat (length xs) - of_nat n"
  have vals: "map (\<lambda>k. the (m k)) (map (lkey env key v) ?idx) = removed_values op_left n xs"
    using arg_cong [OF removed_values_indices [OF cells len(2,1), of op_left], of "map the"] by (simp add: o_def)
  have all: "m k \<noteq> None" if "k \<in> set (map (lkey env key v) ?idx)" for k
  proof -
    have "m k \<in> set (map (\<lambda>i. m (lkey env key v i)) ?idx)" using that by auto
    then show ?thesis unfolding removed_values_indices [OF cells len(2,1)] by auto
  qed
  have post: "?R (Inr (map (\<lambda>p. Bulk (snd p)) kvs)) ((m |` (- fst ` set kvs))(mkey env key :=
      (if ?l = ?r then None else Some (encode_txnkv_list_meta_value ttl v ?l ?r))))"
    if kvs: "batch_answer m (map (lkey env key v) ?idx) kvs" for kvs
  proof -
    have "distinct (map (lkey env key v) ?idx)"
      using distinct_removed_indices [OF len(2,1), of op_left l] by (auto simp: distinct_map inj_on_def)
    note ans = batch_answer_distinct [OF kvs this all]
    have m': "m |` (- fst ` set kvs) = m |` (- lkey env key v ` set ?idx)" using ans by simp
    have vs: "mset (map snd kvs) = mset (removed_values op_left n xs)" using ans(2) unfolding vals .
    show ?thesis
      by (intro exI [of _ "map snd kvs"] conjI vs list_state_removed [OF rep len(2) m' refl refl]) simp
  qed
  show "wp F (pop_body env key op_left cnt) (body_post F db sn ts UNIV ?R) (db, (sn, m, False) # ts)"
    using live meta cnt post
    by (simp add: pop_body_def pop_many_def wp_with_list_meta Let_def real pop_keys_indices [OF len(2)] wp_simps
        wp_pop_pairs del: fun_upd_apply cong del: if_weak_cong)
qed

end
