(* ===== verification/List_Ranges.thy ===== *)
theory List_Ranges
  imports List_Sequences
begin

text \<open>
  The list commands that scan: removal and expiry of a whole list, \<^verbatim>\<open>LTRIM\<close> and \<^verbatim>\<open>LRANGE\<close>.
\<close>

section \<open>Scanning the elements\<close>

lemma list_range_iff:
  "in_range (encode_txnkv_list_data_key_range (KEY_ENCODER env) key v) x \<longleftrightarrow>
   (\<exists>r. x = ukp (KEY_ENCODER env) key @ 108 # u16_to_be_bytes v @ 96 # r)"
  by (simp add: enc_simps)

lemma lkey_in_range [simp]: "in_range (encode_txnkv_list_data_key_range (KEY_ENCODER env) key v) (lkey env key v i)"
  by (auto simp: list_range_iff key_shapes)

lemma lkey_le_iff [simp]: "lkey env key v i \<le> lkey env key v j \<longleftrightarrow> i \<le> j"
  by (simp add: key_shapes)

lemma lkey_less_iff [simp]: "lkey env key v i < lkey env key v j \<longleftrightarrow> i < j"
  by (simp add: key_shapes)

text \<open>The keys of consecutive elements.\<close>

definition span_keys :: "env \<Rightarrow> bytes \<Rightarrow> u16 \<Rightarrow> u64 \<Rightarrow> nat \<Rightarrow> nat \<Rightarrow> bytes list" where
  "span_keys env key v l a b = map (\<lambda>j. lkey env key v (l + of_nat j)) [a..<b]"

lemma unat_span: "unat l + b < 2 ^ 63 \<Longrightarrow> j < b \<Longrightarrow> unat (l + of_nat j :: u64) = unat l + j"
  by (rule sint_add_len(3)) simp

lemma span_keys_sorted:
  assumes "unat l + b < 2 ^ 63"
  shows "sorted (span_keys env key v l a b)" "distinct (span_keys env key v l a b)"
  using assms by (auto simp: span_keys_def sorted_iff_nth_mono distinct_map inj_on_def word_le_nat_alt unat_span
      word_unat_eq_iff simp del: of_nat_add)

lemma set_span_keys: "set (span_keys env key v l a b) = (\<lambda>j. lkey env key v (l + of_nat j)) ` {a..<b}"
  by (simp add: span_keys_def)

lemma list_dom:
  assumes "list_cells env m key v l xs" "list_frame env m key v" "length xs < 2 ^ 63"
  shows "{x \<in> dom m. versioned (KEY_ENCODER env) key v x} = set (span_keys env key v l 0 (length xs))"
proof (intro equalityI subsetI)
  fix x assume "x \<in> {x \<in> dom m. versioned (KEY_ENCODER env) key v x}"
  then have x: "versioned (KEY_ENCODER env) key v x" "m x \<noteq> None" by auto
  then obtain i where i: "x = lkey env key v i" using assms(2) unfolding list_frame_def by blast
  then obtain y where "cell l xs i = Some y" using x assms(1) by (auto simp: list_cells_def)
  then obtain j where "j < length xs" "i = l + of_nat j" by (rule cell_SomeE)
  then show "x \<in> set (span_keys env key v l 0 (length xs))" using i by (auto simp: set_span_keys)
next
  fix x assume "x \<in> set (span_keys env key v l 0 (length xs))"
  then obtain j where j: "j < length xs" "x = lkey env key v (l + of_nat j)" by (auto simp: set_span_keys)
  then have "m x = Some (xs ! j)" using assms by (simp add: list_cells_def cell_nth)
  then show "x \<in> {x \<in> dom m. versioned (KEY_ENCODER env) key v x}" using j by auto
qed

lemma list_rep_dom:
  assumes "list_rep env m key ttl v l xs"
  shows "{x \<in> dom m. in_range (encode_txnkv_list_data_key_range (KEY_ENCODER env) key v) x} =
    set (span_keys env key v l 0 (length xs))"
proof -
  have "in_range (encode_txnkv_list_data_key_range (KEY_ENCODER env) key v) x \<Longrightarrow> versioned (KEY_ENCODER env) key v x" for x
    by (auto simp: list_range_iff versioned_def)
  then have "{x \<in> dom m. in_range (encode_txnkv_list_data_key_range (KEY_ENCODER env) key v) x} \<subseteq>
      {x \<in> dom m. versioned (KEY_ENCODER env) key v x}" by blast
  moreover have "set (span_keys env key v l 0 (length xs)) \<subseteq>
      {x. in_range (encode_txnkv_list_data_key_range (KEY_ENCODER env) key v) x}"
    by (auto simp: set_span_keys)
  ultimately show ?thesis using list_dom [of env m key v l xs] assms list_rep_length [OF assms]
    by (auto simp: list_rep_def)
qed

lemma list_range_keys:
  assumes "list_rep env m key ttl v l xs"
  shows "range_keys m (encode_txnkv_list_data_key_range (KEY_ENCODER env) key v) =
    span_keys env key v l 0 (length xs)"
  using span_keys_sorted list_rep_length [OF assms] list_rep_dom [OF assms] by (intro range_keys_eqI) auto

definition span_pairs :: "env \<Rightarrow> bytes \<Rightarrow> u16 \<Rightarrow> u64 \<Rightarrow> bytes list \<Rightarrow> kv_pair list" where
  "span_pairs env key v l xs = map (\<lambda>j. (lkey env key v (l + of_nat j), xs ! j)) [0..<length xs]"

lemma scan_list:
  assumes rep: "list_rep env m key ttl v l xs" and "finite (dom m)" and "length xs \<le> n"
  shows "scan_store m d (encode_txnkv_list_data_key_range (KEY_ENCODER env) key v) n =
    (if d then rev (span_pairs env key v l xs) else span_pairs env key v l xs)"
proof -
  have "length (range_keys m (encode_txnkv_list_data_key_range (KEY_ENCODER env) key v)) \<le> n"
    using assms by (simp add: list_range_keys span_keys_def)
  moreover have "map (\<lambda>k. (k, the (m k))) (span_keys env key v l 0 (length xs)) = span_pairs env key v l xs"
    using rep list_rep_length [OF rep]
    by (simp add: span_keys_def span_pairs_def list_rep_def list_cells_def cell_nth)
  ultimately show ?thesis
    by (simp add: scan_store_def list_range_keys [OF rep] rev_map [symmetric])
qed

section \<open>Deleting a list\<close>

lemma no_key_gc:
  assumes frame: "list_frame env m key v"
  shows "no_key env (m(mkey env key := None, encode_txnkv_gc_key (KEY_ENCODER env) key \<mapsto> u16_to_be_bytes v,
    encode_txnkv_gc_version_key (KEY_ENCODER env) key v \<mapsto> b)) key"
    and "others_same (KEY_ENCODER env) key m (m(mkey env key := None,
      encode_txnkv_gc_key (KEY_ENCODER env) key \<mapsto> u16_to_be_bytes v,
      encode_txnkv_gc_version_key (KEY_ENCODER env) key v \<mapsto> b))"
  using frame
  by (auto simp: no_key_def list_frame_def gc_ok_def others_same_upd split: if_splits)

lemma no_key_swept:
  assumes frame: "list_frame env m key v"
    and swept: "\<And>x. versioned (KEY_ENCODER env) key v x \<Longrightarrow> m' x = None"
    and only: "only_cells env key v m m'"
  shows "no_key env (m'(mkey env key := None)) key"
    and "others_same (KEY_ENCODER env) key m (m'(mkey env key := None))"
proof -
  have "gc_ok (KEY_ENCODER env) m' key (Some v)" using frame only gc_ok_only_cells by (auto simp: list_frame_def)
  then have "gc_ok (KEY_ENCODER env) m' key None" using swept unfolding gc_ok_def by (metis option.sel)
  then show "no_key env (m'(mkey env key := None)) key" by (simp add: no_key_def gc_ok_def)
  show "others_same (KEY_ENCODER env) key m (m'(mkey env key := None))"
    using only by (simp add: others_same_upd others_same_only_cells)
qed

lemma wp_list_clear:
  assumes rep: "list_rep env m key ttl v l xs"
    and Q: "\<And>m'. \<lbrakk>no_key env m' key; others_same (KEY_ENCODER env) key m m'\<rbrakk> \<Longrightarrow> wp F p Q (db, (sn, m', True) # ts)"
    and err: "\<And>e m'. e \<in> F \<Longrightarrow> Q (Done (Inl (TikvClient e))) (db, (sn, m', True) # ts)"
  shows "wp F (list_clear env key v l (l + of_nat (length xs)) p) Q (db, (sn, m, True) # ts)"
proof -
  have frame: "list_frame env m key v" and cells: "list_cells env m key v l xs"
    using rep by (auto simp: list_rep_def)
  have len: "length xs < 2 ^ 63" using list_rep_length [OF rep] by simp
  let ?t = "async_del_list_threshold_or_default (SERVER_CONFIG env)"
  show ?thesis
  proof (cases "ucast ?t \<le> (of_nat (length xs) :: u64)")
    case True
    then show ?thesis using Q [OF no_key_gc [OF frame]] err
      by (simp add: list_clear_def Let_def wp_simps del: fun_upd_apply)
  next
    case False
    then have "length xs < unat (ucast ?t :: u64)"
      using unat_of_nat_u64 [of "length xs"] len by (simp add: word_le_nat_alt)
    also have "unat (ucast ?t :: u64) \<le> unat ?t"
      by (simp add: unsigned_ucast_eq take_bit_eq_mod)
    also have "unat ?t \<le> 4294967295"
      using unsigned_less [where ?w = ?t and ?'a = nat] by simp
    finally have n: "length xs \<le> u32_MAX" by (simp add: u32_MAX_def)
    let ?ks = "set (span_keys env key v l 0 (length xs))"
    have only: "only_cells env key v m (m |` (- ?ks))"
      by (rule only_cells_restrict) (auto simp: set_span_keys)
    have "(m |` (- ?ks)) x = None" if "versioned (KEY_ENCODER env) key v x" for x
      using list_dom [OF cells frame len] that by (auto simp: restrict_map_def)
    note post = Q [OF no_key_swept [OF frame this only]]
    show ?thesis
    proof (cases "finite (dom m)")
      case fin: True
      have "map fst (span_pairs env key v l xs) = span_keys env key v l 0 (length xs)"
        by (simp add: span_pairs_def span_keys_def)
      then show ?thesis using False post err scan_list [OF rep fin n, of False]
        by (simp add: list_clear_def Let_def wp_simps del: fun_upd_apply)
    next
      case False
      then show ?thesis using \<open>\<not> ucast ?t \<le> of_nat (length xs)\<close> err
        by (simp add: list_clear_def Let_def wp_simps)
    qed
  qed
qed

text \<open>\<^verbatim>\<open>DEL\<close> on a list.\<close>

lemma list_del_body_rep:
  assumes rep: "list_rep env m key ttl v l xs"
  shows "body_spec F UNIV (list_del_body env key) m
    (\<lambda>r m'. r = Inr 1 \<and> no_key env m' key \<and> others_same (KEY_ENCODER env) key m m')" (is "body_spec _ _ _ _ ?R")
proof (rule body_specI)
  fix db sn ts
  have meta: "m (mkey env key) = Some (encode_txnkv_list_meta_value ttl v l (l + of_nat (length xs)))"
    using rep by (simp add: list_rep_def)
  have "wp F (list_clear env key v l (l + of_nat (length xs)) (Return 1)) (body_post F db sn ts UNIV ?R)
      (db, (sn, m, True) # ts)"
    by (rule wp_list_clear [OF rep]) (auto simp: wp_simps)
  then show "wp F (list_del_body env key) (body_post F db sn ts UNIV ?R) (db, (sn, m, False) # ts)"
    using meta by (simp add: list_del_body_def wp_simps)
qed

text \<open>Expiry: a list that is due is removed, another one is left alone.\<close>

lemma list_expire_body_rep:
  assumes rep: "list_rep env m key ttl v l xs"
  shows "body_spec F UNIV (list_expire_body env key) m
    (\<lambda>r m'. if key_is_expired env ttl then r = Inr 1 \<and> no_key env m' key \<and> others_same (KEY_ENCODER env) key m m'
       else r = Inr 0 \<and> m' = m)" (is "body_spec _ _ _ _ ?R")
proof (rule body_specI)
  fix db sn ts
  have meta: "m (mkey env key) = Some (encode_txnkv_list_meta_value ttl v l (l + of_nat (length xs)))"
    using rep by (simp add: list_rep_def)
  have "wp F (list_clear env key v l (l + of_nat (length xs)) (Return 1)) (body_post F db sn ts UNIV ?R)
      (db, (sn, m, True) # ts)" if "key_is_expired env ttl"
    by (rule wp_list_clear [OF rep]) (use that in \<open>auto simp: wp_simps\<close>)
  then show "wp F (list_expire_body env key) (body_post F db sn ts UNIV ?R) (db, (sn, m, False) # ts)"
    using meta by (simp add: list_expire_body_def wp_simps)
qed

lemma wp_list_expire_then:
  assumes rep: "list_rep env m key ttl v l xs" and due: "key_is_expired env ttl" and conn: "TIKV_TXN_CLIENTS env"
    and Q: "\<And>m'. \<lbrakk>no_key env m' key; others_same (KEY_ENCODER env) key m m'\<rbrakk> \<Longrightarrow> wp F p Q (db, (sn, m', False) # ts)"
    and err: "\<And>e m'. e \<in> F \<Longrightarrow> Q (Done (Inl (TikvClient e))) (db, (sn, m', False) # ts)"
  shows "wp F (list_expire_then env key p) Q (db, (sn, m, True) # ts)"
proof -
  have "body_spec F {False} (do_async_txnkv_list_expire_if_needed env True key) m
      (\<lambda>r m'. r = Inr 1 \<and> no_key env m' key \<and> others_same (KEY_ENCODER env) key m m')"
    using body_spec_scoped [OF list_expire_body_rep [OF rep, of F]] conn due
    by (simp add: do_async_txnkv_list_expire_if_needed_def get_txn_client_def exec_in_txn_def)
  then have "wp F (call (do_async_txnkv_list_expire_if_needed env True key) (\<lambda>_. p)) Q (db, (sn, m, False) # ts)"
    by (rule wp_call) (use Q err in auto)
  then show ?thesis by (simp add: list_expire_then_def)
qed

text \<open>An expired list is removed by the first command that meets it, which then answers as for a key that
  does not exist.\<close>

definition answered_expired :: "env \<Rightarrow> bytes \<Rightarrow> store \<Rightarrow> 'a result \<Rightarrow> 'a result \<Rightarrow> store \<Rightarrow> bool" where
  "answered_expired env key m x r m' \<longleftrightarrow> r = x \<and> no_key env m' key \<and> others_same (KEY_ENCODER env) key m m'"

lemma expired_body:
  assumes rep: "list_rep env m key ttl v l xs" and due: "key_is_expired env ttl" and conn: "TIKV_TXN_CLIENTS env"
    and p: "p = with_list_meta env key wt ab (\<lambda>ttl v l r. if key_is_expired env ttl then list_expire_then env key (Ret x)
      else f ttl v l r)"
    and x: "\<And>e. x \<noteq> Inl (TikvClient e)"
  shows "body_spec F UNIV p m (answered_expired env key m x)"
proof (rule body_specI)
  fix db sn ts
  have meta: "m (mkey env key) = Some (encode_txnkv_list_meta_value ttl v l (l + of_nat (length xs)))"
    using rep by (simp add: list_rep_def)
  have "wp F (list_expire_then env key (Ret x)) (body_post F db sn ts UNIV (answered_expired env key m x))
      (db, (sn, m, True) # ts)"
  proof (rule wp_list_expire_then [OF rep due conn])
    fix m' assume "no_key env m' key" "others_same (KEY_ENCODER env) key m m'"
    then have "answered_expired env key m x x m'" by (simp add: answered_expired_def)
    moreover have "result_ok F R x m' \<longleftrightarrow> R x m'" for R using x by (cases "(F, R, x, m')" rule: result_ok.cases) auto
    ultimately show "wp F (Ret x) (body_post F db sn ts UNIV (answered_expired env key m x)) (db, (sn, m', False) # ts)"
      by (simp add: body_post_def) blast
  qed (simp add: wp_simps)
  then show "wp F p (body_post F db sn ts UNIV (answered_expired env key m x)) (db, (sn, m, False) # ts)"
    unfolding p using meta due by (simp add: wp_with_list_meta wp_simps)
qed

lemma expired_bodies:
  assumes "list_rep env m key ttl v l xs" "key_is_expired env ttl" "TIKV_TXN_CLIENTS env"
  shows "body_spec F UNIV (pop_body env key op_left cnt) m (answered_expired env key m (Inr []))"
    and "body_spec F UNIV (ltrim_body env key start stop) m (answered_expired env key m (Inr ()))"
    and "body_spec F UNIV (lrange_body env key start stop) m (answered_expired env key m (Inr (Array [])))"
    and "body_spec F UNIV (llen_body env key) m (answered_expired env key m (Inr (Integer 0)))"
    and "body_spec F UNIV (lindex_body env key idx) m (answered_expired env key m (Inr Null))"
    and "body_spec F UNIV (lset_body env key idx x) m (answered_expired env key m (Inl REDIS_NO_SUCH_KEY_ERR))"
    and "body_spec F UNIV (linsert_body env key before pivot x) m (answered_expired env key m (Inr 0))"
    and "body_spec F UNIV (lrem_body env key n from_head x) m (answered_expired env key m (Inr 0))"
proof -
  note expired = expired_body [OF assms]
  note defs = Return_def Throw_def resp_defs
  show "body_spec F UNIV (pop_body env key op_left cnt) m (answered_expired env key m (Inr []))"
    by (rule expired [OF pop_body_def [unfolded defs]]) simp
  show "body_spec F UNIV (ltrim_body env key start stop) m (answered_expired env key m (Inr ()))"
    by (rule expired [OF ltrim_body_def [unfolded defs]]) simp
  show "body_spec F UNIV (lrange_body env key start stop) m (answered_expired env key m (Inr (Array [])))"
    by (rule expired [OF lrange_body_def [unfolded defs]]) simp
  show "body_spec F UNIV (llen_body env key) m (answered_expired env key m (Inr (Integer 0)))"
    by (rule expired [OF llen_body_def [unfolded defs]]) simp
  show "body_spec F UNIV (lindex_body env key idx) m (answered_expired env key m (Inr Null))"
    by (rule expired [OF lindex_body_def [unfolded defs]]) simp
  show "body_spec F UNIV (lset_body env key idx x) m (answered_expired env key m (Inl REDIS_NO_SUCH_KEY_ERR))"
    by (rule expired [OF lset_body_def [unfolded defs]]) (simp add: wp_simps)
  show "body_spec F UNIV (linsert_body env key before pivot x) m (answered_expired env key m (Inr 0))"
    by (rule expired [OF linsert_body_def [unfolded defs]]) simp
  show "body_spec F UNIV (lrem_body env key n from_head x) m (answered_expired env key m (Inr 0))"
    by (rule expired [OF lrem_body_def [unfolded defs]]) simp
qed

text \<open>A push on an expired list starts a new list, but with the time to live of the old one.\<close>

lemma push_body_expired:
  assumes rep: "list_rep env m key ttl v l xs" and due: "key_is_expired env ttl" and conn: "TIKV_TXN_CLIENTS env"
    and async: "async_deletion_enabled_or_default (SERVER_CONFIG env)" and vs: "vs \<noteq> []" "length vs \<le> 2 ^ 32"
  shows "body_spec F UNIV (push_body env key vs op_left) m
    (\<lambda>r m'. r = Inl KEY_VERSION_EXHUSTED_ERR \<or>
       r = Inr (of_nat (length vs)) \<and> list_state env m' key ttl (pushed op_left vs []) \<and>
       others_same (KEY_ENCODER env) key m m')" (is "body_spec _ _ _ _ ?R")
proof (rule body_specI)
  fix db sn ts
  let ?Q = "body_post F db sn ts UNIV ?R"
  have meta: "m (mkey env key) = Some (encode_txnkv_list_meta_value ttl v l (l + of_nat (length xs)))"
    using rep by (simp add: list_rep_def)
  have "wp F (list_expire_then env key (call (get_version_for_new env key) (\<lambda>version.
      Lock (push_values env key vs op_left ttl version INIT_INDEX INIT_INDEX)))) ?Q (db, (sn, m, True) # ts)"
  proof (rule wp_list_expire_then [OF rep due conn])
    fix m1 assume "no_key env m1 key" and same: "others_same (KEY_ENCODER env) key m m1"
    then show "wp F (call (get_version_for_new env key) (\<lambda>version.
        Lock (push_values env key vs op_left ttl version INIT_INDEX INIT_INDEX))) ?Q (db, (sn, m1, False) # ts)"
      by (intro wp_push_new async vs) (auto simp: wp_simps intro: others_same_trans)
  qed (simp add: wp_simps)
  then show "wp F (push_body env key vs op_left) ?Q (db, (sn, m, False) # ts)"
    using meta due by (simp add: push_body_def wp_with_list_meta wp_simps)
qed

text \<open>A key of another type: every command answers with the wrong-type error and writes nothing.\<close>

definition other_type :: "env \<Rightarrow> store \<Rightarrow> bytes \<Rightarrow> bool" where
  "other_type env m key \<longleftrightarrow> (\<exists>b dt. m (mkey env key) = Some b \<and> decode_key_type b = Some dt \<and> dt \<noteq> DT_List)"

lemma wrong_type_bodies:
  assumes "other_type env m key"
  shows "body_spec F UNIV (push_body env key vs op_left) m (\<lambda>r m'. r = Inl REDIS_WRONG_TYPE_ERR \<and> m' = m)"
    and "body_spec F UNIV (pop_body env key op_left cnt) m (\<lambda>r m'. r = Inl REDIS_WRONG_TYPE_ERR \<and> m' = m)"
    and "body_spec F UNIV (ltrim_body env key start stop) m (\<lambda>r m'. r = Inl REDIS_WRONG_TYPE_ERR \<and> m' = m)"
    and "body_spec F UNIV (lset_body env key idx x) m (\<lambda>r m'. r = Inl REDIS_WRONG_TYPE_ERR \<and> m' = m)"
    and "body_spec F UNIV (linsert_body env key before pivot x) m (\<lambda>r m'. r = Inl REDIS_WRONG_TYPE_ERR \<and> m' = m)"
    and "body_spec F UNIV (lrem_body env key n from_head x) m (\<lambda>r m'. r = Inl REDIS_WRONG_TYPE_ERR \<and> m' = m)"
    and "body_spec F UNIV (lrange_body env key start stop) m (\<lambda>r m'. r = Inr (resp_err REDIS_WRONG_TYPE_ERR) \<and> m' = m)"
    and "body_spec F UNIV (llen_body env key) m (\<lambda>r m'. r = Inr (resp_err REDIS_WRONG_TYPE_ERR) \<and> m' = m)"
    and "body_spec F UNIV (lindex_body env key idx) m (\<lambda>r m'. r = Inr (resp_err REDIS_WRONG_TYPE_ERR) \<and> m' = m)"
  using assms unfolding other_type_def
  by (auto simp: body_spec_def push_body_def pop_body_def ltrim_body_def lset_body_def linsert_body_def lrem_body_def
      lrange_body_def llen_body_def lindex_body_def wp_with_list_meta_wrong wp_simps)

text \<open>A key that does not exist.\<close>

lemma absent_bodies:
  assumes "no_key env m key"
  shows "body_spec F UNIV (pop_body env key op_left cnt) m (\<lambda>r m'. r = Inr [] \<and> m' = m)"
    and "body_spec F UNIV (ltrim_body env key start stop) m (\<lambda>r m'. r = Inr () \<and> m' = m)"
    and "body_spec F UNIV (lset_body env key idx x) m (\<lambda>r m'. r = Inl REDIS_NO_SUCH_KEY_ERR \<and> m' = m)"
    and "body_spec F UNIV (linsert_body env key before pivot x) m (\<lambda>r m'. r = Inr 0 \<and> m' = m)"
    and "body_spec F UNIV (lrem_body env key n from_head x) m (\<lambda>r m'. r = Inr 0 \<and> m' = m)"
    and "body_spec F UNIV (lrange_body env key start stop) m (\<lambda>r m'. r = Inr (Array []) \<and> m' = m)"
    and "body_spec F UNIV (lindex_body env key idx) m (\<lambda>r m'. r = Inr Null \<and> m' = m)"
    and "body_spec F UNIV (list_del_body env key) m (\<lambda>r m'. r = Inr 0 \<and> m' = m)"
  using assms unfolding no_key_def
  by (auto simp: body_spec_def pop_body_def ltrim_body_def lset_body_def linsert_body_def lrem_body_def
      lrange_body_def llen_body_def lindex_body_def list_del_body_def wp_with_list_meta_absent wp_simps resp_defs)

section \<open>Trimming\<close>

text \<open>A bound of \<^verbatim>\<open>LTRIM\<close>: counted from the end when negative, then moved into the list.\<close>

definition clamp_index :: "nat \<Rightarrow> i64 \<Rightarrow> nat" where
  "clamp_index n idx = nat (min (int n - 1) (max 0 (if sint idx < 0 then sint idx + int n else sint idx)))"

lemma clamp_index_less: "0 < n \<Longrightarrow> clamp_index n idx < n"
  by (auto simp: clamp_index_def)

lemma clamp_word:
  fixes idx :: i64
  assumes n: "0 < n" "n < 2 ^ 63"
  defines "j \<equiv> (if i64_lt idx 0 then idx + of_nat n else idx)"
  defines "k \<equiv> (if i64_lt j 0 then 0 else j)"
  shows "(if i64_lt (of_nat n - 1) k then of_nat n - 1 else k) = of_nat (clamp_index n idx)"
proof -
  have sj: "sint j = (if sint idx < 0 then sint idx + int n else sint idx)"
    unfolding j_def by (rule list_index_offset(3) [OF n(2)])
  have last: "of_nat n - 1 = (of_nat (n - 1) :: i64)" using n by (simp add: of_nat_diff)
  have slast: "sint (of_nat (n - 1) :: i64) = int n - 1"
    using n sint_of_nat_small [of "n - 1"] by (simp del: of_nat_diff)
  have sk: "sint k = max 0 (sint j)" by (auto simp: k_def i64_lt_def)
  have "nat (sint k) = unat k" using sk unat_of_sint [of k] by (simp flip: unat_of_sint del: of_nat_unat)
  then have k: "k = of_nat (nat (sint k))" by simp
  have c: "clamp_index n idx = (if int n - 1 < sint k then n - 1 else nat (sint k))"
    unfolding sk sj clamp_index_def using n by auto
  show ?thesis
  proof (cases "int n - 1 < sint k")
    case True
    then show ?thesis unfolding last i64_lt_def slast c by simp
  next
    case False
    then show ?thesis unfolding last i64_lt_def slast c using k by simp
  qed
qed

lemma u64_range_offsets:
  assumes "unat l + b < 2 ^ 63" "a \<le> b"
  shows "u64_range (l + of_nat a) (l + of_nat b) = map (\<lambda>j. l + of_nat j) [a..<b]"
proof -
  have u: "unat (l + of_nat a) = unat l + a" "unat (l + of_nat b) = unat l + b"
    using assms sint_add_len(3) [of l a] sint_add_len(3) [of l b] by auto
  have "[unat l + a..<unat l + b] = map (\<lambda>j. unat l + j) [a..<b]"
    by (intro nth_equalityI) auto
  then show ?thesis by (simp add: u64_range_def u o_def)
qed

lemma cell_slice:
  assumes "s \<le> length xs" "length xs < 2 ^ 63"
  shows "cell (l + of_nat s) (take (e + 1 - s) (drop s xs)) i =
    (if s \<le> unat (i - l) \<and> unat (i - l) \<le> e then cell l xs i else None)"
proof -
  have s: "unat (of_nat s :: u64) = s" using assms by (intro unat_of_nat_u64) simp
  have eq: "i - (l + of_nat s) = (i - l) - of_nat s" by simp
  have u: "s \<le> unat (i - l) \<Longrightarrow> unat (i - (l + of_nat s)) = unat (i - l) - s"
    unfolding eq unat_sub_cases s by simp
  show ?thesis
    unfolding cell_take cell_drop [OF assms] using u by (cases "s \<le> unat (i - l)") auto
qed

lemma list_state_slice:
  assumes rep: "list_rep env m key ttl v l xs" and s: "s < length xs" and e: "e < length xs"
    and m': "m' = m |` (- (lkey env key v \<circ> (\<lambda>j. l + of_nat j)) ` ({0..<s} \<union> {e + 1..<length xs}))"
  shows "list_state env (m'(mkey env key :=
      (if e + 1 \<le> s then None else Some (encode_txnkv_list_meta_value ttl v (l + of_nat s) (l + of_nat (e + 1))))))
      key ttl (take (e + 1 - s) (drop s xs))" (is ?state)
    and "others_same (KEY_ENCODER env) key m (m'(mkey env key := y))"
proof -
  note len = list_rep_length [OF rep]
  have cells: "list_cells env m key v l xs" and frame: "list_frame env m key v" using rep by (auto simp: list_rep_def)
  have idx: "(\<exists>j\<in>{0..<s} \<union> {e + 1..<length xs}. i = l + of_nat j) \<longleftrightarrow>
      unat (i - l) < s \<or> e < unat (i - l) \<and> unat (i - l) < length xs" for i
  proof
    assume "\<exists>j\<in>{0..<s} \<union> {e + 1..<length xs}. i = l + of_nat j"
    then obtain j where "j \<in> {0..<s} \<union> {e + 1..<length xs}" "i = l + of_nat j" by blast
    then have j: "j < s \<or> e < j \<and> j < length xs" "i - l = of_nat j" by auto
    then have "unat (i - l) = j" unfolding j(2) using len s by (intro unat_of_nat_u64) auto
    then show "unat (i - l) < s \<or> e < unat (i - l) \<and> unat (i - l) < length xs" using j by simp
  qed (auto intro!: bexI [of _ "unat (i - l)"])
  have "list_cells env m' key v (l + of_nat s) (take (e + 1 - s) (drop s xs))"
    unfolding list_cells_def
  proof
    fix i
    have "m' (lkey env key v i) = (if unat (i - l) < s \<or> e < unat (i - l) \<and> unat (i - l) < length xs then None
        else cell l xs i)"
      using cells idx [of i] unfolding m' by (auto simp: restrict_map_def list_cells_def)
    moreover have "cell l xs i = None" if "\<not> unat (i - l) < length xs" using that by (simp add: cell_def)
    ultimately show "m' (lkey env key v i) = cell (l + of_nat s) (take (e + 1 - s) (drop s xs)) i"
      using cell_slice [of s xs l e i] len s by auto
  qed
  moreover have "only_cells env key v m m'"
    unfolding m' by (rule only_cells_restrict) auto
  moreover have "unat (l + of_nat s) + length (take (e + 1 - s) (drop s xs)) < 2 ^ 63"
    using sint_add_len(3) [of l s] len s e by auto
  ultimately have after: "list_state env (m'(mkey env key :=
           (if take (e + 1 - s) (drop s xs) = [] then None else
             Some (encode_txnkv_list_meta_value ttl v (l + of_nat s)
               (l + of_nat s + of_nat (length (take (e + 1 - s) (drop s xs))))))))
           key ttl (take (e + 1 - s) (drop s xs))" "others_same (KEY_ENCODER env) key m (m'(mkey env key := y))"
    using list_state_after [OF frame] by blast+
  have "take (e + 1 - s) (drop s xs) = [] \<longleftrightarrow> e + 1 \<le> s" using s by auto
  moreover have "\<not> e + 1 \<le> s \<Longrightarrow> length (take (e + 1 - s) (drop s xs)) = e + 1 - s" using e by auto
  then have "\<not> e + 1 \<le> s \<Longrightarrow> l + of_nat s + of_nat (length (take (e + 1 - s) (drop s xs))) = l + of_nat (e + 1)"
    by (simp add: of_nat_diff)
  ultimately show ?state using after(1) by (cases "e + 1 \<le> s") (simp_all only: if_True if_False simp_thms)
  show "others_same (KEY_ENCODER env) key m (m'(mkey env key := y))" by (rule after(2))
qed

lemma ltrim_at_slice:
  fixes start stop :: i64 and l :: u64
  assumes n: "0 < n" "unat l + n < 2 ^ 63"
  defines "s \<equiv> clamp_index n start" and "e \<equiv> clamp_index n stop"
  shows "ltrim_at env key start stop ttl v l (l + of_nat n) =
    delete_all (map (lkey env key v) (map (\<lambda>j. l + of_nat j) [0..<s])) (
    delete_all (map (lkey env key v) (map (\<lambda>j. l + of_nat j) [e + 1..<n])) (
    put_list_meta env key (e + 1 \<le> s) ttl v (l + of_nat s) (l + of_nat (e + 1)) (Return ())))"
proof -
  have n': "n < 2 ^ 63" using n by simp
  have se: "s < n" "e < n" using clamp_index_less n by (auto simp: s_def e_def)
  note cs = clamp_word [OF n(1) n', of start, folded s_def]
  note ce = clamp_word [OF n(1) n', of stop, folded e_def]
  have pos: "i64_lt 0 (of_nat k) \<longleftrightarrow> 0 < k" if "k < 2 ^ 63" for k
    using sint_of_nat_small [OF that] by (simp add: i64_lt_def)
  have left: "(if i64_lt 0 (of_nat s) then l + of_nat s else l) = l + of_nat s"
    using pos [of s] se n' by auto
  have rt: "l + of_nat n - (of_nat e + l) - 1 = of_nat (n - e - 1)"
    using se by (simp add: of_nat_diff Suc_leI)
  have right: "(if i64_lt 0 (of_nat (n - e - 1)) then l + of_nat n - of_nat (n - e - 1) else l + of_nat n) =
      l + of_nat (e + 1)"
  proof -
    have "of_nat n = (of_nat (e + 1) + of_nat (n - e - 1) :: u64)"
      using se by (simp only: of_nat_add [symmetric]) simp
    moreover have "i64_lt 0 (of_nat (n - e - 1)) \<longleftrightarrow> 0 < n - e - 1" using n' by (intro pos) linarith
    moreover have "n = e + 1" if "\<not> 0 < n - e - 1" using that se by linarith
    ultimately show ?thesis by (cases "0 < n - e - 1") (simp_all del: of_nat_diff)
  qed
  have r1: "u64_range l (of_nat s + l) = map (\<lambda>j. l + of_nat j) [0..<s]"
    using u64_range_offsets [of l s 0] se n by (simp add: add.commute)
  have r2: "u64_range (of_nat e + l + 1) (l + of_nat n) = map (\<lambda>j. l + of_nat j) [e + 1..<n]"
    using u64_range_offsets [of l n "e + 1"] se n by (simp add: ac_simps)
  have gone: "l + of_nat (e + 1) \<le> l + of_nat s \<longleftrightarrow> e + 1 \<le> s"
    using sint_add_len(3) [of l s] sint_add_len(3) [of l "e + 1"] se n by (simp add: word_le_nat_alt)
  show ?thesis
    unfolding ltrim_at_def Let_def add_diff_cancel_left' cs ce add_diff_cancel_right' left rt right r1 r2 gone ..
qed

lemma ltrim_body_rep:
  fixes start stop :: i64
  assumes rep: "list_rep env m key ttl v l xs" and live: "\<not> key_is_expired env ttl"
  defines "s \<equiv> clamp_index (length xs) start" and "e \<equiv> clamp_index (length xs) stop"
  shows "body_spec F UNIV (ltrim_body env key start stop) m
    (\<lambda>r m'. r = Inr () \<and> list_state env m' key ttl (take (e + 1 - s) (drop s xs)) \<and>
       others_same (KEY_ENCODER env) key m m')" (is "body_spec _ _ _ _ ?R")
proof (rule body_specI)
  fix db sn ts
  let ?n = "length xs"
  have n: "0 < ?n" "unat l + ?n < 2 ^ 63" using rep list_rep_length [OF rep] by (auto simp: list_rep_def)
  have meta: "m (mkey env key) = Some (encode_txnkv_list_meta_value ttl v l (l + of_nat ?n))"
    using rep by (simp add: list_rep_def)
  have se: "s < ?n" "e < ?n" using clamp_index_less n by (auto simp: s_def e_def)
  let ?m = "m |` (- (lkey env key v \<circ> (\<lambda>j. l + of_nat j)) ` ({0..<s} \<union> {e + 1..<?n}))"
  let ?p = "put_list_meta env key (e + 1 \<le> s) ttl v (l + of_nat s) (l + of_nat (e + 1)) (Return ())"
  have del: "m |` (- set (map (lkey env key v) (map (\<lambda>j. l + of_nat j) [0..<s]))) |`
      (- set (map (lkey env key v) (map (\<lambda>j. l + of_nat j) [e + 1..<?n]))) = ?m"
    unfolding restrict_restrict image_comp [symmetric] image_Un Compl_Un set_map set_upt ..
  have "wp F ?p (body_post F db sn ts UNIV ?R) (db, (sn, ?m, True) # ts)"
    using list_state_slice [OF rep se refl] unfolding wp_put_list_meta by (simp only: wp_simps) simp
  then have "wp F (ltrim_at env key start stop ttl v l (l + of_nat ?n)) (body_post F db sn ts UNIV ?R)
      (db, (sn, m, True) # ts)"
    unfolding ltrim_at_slice [OF n, of env key start stop ttl v, folded s_def e_def]
    by (subst wp_delete_all, simp add: wp_simps)+ (simp only: del)
  then show "wp F (ltrim_body env key start stop) (body_post F db sn ts UNIV ?R) (db, (sn, m, False) # ts)"
    using live meta by (simp add: ltrim_body_def wp_with_list_meta wp_simps)
qed

section \<open>Reading a range\<close>

lemma list_scan_from:
  assumes rep: "list_rep env m key ttl v l xs" and fin: "finite (dom m)" and a: "a \<le> b" "b \<le> length xs"
  shows "scan_store m False (RangeFrom (lkey env key v (l + of_nat a))) (b - a) =
    map (\<lambda>j. (lkey env key v (l + of_nat j), xs ! j)) [a..<b]"
proof -
  let ?n = "length xs"
  note len = list_rep_length [OF rep]
  have cells: "list_cells env m key v l xs" and frame: "list_frame env m key v" using rep by (auto simp: list_rep_def)
  let ?A = "set (span_keys env key v l a ?n)"
  let ?S = "{k \<in> dom m. lkey env key v (l + of_nat a) \<le> k}"
  have unat: "j < ?n \<Longrightarrow> unat (l + of_nat j) = unat l + j" for j using len unat_span by blast
  have le: "l + of_nat a \<le> l + of_nat j" if "a \<le> j" "j < ?n" for j
    using that unat [of a] unat [of j] by (simp add: word_le_nat_alt)
  have some: "m (lkey env key v (l + of_nat j)) = Some (xs ! j)" if "j < ?n" for j
    using cells that len by (simp add: list_cells_def cell_nth)
  have sub: "?A \<subseteq> ?S" using some le by (auto simp: set_span_keys)
  have above: "x < y" if x: "x \<in> ?A" and y: "y \<in> ?S - ?A" for x y
  proof (rule ccontr)
    assume "\<not> x < y"
    obtain j where j: "a \<le> j" "j < ?n" "x = lkey env key v (l + of_nat j)" using x by (auto simp: set_span_keys)
    have "\<exists>r. y = (ukp (KEY_ENCODER env) key @ 108 # u16_to_be_bytes v @ [96]) @ r"
      using y \<open>\<not> x < y\<close> j(3)
      by (intro prefix_between [where x = "u64_to_be_bytes (l + of_nat a)" and z = "u64_to_be_bytes (l + of_nat j)"])
        (auto simp: key_shapes)
    then have "versioned (KEY_ENCODER env) key v y" by (auto simp: versioned_def)
    then obtain i where i: "y = lkey env key v i" using y frame by (auto simp: list_frame_def)
    have ij: "l + of_nat a \<le> i" "i \<le> l + of_nat j" using y \<open>\<not> x < y\<close> j(3) i by auto
    have "m y \<noteq> None" using y by auto
    then obtain k where k: "k < ?n" "i = l + of_nat k" using cells i by (auto simp: list_cells_def elim!: cell_SomeE)
    have "a \<le> k" using ij(1) k unat [of k] unat [of a] j(1,2) by (simp add: word_le_nat_alt)
    then show False using y i k by (auto simp: set_span_keys)
  qed
  have "sorted_list_of_set ?A = span_keys env key v l a ?n"
    using span_keys_sorted [of l ?n] len by (metis sorted_list_of_set.idem_if_sorted_distinct)
  then have "range_keys m (RangeFrom (lkey env key v (l + of_nat a))) =
      span_keys env key v l a ?n @ sorted_list_of_set (?S - ?A)"
    unfolding range_keys_def in_range.simps
    using sorted_list_of_set_split [of ?S ?A "?S - ?A"] fin sub above by auto
  moreover have "take (b - a) (span_keys env key v l a ?n @ ys) = span_keys env key v l a b" for ys
    using a by (simp add: span_keys_def take_map)
  ultimately show ?thesis
    using a some by (simp add: scan_store_def) (simp add: span_keys_def)
qed

lemma lrange_at_slice:
  fixes start stop :: i64 and l :: u64
  assumes n: "unat l + n < 2 ^ 63" and a: "redis_index n start = Some a" and b: "redis_index n stop = Some b"
    and small: "b + 1 - a < 2 ^ 32"
  shows "lrange_at env key start stop v l (l + of_nat n) =
    (if b < a then Return (resp_array [])
     else txn_scan (RangeFrom (lkey env key v (l + of_nat a))) (b + 1 - a)
       (\<lambda>kvs. Return (resp_array (map (\<lambda>kv. resp_bulk (snd kv)) kvs))))"
proof -
  have n': "n < 2 ^ 63" using n by simp
  have wa: "(if i64_lt start 0 then start + of_nat n else start) = of_nat a" "a < n"
    using list_index_offset(2) [OF n' a] by auto
  have wb: "(if i64_lt stop 0 then stop + of_nat n else stop) = of_nat b" "b < n"
    using list_index_offset(2) [OF n' b] by auto
  have lt: "i64_lt (of_nat i) (of_nat j) \<longleftrightarrow> i < j" if "i < 2 ^ 63" "j < 2 ^ 63" for i j
    using sint_of_nat_small [OF that(1)] sint_of_nat_small [OF that(2)] by (simp add: i64_lt_def)
  have ba: "i64_lt (of_nat b) (of_nat a) \<longleftrightarrow> b < a" using wa wb n' by (intro lt) linarith+
  have na: "\<not> i64_lt (of_nat n) (of_nat a)" using wa n' lt [of n a] by simp
  have len: "of_nat b - of_nat a + 1 = (of_nat (b + 1 - a) :: i64)" if "\<not> b < a"
    using that by (simp add: of_nat_diff)
  have nlen: "\<not> i64_lt (of_nat n) (of_nat (b + 1 - a))" using wb n' lt [of n "b + 1 - a"] by auto
  have u32: "i64_to_u32 (of_nat (b + 1 - a)) = Some (b + 1 - a)"
    using small sint_of_nat_small [of "b + 1 - a"] by (auto simp: i64_to_u32_def simp del: of_nat_diff)
  show ?thesis
  proof (cases "b < a")
    case True
    then show ?thesis unfolding lrange_at_def Let_def add_diff_cancel_left' wa wb ba by simp
  next
    case False
    have "lrange_at env key start stop v l (l + of_nat n) = unwrap (Some (b + 1 - a)) (\<lambda>limit.
        txn_scan (RangeFrom (lkey env key v (of_nat a + l))) limit
          (\<lambda>kvs. Return (resp_array (map (\<lambda>kv. resp_bulk (snd kv)) kvs))))"
      unfolding lrange_at_def Let_def add_diff_cancel_left' wa wb ba len [OF False]
      using False na nlen u32 by (simp only: if_False if_True simp_thms)
    then show ?thesis using False by (simp add: unwrap_def add.commute)
  qed
qed

lemma lrange_body_rep:
  assumes rep: "list_rep env m key ttl v l xs" and live: "\<not> key_is_expired env ttl"
    and a: "redis_index (length xs) start = Some a" and b: "redis_index (length xs) stop = Some b"
    and small: "b + 1 - a < 2 ^ 32"
  shows "body_spec F UNIV (lrange_body env key start stop) m
    (\<lambda>r m'. r = Inr (Array (map Bulk (take (b + 1 - a) (drop a xs)))) \<and> m' = m)" (is "body_spec _ _ _ _ ?R")
proof (rule body_specI)
  fix db sn ts
  note len = list_rep_length [OF rep]
  have meta: "m (mkey env key) = Some (encode_txnkv_list_meta_value ttl v l (l + of_nat (length xs)))"
    using rep by (simp add: list_rep_def)
  have lt: "b < length xs" using list_index_offset(2) [OF _ b] len by auto
  have slice: "map (\<lambda>kv. resp_bulk (snd kv)) (scan_store m False (RangeFrom (lkey env key v (l + of_nat a))) (b + 1 - a)) =
      map Bulk (take (b + 1 - a) (drop a xs))" if "finite (dom m)" "\<not> b < a"
  proof -
    have "map ((!) xs) [a..<b + 1] = take (b + 1 - a) (drop a xs)"
      using lt by (intro nth_equalityI) (auto simp del: upt_Suc)
    then have "map (Bulk \<circ> (!) xs) [a..<b + 1] = map Bulk (take (b + 1 - a) (drop a xs))" by (metis map_map)
    then show ?thesis using list_scan_from [OF rep that(1), of a "b + 1"] lt that(2)
      by (simp add: resp_defs o_def del: upt_Suc)
  qed
  have "wp F (lrange_at env key start stop v l (l + of_nat (length xs))) (body_post F db sn ts UNIV ?R)
      (db, (sn, m, True) # ts)"
    unfolding lrange_at_slice [OF conjunct2 [OF len] a b small]
    using slice by (auto simp: wp_simps resp_array_def)
  then show "wp F (lrange_body env key start stop) (body_post F db sn ts UNIV ?R) (db, (sn, m, False) # ts)"
    using live meta by (simp add: lrange_body_def wp_with_list_meta wp_simps)
qed

end
