(* ===== verification/List_Edits.thy ===== *)
theory List_Edits
  imports List_Ranges
begin

text \<open>
  \<^verbatim>\<open>LINSERT\<close> and \<^verbatim>\<open>LREM\<close>, which move elements inside a list.
\<close>

section \<open>Inserting\<close>

lemma list_scan_between:
  assumes rep: "list_rep env m key ttl v l xs" and "finite (dom m)" and a: "a \<le> b" "b < length xs"
    and n: "b + 1 - a \<le> n"
  shows "scan_store m False (encode_txnkv_list_data_key_idx_range (KEY_ENCODER env) key (l + of_nat a) (l + of_nat b) v) n =
    map (\<lambda>j. (lkey env key v (l + of_nat j), xs ! j)) [a..<b + 1]"
proof -
  let ?rg = "encode_txnkv_list_data_key_idx_range (KEY_ENCODER env) key (l + of_nat a) (l + of_nat b) v"
  note len = list_rep_length [OF rep]
  have cells: "list_cells env m key v l xs" and frame: "list_frame env m key v" using rep by (auto simp: list_rep_def)
  have unat: "j < length xs \<Longrightarrow> unat (l + of_nat j) = unat l + j" for j using len unat_span by blast
  have rg: "in_range ?rg y \<longleftrightarrow> lkey env key v (l + of_nat a) \<le> y \<and> y \<le> lkey env key v (l + of_nat b)" for y
    by (simp add: encode_txnkv_list_data_key_idx_range_def in_range.simps)
  have some: "m (lkey env key v (l + of_nat j)) = Some (xs ! j)" if "j < length xs" for j
    using cells that len by (simp add: list_cells_def cell_nth)
  have "set (span_keys env key v l a (b + 1)) = {k \<in> dom m. in_range ?rg k}"
  proof (intro equalityI subsetI)
    fix y assume "y \<in> set (span_keys env key v l a (b + 1))"
    then obtain j where "a \<le> j" "j \<le> b" "y = lkey env key v (l + of_nat j)" by (auto simp: set_span_keys)
    then show "y \<in> {k \<in> dom m. in_range ?rg k}"
      using some [of j] a unat [of j] unat [of a] unat [of b] by (auto simp: rg word_le_nat_alt)
  next
    fix y assume y: "y \<in> {k \<in> dom m. in_range ?rg k}"
    then have "\<exists>r. y = (ukp (KEY_ENCODER env) key @ 108 # u16_to_be_bytes v @ [96]) @ r"
      by (intro prefix_between [where x = "u64_to_be_bytes (l + of_nat a)" and z = "u64_to_be_bytes (l + of_nat b)"])
        (auto simp: rg key_shapes)
    then have "versioned (KEY_ENCODER env) key v y" by (auto simp: versioned_def)
    then obtain i where i: "y = lkey env key v i" using y frame by (auto simp: list_frame_def)
    have "m y \<noteq> None" using y by auto
    then obtain k where k: "k < length xs" "i = l + of_nat k"
      using cells i by (auto simp: list_cells_def elim!: cell_SomeE)
    have "a \<le> k" "k \<le> b" using y i k unat [of k] unat [of a] unat [of b] a by (auto simp: rg word_le_nat_alt)
    then show "y \<in> set (span_keys env key v l a (b + 1))" using i k by (auto simp: set_span_keys)
  qed
  then have "range_keys m ?rg = span_keys env key v l a (b + 1)"
    using span_keys_sorted [of l "b + 1"] len a by (intro range_keys_eqI) auto
  then show ?thesis using n some a by (simp add: scan_store_def span_keys_def del: upt_Suc)
qed

text \<open>The elements written by the loop that moves them.\<close>

definition moved :: "env \<Rightarrow> bytes \<Rightarrow> u16 \<Rightarrow> u64 \<Rightarrow> (u64 \<times> bytes) list \<Rightarrow> store" where
  "moved env key v delta ivs = map_of (rev (map (\<lambda>(i, y). (lkey env key v (i + delta), y)) ivs))"

lemma wp_shift_elements:
  assumes "\<And>e m'. e \<in> F \<Longrightarrow> Q (Done (Inl (TikvClient e))) (db, (sn, m', True) # ts)"
  shows "wp F (shift_elements env key v delta (map (\<lambda>(i, y). (lkey env key v i, y)) ivs) p) Q (db, (sn, m, True) # ts) \<longleftrightarrow>
    wp F p Q (db, (sn, m ++ moved env key v delta ivs, True) # ts)"
proof (induction ivs arbitrary: m)
  case (Cons iv ivs)
  have "m(lkey env key v (fst iv + delta) \<mapsto> snd iv) ++ moved env key v delta ivs = m ++ moved env key v delta (iv # ivs)"
    by (cases iv) (simp add: moved_def)
  then show ?case using Cons assms by (cases iv) (simp add: wp_simps del: fun_upd_apply)
qed (simp add: moved_def)

lemma moved_lkey:
  assumes "distinct (map fst ivs)"
  shows "moved env key v delta ivs (lkey env key v i) = map_of ivs (i - delta)"
  using assms
proof (induction ivs)
  case (Cons iv ivs)
  have "i = fst iv + delta \<longleftrightarrow> i - delta = fst iv" by (simp add: diff_eq_eq)
  moreover have "map_of ivs (fst iv) = None" using Cons.prems by (simp add: map_of_eq_None_iff)
  ultimately show ?case using Cons by (cases iv) (auto simp: moved_def map_add_def split: option.splits)
qed (simp add: moved_def)

lemma moved_other: "(\<And>i. x \<noteq> lkey env key v i) \<Longrightarrow> moved env key v delta ivs x = None"
  unfolding moved_def map_of_eq_None_iff by fastforce

lemma only_cells_moved: "only_cells env key v m (m ++ moved env key v delta ivs)"
  by (auto simp: only_cells_def moved_other map_add_def)

lemma map_of_span:
  assumes "unat l + b < 2 ^ 63"
  shows "map_of (map (\<lambda>j. (l + of_nat j :: u64, xs ! j)) [a..<b]) i =
    (if a \<le> unat (i - l) \<and> unat (i - l) < b then Some (xs ! unat (i - l)) else None)"
    and "distinct (map fst (map (\<lambda>j. (l + of_nat j :: u64, xs ! j)) [a..<b]))"
proof -
  have inj: "inj_on (\<lambda>j. l + of_nat j :: u64) (set [a..<b])"
    using assms by (auto simp: inj_on_def word_unat_eq_iff unat_span)
  then show "distinct (map fst (map (\<lambda>j. (l + of_nat j :: u64, xs ! j)) [a..<b]))"
    by (simp add: o_def distinct_map)
  show "map_of (map (\<lambda>j. (l + of_nat j :: u64, xs ! j)) [a..<b]) i =
    (if a \<le> unat (i - l) \<and> unat (i - l) < b then Some (xs ! unat (i - l)) else None)"
  proof (cases "a \<le> unat (i - l) \<and> unat (i - l) < b")
    case True
    then have "(i, xs ! unat (i - l)) \<in> set (map (\<lambda>j. (l + of_nat j :: u64, xs ! j)) [a..<b])"
      by (auto simp: image_iff intro!: bexI [of _ "unat (i - l)"])
    then show ?thesis using True inj by (subst map_of_is_SomeI) (auto simp: o_def distinct_map)
  next
    case False
    have "i \<notin> (\<lambda>j. l + of_nat j) ` {a..<b}"
    proof
      assume "i \<in> (\<lambda>j. l + of_nat j) ` {a..<b}"
      then obtain j where j: "a \<le> j" "j < b" "i - l = of_nat j" by auto
      then have "unat (i - l) = j" unfolding j(3) using assms by (intro unat_of_nat_u64) simp
      then show False using False j by simp
    qed
    then have "map_of (map (\<lambda>j. (l + of_nat j :: u64, xs ! j)) [a..<b]) i = None"
      by (simp add: map_of_eq_None_iff image_image)
    then show ?thesis using False by simp
  qed
qed

definition inserted :: "nat \<Rightarrow> 'a \<Rightarrow> 'a list \<Rightarrow> 'a list" where
  "inserted q x xs = take q xs @ x # drop q xs"

lemma cell_inserted:
  assumes "q \<le> length xs" "length xs < 2 ^ 63"
  shows "cell l (inserted q x xs) i =
    (if unat (i - l) = q then Some x else if unat (i - l) < q then Some (xs ! unat (i - l))
     else if unat (i - l) \<le> length xs then Some (xs ! (unat (i - l) - 1)) else None)"
  using assms by (auto simp: cell_def inserted_def nth_append nth_Cons')


text \<open>The two ways to make room for an element.\<close>

lemma list_cells_insert_left:
  assumes cells: "list_cells env m key v l xs" and q: "q \<le> length xs" and len: "unat l + length xs < 2 ^ 63"
  shows "list_cells env ((m ++ moved env key v (- 1) (map (\<lambda>j. (l + of_nat j, xs ! j)) [0..<q]))
      (lkey env key v (l - 1 + of_nat q) \<mapsto> x)) key v (l - 1) (inserted q x xs)"
  unfolding list_cells_def
proof
  fix i
  let ?k = "unat (i - (l - 1))"
  let ?ivs = "map (\<lambda>j. (l + of_nat j, xs ! j)) [0..<q]"
  have uq: "unat (of_nat q :: u64) = q" using q len by (intro unat_of_nat_u64) simp
  have eq: "i = l - 1 + of_nat q \<longleftrightarrow> ?k = q"
  proof -
    have "i = l - 1 + of_nat q \<longleftrightarrow> i - (l - 1) = of_nat q" by (auto simp: algebra_simps)
    also have "\<dots> \<longleftrightarrow> ?k = q" using uq by (metis word_unat_eq_iff)
    finally show ?thesis .
  qed
  have mv: "moved env key v (- 1) ?ivs (lkey env key v i) = (if ?k < q then Some (xs ! ?k) else None)"
  proof -
    have up: "i + 1 - l = i - (l - 1)" by simp
    show ?thesis using map_of_span [of l q xs 0] q len by (simp add: moved_lkey up)
  qed
  have "unat (i - l) = ?k - 1" if "0 < ?k"
  proof -
    have "unat (i - (l - 1) - 1) = ?k - 1" using that unat_sub_cases [of "i - (l - 1)" 1] by simp
    then show ?thesis by simp
  qed
  then have old: "m (lkey env key v i) = (if ?k \<le> length xs then Some (xs ! (?k - 1)) else None)" if "q < ?k"
    using cells that by (auto simp: list_cells_def cell_def)
  show "((m ++ moved env key v (- 1) ?ivs)(lkey env key v (l - 1 + of_nat q) \<mapsto> x)) (lkey env key v i) =
      cell (l - 1) (inserted q x xs) i"
    using eq mv old q len by (auto simp: cell_inserted map_add_def)
qed

lemma list_cells_insert_right:
  assumes cells: "list_cells env m key v l xs" and q: "q \<le> length xs" and len: "unat l + length xs < 2 ^ 63"
  shows "list_cells env ((m ++ moved env key v 1 (map (\<lambda>j. (l + of_nat j, xs ! j)) [q..<length xs]))
      (lkey env key v (l + of_nat q) \<mapsto> x)) key v l (inserted q x xs)"
  unfolding list_cells_def
proof
  fix i
  let ?k = "unat (i - l)"
  let ?ivs = "map (\<lambda>j. (l + of_nat j, xs ! j)) [q..<length xs]"
  have uq: "unat (of_nat q :: u64) = q" using q len by (intro unat_of_nat_u64) simp
  have eq: "i = l + of_nat q \<longleftrightarrow> ?k = q"
  proof -
    have "i = l + of_nat q \<longleftrightarrow> i - l = of_nat q" by (auto simp: algebra_simps)
    also have "\<dots> \<longleftrightarrow> ?k = q" using uq by (metis word_unat_eq_iff)
    finally show ?thesis .
  qed
  have pred: "unat (i - 1 - l) = (if ?k = 0 then 2 ^ 64 - 1 else ?k - 1)"
    using unat_sub_cases [of "i - l" 1] by (simp add: algebra_simps)
  have mv: "moved env key v 1 ?ivs (lkey env key v i) =
      (if q < ?k \<and> ?k \<le> length xs then Some (xs ! (?k - 1)) else None)"
    using map_of_span [of l "length xs" xs q] q len by (auto simp: moved_lkey pred)
  have old: "m (lkey env key v i) = (if ?k < length xs then Some (xs ! ?k) else None)"
    using cells by (auto simp: list_cells_def cell_def)
  show "((m ++ moved env key v 1 ?ivs)(lkey env key v (l + of_nat q) \<mapsto> x)) (lkey env key v i) =
      cell l (inserted q x xs) i"
    using eq mv old q len by (auto simp: cell_inserted map_add_def)
qed

lemma wp_insert_finish:
  assumes frame: "list_frame env m key v" and only: "only_cells env key v m m1"
    and cells: "list_cells env (m1(lkey env key v i \<mapsto> x)) key v l (inserted q x xs)"
    and bound: "unat l + Suc (length xs) < 2 ^ 63" and q: "q \<le> length xs"
    and r: "r = l + of_nat (Suc (length xs))"
    and err: "\<And>e m'. e \<in> F \<Longrightarrow> Q (Done (Inl (TikvClient e))) (db, (sn, m', True) # ts)"
    and Q: "\<And>m'. \<lbrakk>list_state env m' key ttl (inserted q x xs); others_same (KEY_ENCODER env) key m m'\<rbrakk> \<Longrightarrow>
      Q (Done (Inr (of_nat (Suc (length xs))))) (db, (sn, m', True) # ts)"
  shows "wp F (txn_put (lkey env key v i) x (txn_put (mkey env key) (encode_txnkv_list_meta_value ttl v l r)
    (Return (r - l)))) Q (db, (sn, m1, True) # ts)"
proof -
  have len: "length (inserted q x xs) = Suc (length xs)" and ne: "inserted q x xs \<noteq> []"
    using q by (simp_all add: inserted_def)
  have only': "only_cells env key v m (m1(lkey env key v i \<mapsto> x))" using only by simp
  have b: "unat l + length (inserted q x xs) < 2 ^ 63" using bound len by simp
  note after = list_state_after [OF frame cells only' b]
  have "Q (Done (Inr (of_nat (Suc (length xs))))) (db, (sn, m1(lkey env key v i \<mapsto> x, mkey env key \<mapsto>
      encode_txnkv_list_meta_value ttl v l r), True) # ts)"
    using after(1) [of ttl] ne unfolding r len by (intro Q after(2)) simp
  moreover have "r - l = of_nat (Suc (length xs))" unfolding r by simp
  ultimately show ?thesis using err by (simp add: wp_simps del: fun_upd_apply of_nat_Suc)
qed

lemma wp_scan_shift:
  assumes "\<lbrakk>finite (dom m); c\<rbrakk> \<Longrightarrow> scan_store m False rg n = map (\<lambda>(i, y). (lkey env key v i, y)) ivs" "\<not> c \<Longrightarrow> ivs = []"
    and "\<And>e m'. e \<in> F \<Longrightarrow> Q (Done (Inl (TikvClient e))) (db, (sn, m', True) # ts)"
    and "wp F f Q (db, (sn, m ++ moved env key v delta ivs, True) # ts)"
  shows "wp F (if c then txn_scan rg n (\<lambda>kvs. shift_elements env key v delta kvs f) else f) Q (db, (sn, m, True) # ts)"
proof (cases c)
  case True
  then show ?thesis using assms by (simp add: wp_simps wp_shift_elements)
next
  case False
  then show ?thesis using assms by (simp add: moved_def)
qed

lemma wp_linsert_at:
  assumes rep: "list_rep env m key ttl v l xs" and p: "p < length xs" and l: "0 < unat l"
    and bound: "unat l + Suc (length xs) < 2 ^ 63" and short: "length xs \<le> u32_MAX"
    and err: "\<And>e m'. e \<in> F \<Longrightarrow> Q (Done (Inl (TikvClient e))) (db, (sn, m', True) # ts)"
    and Q: "\<And>m'. \<lbrakk>list_state env m' key ttl (inserted (if before then p else Suc p) x xs);
        others_same (KEY_ENCODER env) key m m'\<rbrakk> \<Longrightarrow>
      Q (Done (Inr (of_nat (Suc (length xs))))) (db, (sn, m', True) # ts)"
  shows "wp F (linsert_at env key before x ttl v l (l + of_nat (length xs)) (l + of_nat p)) Q (db, (sn, m, True) # ts)"
proof -
  let ?n = "length xs" let ?q = "if before then p else Suc p"
  have cells: "list_cells env m key v l xs" and frame: "list_frame env m key v" using rep by (auto simp: list_rep_def)
  have q: "?q \<le> ?n" using p by auto
  have len: "unat l + ?n < 2 ^ 63" using bound by simp
  let ?ivs = "\<lambda>a b. map (\<lambda>j. (l + of_nat j, xs ! j)) [a..<b]"
  have pairs: "map (\<lambda>j. (lkey env key v (l + of_nat j), xs ! j)) [a..<b] = map (\<lambda>(i, y). (lkey env key v i, y)) (?ivs a b)" for a b
    by simp
  have ul: "unat (l - 1) = unat l - 1" using l unat_minus_of_nat [of 1 l] by simp
  have left_le: "l \<le> l - 1 + of_nat ?q \<longleftrightarrow> 0 < ?q"
    using sint_add_len(3) [of "l - 1" ?q] q len ul l by (auto simp: word_le_nat_alt simp del: of_nat_Suc)
  have right_lt: "l + of_nat ?q < l + of_nat ?n \<longleftrightarrow> ?q < ?n"
    using sint_add_len(3) [of l ?q] sint_add_len(3) [of l ?n] q len by (auto simp: word_less_nat_alt simp del: of_nat_Suc)
  have near: "(l + of_nat p) - l < l + of_nat ?n - (l + of_nat p) \<longleftrightarrow> p < ?n - p"
  proof -
    have d: "l + of_nat ?n - (l + of_nat p) = (of_nat (?n - p) :: u64)" using p by (simp add: of_nat_diff)
    have u: "unat (of_nat p :: u64) = p" "unat (of_nat (?n - p) :: u64) = ?n - p"
      using p len by (intro unat_of_nat_u64; simp)+
    show ?thesis unfolding d word_less_nat_alt u(2) using u(1) by simp
  qed
  show ?thesis
  proof (cases "p < ?n - p")
    case True
    let ?f = "txn_put (lkey env key v (l - 1 + of_nat ?q)) x (txn_put (mkey env key)
        (encode_txnkv_list_meta_value ttl v (l - 1) (l + of_nat ?n)) (Return (l + of_nat ?n - (l - 1))))"
    have fin: "wp F ?f Q (db, (sn, m ++ moved env key v (- 1) (?ivs 0 ?q), True) # ts)"
    proof (rule wp_insert_finish [OF frame only_cells_moved list_cells_insert_left [OF cells q len]])
      show "unat (l - 1) + Suc ?n < 2 ^ 63" using ul bound by simp
    qed (use q err Q in \<open>simp_all del: of_nat_Suc\<close>, simp)
    have op: "(if before then l + of_nat p - 1 else l + of_nat p) = l - 1 + of_nat ?q" by simp
    have top: "l - 1 + of_nat ?q = l + of_nat (?q - 1)" if "0 < ?q"
      using that by (cases ?q) (simp_all add: algebra_simps)
    have scan: "scan_store m False (encode_txnkv_list_data_key_idx_range (KEY_ENCODER env) key l (l - 1 + of_nat ?q) v) u32_MAX =
        map (\<lambda>(i, y). (lkey env key v i, y)) (?ivs 0 ?q)" if "finite (dom m)" "0 < ?q"
    proof -
      have "?q - 1 < ?n" "?q - 1 + 1 - 0 \<le> u32_MAX" "?q - 1 + 1 = ?q" using q p short that by auto
      then show ?thesis
        using list_scan_between [OF rep that(1), of 0 "?q - 1" u32_MAX] unfolding top [OF that(2)] pairs [symmetric]
        by simp
    qed
    have none: "?ivs 0 ?q = []" if "\<not> 0 < ?q" using that by (cases before) simp_all
    show ?thesis
      unfolding linsert_at_def Let_def near if_P [OF True] op left_le by (rule wp_scan_shift [OF scan none err fin])
  next
    case False
    let ?f = "txn_put (lkey env key v (l + of_nat ?q)) x (txn_put (mkey env key)
        (encode_txnkv_list_meta_value ttl v l (l + of_nat ?n + 1)) (Return (l + of_nat ?n + 1 - l)))"
    have fin: "wp F ?f Q (db, (sn, m ++ moved env key v 1 (?ivs ?q ?n), True) # ts)"
      by (rule wp_insert_finish [OF frame only_cells_moved list_cells_insert_right [OF cells q len] bound q])
        (use err Q in \<open>simp_all add: ac_simps\<close>)
    have op: "(if before then l + of_nat p else l + of_nat p + 1) = l + of_nat ?q" by simp
    have last: "l + of_nat ?n - 1 = l + of_nat (?n - 1)" using p by (cases ?n) simp_all
    have scan: "scan_store m False (encode_txnkv_list_data_key_idx_range (KEY_ENCODER env) key (l + of_nat ?q)
        (l + of_nat ?n - 1) v) u32_MAX = map (\<lambda>(i, y). (lkey env key v i, y)) (?ivs ?q ?n)" if "finite (dom m)" "?q < ?n"
    proof -
      have "?q \<le> ?n - 1" "?n - 1 < ?n" "?n - 1 + 1 - ?q \<le> u32_MAX" "?n - 1 + 1 = ?n" using p short that(2) by auto
      then show ?thesis
        using list_scan_between [OF rep that(1), of ?q "?n - 1" u32_MAX] unfolding last pairs [symmetric] by simp
    qed
    have none: "?ivs ?q ?n = []" if "\<not> ?q < ?n" using that by simp
    show ?thesis
      unfolding linsert_at_def Let_def near if_not_P [OF False] op right_lt by (rule wp_scan_shift [OF scan none err fin])
  qed
qed

definition first_index :: "'a \<Rightarrow> 'a list \<Rightarrow> nat option" where
  "first_index y xs = find (\<lambda>j. xs ! j = y) [0..<length xs]"

lemma first_index_less: "first_index y xs = Some p \<Longrightarrow> p < length xs"
  by (auto simp: first_index_def find_Some_iff)

definition too_long :: "u32 \<Rightarrow> nat \<Rightarrow> bool" where
  "too_long limit_len n \<longleftrightarrow> 0 < limit_len \<and> unat limit_len < n"

lemma too_long_word:
  assumes "n < 2 ^ 63"
  shows "0 < limit_len \<and> ucast limit_len < (of_nat n :: u64) \<longleftrightarrow> too_long limit_len n"
proof -
  have "unat limit_len < 2 ^ 32" using unsigned_less [where ?w = limit_len and ?'a = nat] by simp
  then have "unat (ucast limit_len :: u64) = unat limit_len"
    by (simp add: unsigned_ucast_eq take_bit_eq_mod)
  then show ?thesis using assms unat_of_nat_u64 [of n] by (simp add: too_long_def word_less_nat_alt)
qed

lemma linsert_body_rep:
  assumes rep: "list_rep env m key ttl v l xs" and live: "\<not> key_is_expired env ttl"
    and l: "0 < unat l" and bound: "unat l + Suc (length xs) < 2 ^ 63" and short: "length xs \<le> u32_MAX"
  shows "body_spec F UNIV (linsert_body env key before pivot x) m
    (\<lambda>r m'. if too_long (cmd_linsert_length_limit_or_default (SERVER_CONFIG env)) (length xs)
       then r = Inl REDIS_LIST_TOO_LARGE_ERR \<and> m' = m
       else case first_index pivot xs of
         None \<Rightarrow> r = Inr (- 1) \<and> m' = m
       | Some p \<Rightarrow> r = Inr (of_nat (Suc (length xs))) \<and>
           list_state env m' key ttl (inserted (if before then p else Suc p) x xs) \<and>
           others_same (KEY_ENCODER env) key m m')" (is "body_spec _ _ _ _ ?R")
proof (rule body_specI)
  fix db sn ts
  let ?Q = "body_post F db sn ts UNIV ?R"
  have meta: "m (mkey env key) = Some (encode_txnkv_list_meta_value ttl v l (l + of_nat (length xs)))"
    using rep by (simp add: list_rep_def)
  note len = list_rep_length [OF rep]
  have found: "find (\<lambda>kv. snd kv = pivot) (span_pairs env key v l xs) =
      map_option (\<lambda>p. (lkey env key v (l + of_nat p), xs ! p)) (first_index pivot xs)"
    by (simp add: span_pairs_def first_index_def find_map_option)
  have ins: "wp F (linsert_at env key before x ttl v l (l + of_nat (length xs)) (l + of_nat p)) ?Q (db, (sn, m, True) # ts)"
    if "first_index pivot xs = Some p" "\<not> too_long (cmd_linsert_length_limit_or_default (SERVER_CONFIG env)) (length xs)" for p
    by (rule wp_linsert_at [OF rep first_index_less [OF that(1)] l bound short])
      (use that in \<open>simp_all add: wp_simps del: of_nat_Suc\<close>)
  show "wp F (linsert_body env key before pivot x) ?Q (db, (sn, m, False) # ts)"
    using live meta scan_list [OF rep _ short, of False] ins found too_long_word [OF conjunct1 [OF len]]
    by (cases "first_index pivot xs")
      (simp_all add: linsert_body_def wp_with_list_meta wp_simps Let_def del: of_nat_Suc)
qed

section \<open>Removing by value\<close>

text \<open>The list without the first occurrences of a value: \<open>budget\<close> of them, or all.\<close>

fun remove_upto :: "'a \<Rightarrow> nat option \<Rightarrow> 'a list \<Rightarrow> 'a list" where
  "remove_upto y budget [] = []"
| "remove_upto y budget (x # xs) =
     (if x = y \<and> budget \<noteq> Some 0 then remove_upto y (map_option (\<lambda>k. k - 1) budget) xs
      else x # remove_upto y budget xs)"

lemma remove_upto_all: "remove_upto y None xs = filter (\<lambda>x. x \<noteq> y) xs"
  by (induction xs) auto

lemma remove_upto_none: "remove_upto y (Some 0) xs = xs"
  by (induction xs) auto

lemma length_remove_upto: "length (remove_upto y budget xs) \<le> length xs"
  by (induction y budget xs rule: remove_upto.induct) auto

text \<open>The two directions of the loop: the element at offset \<open>d\<close> from the end where it starts.\<close>

definition index_at :: "bool \<Rightarrow> u64 \<Rightarrow> u64 \<Rightarrow> u64" where
  "index_at from_head start d = (if from_head then start + d else start - d)"

lemma index_at_eq [simp]: "index_at h s d = index_at h s d' \<longleftrightarrow> d = d'"
  by (simp add: index_at_def)

lemma index_at_surj: "index_at h s (if h then i - s else s - i) = i"
  by (simp add: index_at_def)

definition loop_pairs :: "env \<Rightarrow> bytes \<Rightarrow> u16 \<Rightarrow> bool \<Rightarrow> u64 \<Rightarrow> nat \<Rightarrow> bytes list \<Rightarrow> kv_pair list" where
  "loop_pairs env key v h s p zs = map (\<lambda>(j, z). (lkey env key v (index_at h s (of_nat j)), z)) (enumerate p zs)"

definition match_offsets :: "bytes \<Rightarrow> nat \<Rightarrow> bytes list \<Rightarrow> nat list" where
  "match_offsets y p zs = map fst (filter (\<lambda>(j, z). z = y) (enumerate p zs))"

lemma loop_pairs_simps [simp]:
  "loop_pairs env key v h s p [] = []"
  "loop_pairs env key v h s p (z # zs) =
     (lkey env key v (index_at h s (of_nat p)), z) # loop_pairs env key v h s (Suc p) zs"
  by (simp_all add: loop_pairs_def)

lemma match_offsets_simps [simp]:
  "match_offsets y p [] = []"
  "match_offsets y p (z # zs) = (if z = y then p # match_offsets y (Suc p) zs else match_offsets y (Suc p) zs)"
  by (simp_all add: match_offsets_def)

lemma match_offsets_bounds: "j \<in> set (match_offsets y p zs) \<Longrightarrow> p \<le> j \<and> j < p + length zs"
  by (induction zs arbitrary: p) (force split: if_splits)+

text \<open>The state of the loop: \<open>ys\<close> are the elements that stay so far, \<open>zs\<close> those not visited yet, with a gap
  of \<open>r\<close> places between them.\<close>

definition loop_cells :: "env \<Rightarrow> store \<Rightarrow> bytes \<Rightarrow> u16 \<Rightarrow> bool \<Rightarrow> u64 \<Rightarrow> bytes list \<Rightarrow> nat \<Rightarrow> bytes list \<Rightarrow> bool" where
  "loop_cells env m key v h s ys r zs \<longleftrightarrow>
     (\<forall>d. m (lkey env key v (index_at h s d)) =
        (case cell 0 ys d of Some y \<Rightarrow> Some y | None \<Rightarrow> cell (of_nat (length ys + r)) zs d))"

lemma loop_cells_delete:
  assumes inv: "loop_cells env m key v h s ys r (z # zs)" and b: "length ys + r + Suc (length zs) < 2 ^ 63"
  shows "loop_cells env (m(lkey env key v (index_at h s (of_nat (length ys + r))) := None)) key v h s ys (Suc r) zs"
  unfolding loop_cells_def
proof
  fix d
  let ?p = "of_nat (length ys + r) :: u64"
  have "cell 0 ys ?p = None" using cell_outside [of ys "length ys + r" 0] b by simp
  moreover have "cell (?p + 1) zs ?p = None" using b by (intro cell_before) simp
  moreover have "of_nat (length ys + Suc r) = ?p + 1" by simp
  ultimately show "(m(lkey env key v (index_at h s ?p) := None)) (lkey env key v (index_at h s d)) =
      (case cell 0 ys d of Some y \<Rightarrow> Some y | None \<Rightarrow> cell (of_nat (length ys + Suc r)) zs d)"
    using inv by (auto simp: loop_cells_def cell_Cons simp del: of_nat_add of_nat_Suc split: option.splits)
qed

lemma loop_cells_keep:
  assumes inv: "loop_cells env m key v h s ys r (z # zs)" and b: "length ys + r + Suc (length zs) < 2 ^ 63"
  shows "loop_cells env (if r = 0 then m else m(lkey env key v (index_at h s (of_nat (length ys))) \<mapsto> z,
      lkey env key v (index_at h s (of_nat (length ys + r))) := None)) key v h s (ys @ [z]) r zs"
  unfolding loop_cells_def
proof
  fix d
  let ?p = "of_nat (length ys + r) :: u64" and ?t = "of_nat (length ys) :: u64"
  have snoc: "cell 0 (ys @ [z]) d = (if d = ?t then Some z else cell 0 ys d)" using b cell_snoc [of ys 0 z d] by simp
  have p: "cell 0 ys ?p = None" using cell_outside [of ys "length ys + r" 0] b by simp
  have nxt: "cell (?p + 1) zs ?p = None" using b by (intro cell_before) simp
  have q: "of_nat (length (ys @ [z]) + r) = ?p + 1" by simp
  have tp: "?t = ?p \<longleftrightarrow> r = 0"
    using unat_of_nat_u64 [of "length ys"] unat_of_nat_u64 [of "length ys + r"] b
    by (auto simp: word_unat_eq_iff simp del: of_nat_add)
  have m: "m (lkey env key v (index_at h s d)) =
      (case cell 0 ys d of Some y \<Rightarrow> Some y | None \<Rightarrow> if d = ?p then Some z else cell (?p + 1) zs d)"
    using inv by (auto simp: loop_cells_def cell_Cons simp del: of_nat_add split: option.splits)
  show "(if r = 0 then m else m(lkey env key v (index_at h s ?t) \<mapsto> z, lkey env key v (index_at h s ?p) := None))
      (lkey env key v (index_at h s d)) =
      (case cell 0 (ys @ [z]) d of Some y \<Rightarrow> Some y | None \<Rightarrow> cell (of_nat (length (ys @ [z]) + r)) zs d)"
  proof (cases "r = 0")
    case True
    then have t: "?t = ?p" using tp by simp
    show ?thesis unfolding q snoc m t if_P [OF True] using p by (simp del: of_nat_add split: option.split)
  next
    case False
    then have t: "?t \<noteq> ?p" using tp by simp
    show ?thesis unfolding q snoc if_not_P [OF False]
      using m p nxt t by (simp del: of_nat_add split: option.split)
  qed
qed


lemma index_at_back:
  "(if h then index_at h s (of_nat (n + r)) - of_nat r else index_at h s (of_nat (n + r)) + of_nat r) =
   index_at h s (of_nat n)"
  by (simp add: index_at_def)

definition budget :: "nat \<Rightarrow> nat \<Rightarrow> nat option" where
  "budget cnt r = (if cnt = 0 then None else Some (cnt - r))"

lemma wp_lrem_loop:
  fixes hs :: "nat list"
  assumes "loop_cells env m key v h s ys r zs" "length ys + r + length zs < 2 ^ 63" "hs \<noteq> []"
    and "cnt \<noteq> 0 \<and> r = cnt \<or> (cnt \<noteq> 0 \<longrightarrow> r < cnt) \<and> r \<le> length hs \<and> drop r hs = match_offsets y (length ys + r) zs"
    and "\<And>j. j \<in> set hs \<Longrightarrow> j < 2 ^ 63"
    and err: "\<And>e m'. e \<in> F \<Longrightarrow> Q (Done (Inl (TikvClient e))) (db, (sn, m', True) # ts)"
    and "\<And>m' r'. \<lbrakk>loop_cells env m' key v h s (ys @ remove_upto y (budget cnt r) zs) r' []; only_cells env key v m m';
        r' = r + length zs - length (remove_upto y (budget cnt r) zs)\<rbrakk> \<Longrightarrow>
      wp F (f r') Q (db, (sn, m', True) # ts)"
  shows "wp F (lrem_loop env key v h cnt (map (\<lambda>j. index_at h s (of_nat j)) hs)
      (loop_pairs env key v h s (length ys + r) zs) r f) Q (db, (sn, m, True) # ts)"
  using assms(1,2,4,7)
proof (induction zs arbitrary: m ys r)
  case Nil
  then show ?case by simp
next
  case (Cons z zs)
  let ?p = "length ys + r" let ?hole = "map (\<lambda>j. index_at h s (of_nat j)) hs"
  have at: "index_at h s (of_nat j) = index_at h s (of_nat ?p) \<longleftrightarrow> j = ?p" if "j \<in> set hs" for j
    using assms(5) [OF that] Cons.prems(2) of_nat_u64_eq [of j ?p] by (simp del: of_nat_add)
  have b: "length ys + r + Suc (length zs) < 2 ^ 63" using Cons.prems(2) by simp
  show ?case
  proof (cases "\<not> (0 < cnt \<and> r = cnt \<or> r = length ?hole) \<and> ?hole ! r = index_at h s (of_nat ?p)")
    case True
    then have lim: "\<not> (cnt \<noteq> 0 \<and> r = cnt)" by auto
    then have hs: "cnt \<noteq> 0 \<longrightarrow> r < cnt" "r < length hs" "drop r hs = match_offsets y ?p (z # zs)"
      using Cons.prems(3) True by auto
    have "hs ! r = ?p" using at [of "hs ! r"] hs(2) True by simp
    then have first: "hd (match_offsets y ?p (z # zs)) = ?p" "match_offsets y ?p (z # zs) \<noteq> []"
      using hs(2) hs(3) by (metis hd_drop_conv_nth, metis drop_eq_Nil linorder_not_le)
    have z: "z = y"
    proof (rule ccontr)
      assume "z \<noteq> y"
      then have "?p \<in> set (match_offsets y (Suc ?p) zs)" using first by (metis hd_in_set match_offsets_simps(2))
      then show False using match_offsets_bounds by fastforce
    qed
    let ?m = "m(lkey env key v (index_at h s (of_nat ?p)) := None)"
    have bud: "remove_upto y (budget cnt r) (z # zs) = remove_upto y (budget cnt (Suc r)) zs"
      using z hs(1) by (auto simp: budget_def)
    have rest: "wp F (lrem_loop env key v h cnt ?hole (loop_pairs env key v h s (length ys + Suc r) zs) (Suc r) f) Q
        (db, (sn, ?m, True) # ts)"
    proof (rule Cons.IH [OF loop_cells_delete [OF Cons.prems(1) b]])
      show "cnt \<noteq> 0 \<and> Suc r = cnt \<or>
          (cnt \<noteq> 0 \<longrightarrow> Suc r < cnt) \<and> Suc r \<le> length hs \<and> drop (Suc r) hs = match_offsets y (length ys + Suc r) zs"
      proof -
        have "drop (Suc r) hs = tl (drop r hs)" by (simp only: drop_Suc drop_tl)
        then have "drop (Suc r) hs = match_offsets y (length ys + Suc r) zs" unfolding hs(3) using z by simp
        then show ?thesis using hs(1,2) by (simp add: less_eq_Suc_le) linarith
      qed
    next
      fix m' r'
      assume "loop_cells env m' key v h s (ys @ remove_upto y (budget cnt (Suc r)) zs) r' []" "only_cells env key v ?m m'"
        "r' = Suc r + length zs - length (remove_upto y (budget cnt (Suc r)) zs)"
      then show "wp F (f r') Q (db, (sn, m', True) # ts)" by (intro Cons.prems(4) [unfolded bud]) simp_all
    qed (use b in simp)
    have "lrem_loop env key v h cnt ?hole (loop_pairs env key v h s ?p (z # zs)) r f =
        txn_delete (lkey env key v (index_at h s (of_nat ?p)))
          (lrem_loop env key v h cnt ?hole (loop_pairs env key v h s (Suc ?p) zs) (Suc r) f)"
      using True assms(3) by (simp add: unwrap_def del: of_nat_add)
    then show ?thesis using rest err by (simp add: wp_simps del: fun_upd_apply of_nat_add)
  next
    case False
    let ?m = "if r = 0 then m else m(lkey env key v (index_at h s (of_nat (length ys))) \<mapsto> z,
      lkey env key v (index_at h s (of_nat ?p)) := None)"
    have keep: "cnt \<noteq> 0 \<and> r = cnt \<or> z \<noteq> y"
    proof (rule ccontr)
      assume "\<not> (cnt \<noteq> 0 \<and> r = cnt \<or> z \<noteq> y)"
      then have hs: "drop r hs = ?p # match_offsets y (Suc ?p) zs" using Cons.prems(3) by auto
      then have "r < length hs" "hs ! r = ?p"
        by (metis drop_eq_Nil linorder_not_le list.distinct(1), metis drop_eq_Nil hd_drop_conv_nth linorder_not_le list.distinct(1) list.sel(1))
      then show False using False \<open>\<not> (cnt \<noteq> 0 \<and> r = cnt \<or> z \<noteq> y)\<close> by auto
    qed
    have bud: "remove_upto y (budget cnt r) (z # zs) = z # remove_upto y (budget cnt r) zs"
      using keep by (auto simp: budget_def)
    have rest: "wp F (lrem_loop env key v h cnt ?hole (loop_pairs env key v h s (length (ys @ [z]) + r) zs) r f) Q
        (db, (sn, ?m, True) # ts)"
    proof (rule Cons.IH [OF loop_cells_keep [OF Cons.prems(1) b]])
      show "cnt \<noteq> 0 \<and> r = cnt \<or>
          (cnt \<noteq> 0 \<longrightarrow> r < cnt) \<and> r \<le> length hs \<and> drop r hs = match_offsets y (length (ys @ [z]) + r) zs"
        using Cons.prems(3) keep by auto
    next
      fix m' r'
      assume "loop_cells env m' key v h s ((ys @ [z]) @ remove_upto y (budget cnt r) zs) r' []" "only_cells env key v ?m m'"
        "r' = r + length zs - length (remove_upto y (budget cnt r) zs)"
      then show "wp F (f r') Q (db, (sn, m', True) # ts)"
        by (intro Cons.prems(4) [unfolded bud]) (simp_all split: if_splits)
    qed (use b in simp)
    have "lrem_loop env key v h cnt ?hole (loop_pairs env key v h s ?p (z # zs)) r f =
        (if 0 < r then txn_put (lkey env key v (index_at h s (of_nat (length ys)))) z (
           txn_delete (lkey env key v (index_at h s (of_nat ?p)))
             (lrem_loop env key v h cnt ?hole (loop_pairs env key v h s (Suc ?p) zs) r f))
         else lrem_loop env key v h cnt ?hole (loop_pairs env key v h s (Suc ?p) zs) r f)"
      unfolding loop_pairs_simps lrem_loop.simps fst_conv snd_conv decode_data_keys unwrap_def option.case
        index_at_back if_not_P [OF False]
      using assms(3) by simp
    then show ?thesis using rest err by (simp add: wp_simps del: fun_upd_apply of_nat_add split: if_splits)
  qed
qed

lemma cell_offset: "cell 0 xs (i - l) = cell l xs i"
  by (simp add: cell_def)

lemma cell_rev:
  assumes "length ys < 2 ^ 63"
  shows "cell l (rev ys) i = cell 0 ys (l + of_nat (length ys) - 1 - i)"
proof (cases "ys = []")
  case False
  define d where "d = i - l"
  have u: "unat (of_nat (length ys - 1) :: u64) = length ys - 1" using assms by (intro unat_of_nat_u64) simp
  have eq: "l + of_nat (length ys) - 1 - i = of_nat (length ys - 1) - d"
    using False by (simp add: d_def of_nat_diff Suc_leI)
  have le: "unat d \<le> length ys - 1 \<longleftrightarrow> unat d < length ys" using False by (cases ys) auto
  have v: "unat (l + of_nat (length ys) - 1 - i) =
      (if unat d < length ys then length ys - 1 - unat d else 2 ^ 64 + (length ys - 1) - unat d)"
    unfolding eq unat_sub_cases u le ..
  show ?thesis
  proof (cases "unat d < length ys")
    case True
    then show ?thesis using v False by (simp add: cell_def d_def [symmetric] rev_nth)
  next
    case beyond: False
    have "length ys \<le> 2 ^ 64 + (length ys - 1) - unat d" using unat_u64_less [of d] by linarith
    then show ?thesis using v beyond by (simp add: cell_def d_def [symmetric])
  qed
qed simp

text \<open>The scans of the two directions, and the positions of the value in them.\<close>

definition loop_start :: "bool \<Rightarrow> u64 \<Rightarrow> nat \<Rightarrow> u64" where
  "loop_start h l n = (if h then l else l + of_nat n - 1)"

definition directed :: "bool \<Rightarrow> 'a list \<Rightarrow> 'a list" where
  "directed h xs = (if h then xs else rev xs)"

lemma length_directed [simp]: "length (directed h xs) = length xs"
  by (simp add: directed_def)

lemma directed_pairs:
  "(if h then span_pairs env key v l xs else rev (span_pairs env key v l xs)) =
   loop_pairs env key v h (loop_start h l (length xs)) 0 (directed h xs)"
proof (cases h)
  case True
  then show ?thesis
    by (auto simp: span_pairs_def loop_pairs_def directed_def loop_start_def index_at_def nth_enumerate_eq intro!: nth_equalityI)
next
  case False
  have "l + of_nat (length xs - Suc j) = l + of_nat (length xs) - 1 - of_nat j" if "j < length xs" for j
    using that by (simp add: of_nat_diff Suc_leI)
  then show ?thesis using False
    by (auto simp: span_pairs_def loop_pairs_def directed_def loop_start_def index_at_def nth_enumerate_eq rev_nth
        simp del: of_nat_diff intro!: nth_equalityI)
qed

definition pair_index :: "bytes \<Rightarrow> kv_pair \<Rightarrow> u64" where
  "pair_index key kv = the (decode_key_list_idx_from_datakey key (fst kv))"

lemma loop_pairs_matches:
  "map (pair_index key) (filter (\<lambda>kv. snd kv = y) (loop_pairs env key v h s p zs)) =
   map (\<lambda>j. index_at h s (of_nat j)) (match_offsets y p zs)"
  by (induction zs arbitrary: p) (simp_all add: pair_index_def)

lemma those_indices:
  "those (map (\<lambda>kv. decode_key_list_idx_from_datakey key (fst kv)) (filter (\<lambda>kv. snd kv = y) (span_pairs env key v l xs))) =
   Some (map (pair_index key) (filter (\<lambda>kv. snd kv = y) (span_pairs env key v l xs)))"
proof -
  have "those (map (\<lambda>kv. decode_key_list_idx_from_datakey key (fst kv)) (filter (\<lambda>kv. snd kv = y) (loop_pairs env key v True l p zs))) =
     Some (map (pair_index key) (filter (\<lambda>kv. snd kv = y) (loop_pairs env key v True l p zs)))" for p zs
    by (induction zs arbitrary: p) (simp_all add: pair_index_def)
  then show ?thesis using directed_pairs [of True env key v l xs] by (simp add: loop_start_def directed_def)
qed

lemma loop_hole:
  "directed h (map (pair_index key) (filter (\<lambda>kv. snd kv = y) (span_pairs env key v l xs))) =
   map (\<lambda>j. index_at h (loop_start h l (length xs)) (of_nat j)) (match_offsets y 0 (directed h xs))"
proof -
  have "directed h (map f (filter P zs)) = map f (filter P (directed h zs))" for f :: "kv_pair \<Rightarrow> u64" and P zs
    by (simp add: directed_def rev_map rev_filter)
  moreover have "directed h (span_pairs env key v l xs) = loop_pairs env key v h (loop_start h l (length xs)) 0 (directed h xs)"
    using directed_pairs [of h env key v l xs] by (simp add: directed_def)
  ultimately show ?thesis by (simp add: loop_pairs_matches)
qed

lemma loop_cells_start:
  assumes "list_cells env m key v l xs" "length xs < 2 ^ 63"
  shows "loop_cells env m key v h (loop_start h l (length xs)) [] 0 (directed h xs)"
proof -
  have "cell l xs (l + of_nat (length xs) - 1 - d) = cell 0 (rev xs) d" for d
    using cell_rev [of "rev xs" l "l + of_nat (length xs) - 1 - d"] assms(2) by simp
  moreover have "cell l xs (l + d) = cell 0 xs d" for d using cell_offset [of xs "l + d" l] by simp
  ultimately show ?thesis
    using assms(1) by (auto simp: loop_cells_def list_cells_def loop_start_def index_at_def directed_def)
qed

lemma loop_cells_end:
  assumes inv: "loop_cells env m key v h (loop_start h l n) ys r []" and n: "n = length ys + r" "n < 2 ^ 63"
  shows "list_cells env m key v (if h then l else l + of_nat r) (directed h ys)"
  unfolding list_cells_def
proof
  fix i
  let ?s = "loop_start h l n"
  have "m (lkey env key v (index_at h ?s d)) = cell 0 ys d" for d
    using inv by (cases "cell 0 ys d") (simp_all add: loop_cells_def)
  then have "m (lkey env key v i) = cell 0 ys (if h then i - ?s else ?s - i)"
    by (metis index_at_surj)
  moreover have "?s - i = (l + of_nat r) + of_nat (length ys) - 1 - i" if "\<not> h"
    using that n by (simp add: loop_start_def algebra_simps)
  ultimately show "m (lkey env key v i) = cell (if h then l else l + of_nat r) (directed h ys) i"
    using cell_offset [of ys i l] cell_rev [of ys "l + of_nat r" i] n
    by (cases h) (simp_all add: directed_def loop_start_def ac_simps)
qed


definition lrem_result :: "nat \<Rightarrow> bool \<Rightarrow> bytes \<Rightarrow> bytes list \<Rightarrow> bytes list" where
  "lrem_result cnt h y xs = directed h (remove_upto y (budget cnt 0) (directed h xs))"

lemma match_offsets_Nil: "match_offsets y p zs = [] \<longleftrightarrow> y \<notin> set zs"
  by (induction zs arbitrary: p) auto

lemma set_directed [simp]: "set (directed h xs) = set xs"
  by (simp add: directed_def)

lemma wp_lrem:
  fixes h :: bool
  assumes rep: "list_rep env m key ttl v l xs" and y: "y \<in> set xs"
    and err: "\<And>e m'. e \<in> F \<Longrightarrow> Q (Done (Inl (TikvClient e))) (db, (sn, m', True) # ts)"
    and Q: "\<And>m'. \<lbrakk>list_state env m' key ttl (lrem_result cnt h y xs); others_same (KEY_ENCODER env) key m m'\<rbrakk> \<Longrightarrow>
      Q (Done (Inr (of_nat (length xs - length (lrem_result cnt h y xs))))) (db, (sn, m', True) # ts)"
  shows "wp F (lrem_loop env key v h cnt
      (directed h (map (pair_index key) (filter (\<lambda>kv. snd kv = y) (span_pairs env key v l xs))))
      (directed h (span_pairs env key v l xs)) 0 (\<lambda>removed.
        put_list_meta env key (of_nat (length xs) = (of_nat removed :: u64)) ttl v (if h then l else l + of_nat removed)
          (if h then l + of_nat (length xs) - of_nat removed else l + of_nat (length xs)) (Return (of_nat removed))))
    Q (db, (sn, m, True) # ts)"
proof -
  let ?n = "length xs" let ?ys = "remove_upto y (budget cnt 0) (directed h xs)"
  have cells: "list_cells env m key v l xs" and frame: "list_frame env m key v" using rep by (auto simp: list_rep_def)
  note len = list_rep_length [OF rep]
  have ys: "length ?ys \<le> ?n" using length_remove_upto [of y "budget cnt 0" "directed h xs"] by simp
  have pairs: "directed h (span_pairs env key v l xs) =
      loop_pairs env key v h (loop_start h l ?n) (length ([] :: bytes list) + 0) (directed h xs)"
    using directed_pairs [of h env key v l xs] by (simp add: directed_def)
  show ?thesis
    unfolding loop_hole pairs
  proof (rule wp_lrem_loop [OF loop_cells_start [OF cells conjunct1 [OF len]]])
    show "match_offsets y 0 (directed h xs) \<noteq> []" using y by (simp add: match_offsets_Nil)
    show "\<And>j. j \<in> set (match_offsets y 0 (directed h xs)) \<Longrightarrow> j < 2 ^ 63"
      using match_offsets_bounds [of _ y 0 "directed h xs"] len by fastforce
    fix m' r' assume inv: "loop_cells env m' key v h (loop_start h l ?n) ([] @ ?ys) r' []" and only: "only_cells env key v m m'"
      and "r' = 0 + length (directed h xs) - length ?ys"
    then have r: "?n = length ?ys + r'" using ys by simp
    let ?l = "if h then l else l + of_nat r'"
    have c: "list_cells env m' key v ?l (directed h ?ys)"
      using inv r len by (intro loop_cells_end [where n = ?n]) auto
    have ul: "unat ?l + length (directed h ?ys) < 2 ^ 63" using sint_add_len(3) [of l r'] r len by auto
    note after = list_state_after [OF frame c only ul]
    have gone: "of_nat ?n = (of_nat r' :: u64) \<longleftrightarrow> directed h ?ys = []"
      using of_nat_u64_eq [of ?n r'] r len by (auto simp: directed_def)
    have right: "(if h then l + of_nat ?n - of_nat r' else l + of_nat ?n) = ?l + of_nat (length (directed h ?ys))"
      unfolding r by simp
    have res: "lrem_result cnt h y xs = directed h ?ys" by (simp add: lrem_result_def)
    have diff: "?n - length (directed h ?ys) = r'" using r by simp
    show "wp F (put_list_meta env key (of_nat ?n = (of_nat r' :: u64)) ttl v ?l
        (if h then l + of_nat ?n - of_nat r' else l + of_nat ?n) (Return (of_nat r'))) Q (db, (sn, m', True) # ts)"
      using Q [unfolded res diff, OF after] err unfolding gone right wp_put_list_meta wp_control by blast
  qed (use len err in auto)
qed

lemma lrem_result_absent: "y \<notin> set xs \<Longrightarrow> lrem_result cnt h y xs = xs"
proof -
  have "y \<notin> set zs \<Longrightarrow> remove_upto y b zs = zs" for b zs
    by (induction y b zs rule: remove_upto.induct) auto
  then show "y \<notin> set xs \<Longrightarrow> lrem_result cnt h y xs = xs"
    using set_directed [of h xs] by (simp add: lrem_result_def) (simp add: directed_def)
qed

lemma lrem_body_rep:
  assumes rep: "list_rep env m key ttl v l xs" and live: "\<not> key_is_expired env ttl" and short: "length xs \<le> u32_MAX"
  shows "body_spec F UNIV (lrem_body env key cnt h y) m
    (\<lambda>r m'. if too_long (cmd_lrem_length_limit_or_default (SERVER_CONFIG env)) (length xs)
       then r = Inl REDIS_LIST_TOO_LARGE_ERR \<and> m' = m
       else r = Inr (of_nat (length xs - length (lrem_result cnt h y xs))) \<and>
         list_state env m' key ttl (lrem_result cnt h y xs) \<and> others_same (KEY_ENCODER env) key m m')"
    (is "body_spec _ _ _ _ ?R")
proof (rule body_specI)
  fix db sn ts
  let ?Q = "body_post F db sn ts UNIV ?R"
  let ?rg = "encode_txnkv_list_data_key_range (KEY_ENCODER env) key v"
  let ?hole = "map (pair_index key) (filter (\<lambda>kv. snd kv = y) (span_pairs env key v l xs))"
  have meta: "m (mkey env key) = Some (encode_txnkv_list_meta_value ttl v l (l + of_nat (length xs)))"
    using rep by (simp add: list_rep_def)
  note len = list_rep_length [OF rep]
  have scan: "scan_store m d ?rg u32_MAX = directed (\<not> d) (span_pairs env key v l xs)" if "finite (dom m)" for d
    using scan_list [OF rep that short, of d] by (simp add: directed_def)
  have hole: "?hole = [] \<longleftrightarrow> y \<notin> set xs"
    using loop_hole [of True key y env v l xs] by (simp add: directed_def flip: match_offsets_Nil [of y 0])
  have same: "?R (Inr 0) m" if "y \<notin> set xs" "\<not> too_long (cmd_lrem_length_limit_or_default (SERVER_CONFIG env)) (length xs)"
    using that rep by (auto simp: lrem_result_absent list_state_def list_rep_def)
  have loop: "wp F (if h
      then txn_scan ?rg u32_MAX (\<lambda>kvs. lrem_loop env key v True cnt ?hole kvs 0 (\<lambda>removed.
        put_list_meta env key (of_nat (length xs) = (of_nat removed :: u64)) ttl v l
          (l + of_nat (length xs) - of_nat removed) (Return (of_nat removed))))
      else txn_scan_reverse ?rg u32_MAX (\<lambda>kvs. lrem_loop env key v False cnt (rev ?hole) kvs 0 (\<lambda>removed.
        put_list_meta env key (of_nat (length xs) = (of_nat removed :: u64)) ttl v (l + of_nat removed)
          (l + of_nat (length xs)) (Return (of_nat removed))))) ?Q (db, (sn, m, True) # ts)"
    if "y \<in> set xs" "\<not> too_long (cmd_lrem_length_limit_or_default (SERVER_CONFIG env)) (length xs)"
    using wp_lrem [OF rep that(1), of F ?Q db sn ts cnt h] scan that(2)
    by (cases h) (simp_all add: wp_simps directed_def)
  show "wp F (lrem_body env key cnt h y) ?Q (db, (sn, m, False) # ts)"
    using live meta scan [of False] too_long_word [OF conjunct1 [OF len]] those_indices [of key y env v l xs] hole same loop
    by (cases "y \<in> set xs") (simp_all add: lrem_body_def wp_with_list_meta wp_simps Let_def directed_def)
qed

end
