(* ===== verification/Mem_Store.thy ===== *)
theory Mem_Store
  imports Txn "HOL-Library.AList"
begin

text \<open>
  Two client libraries held in memory, which show that the laws of \<open>tikv_laws\<close> can hold and on which
  concrete runs are evaluated. A store is an association list; a transaction has the list it was begun
  on and the list it sees; the raw client has a list of its own. \<open>mem_api\<close> never fails. \<open>flaky_api\<close> has a
  script: the answers of the next commits.
\<close>

type_synonym kvs = "(bytes \<times> bytes) list"

record mem_txn =
  started_on :: kvs
  current :: kvs

definition mem_scan :: "bool \<Rightarrow> bound_range \<Rightarrow> nat \<Rightarrow> kvs \<Rightarrow> kv_pair list" where
  "mem_scan backwards rg limit al =
     (let ks = sort (remdups (filter (in_range rg) (map fst al))) in
      map (\<lambda>k. (k, the (map_of al k))) (take limit (if backwards then rev ks else ks)))"

definition mem_batch_get :: "bytes list \<Rightarrow> kvs \<Rightarrow> kv_pair list" where
  "mem_batch_get ks al = [(k, the (map_of al k)). k \<leftarrow> remdups ks, map_of al k \<noteq> None]"

record mem =
  txn_data :: kvs
  raw_data :: kvs

definition mem_update :: "kvs \<Rightarrow> kvs \<Rightarrow> kvs" where
  "mem_update kvs al = fold (\<lambda>(k, v). AList.update k v) kvs al"

definition mem_api :: "(mem, mem_txn) api" where
  "mem_api = \<lparr>
     api_begin = (\<lambda>c. (Inr \<lparr>started_on = txn_data c, current = txn_data c\<rparr>, c)),
     api_get = (\<lambda>k t. (Inr (map_of (current t) k), t)),
     api_key_exists = (\<lambda>k t. (Inr (map_of (current t) k \<noteq> None), t)),
     api_put = (\<lambda>k v t. (Inr (), t\<lparr>current := AList.update k v (current t)\<rparr>)),
     api_delete = (\<lambda>k t. (Inr (), t\<lparr>current := AList.delete k (current t)\<rparr>)),
     api_batch_get = (\<lambda>ks t. (Inr (mem_batch_get ks (current t)), t)),
     api_scan = (\<lambda>d rg n t. (Inr (mem_scan d rg n (current t)), t)),
     api_commit = (\<lambda>t c. (Inr (), c\<lparr>txn_data := current t\<rparr>)),
     api_rollback = (\<lambda>t c. (Inr (), c)),
     api_new_transaction = (\<lambda>c. \<lparr>started_on = txn_data c, current = txn_data c\<rparr>),
     api_raw_get = (\<lambda>k c. (Inr (map_of (raw_data c) k), c)),
     api_raw_put = (\<lambda>k v c. (Inr (), c\<lparr>raw_data := AList.update k v (raw_data c)\<rparr>)),
     api_raw_cas = (\<lambda>k old v c.
        (Inr (map_of (raw_data c) k, map_of (raw_data c) k = old),
         if map_of (raw_data c) k = old then c\<lparr>raw_data := AList.update k v (raw_data c)\<rparr> else c)),
     api_raw_batch_delete = (\<lambda>ks c. (Inr (), c\<lparr>raw_data := filter (\<lambda>kv. fst kv \<notin> set ks) (raw_data c)\<rparr>)),
     api_raw_scan = (\<lambda>rg n c. (Inr (mem_scan False rg n (raw_data c)), c)),
     api_raw_batch_get = (\<lambda>ks c. (Inr (mem_batch_get ks (raw_data c)), c)),
     api_raw_batch_put = (\<lambda>kvs c. (Inr (), c\<lparr>raw_data := mem_update kvs (raw_data c)\<rparr>)),
     api_raw_delete_range = (\<lambda>rg c. (Inr (), c\<lparr>raw_data := filter (\<lambda>kv. \<not> in_range rg (fst kv)) (raw_data c)\<rparr>))\<rparr>"

definition mem_data :: "mem \<Rightarrow> store" where "mem_data c = map_of (txn_data c)"

text \<open>An answer of the script is an error and whether the commit took effect before it; only an
  undetermined error can have.\<close>

record flaky = mem +
  script :: "(tikv_error \<times> bool) list"

definition flaky_commit :: "mem_txn \<Rightarrow> flaky \<Rightarrow> (tikv_error + unit) \<times> flaky" where
  "flaky_commit t c =
     (case script c of
        [] \<Rightarrow> (Inr (), c\<lparr>txn_data := current t\<rparr>)
      | (e, applied) # rest \<Rightarrow>
          (Inl e, c\<lparr>txn_data := (if applied \<and> e = UndeterminedError then current t else txn_data c),
                    script := rest\<rparr>))"

definition flaky_api :: "(flaky, mem_txn) api" where
  "flaky_api = \<lparr>
     api_begin = (\<lambda>c. (Inr \<lparr>started_on = txn_data c, current = txn_data c\<rparr>, c)),
     api_get = api_get mem_api,
     api_key_exists = api_key_exists mem_api,
     api_put = api_put mem_api,
     api_delete = api_delete mem_api,
     api_batch_get = api_batch_get mem_api,
     api_scan = api_scan mem_api,
     api_commit = flaky_commit,
     api_rollback = (\<lambda>t c. (Inr (), c)),
     api_new_transaction = (\<lambda>c. \<lparr>started_on = txn_data c, current = txn_data c\<rparr>),
     api_raw_get = (\<lambda>k c. (Inl RegionError, c)),
     api_raw_put = (\<lambda>k v c. (Inl RegionError, c)),
     api_raw_cas = (\<lambda>k old v c. (Inl RegionError, c)),
     api_raw_batch_delete = (\<lambda>ks c. (Inl RegionError, c)),
     api_raw_scan = (\<lambda>rg n c. (Inl RegionError, c)),
     api_raw_batch_get = (\<lambda>ks c. (Inl RegionError, c)),
     api_raw_batch_put = (\<lambda>kvs c. (Inl RegionError, c)),
     api_raw_delete_range = (\<lambda>rg c. (Inl RegionError, c))\<rparr>"

lemma mem_scan_store: "mem_scan d rg n al = scan_store (map_of al) d rg n"
proof -
  have "{k \<in> dom (map_of al). in_range rg k} = set (filter (in_range rg) (map fst al))"
    by (auto simp: dom_map_of_conv_image_fst)
  then have "range_keys (map_of al) rg = sort (remdups (filter (in_range rg) (map fst al)))"
    unfolding range_keys_def by (simp only: sorted_list_of_set_sort_remdups)
  then show ?thesis by (simp add: mem_scan_def scan_store_def Let_def)
qed

lemma mem_batch_get_answer: "batch_answer (map_of al) ks (mem_batch_get ks al)"
proof -
  have fst: "map fst (mem_batch_get ks al) = filter (\<lambda>k. map_of al k \<noteq> None) (remdups ks)"
    unfolding mem_batch_get_def by (induction ks) (auto simp: map_concat)
  have "mset (remdups ks) \<subseteq># mset ks"
    by (induction ks) (auto intro: subset_mset.order_trans simp: subseteq_mset_def le_SucI)
  then have "mset (filter (\<lambda>k. map_of al k \<noteq> None) (remdups ks)) \<subseteq># mset ks"
    by (rule subset_mset.order_trans [rotated]) (simp add: multiset_filter_subset)
  then show ?thesis
    unfolding batch_answer_def fst by (auto simp: mem_batch_get_def)
qed

interpretation mem: tikv_laws mem_api mem_data "map_of \<circ> started_on" "map_of \<circ> current" "{}"
  by unfold_locales
    (auto simp: mem_api_def mem_data_def update_conv' delete_conv' mem_scan_store mem_batch_get_answer finite_dom_map_of)

interpretation flaky: tikv_laws flaky_api "map_of \<circ> txn_data" "map_of \<circ> started_on" "map_of \<circ> current" UNIV
  by unfold_locales
    (auto simp: flaky_api_def mem_api_def flaky_commit_def update_conv' delete_conv' mem_scan_store
      mem_batch_get_answer finite_dom_map_of split: list.splits prod.splits)

definition mem_world :: "kvs \<Rightarrow> (mem, mem_txn) world" where
  "mem_world al = \<lparr>cluster = \<lparr>txn_data = al, raw_data = []\<rparr>, INDEX_COUNT = 0, txns = []\<rparr>"

definition flaky_world :: "kvs \<Rightarrow> (tikv_error \<times> bool) list \<Rightarrow> (flaky, mem_txn) world" where
  "flaky_world al sc = \<lparr>cluster = \<lparr>txn_data = al, raw_data = [], script = sc\<rparr>, INDEX_COUNT = 0, txns = []\<rparr>"

text \<open>The environment of the concrete runs: the default configuration, a connected backend.\<close>

definition env0 :: env where
  "env0 = \<lparr>INSTANCE_ID = (0, 1), SERVER_CONFIG = None, now_timestamp_in_millis = 1000000,
           TIKV_TXN_CLIENTS = True, TIKV_RAW_CLIENT = True\<rparr>"

lemma env0_simps [simp]:
  "SERVER_CONFIG env0 = None" "TIKV_TXN_CLIENTS env0" "now_timestamp_in_millis env0 = 1000000" "retries env0 = 3"
  by (simp_all add: env0_def retries_def txn_retry_count_def backend_or_def)

lemma mem_world_simps [simp]: "mem_data (cluster (mem_world al)) = map_of al" "txns (mem_world al) = []"
  by (simp_all add: mem_world_def mem_data_def)

lemma mem_ready [simp]: 
  "client_ready mem_api mem_data (map_of \<circ> started_on) (map_of \<circ> current) {} env0 (mem_world al)"
  by (simp add: client_ready_def mem.tikv_laws_axioms)

end
