(* ===== verification/List_Properties.thy ===== *)
theory List_Properties
  imports List_Edits Mem_Store
begin

text \<open>
  What the list commands do, said of runs: with any client library that keeps the laws, a command on a
  key that holds a list answers with the right frame and leaves the right list, and every other key as it
  was; or it reports an error of the library and nothing is written.
\<close>

section \<open>A store with one list\<close>

definition list_store :: "env \<Rightarrow> bytes \<Rightarrow> u64 \<Rightarrow> u16 \<Rightarrow> u64 \<Rightarrow> bytes list \<Rightarrow> kvs" where
  "list_store env key ttl v l xs =
     (mkey env key, encode_txnkv_list_meta_value ttl v l (l + of_nat (length xs))) # span_pairs env key v l xs"

lemma map_of_span_pairs:
  assumes "unat l + length xs < 2 ^ 63"
  shows "map_of (span_pairs env key v l xs) (lkey env key v i) = cell l xs i"
proof -
  have "map_of (map (\<lambda>(j, y). (lkey env key v j, y)) ivs) (lkey env key v i) = map_of ivs i" for ivs
    by (induction ivs) auto
  from this [of "map (\<lambda>j. (l + of_nat j, xs ! j)) [0..<length xs]"] show ?thesis
    using map_of_span(1) [of l "length xs" xs 0 i] assms by (simp add: span_pairs_def cell_def o_def)
qed

lemma dom_span_pairs: "map_of (span_pairs env key v l xs) x \<noteq> None \<Longrightarrow> \<exists>i. x = lkey env key v i"
  by (auto simp: span_pairs_def dest!: map_of_SomeD)

lemma list_store_rep:
  assumes "xs \<noteq> []" "unat l + length xs < 2 ^ 63"
  shows "list_rep env (map_of (list_store env key ttl v l xs)) key ttl v l xs"
proof -
  let ?m = "map_of (list_store env key ttl v l xs)"
  have dom: "x = mkey env key \<or> (\<exists>i. x = lkey env key v i)" if "?m x \<noteq> None" for x
    using that dom_span_pairs [of env key v l xs x] by (auto simp: list_store_def split: if_splits)
  have "list_cells env ?m key v l xs"
    using map_of_span_pairs [OF assms(2)] by (simp add: list_cells_def list_store_def)
  moreover have "list_frame env ?m key v"
    unfolding list_frame_def gc_ok_def
  proof (intro conjI allI impI)
    fix x assume "versioned (KEY_ENCODER env) key v x \<and> ?m x \<noteq> None"
    then show "\<exists>i. x = lkey env key v i" using dom [of x] by auto
  next
    fix b assume "?m (encode_txnkv_gc_key (KEY_ENCODER env) key) = Some b"
    then show "\<exists>v. b = u16_to_be_bytes v" using dom [of "encode_txnkv_gc_key (KEY_ENCODER env) key"] by auto
  next
    fix v' x assume "Some v \<noteq> Some v' \<and> ?m (encode_txnkv_gc_version_key (KEY_ENCODER env) key v') = None \<and>
      versioned (KEY_ENCODER env) key v' x"
    then show "?m x = None" using dom [of x] by (cases "?m x") auto
  qed
  ultimately show ?thesis using assms by (simp add: list_rep_def list_store_def)
qed

section \<open>The commands\<close>

text \<open>(C3) \<^verbatim>\<open>LPUSH\<close> and \<^verbatim>\<open>RPUSH\<close> on a live list put the values at the end they name, in the order the
  protocol asks for, and answer with the new length. The time to live and all other keys stay.\<close>

theorem push_extends_list:
  assumes "client_ready api data snap view F env w"
    and "list_rep env (data (cluster w)) key ttl v l xs" "\<not> key_is_expired env ttl"
    and "op_left \<Longrightarrow> length vs \<le> unat l" "unat l + length xs + length vs < 2 ^ 63"
  shows "completes api data F env (do_async_txnkv_push env False key vs op_left) w
    (\<lambda>reply m. reply = Integer (of_nat (length xs + length vs)) \<and>
       list_state env m key ttl (if op_left then rev vs @ xs else xs @ vs) \<and>
       others_same (KEY_ENCODER env) key (data (cluster w)) m)"
  unfolding do_async_txnkv_push_def
  by (rule completes_exec [OF assms(1) push_body_rep [OF assms(2-5)]]) (auto simp: resp_defs pushed_def)

theorem push_extends_list_witness:
  "completes mem_api mem_data {} env0 (do_async_txnkv_push env0 False [107] [[1], [2]] True)
     (mem_world (list_store env0 [107] 0 0 4294967296 [[7]]))
     (\<lambda>reply m. reply = Integer 3 \<and> list_state env0 m [107] 0 [[2], [1], [7]] \<and>
        others_same (KEY_ENCODER env0) [107] (map_of (list_store env0 [107] 0 0 4294967296 [[7]])) m)"
  using push_extends_list [OF mem_ready [of "list_store env0 [107] 0 0 4294967296 [[7]]"],
      of "[107]" 0 0 4294967296 "[[7]]" True "[[1], [2]]"]
  by (simp add: list_store_rep)

text \<open>\<^verbatim>\<open>LPUSH\<close> and \<^verbatim>\<open>RPUSH\<close> on a key that does not exist create the list of the values, without a time to live,
  under a version that has no keys left over. When all versions still wait for the garbage collector,
  they answer with the error and write nothing.\<close>

theorem push_creates_list:
  assumes "client_ready api data snap view F env w"
    and "no_key env (data (cluster w)) key" "async_deletion_enabled_or_default (SERVER_CONFIG env)"
    and "vs \<noteq> []" "length vs \<le> 2 ^ 32"
  shows "completes api data F env (do_async_txnkv_push env False key vs op_left) w
    (\<lambda>reply m. case next_version env (data (cluster w)) key of
       None \<Rightarrow> reply = resp_err KEY_VERSION_EXHUSTED_ERR \<and> m = data (cluster w)
     | Some v \<Rightarrow> reply = Integer (of_nat (length vs)) \<and>
         list_state env m key 0 (if op_left then rev vs else vs) \<and>
         others_same (KEY_ENCODER env) key (data (cluster w)) m)"
  unfolding do_async_txnkv_push_def
  by (rule completes_exec [OF assms(1) push_body_absent [OF assms(2-5)]])
    (auto simp: resp_int_def pushed_def split: option.splits)

theorem push_creates_list_witness:
  "completes mem_api mem_data {} env0 (do_async_txnkv_push env0 False [107] [[1], [2]] True) (mem_world [])
     (\<lambda>reply m. reply = Integer 2 \<and> list_state env0 m [107] 0 [[2], [1]] \<and>
        others_same (KEY_ENCODER env0) [107] Map.empty m)"
  using push_creates_list [OF mem_ready [of "[]"], of "[107]" "[[1], [2]]" True]
  by (simp add: next_version_def async_deletion_enabled_or_default_def backend_or_def)

text \<open>\<^verbatim>\<open>LPOP\<close> and \<^verbatim>\<open>RPOP\<close> of one element answer with the first or the last value and leave the others; the
  last pop removes the key. The library must not fail: see \<open>pop_one_panics\<close>.\<close>

theorem pop_one_takes_end:
  assumes "client_ready api data snap view {} env w"
    and "list_rep env (data (cluster w)) key ttl v l xs" "\<not> key_is_expired env ttl"
  shows "completes api data {} env (do_async_txnkv_pop env False key op_left 1) w
    (\<lambda>reply m. reply = Bulk (if op_left then hd xs else last xs) \<and>
       list_state env m key ttl (if op_left then tl xs else butlast xs) \<and>
       others_same (KEY_ENCODER env) key (data (cluster w)) m)"
proof -
  have ne: "xs \<noteq> []" using assms(2) by (simp add: list_rep_def)
  have vals: "removed_values op_left 1 xs = [if op_left then hd xs else last xs]"
  proof (cases op_left)
    case True
    then show ?thesis using ne by (cases xs) (simp_all add: removed_values_def)
  next
    case False
    then show ?thesis using ne by (cases xs rule: rev_cases) (simp_all add: removed_values_def)
  qed
  have kept: "kept_values op_left 1 xs = (if op_left then tl xs else butlast xs)"
    by (simp add: kept_values_def drop_Suc butlast_conv_take)
  show ?thesis
    unfolding do_async_txnkv_pop_def
    by (rule completes_exec [OF assms(1) pop_body_one [OF assms(2,3), of op_left, unfolded vals kept]])
      (auto simp: pop_reply_def)
qed

theorem pop_one_takes_end_witness:
  "completes mem_api mem_data {} env0 (do_async_txnkv_pop env0 False [107] False 1)
     (mem_world (list_store env0 [107] 0 0 4294967296 [[7], [8], [9]]))
     (\<lambda>reply m. reply = Bulk [9] \<and> list_state env0 m [107] 0 [[7], [8]] \<and>
        others_same (KEY_ENCODER env0) [107] (map_of (list_store env0 [107] 0 0 4294967296 [[7], [8], [9]])) m)"
  using pop_one_takes_end [OF mem_ready [of "list_store env0 [107] 0 0 4294967296 [[7], [8], [9]]"],
      of "[107]" 0 0 4294967296 "[[7], [8], [9]]" False]
  by (simp add: list_store_rep)

text \<open>(C4) A pop with a count other than one removes that many elements from its end, or all of them, and
  answers with exactly those, in the order the library's \<^verbatim>\<open>batch_get\<close> gives.\<close>

theorem pop_count_takes_end:
  fixes cnt :: i64
  assumes "client_ready api data snap view F env w"
    and "list_rep env (data (cluster w)) key ttl v l xs" "\<not> key_is_expired env ttl" "cnt \<noteq> 1"
  defines "n \<equiv> min (unat cnt) (length xs)"
  shows "completes api data F env (do_async_txnkv_pop env False key op_left cnt) w
    (\<lambda>reply m. \<exists>vals. reply = pop_reply (map Bulk vals) \<and>
       mset vals = mset (if op_left then take n xs else drop (length xs - n) xs) \<and>
       list_state env m key ttl (if op_left then drop n xs else take (length xs - n) xs) \<and>
       others_same (KEY_ENCODER env) key (data (cluster w)) m)"
  unfolding do_async_txnkv_pop_def
proof (rule completes_exec [OF assms(1) pop_body_many [OF assms(2-4), folded n_def]], goal_cases)
  case (1 x m')
  then obtain vals where "x = map Bulk vals" "mset vals = mset (removed_values op_left n xs)"
    "list_state env m' key ttl (kept_values op_left n xs)" "others_same (KEY_ENCODER env) key (data (cluster w)) m'"
    by blast
  then show ?case by (intro exI [of _ vals]) (auto simp: removed_values_def kept_values_def)
qed auto

theorem pop_count_takes_end_witness:
  "completes mem_api mem_data {} env0 (do_async_txnkv_pop env0 False [107] True 2)
     (mem_world (list_store env0 [107] 0 0 4294967296 [[7], [8], [9]]))
     (\<lambda>reply m. \<exists>vals. reply = pop_reply (map Bulk vals) \<and> mset vals = {#[7], [8]#} \<and>
        list_state env0 m [107] 0 [[9]] \<and>
        others_same (KEY_ENCODER env0) [107] (map_of (list_store env0 [107] 0 0 4294967296 [[7], [8], [9]])) m)"
  using pop_count_takes_end [OF mem_ready [of "list_store env0 [107] 0 0 4294967296 [[7], [8], [9]]"],
      of "[107]" 0 0 4294967296 "[[7], [8], [9]]" 2 True]
  by (simp add: list_store_rep)

text \<open>\<^verbatim>\<open>LLEN\<close> answers with the length and \<^verbatim>\<open>LINDEX\<close> with the element at the index, counted from the end
  when negative, or nil outside the list. Neither writes.\<close>

theorem list_reads:
  assumes "client_ready api data snap view F env w"
    and "list_rep env (data (cluster w)) key ttl v l xs" "\<not> key_is_expired env ttl"
  shows "completes api data F env (do_async_txnkv_llen env False key) w
      (\<lambda>reply m. reply = Integer (of_nat (length xs)) \<and> m = data (cluster w)) \<and>
    completes api data F env (do_async_txnkv_lindex env False key idx) w
      (\<lambda>reply m. reply = (case redis_index (length xs) idx of Some i \<Rightarrow> Bulk (xs ! i) | None \<Rightarrow> Null) \<and>
         m = data (cluster w))"
  unfolding do_async_txnkv_llen_def do_async_txnkv_lindex_def
  by (intro conjI completes_exec_frame [OF assms(1) llen_body_rep [OF assms(2,3)]]
      completes_exec_frame [OF assms(1) lindex_body_rep [OF assms(2,3)]])
    (auto simp: bulk_or_nil_def split: option.splits)

theorem list_reads_witness:
  "completes mem_api mem_data {} env0 (do_async_txnkv_llen env0 False [107])
      (mem_world (list_store env0 [107] 0 0 4294967296 [[7], [8], [9]]))
      (\<lambda>reply m. reply = Integer 3 \<and> m = map_of (list_store env0 [107] 0 0 4294967296 [[7], [8], [9]])) \<and>
   completes mem_api mem_data {} env0 (do_async_txnkv_lindex env0 False [107] 2)
      (mem_world (list_store env0 [107] 0 0 4294967296 [[7], [8], [9]]))
      (\<lambda>reply m. reply = Bulk [9] \<and> m = map_of (list_store env0 [107] 0 0 4294967296 [[7], [8], [9]]))"
  using list_reads [OF mem_ready [of "list_store env0 [107] 0 0 4294967296 [[7], [8], [9]]"],
      of "[107]" 0 0 4294967296 "[[7], [8], [9]]" 2]
  by (simp add: list_store_rep redis_index_def)

text \<open>(C5) \<^verbatim>\<open>LSET\<close> replaces the element at an index of the list, and answers with the out-of-range error and
  writes nothing for any other index, also where the index arithmetic wraps around.\<close>

theorem lset_replaces:
  assumes "client_ready api data snap view F env w"
    and "list_rep env (data (cluster w)) key ttl v l xs" "\<not> key_is_expired env ttl"
  shows "completes api data F env (do_async_txnkv_lset env False key idx x) w
    (\<lambda>reply m. case redis_index (length xs) idx of
       None \<Rightarrow> reply = resp_err REDIS_INDEX_OUT_OF_RANGE_ERR \<and> m = data (cluster w)
     | Some i \<Rightarrow> reply = resp_ok \<and> list_rep env m key ttl v l (xs[i := x]) \<and>
         others_same (KEY_ENCODER env) key (data (cluster w)) m)"
  unfolding do_async_txnkv_lset_def
  by (rule completes_exec [OF assms(1) lset_body_rep [OF assms(2,3)]])
    (auto simp: resp_ok_ignore_def split: option.splits)

theorem lset_replaces_witness:
  "completes mem_api mem_data {} env0 (do_async_txnkv_lset env0 False [107] (- 1) [5])
     (mem_world (list_store env0 [107] 0 0 4294967296 [[7], [8]]))
     (\<lambda>reply m. reply = resp_ok \<and> list_rep env0 m [107] 0 0 4294967296 [[7], [5]] \<and>
        others_same (KEY_ENCODER env0) [107] (map_of (list_store env0 [107] 0 0 4294967296 [[7], [8]])) m)"
  using lset_replaces [OF mem_ready [of "list_store env0 [107] 0 0 4294967296 [[7], [8]]"],
      of "[107]" 0 0 4294967296 "[[7], [8]]" "- 1" "[5]"]
  by (simp add: list_store_rep redis_index_def)

text \<open>(C6) \<^verbatim>\<open>LRANGE\<close> with two indices of the list answers with the elements between them, both included.\<close>

theorem lrange_slices:
  assumes "client_ready api data snap view F env w"
    and "list_rep env (data (cluster w)) key ttl v l xs" "\<not> key_is_expired env ttl"
    and "redis_index (length xs) start = Some a" "redis_index (length xs) stop = Some b" "b + 1 - a < 2 ^ 32"
  shows "completes api data F env (do_async_txnkv_lrange env False key start stop) w
    (\<lambda>reply m. reply = Array (map Bulk (take (b + 1 - a) (drop a xs))) \<and> m = data (cluster w))"
  unfolding do_async_txnkv_lrange_def
  by (rule completes_exec_frame [OF assms(1) lrange_body_rep [OF assms(2-6)]]) auto

theorem lrange_slices_witness:
  "completes mem_api mem_data {} env0 (do_async_txnkv_lrange env0 False [107] 1 (- 1))
     (mem_world (list_store env0 [107] 0 0 4294967296 [[7], [8], [9]]))
     (\<lambda>reply m. reply = Array [Bulk [8], Bulk [9]] \<and>
        m = map_of (list_store env0 [107] 0 0 4294967296 [[7], [8], [9]]))"
  using lrange_slices [OF mem_ready [of "list_store env0 [107] 0 0 4294967296 [[7], [8], [9]]"],
      of "[107]" 0 0 4294967296 "[[7], [8], [9]]" 1 1 "- 1" 2]
  by (simp add: list_store_rep redis_index_def)

text \<open>(C7) \<^verbatim>\<open>LTRIM\<close> keeps the elements between its two bounds, each moved into the list first, and removes the
  key when they cross.\<close>

theorem ltrim_slices:
  fixes start stop :: i64
  assumes "client_ready api data snap view F env w"
    and "list_rep env (data (cluster w)) key ttl v l xs" "\<not> key_is_expired env ttl"
  defines "s \<equiv> clamp_index (length xs) start" and "e \<equiv> clamp_index (length xs) stop"
  shows "completes api data F env (do_async_txnkv_ltrim env False key start stop) w
    (\<lambda>reply m. reply = resp_ok \<and> list_state env m key ttl (take (e + 1 - s) (drop s xs)) \<and>
       others_same (KEY_ENCODER env) key (data (cluster w)) m)"
  unfolding do_async_txnkv_ltrim_def
  by (rule completes_exec [OF assms(1) ltrim_body_rep [OF assms(2,3), of F start stop, folded s_def e_def]])
    (auto simp: resp_ok_ignore_def)

theorem ltrim_slices_witness:
  "completes mem_api mem_data {} env0 (do_async_txnkv_ltrim env0 False [107] 1 (- 2))
     (mem_world (list_store env0 [107] 0 0 4294967296 [[7], [8], [9], [10]]))
     (\<lambda>reply m. reply = resp_ok \<and> list_state env0 m [107] 0 [[8], [9]] \<and>
        others_same (KEY_ENCODER env0) [107] (map_of (list_store env0 [107] 0 0 4294967296 [[7], [8], [9], [10]])) m)"
  using ltrim_slices [OF mem_ready [of "list_store env0 [107] 0 0 4294967296 [[7], [8], [9], [10]]"],
      of "[107]" 0 0 4294967296 "[[7], [8], [9], [10]]" 1 "- 2"]
  by (simp add: list_store_rep clamp_index_def)

text \<open>(C8) \<^verbatim>\<open>LINSERT\<close> puts the element before or after the first occurrence of the pivot, whichever end it moves to
  make room, and answers with the new length; without the pivot it answers -1 and writes nothing, and above
  the configured length it answers with the error.\<close>

theorem linsert_inserts:
  assumes "client_ready api data snap view F env w"
    and "list_rep env (data (cluster w)) key ttl v l xs" "\<not> key_is_expired env ttl"
    and "0 < unat l" "unat l + Suc (length xs) < 2 ^ 63" "length xs \<le> u32_MAX"
  shows "completes api data F env (do_async_txnkv_linsert env False key before pivot x) w
    (\<lambda>reply m. if too_long (cmd_linsert_length_limit_or_default (SERVER_CONFIG env)) (length xs)
       then reply = resp_err REDIS_LIST_TOO_LARGE_ERR \<and> m = data (cluster w)
       else case first_index pivot xs of
         None \<Rightarrow> reply = Integer (- 1) \<and> m = data (cluster w)
       | Some p \<Rightarrow> reply = Integer (of_nat (Suc (length xs))) \<and>
           list_state env m key ttl
             (if before then take p xs @ x # drop p xs else take (Suc p) xs @ x # drop (Suc p) xs) \<and>
           others_same (KEY_ENCODER env) key (data (cluster w)) m)"
  unfolding do_async_txnkv_linsert_def
  by (rule completes_exec [OF assms(1) linsert_body_rep [OF assms(2-6)]])
    (auto simp: resp_int_def inserted_def split: option.splits if_splits)

theorem linsert_inserts_witness:
  "completes mem_api mem_data {} env0 (do_async_txnkv_linsert env0 False [107] True [8] [5])
     (mem_world (list_store env0 [107] 0 0 4294967296 [[7], [8], [9]]))
     (\<lambda>reply m. reply = Integer 4 \<and> list_state env0 m [107] 0 [[7], [5], [8], [9]] \<and>
        others_same (KEY_ENCODER env0) [107] (map_of (list_store env0 [107] 0 0 4294967296 [[7], [8], [9]])) m)"
  using linsert_inserts [OF mem_ready [of "list_store env0 [107] 0 0 4294967296 [[7], [8], [9]]"],
      of "[107]" 0 0 4294967296 "[[7], [8], [9]]" True "[8]" "[5]"]
  by (simp add: list_store_rep u32_MAX_def too_long_def cmd_linsert_length_limit_or_default_def backend_or_def
      first_index_def upt_rec)



section \<open>Boundary behaviour\<close>




text \<open>On a key that holds a value of another type every list command answers with the wrong-type error and
  writes nothing.\<close>

theorem list_wrong_type_rejected:
  assumes "client_ready api data snap view F env w" and "other_type env (data (cluster w)) key"
    and "p \<in> {do_async_txnkv_push env False key vs op_left, do_async_txnkv_pop env False key op_left cnt,
      do_async_txnkv_ltrim env False key start stop, do_async_txnkv_lset env False key idx x,
      do_async_txnkv_linsert env False key before pivot x, do_async_txnkv_lrem env False key n from_head x,
      do_async_txnkv_lrange env False key start stop, do_async_txnkv_llen env False key,
      do_async_txnkv_lindex env False key idx}"
  shows "completes api data F env p w (\<lambda>reply m. reply = resp_err REDIS_WRONG_TYPE_ERR \<and> m = data (cluster w))"
proof -
  note bodies = wrong_type_bodies [OF assms(2)]
  note cmds = do_async_txnkv_push_def do_async_txnkv_llen_def do_async_txnkv_lindex_def do_async_txnkv_lrange_def
    do_async_txnkv_pop_def do_async_txnkv_ltrim_def do_async_txnkv_linsert_def do_async_txnkv_lrem_def
    do_async_txnkv_lset_def
  note frame = completes_exec_frame [OF assms(1)] and rep = completes_exec [OF assms(1)]
  show ?thesis using assms(3)
    by (elim insertE emptyE)
      (hypsubst, unfold cmds,
        rule frame [OF bodies(7)] frame [OF bodies(8)] frame [OF bodies(9)] rep [OF bodies(1)] rep [OF bodies(2)]
          rep [OF bodies(3)] rep [OF bodies(4)] rep [OF bodies(5)] rep [OF bodies(6)];
        auto)+
qed

theorem list_wrong_type_rejected_witness:
  "completes mem_api mem_data {} env0 (do_async_txnkv_llen env0 False [107])
     (mem_world [(mkey env0 [107], encode_txnkv_string_value [1] 0)])
     (\<lambda>reply m. reply = resp_err REDIS_WRONG_TYPE_ERR \<and> m = map_of [(mkey env0 [107], encode_txnkv_string_value [1] 0)])"
  using list_wrong_type_rejected [OF mem_ready [of "[(mkey env0 [107], encode_txnkv_string_value [1] 0)]"],
      of "[107]" "do_async_txnkv_llen env0 False [107]"]
  by (simp add: other_type_def)









text \<open>The single pop unwraps the answer of the library: an error where the element is read, which any
  other command reports, is a panic here.\<close>

lemma pop_one_panics:
  assumes "TIKV_TXN_CLIENTS env" "retries env = Suc n" "\<not> key_is_expired env ttl"
    and "api_begin api (cluster w) = (Inr t, c)"
    and "api_get api (mkey env key) t = (Inr (Some (encode_txnkv_list_meta_value ttl v l r)), t1)"
    and "api_get api (lkey env key v l) t1 = (Inl e, t2)"
  shows "fst (run api (do_async_txnkv_pop env False key True 1) w) = Panicked"
proof -
  have "run api (pop_body env key True 1) (w\<lparr>cluster := c, txns := (t, False) # txns w\<rparr>) =
      (Panicked, w\<lparr>cluster := c, txns := (t2, True) # txns w\<rparr>)"
    using assms by (simp add: pop_body_def with_list_meta_def txn_get_def try_tikv_def unwrap_def pop_one_def on_txn_def Let_def)
  then show ?thesis using assms
    by (simp add: do_async_txnkv_pop_def get_txn_client_def reply_def exec_in_txn_def retries_def scoped_def run_bindp
        del: bindp.simps)
qed

end
