(* ===== verification/Raw_Client.thy ===== *)
theory Raw_Client
  imports Mem_Store
begin

text \<open>
  The raw client, \<^verbatim>\<open>RawClientWrapper\<close> of \<^verbatim>\<open>src/tikv/client.rs\<close>: every method repeats its request while the
  library answers with an error that may go away. The laws of the raw interface of the library are the
  locale \<open>raw_laws\<close>; a failed write may or may not have taken effect.
\<close>

section \<open>The wrapper\<close>

definition raw_error_retryable :: "tikv_error \<Rightarrow> bool" where
  "raw_error_retryable err =
     (case err of
        RegionError \<Rightarrow> True
      | EntryNotFoundInRegionCache \<Rightarrow> True
      | KvError \<Rightarrow> True
      | MultipleKeyErrors \<Rightarrow> True
      | _ \<Rightarrow> False)"

text \<open>\<^verbatim>\<open>RawClientWrapper.retries\<close>\<close>

definition raw_retries :: nat where "raw_retries = 2000"

text \<open>The loop that the methods share: \<open>request\<close> is the call of the library, \<open>fallback\<close> what they return when there
  were neither iterations nor errors, the last argument \<^verbatim>\<open>last_err\<close>.\<close>

primrec raw_loop ::
  "((tikv_error + 'r \<Rightarrow> (tikv_error + 'r) prog) \<Rightarrow> (tikv_error + 'r) prog) \<Rightarrow> 'r \<Rightarrow> nat \<Rightarrow> tikv_error option \<Rightarrow>
   (tikv_error + 'r) prog" where
  "raw_loop request fallback 0 last_err = Ret (case last_err of Some err \<Rightarrow> Inl err | None \<Rightarrow> Inr fallback)"
| "raw_loop request fallback (Suc n) last_err =
     request (\<lambda>r. case r of
         Inr val \<Rightarrow> Ret (Inr val)
       | Inl err \<Rightarrow> if raw_error_retryable err then raw_loop request fallback n (Some err) else Ret (Inl err))"

definition raw_get :: "bytes \<Rightarrow> (tikv_error + bytes option) prog" where
  "raw_get key = raw_loop (RawGet key) None raw_retries None"

definition raw_put :: "bytes \<Rightarrow> bytes \<Rightarrow> (tikv_error + unit) prog" where
  "raw_put key val = raw_loop (RawPut key val) () raw_retries None"

definition raw_compare_and_swap :: "bytes \<Rightarrow> bytes option \<Rightarrow> bytes \<Rightarrow> (tikv_error + bytes option \<times> bool) prog" where
  "raw_compare_and_swap key prev_val val = raw_loop (RawCas key prev_val val) (None, False) raw_retries None"

definition raw_batch_delete :: "bytes list \<Rightarrow> (tikv_error + unit) prog" where
  "raw_batch_delete keys = raw_loop (RawBatchDelete keys) () raw_retries None"

definition raw_scan :: "bound_range \<Rightarrow> nat \<Rightarrow> (tikv_error + kv_pair list) prog" where
  "raw_scan rg limit = raw_loop (RawScan rg limit) [] raw_retries None"

definition raw_batch_get :: "bytes list \<Rightarrow> (tikv_error + kv_pair list) prog" where
  "raw_batch_get keys = raw_loop (RawBatchGet keys) [] raw_retries None"

definition raw_batch_put :: "kv_pair list \<Rightarrow> (tikv_error + unit) prog" where
  "raw_batch_put kvs = raw_loop (RawBatchPut kvs) () raw_retries None"

definition raw_delete_range :: "bound_range \<Rightarrow> (tikv_error + unit) prog" where
  "raw_delete_range rg = raw_loop (RawDeleteRange rg) () raw_retries None"

definition get_client :: "env \<Rightarrow> 'a action \<Rightarrow> 'a action" where
  "get_client env p = (if TIKV_RAW_CLIENT env then p else Throw REDIS_BACKEND_NOT_CONNECTED_ERR)"

text \<open>\<^verbatim>\<open>client.get(..).await?\<close> and the like\<close>

definition raw_call :: "(tikv_error + 'a) prog \<Rightarrow> ('a \<Rightarrow> 'b action) \<Rightarrow> 'b action" where
  "raw_call p f = bindp p (try_tikv f)"

section \<open>Preconditions over the raw data\<close>

text \<open>What the pairs of a batch leave behind, the last pair of a key last.\<close>

definition put_pairs :: "kv_pair list \<Rightarrow> store \<Rightarrow> store" where
  "put_pairs kvs m = m ++ map_of (rev kvs)"

text \<open>An error of a write leaves the data as they were or as the write would have left them.\<close>

definition raw_write ::
  "tikv_error set \<Rightarrow> (tikv_error + 'r \<Rightarrow> (store \<Rightarrow> bool)) \<Rightarrow> 'r \<Rightarrow> store \<Rightarrow> store \<Rightarrow> bool" where
  "raw_write F k r m m' \<longleftrightarrow> (\<forall>e\<in>F. k (Inl e) m \<and> k (Inl e) m') \<and> k (Inr r) m'"

primrec raw_wp :: "tikv_error set \<Rightarrow> 'a prog \<Rightarrow> ('a \<Rightarrow> store \<Rightarrow> bool) \<Rightarrow> store \<Rightarrow> bool" where
  "raw_wp F (Ret x) Q m = Q x m"
| "raw_wp F Crash Q m = False"
| "raw_wp F (Lock p) Q m = False"
| "raw_wp F (Unlock p) Q m = False"
| "raw_wp F (Get k f) Q m = False"
| "raw_wp F (KeyExists k f) Q m = False"
| "raw_wp F (Put k v f) Q m = False"
| "raw_wp F (Delete k f) Q m = False"
| "raw_wp F (BatchGet ks f) Q m = False"
| "raw_wp F (Scan d rg n f) Q m = False"
| "raw_wp F (FetchIdx f) Q m = False"
| "raw_wp F (Begin f) Q m = False"
| "raw_wp F (Commit f) Q m = False"
| "raw_wp F (Rollback f) Q m = False"
| "raw_wp F (BeginLatest p) Q m = False"
| "raw_wp F (DropTxn p) Q m = False"
| "raw_wp F (RawGet k f) Q m = ((\<forall>e\<in>F. raw_wp F (f (Inl e)) Q m) \<and> raw_wp F (f (Inr (m k))) Q m)"
| "raw_wp F (RawPut k v f) Q m = raw_write F (\<lambda>r. raw_wp F (f r) Q) () m (m(k \<mapsto> v))"
| "raw_wp F (RawCas k old v f) Q m =
     raw_write F (\<lambda>r. raw_wp F (f r) Q) (m k, m k = old) m (if m k = old then m(k \<mapsto> v) else m)"
| "raw_wp F (RawBatchDelete ks f) Q m = raw_write F (\<lambda>r. raw_wp F (f r) Q) () m (m |` (- set ks))"
| "raw_wp F (RawScan rg n f) Q m =
     ((\<forall>e\<in>F. raw_wp F (f (Inl e)) Q m) \<and> raw_wp F (f (Inr (scan_store m False rg n))) Q m)"
| "raw_wp F (RawBatchGet ks f) Q m =
     ((\<forall>e\<in>F. raw_wp F (f (Inl e)) Q m) \<and> (\<forall>kvs. batch_answer m ks kvs \<longrightarrow> raw_wp F (f (Inr kvs)) Q m))"
| "raw_wp F (RawBatchPut kvs f) Q m = raw_write F (\<lambda>r. raw_wp F (f r) Q) () m (put_pairs kvs m)"
| "raw_wp F (RawDeleteRange rg f) Q m = raw_write F (\<lambda>r. raw_wp F (f r) Q) () m (m |` (- {k. in_range rg k}))"

definition write_answer :: "tikv_error set \<Rightarrow> tikv_error + 'r \<Rightarrow> 'r \<Rightarrow> store \<Rightarrow> store \<Rightarrow> store \<Rightarrow> bool" where
  "write_answer F u r m m' m1 \<longleftrightarrow>
     (case u of Inl e \<Rightarrow> e \<in> F \<and> (m1 = m \<or> m1 = m') | Inr x \<Rightarrow> x = r \<and> m1 = m')"

locale raw_laws =
  fixes api :: "('w, 't) api"
    and data :: "'w \<Rightarrow> store"
    and F :: "tikv_error set"
  assumes get_law: "api_raw_get api k c = (g, c') \<Longrightarrow>
      data c' = data c \<and> (case g of Inl e \<Rightarrow> e \<in> F | Inr r \<Rightarrow> r = data c k)"
    and put_law: "api_raw_put api k v c = (u, c') \<Longrightarrow> write_answer F u () (data c) ((data c)(k \<mapsto> v)) (data c')"
    and cas_law: "api_raw_cas api k old v c = (s, c') \<Longrightarrow>
      write_answer F s (data c k, data c k = old) (data c)
        (if data c k = old then (data c)(k \<mapsto> v) else data c) (data c')"
    and batch_delete_law: "api_raw_batch_delete api ks c = (u, c') \<Longrightarrow>
      write_answer F u () (data c) (data c |` (- set ks)) (data c')"
    and scan_law: "api_raw_scan api rg n c = (l, c') \<Longrightarrow>
      data c' = data c \<and> (case l of Inl e \<Rightarrow> e \<in> F | Inr kvs \<Rightarrow> kvs = scan_store (data c) False rg n)"
    and batch_get_law: "api_raw_batch_get api ks c = (l, c') \<Longrightarrow>
      data c' = data c \<and> (case l of Inl e \<Rightarrow> e \<in> F | Inr kvs \<Rightarrow> batch_answer (data c) ks kvs)"
    and batch_put_law: "api_raw_batch_put api kvs c = (u, c') \<Longrightarrow>
      write_answer F u () (data c) (put_pairs kvs (data c)) (data c')"
    and delete_range_law: "api_raw_delete_range api rg c = (u, c') \<Longrightarrow>
      write_answer F u () (data c) (data c |` (- {k. in_range rg k})) (data c')"
begin

abbreviation returns :: "('a \<Rightarrow> store \<Rightarrow> bool) \<Rightarrow> ('w, 't) world \<Rightarrow> 'a outcome \<times> ('w, 't) world \<Rightarrow> bool" where
  "returns Q w res \<equiv> (\<exists>x w'. res = (Done x, w') \<and> txns w' = txns w \<and> Q x (data (cluster w')))"

lemma raw_read_sound:
  assumes "act (cluster w) = (r, c)" "data c = data (cluster w)"
    and "\<And>w'. data (cluster w') = data (cluster w) \<Longrightarrow> returns Q w' (cont r w')"
  shows "returns Q w (on_cluster act cont w)"
  using assms(3) [of "w\<lparr>cluster := c\<rparr>"] assms(1,2) by (simp add: on_cluster_def)

lemma raw_write_sound:
  assumes "act (cluster w) = (r, c)"
    "raw_write F k x (data (cluster w)) m'" "write_answer F r x (data (cluster w)) m' (data c)" and "\<And>r w'. k r (data (cluster w')) \<Longrightarrow> returns Q w' (cont r w')"
  shows "returns Q w (on_cluster act cont w)"
proof -
  have "k r (data c)" using assms(2,3) by (auto simp: raw_write_def write_answer_def split: sum.splits)
  then show ?thesis using assms(4) [of r "w\<lparr>cluster := c\<rparr>"] assms(1) by (simp add: on_cluster_def)
qed

lemma raw_run_sound: "raw_wp F p Q (data (cluster w)) \<Longrightarrow> returns Q w (run api p w)"
proof (induction p arbitrary: w)
  case (RawGet k f)
  obtain r c where r: "api_raw_get api k (cluster w) = (r, c)" by fastforce
  show ?case unfolding run.simps
    by (rule raw_read_sound, rule r) (use get_law [OF r] RawGet in \<open>auto split: sum.splits\<close>)
next
  case (RawPut k v f)
  obtain r c where r: "api_raw_put api k v (cluster w) = (r, c)" by fastforce
  show ?case unfolding run.simps
    by (rule raw_write_sound, rule r, rule RawPut.prems [unfolded raw_wp.simps], rule put_law [OF r])
      (rule RawPut.IH, auto)
next
  case (RawCas k old v f)
  obtain r c where r: "api_raw_cas api k old v (cluster w) = (r, c)" by fastforce
  show ?case unfolding run.simps
    by (rule raw_write_sound, rule r, rule RawCas.prems [unfolded raw_wp.simps], rule cas_law [OF r])
      (rule RawCas.IH, auto)
next
  case (RawBatchDelete ks f)
  obtain r c where r: "api_raw_batch_delete api ks (cluster w) = (r, c)" by fastforce
  show ?case unfolding run.simps
    by (rule raw_write_sound, rule r, rule RawBatchDelete.prems [unfolded raw_wp.simps], rule batch_delete_law [OF r])
      (rule RawBatchDelete.IH, auto)
next
  case (RawScan rg n f)
  obtain r c where r: "api_raw_scan api rg n (cluster w) = (r, c)" by fastforce
  show ?case unfolding run.simps
    by (rule raw_read_sound, rule r) (use scan_law [OF r] RawScan in \<open>auto split: sum.splits\<close>)
next
  case (RawBatchGet ks f)
  obtain r c where r: "api_raw_batch_get api ks (cluster w) = (r, c)" by fastforce
  show ?case unfolding run.simps
    by (rule raw_read_sound, rule r) (use batch_get_law [OF r] RawBatchGet in \<open>auto split: sum.splits\<close>)
next
  case (RawBatchPut kvs f)
  obtain r c where r: "api_raw_batch_put api kvs (cluster w) = (r, c)" by fastforce
  show ?case unfolding run.simps
    by (rule raw_write_sound, rule r, rule RawBatchPut.prems [unfolded raw_wp.simps], rule batch_put_law [OF r])
      (rule RawBatchPut.IH, auto)
next
  case (RawDeleteRange rg f)
  obtain r c where r: "api_raw_delete_range api rg (cluster w) = (r, c)" by fastforce
  show ?case unfolding run.simps
    by (rule raw_write_sound, rule r, rule RawDeleteRange.prems [unfolded raw_wp.simps], rule delete_range_law [OF r])
      (rule RawDeleteRange.IH, auto)
qed simp_all

end

section \<open>Rules for the wrapper\<close>

lemma raw_wp_bindp: "raw_wp F (bindp p g) Q m \<longleftrightarrow> raw_wp F p (\<lambda>x. raw_wp F (g x) Q) m"
  by (induction p arbitrary: m) (simp_all add: raw_write_def)

lemma raw_wp_mono: "raw_wp F p Q m \<Longrightarrow> (\<And>x m'. Q x m' \<Longrightarrow> Q' x m') \<Longrightarrow> raw_wp F p Q' m"
  by (induction p arbitrary: m) (auto simp: raw_write_def)

text \<open>The retry loop: \<open>I\<close> are the states that failed attempts may leave.\<close>

lemma raw_wp_loop:
  assumes request: "\<And>f s. \<lbrakk>s \<in> I; \<And>e s'. e \<in> F \<Longrightarrow> s' \<in> I \<Longrightarrow> raw_wp F (f (Inl e)) Q s';
      \<And>x s'. Q (Inr x) s' \<Longrightarrow> raw_wp F (f (Inr x)) Q s'\<rbrakk> \<Longrightarrow> raw_wp F (request f) Q s"
    and error: "\<And>e s. e \<in> F \<Longrightarrow> s \<in> I \<Longrightarrow> Q (Inl e) s"
    and "s \<in> I" "0 < n \<or> (\<exists>e\<in>F. last_err = Some e)"
  shows "raw_wp F (raw_loop request fallback n last_err) Q s"
  using assms(3,4)
proof (induction n arbitrary: s last_err)
  case 0
  then show ?case using error by auto
next
  case (Suc n)
  show ?case unfolding raw_loop.simps
    by (rule request [OF Suc.prems(1)]) (use error Suc.IH in auto)
qed

lemma raw_wp_get:
  assumes "Q (Inr (m k)) m" "\<And>e. e \<in> F \<Longrightarrow> Q (Inl e) m"
  shows "raw_wp F (raw_get k) Q m"
  unfolding raw_get_def
  by (rule raw_wp_loop [where I = "{m}"]) (use assms in \<open>auto simp: raw_retries_def\<close>)

lemma raw_wp_put:
  assumes "Q (Inr ()) (m(k \<mapsto> v))" "\<And>e m'. e \<in> F \<Longrightarrow> m' \<in> {m, m(k \<mapsto> v)} \<Longrightarrow> Q (Inl e) m'"
  shows "raw_wp F (raw_put k v) Q m"
  unfolding raw_put_def
  by (rule raw_wp_loop [where I = "{m, m(k \<mapsto> v)}"]) (use assms in \<open>auto simp: raw_retries_def raw_write_def\<close>)

text \<open>Failed attempts of a compare-and-swap may have swapped: then the last one can find that the value is
  not the expected one any more, although it is the new one.\<close>

lemma raw_wp_cas:
  assumes "m k = old" "\<And>r. Q (Inr (r, True)) (m(k \<mapsto> v))"
    and "\<And>r. F \<noteq> {} \<Longrightarrow> Q (Inr (r, False)) (m(k \<mapsto> v))"
    and "\<And>e m'. e \<in> F \<Longrightarrow> m' \<in> {m, m(k \<mapsto> v)} \<Longrightarrow> Q (Inl e) m'"
  shows "raw_wp F (raw_compare_and_swap k old v) Q m"
  unfolding raw_compare_and_swap_def
  by (rule raw_wp_loop [where I = "if F = {} then {m} else {m, m(k \<mapsto> v)}"])
    (use assms in \<open>auto simp: raw_retries_def raw_write_def split: if_splits\<close>)

lemma raw_wp_cas_other:
  assumes "m k \<noteq> old" "Q (Inr (m k, False)) m" "\<And>e. e \<in> F \<Longrightarrow> Q (Inl e) m"
  shows "raw_wp F (raw_compare_and_swap k old v) Q m"
  unfolding raw_compare_and_swap_def
  by (rule raw_wp_loop [where I = "{m}"]) (use assms in \<open>auto simp: raw_retries_def raw_write_def\<close>)

lemma raw_wp_batch_get:
  assumes "\<And>kvs. batch_answer m ks kvs \<Longrightarrow> Q (Inr kvs) m" "\<And>e. e \<in> F \<Longrightarrow> Q (Inl e) m"
  shows "raw_wp F (raw_batch_get ks) Q m"
  unfolding raw_batch_get_def
  by (rule raw_wp_loop [where I = "{m}"]) (use assms in \<open>auto simp: raw_retries_def\<close>)

lemma raw_wp_call:
  "raw_wp F (raw_call p f) Q m \<longleftrightarrow>
   raw_wp F p (\<lambda>r m'. case r of Inl e \<Rightarrow> Q (Inl (TikvClient e)) m' | Inr x \<Rightarrow> raw_wp F (f x) Q m') m"
  unfolding raw_call_def raw_wp_bindp try_tikv_def
  by (rule arg_cong [where f = "\<lambda>q. raw_wp F p q m"]) (auto simp: fun_eq_iff split: sum.splits)

section \<open>The laws in memory\<close>

lemma map_of_filter_key: "map_of (filter (\<lambda>kv. P (fst kv)) al) = map_of al |` {k. P k}"
  by (induction al) (auto simp: fun_eq_iff restrict_map_def)

lemma mem_update_put_pairs: "map_of (mem_update kvs al) = put_pairs kvs (map_of al)"
proof (induction kvs arbitrary: al)
  case (Cons kv kvs)
  then show ?case by (cases kv) (simp add: mem_update_def put_pairs_def update_conv' map_add_upd_left map_add_assoc)
qed (simp add: mem_update_def put_pairs_def)

interpretation raw_mem: raw_laws mem_api "map_of \<circ> raw_data" "{}"
  by unfold_locales
    (auto simp: mem_api_def write_answer_def update_conv' mem_scan_store mem_batch_get_answer
      mem_update_put_pairs Compl_eq map_of_filter_key [where P = "\<lambda>k. k \<notin> set ks" for ks]
      map_of_filter_key [where P = "\<lambda>k. \<not> in_range rg k" for rg] Collect_neg_eq [symmetric])

interpretation raw_down: raw_laws flaky_api "map_of \<circ> raw_data" UNIV
  by unfold_locales (auto simp: flaky_api_def write_answer_def)

end
