(* ===== verification/Strings.thy ===== *)
theory Strings
  imports Raw_Client Keyspace
begin

text \<open>
  The string commands, \<^verbatim>\<open>src/tikv/string.rs\<close>, over the raw client (\<^verbatim>\<open>rawkv\<close>) and over transactions
  (\<^verbatim>\<open>txnkv\<close>). The commands of the same file for keys of every type (\<^verbatim>\<open>EXPIRE\<close>, \<^verbatim>\<open>TTL\<close>, \<^verbatim>\<open>DEL\<close>, \<^verbatim>\<open>SCAN\<close>) are not in this
  theory, since they call those of the other types. As for the lists, \<open>in_txn\<close> says whether \<^verbatim>\<open>self.txn\<close> is set and
  a closure is the definition with the suffix \<open>body\<close>.
\<close>

section \<open>Commands over the raw client\<close>

definition do_async_rawkv_get :: "env \<Rightarrow> bytes \<Rightarrow> Frame action" where
  "do_async_rawkv_get env key =
     get_client env (raw_call (raw_get (encode_rawkv_string (KEY_ENCODER env) key)) (\<lambda>r.
       case r of Some val \<Rightarrow> Return (Bulk val) | None \<Rightarrow> Return Null))"

definition do_async_rawkv_type :: "env \<Rightarrow> bytes \<Rightarrow> Frame action" where
  "do_async_rawkv_type env key =
     get_client env (raw_call (raw_get (encode_rawkv_string (KEY_ENCODER env) key)) (\<lambda>r.
       case r of
         Some val \<Rightarrow> unwrap (decode_key_type val) (\<lambda>dt. Return (resp_str (datatype_to_string dt)))
       | None \<Rightarrow> Return (resp_str (datatype_to_string DT_Null))))"

definition do_async_rawkv_strlen :: "env \<Rightarrow> bytes \<Rightarrow> Frame action" where
  "do_async_rawkv_strlen env key =
     get_client env (raw_call (raw_get (encode_rawkv_string (KEY_ENCODER env) key)) (\<lambda>r.
       case r of Some val \<Rightarrow> Return (Integer (i64_of_len (length val))) | None \<Rightarrow> Return (Integer 0)))"

definition do_async_rawkv_put :: "env \<Rightarrow> bytes \<Rightarrow> bytes \<Rightarrow> Frame action" where
  "do_async_rawkv_put env key val =
     get_client env (raw_call (raw_put (encode_rawkv_string (KEY_ENCODER env) key) val) (\<lambda>_. Return resp_ok))"

definition do_async_rawkv_batch_get :: "env \<Rightarrow> bytes list \<Rightarrow> Frame action" where
  "do_async_rawkv_batch_get env keys =
     get_client env (
       let ekeys = encode_rawkv_strings (KEY_ENCODER env) keys in
       raw_call (raw_batch_get ekeys) (\<lambda>result.
       let ret = collect_pairs result in
       Return (Array (map (\<lambda>k. case ret k of Some val \<Rightarrow> Bulk val | None \<Rightarrow> Null) ekeys))))"

definition do_async_rawkv_batch_put :: "env \<Rightarrow> kv_pair list \<Rightarrow> Frame action" where
  "do_async_rawkv_batch_put env kvs = get_client env (raw_call (raw_batch_put kvs) (\<lambda>_. Return resp_ok))"

definition do_async_rawkv_put_not_exists :: "env \<Rightarrow> bytes \<Rightarrow> bytes \<Rightarrow> Frame action" where
  "do_async_rawkv_put_not_exists env key val =
     get_client env (
       raw_call (raw_compare_and_swap (encode_rawkv_string (KEY_ENCODER env) key) None val) (\<lambda>(_, swapped).
       Return (if swapped then resp_ok else resp_nil)))"

definition do_async_rawkv_exists :: "env \<Rightarrow> bytes list \<Rightarrow> Frame action" where
  "do_async_rawkv_exists env keys =
     get_client env (raw_call (raw_batch_get (encode_rawkv_strings (KEY_ENCODER env) keys)) (\<lambda>result.
       Return (resp_int (i64_of_len (length result)))))"

text \<open>The compare-and-swap loop; the argument is how many of the iterations are left.\<close>

primrec rawkv_incr_loop :: "nat \<Rightarrow> bytes \<Rightarrow> i64 \<Rightarrow> Frame action" where
  "rawkv_incr_loop 0 ekey step = Throw REDIS_COMPARE_AND_SWAP_EXHAUSTED_ERR"
| "rawkv_incr_loop (Suc n) ekey step =
     raw_call (raw_get ekey) (\<lambda>prev.
       case (case prev of Some val \<Rightarrow> parse_i64 (utf8_lossy val) | None \<Rightarrow> Some 0) of
         None \<Rightarrow> Throw REDIS_VALUE_IS_NOT_INTEGER_ERR
       | Some prev_int \<Rightarrow>
           let new_int = prev_int + step in
           raw_call (raw_compare_and_swap ekey prev (i64_to_string new_int)) (\<lambda>(_, ret).
             if ret then Return (resp_int new_int) else rawkv_incr_loop n ekey step))"

definition do_async_rawkv_incr :: "env \<Rightarrow> bytes \<Rightarrow> i64 \<Rightarrow> Frame action" where
  "do_async_rawkv_incr env key step =
     get_client env (rawkv_incr_loop 2000 (encode_rawkv_string (KEY_ENCODER env) key) step)"

section \<open>Commands in transactions\<close>

text \<open>Outside a transaction the reads use a read-only transaction on the latest data, which is dropped and
  never committed.\<close>

definition with_latest :: "bool \<Rightarrow> 'a action \<Rightarrow> 'a action" where
  "with_latest in_txn p = (if in_txn then p else BeginLatest (bindp p (\<lambda>r. DropTxn (Ret r))))"

definition string_del_body :: "env \<Rightarrow> bytes \<Rightarrow> i64 action" where
  "string_del_body env key =
     (let ekey = encode_txnkv_string (KEY_ENCODER env) key in
      Lock (txn_get ekey (\<lambda>r.
        case r of Some _ \<Rightarrow> txn_delete ekey (Return 1) | None \<Rightarrow> Return 0)))"

definition do_async_txnkv_string_del :: "env \<Rightarrow> bool \<Rightarrow> bytes \<Rightarrow> i64 action" where
  "do_async_txnkv_string_del env in_txn key = get_txn_client env (exec_in_txn env in_txn (string_del_body env key))"

definition string_expire_body :: "env \<Rightarrow> bytes \<Rightarrow> i64 action" where
  "string_expire_body env key =
     (let ekey = encode_txnkv_string (KEY_ENCODER env) key in
      Lock (txn_get ekey (\<lambda>r.
        case r of
          Some v \<Rightarrow>
            unwrap (decode_key_ttl v) (\<lambda>ttl.
            if key_is_expired env ttl then txn_delete ekey (Return 1) else Return 0)
        | None \<Rightarrow> Return 0)))"

definition do_async_txnkv_string_expire_if_needed :: "env \<Rightarrow> bool \<Rightarrow> bytes \<Rightarrow> i64 action" where
  "do_async_txnkv_string_expire_if_needed env in_txn key =
     get_txn_client env (exec_in_txn env in_txn (string_expire_body env key))"

text \<open>\<^verbatim>\<open>drop(txn); self.do_async_txnkv_string_expire_if_needed(&key).await?; ...\<close>\<close>

definition string_expire_then :: "env \<Rightarrow> bytes \<Rightarrow> 'a action \<Rightarrow> 'a action" where
  "string_expire_then env key p = Unlock (call (do_async_txnkv_string_expire_if_needed env True key) (\<lambda>_. p))"

definition get_body :: "env \<Rightarrow> bytes \<Rightarrow> Frame action" where
  "get_body env key =
     Lock (txn_get (encode_txnkv_string (KEY_ENCODER env) key) (\<lambda>r.
       case r of
         Some val \<Rightarrow>
           unwrap (decode_key_type val) (\<lambda>dt.
           if dt \<noteq> DT_String then Return (resp_err REDIS_WRONG_TYPE_ERR)
           else
             unwrap (decode_key_ttl val) (\<lambda>ttl.
             if key_is_expired env ttl then string_expire_then env key (Return resp_nil)
             else unwrap (decode_key_string_value val) (\<lambda>data. Return (resp_bulk data))))
       | None \<Rightarrow> Return resp_nil))"

definition do_async_txnkv_get :: "env \<Rightarrow> bool \<Rightarrow> bytes \<Rightarrow> Frame action" where
  "do_async_txnkv_get env in_txn key =
     get_txn_client env (with_latest in_txn (exec_in_txn env True (get_body env key)))"

definition type_body :: "env \<Rightarrow> bytes \<Rightarrow> Frame action" where
  "type_body env key =
     Lock (txn_get (encode_txnkv_string (KEY_ENCODER env) key) (\<lambda>r.
       case r of
         Some val \<Rightarrow>
           unwrap (decode_key_ttl val) (\<lambda>ttl.
           if key_is_expired env ttl then
             string_expire_then env key (Return (resp_str (datatype_to_string DT_Null)))
           else unwrap (decode_key_type val) (\<lambda>dt. Return (resp_str (datatype_to_string dt))))
       | None \<Rightarrow> Return (resp_str (datatype_to_string DT_Null))))"

definition do_async_txnkv_type :: "env \<Rightarrow> bool \<Rightarrow> bytes \<Rightarrow> Frame action" where
  "do_async_txnkv_type env in_txn key =
     get_txn_client env (with_latest in_txn (exec_in_txn env True (type_body env key)))"

definition strlen_body :: "env \<Rightarrow> bytes \<Rightarrow> Frame action" where
  "strlen_body env key =
     Lock (txn_get (encode_txnkv_string (KEY_ENCODER env) key) (\<lambda>r.
       case r of
         Some val \<Rightarrow>
           unwrap (decode_key_type val) (\<lambda>dt.
           if dt \<noteq> DT_String then Return (resp_err REDIS_WRONG_TYPE_ERR)
           else
             unwrap (decode_key_ttl val) (\<lambda>ttl.
             if key_is_expired env ttl then string_expire_then env key (Return (resp_int 0))
             else unwrap (decode_key_string_value val) (\<lambda>data. Return (resp_int (i64_of_len (length data))))))
       | None \<Rightarrow> Return (resp_int 0)))"

definition do_async_txnkv_strlen :: "env \<Rightarrow> bool \<Rightarrow> bytes \<Rightarrow> Frame action" where
  "do_async_txnkv_strlen env in_txn key =
     get_txn_client env (with_latest in_txn (exec_in_txn env True (strlen_body env key)))"

definition put_body :: "env \<Rightarrow> bytes \<Rightarrow> bytes \<Rightarrow> u64 \<Rightarrow> unit action" where
  "put_body env key val timestamp =
     Lock (txn_put (encode_txnkv_string (KEY_ENCODER env) key) (encode_txnkv_string_value val timestamp) (Return ()))"

definition do_async_txnkv_put :: "env \<Rightarrow> bool \<Rightarrow> bytes \<Rightarrow> bytes \<Rightarrow> u64 \<Rightarrow> Frame action" where
  "do_async_txnkv_put env in_txn key val timestamp =
     get_txn_client env (call (exec_in_txn env in_txn (put_body env key val timestamp)) (\<lambda>u. Return (resp_ok_ignore u)))"

text \<open>The value that \<^verbatim>\<open>MGET\<close> reports for what is stored under a key.\<close>

definition batch_get_value :: "env \<Rightarrow> bytes option \<Rightarrow> Frame option" where
  "batch_get_value env data =
     (case data of
        Some val \<Rightarrow>
          (case decode_key_ttl val of
             None \<Rightarrow> None
           | Some ttl \<Rightarrow>
               if key_is_expired env ttl then Some Null else map_option Bulk (decode_key_string_value val))
      | None \<Rightarrow> Some Null)"

definition batch_get_body :: "env \<Rightarrow> bytes list \<Rightarrow> Frame action" where
  "batch_get_body env keys =
     (let ekeys = encode_txnkv_strings (KEY_ENCODER env) keys in
      Lock (txn_batch_get ekeys (\<lambda>result.
        let ret = collect_pairs result in
        unwrap (those (map (\<lambda>k. batch_get_value env (ret k)) ekeys)) (\<lambda>values. Return (Array values)))))"

definition do_async_txnkv_batch_get :: "env \<Rightarrow> bool \<Rightarrow> bytes list \<Rightarrow> Frame action" where
  "do_async_txnkv_batch_get env in_txn keys =
     get_txn_client env (with_latest in_txn (exec_in_txn env True (batch_get_body env keys)))"

text \<open>\<^verbatim>\<open>for kv in kvs { txn.put(kv.0, kv.1).await?; }\<close>\<close>

primrec put_all :: "kv_pair list \<Rightarrow> 'a action \<Rightarrow> 'a action" where
  "put_all [] p = p"
| "put_all (kv # kvs) p = txn_put (fst kv) (snd kv) (put_all kvs p)"

definition batch_put_body :: "kv_pair list \<Rightarrow> unit action" where
  "batch_put_body kvs = Lock (put_all kvs (Return ()))"

definition do_async_txnkv_batch_put :: "env \<Rightarrow> bool \<Rightarrow> kv_pair list \<Rightarrow> Frame action" where
  "do_async_txnkv_batch_put env in_txn kvs =
     get_txn_client env (reply (\<lambda>_. resp_ok) (exec_in_txn env in_txn (batch_put_body kvs)))"

definition put_not_exists_body :: "env \<Rightarrow> bytes \<Rightarrow> bytes \<Rightarrow> i64 action" where
  "put_not_exists_body env key val =
     (let ekey = encode_txnkv_string (KEY_ENCODER env) key; eval = encode_txnkv_string_value val 0 in
      Lock (txn_get ekey (\<lambda>old_value.
        case old_value of
          Some v \<Rightarrow>
            unwrap (decode_key_ttl v) (\<lambda>ttl.
            if key_is_expired env ttl then txn_put ekey eval (Return 1) else Return 0)
        | None \<Rightarrow> txn_put ekey eval (Return 1))))"

definition put_not_exists_reply :: "bool \<Rightarrow> i64 \<Rightarrow> Frame" where
  "put_not_exists_reply return_number n =
     (if return_number then resp_int n else if n = 0 then resp_nil else resp_ok)"

definition do_async_txnkv_put_not_exists :: "env \<Rightarrow> bool \<Rightarrow> bytes \<Rightarrow> bytes \<Rightarrow> bool \<Rightarrow> Frame action" where
  "do_async_txnkv_put_not_exists env in_txn key val return_number =
     get_txn_client env (reply (put_not_exists_reply return_number)
       (exec_in_txn env in_txn (put_not_exists_body env key val)))"

text \<open>The loop of \<^verbatim>\<open>EXISTS\<close>, with its 32-bit counter.\<close>

primrec exists_loop :: "env \<Rightarrow> store \<Rightarrow> bytes list \<Rightarrow> 32 word \<Rightarrow> Frame action" where
  "exists_loop env kv_map [] cnt = Return (resp_int (scast cnt))"
| "exists_loop env kv_map (key # keys) cnt =
     (case kv_map (encode_txnkv_string (KEY_ENCODER env) key) of
        Some v \<Rightarrow>
          unwrap (decode_key_ttl v) (\<lambda>ttl.
          if key_is_expired env ttl then
            call (do_async_txnkv_string_expire_if_needed env True key) (\<lambda>_. exists_loop env kv_map keys cnt)
          else exists_loop env kv_map keys (cnt + 1))
      | None \<Rightarrow> exists_loop env kv_map keys cnt)"

definition exists_body :: "env \<Rightarrow> bytes list \<Rightarrow> Frame action" where
  "exists_body env keys =
     Lock (txn_batch_get (encode_txnkv_strings (KEY_ENCODER env) keys) (\<lambda>pairs.
       Unlock (exists_loop env (collect_pairs pairs) keys 0)))"

definition do_async_txnkv_exists :: "env \<Rightarrow> bool \<Rightarrow> bytes list \<Rightarrow> Frame action" where
  "do_async_txnkv_exists env in_txn keys =
     get_txn_client env (with_latest in_txn (exec_in_txn env True (exists_body env keys)))"

text \<open>\<^verbatim>\<open>str::from_utf8(bytes)?.parse::<i64>()?\<close>, both errors mapped to the same one\<close>

definition str_to_i64 :: "bytes \<Rightarrow> i64 option" where
  "str_to_i64 bs = (if utf8_valid bs then parse_i64 bs else None)"

definition incr_put :: "env \<Rightarrow> bytes \<Rightarrow> i64 \<Rightarrow> i64 \<Rightarrow> i64 action" where
  "incr_put env key step prev_int =
     (let new_int = prev_int + step in
      txn_put (encode_txnkv_string (KEY_ENCODER env) key) (encode_txnkv_string_value (i64_to_string new_int) 0)
        (Return new_int))"

definition incr_body :: "env \<Rightarrow> bytes \<Rightarrow> i64 \<Rightarrow> i64 action" where
  "incr_body env key step =
     Lock (txn_get (encode_txnkv_string (KEY_ENCODER env) key) (\<lambda>r.
       case r of
         Some val \<Rightarrow>
           unwrap (decode_key_ttl val) (\<lambda>ttl.
           if key_is_expired env ttl then string_expire_then env key (Lock (incr_put env key step 0))
           else
             unwrap (decode_key_string_slice val) (\<lambda>real_value.
             case str_to_i64 real_value of
               None \<Rightarrow> Throw REDIS_VALUE_IS_NOT_INTEGER_ERR
             | Some prev_int \<Rightarrow> incr_put env key step prev_int))
       | None \<Rightarrow> incr_put env key step 0))"

definition do_async_txnkv_incr :: "env \<Rightarrow> bool \<Rightarrow> bytes \<Rightarrow> i64 \<Rightarrow> Frame action" where
  "do_async_txnkv_incr env in_txn key step =
     get_txn_client env (reply resp_int (exec_in_txn env in_txn (incr_body env key step)))"

end
