(* ===== verification/String_Properties.thy ===== *)
theory String_Properties
  imports Strings
begin

text \<open>
  What the string commands do with what is stored under a key: the reads, \<^verbatim>\<open>SET\<close> and its round trip with
  \<^verbatim>\<open>GET\<close>, \<^verbatim>\<open>SETNX\<close>, \<^verbatim>\<open>INCR\<close>, the commands on several keys, and the commands over the raw client.
\<close>

section \<open>Read-only transactions\<close>

text \<open>A command in a read-only transaction answers from the committed data and leaves them as they are,
  whatever it writes into the transaction.\<close>

lemma served_latest:
  assumes f: "body_spec F H f m R0"
    and ok: "\<And>fr m'. R0 (Inr fr) m' \<Longrightarrow> R fr (if in_txn then m' else m)"
    and err: "\<And>e m'. \<not> R0 (Inl e) m'"
  shows "served F env in_txn (with_latest in_txn (exec_in_txn env True f)) m R"
proof (cases in_txn)
  case True
  have "R0 r m' \<Longrightarrow> F \<noteq> {} \<and> r = Inr tikv_error_reply \<or> (\<exists>fr. r = Inr fr \<and> R fr m')" for r m'
    using ok err True by (cases r) auto
  then have "body_spec F {False} (scoped f) m
      (\<lambda>r m'. F \<noteq> {} \<and> r = Inr tikv_error_reply \<or> (\<exists>fr. r = Inr fr \<and> R fr m'))"
    by (rule body_spec_mono [OF body_spec_scoped [OF f] _ order_refl])
  then show ?thesis using True by (simp add: served_def exec_in_txn_def with_latest_def)
next
  case False
  have "wp F (scoped f) (body_post F m m ts {False} R0) (m, (m, m, False) # ts)" for ts
    using body_spec_scoped [OF f] by (simp add: body_spec_def)
  then have "wp F (bindp (scoped f) (\<lambda>r. DropTxn (Ret r))) (\<lambda>out s. \<exists>r m'. out = Done r \<and> s = (m', ts) \<and>
      ((F = {} \<longrightarrow> retries env = 0) \<and> tikv_failure r \<and> m' = m \<or> (\<exists>fr. r = Inr fr \<and> R fr m'))) (m, (m, m, False) # ts)" for ts
    unfolding wp_bindp
    by (rule wp_mono) (use ok err False in \<open>auto simp: tikv_failure_def elim!: body_postE\<close>)
  then show ?thesis using False by (simp add: served_def exec_in_txn_def with_latest_def)
qed

lemma completes_latest:
  assumes ready: "client_ready api data snap view F env w"
    and f: "body_spec F H f (data (cluster w)) R0"
    and ok: "\<And>fr m'. R0 (Inr fr) m' \<Longrightarrow> R fr (data (cluster w))"
    and err: "\<And>e m'. \<not> R0 (Inl e) m'"
  shows "completes api data F env (get_txn_client env (with_latest False (exec_in_txn env True f))) w R"
  by (rule completesI [OF ready]) (simp add: served_connected, rule served_latest [OF f], use ok err in auto)

section \<open>The bodies\<close>

lemma string_key [simp]: "encode_txnkv_string enc key = encode_txnkv_meta_key enc key"
  by (simp add: enc_simps)

lemma string_keys [simp]: "encode_txnkv_strings enc keys = map (encode_txnkv_meta_key enc) keys"
  by (simp add: encode_txnkv_strings_def)

lemma meta_key_inject [simp]: "encode_txnkv_meta_key enc k = encode_txnkv_meta_key enc k' \<longleftrightarrow> k = k'"
  by (simp add: enc_simps ukp_def)

text \<open>What is stored under a key has a time to live that is over, whatever its type.\<close>

definition stored_expired :: "env \<Rightarrow> bytes \<Rightarrow> bool" where
  "stored_expired env b \<longleftrightarrow> (\<exists>ttl. decode_key_ttl b = Some ttl \<and> key_is_expired env ttl)"

lemma string_expire_spec:
  assumes "m (mkey env key) = Some b" "decode_key_ttl b = Some ttl" "TIKV_TXN_CLIENTS env"
  shows "body_spec F {False} (do_async_txnkv_string_expire_if_needed env True key) m
    (\<lambda>r m'. \<exists>n. r = Inr n \<and> m' = (if key_is_expired env ttl then m(mkey env key := None) else m))"
proof -
  have "body_spec F UNIV (string_expire_body env key) m
      (\<lambda>r m'. \<exists>n. r = Inr n \<and> m' = (if key_is_expired env ttl then m(mkey env key := None) else m))"
    using assms by (auto simp: body_spec_def string_expire_body_def wp_simps Let_def)
  then show ?thesis using assms(3)
    by (simp add: do_async_txnkv_string_expire_if_needed_def get_txn_client_def exec_in_txn_def body_spec_scoped)
qed

lemma wp_string_expire_then:
  assumes "m (mkey env key) = Some b" "decode_key_ttl b = Some ttl" "key_is_expired env ttl" "TIKV_TXN_CLIENTS env"
    and "wp F p Q (db, (sn, m(mkey env key := None), False) # ts)"
    and "\<And>e m'. e \<in> F \<Longrightarrow> Q (Done (Inl (TikvClient e))) (db, (sn, m', False) # ts)"
  shows "wp F (string_expire_then env key p) Q (db, (sn, m, True) # ts)"
proof -
  have "wp F (call (do_async_txnkv_string_expire_if_needed env True key) (\<lambda>_. p)) Q (db, (sn, m, False) # ts)"
    by (rule wp_call [OF string_expire_spec [where m = m, OF assms(1,2,4)]]) (use assms in auto)
  then show ?thesis by (simp add: string_expire_then_def)
qed

lemma string_read_bodies:
  assumes "m (mkey env key) = Some (encode_txnkv_string_value val ttl)" "TIKV_TXN_CLIENTS env"
  shows "body_spec F UNIV (get_body env key) m
      (\<lambda>r m'. r = Inr (if key_is_expired env ttl then Null else Bulk val))"
    and "body_spec F UNIV (strlen_body env key) m
      (\<lambda>r m'. r = Inr (Integer (if key_is_expired env ttl then 0 else of_nat (length val))))"
    and "body_spec F UNIV (type_body env key) m
      (\<lambda>r m'. r = Inr (Simple (ascii (if key_is_expired env ttl then ''none'' else ''string''))))"
  using assms
  by (auto simp: body_spec_def get_body_def strlen_body_def type_body_def wp_simps resp_defs i64_of_len_def
      intro!: wp_string_expire_then)

lemma absent_read_bodies:
  assumes "m (mkey env key) = None"
  shows "body_spec F UNIV (get_body env key) m (\<lambda>r m'. r = Inr Null)"
    and "body_spec F UNIV (strlen_body env key) m (\<lambda>r m'. r = Inr (Integer 0))"
    and "body_spec F UNIV (type_body env key) m (\<lambda>r m'. r = Inr (Simple (ascii ''none'')))"
  using assms by (auto simp: body_spec_def get_body_def strlen_body_def type_body_def wp_simps resp_defs)

lemma wrong_type_read_bodies:
  assumes "m (mkey env key) = Some b" "decode_key_type b = Some dt" "dt \<noteq> DT_String"
  shows "body_spec F UNIV (get_body env key) m (\<lambda>r m'. r = Inr (resp_err REDIS_WRONG_TYPE_ERR))"
    and "body_spec F UNIV (strlen_body env key) m (\<lambda>r m'. r = Inr (resp_err REDIS_WRONG_TYPE_ERR))"
  using assms by (auto simp: body_spec_def get_body_def strlen_body_def wp_simps)

text \<open>The string a client sees under a key: none when there is nothing or what there is has expired.\<close>

definition string_at :: "env \<Rightarrow> store \<Rightarrow> bytes \<Rightarrow> bytes option \<Rightarrow> bool" where
  "string_at env m key s \<longleftrightarrow>
     (case s of
        None \<Rightarrow> m (mkey env key) = None \<or>
          (\<exists>val ttl. m (mkey env key) = Some (encode_txnkv_string_value val ttl) \<and> key_is_expired env ttl)
      | Some val \<Rightarrow> \<exists>ttl. m (mkey env key) = Some (encode_txnkv_string_value val ttl) \<and> \<not> key_is_expired env ttl)"

lemma string_atE:
  assumes "string_at env m key s"
  obtains (absent) "s = None" "m (mkey env key) = None"
  | (expired) val ttl where "s = None" "m (mkey env key) = Some (encode_txnkv_string_value val ttl)" "key_is_expired env ttl"
  | (live) val ttl where "s = Some val" "m (mkey env key) = Some (encode_txnkv_string_value val ttl)" "\<not> key_is_expired env ttl"
  using assms by (auto simp: string_at_def split: option.splits)

lemma string_at_reads:
  assumes "string_at env m key s" "TIKV_TXN_CLIENTS env"
  shows "body_spec F UNIV (get_body env key) m (\<lambda>r m'. r = Inr (bulk_or_null s))"
    and "body_spec F UNIV (strlen_body env key) m
      (\<lambda>r m'. r = Inr (Integer (case s of None \<Rightarrow> 0 | Some val \<Rightarrow> of_nat (length val))))"
    and "body_spec F UNIV (type_body env key) m
      (\<lambda>r m'. r = Inr (Simple (ascii (case s of None \<Rightarrow> ''none'' | Some val \<Rightarrow> ''string''))))"
  using assms(1)
  by (cases rule: string_atE;
      use string_read_bodies [where m = m, OF _ assms(2)] absent_read_bodies in \<open>fastforce simp: bulk_or_null_def\<close>)+

lemma put_body_spec:
  "body_spec F UNIV (put_body env key val ts) m
     (\<lambda>r m'. r = Inr () \<and> m' = m(mkey env key \<mapsto> encode_txnkv_string_value val ts))"
  by (auto simp: body_spec_def put_body_def wp_simps)

lemma put_not_exists_body_spec:
  assumes "string_at env m key s"
  shows "body_spec F UNIV (put_not_exists_body env key val) m
    (\<lambda>r m'. if s = None then r = Inr 1 \<and> m' = m(mkey env key \<mapsto> encode_txnkv_string_value val 0) else r = Inr 0 \<and> m' = m)"
  using assms
  by (cases rule: string_atE) (auto simp: body_spec_def put_not_exists_body_def wp_simps Let_def)

lemma incr_body_spec:
  assumes "string_at env m key s" "TIKV_TXN_CLIENTS env"
    and "(case s of None \<Rightarrow> Some 0 | Some val \<Rightarrow> str_to_i64 val) = Some x"
  shows "body_spec F UNIV (incr_body env key step) m
    (\<lambda>r m'. r = Inr (x + step) \<and> m' = m(mkey env key \<mapsto> encode_txnkv_string_value (i64_to_string (x + step)) 0))"
  using assms(1)
proof (cases rule: string_atE)
  case (expired val ttl)
  then show ?thesis using assms
    by (auto simp: body_spec_def incr_body_def incr_put_def Let_def wp_simps intro!: wp_string_expire_then)
qed (use assms(3) in \<open>auto simp: body_spec_def incr_body_def incr_put_def Let_def wp_simps\<close>)

lemma incr_body_not_integer:
  assumes "string_at env m key (Some val)" "str_to_i64 val = None"
  shows "body_spec F UNIV (incr_body env key step) m (\<lambda>r m'. r = Inl REDIS_VALUE_IS_NOT_INTEGER_ERR \<and> m' = m)"
  using assms by (auto simp: string_at_def body_spec_def incr_body_def wp_simps)

lemma str_to_i64_to_string [simp]: "str_to_i64 (i64_to_string x) = Some x"
  by (simp add: str_to_i64_def i64_to_string_valid)

lemma batch_get_value_string:
  "string_at env m key s \<Longrightarrow> batch_get_value env (m (mkey env key)) = Some (bulk_or_null s)"
  by (erule string_atE) (auto simp: batch_get_value_def bulk_or_null_def)

lemma batch_get_body_spec:
  assumes "list_all2 (string_at env m) keys ss"
  shows "body_spec F UNIV (batch_get_body env keys) m (\<lambda>r m'. r = Inr (Array (map bulk_or_null ss)) \<and> m' = m)"
proof -
  have "those (map (\<lambda>k. batch_get_value env (collect_pairs kvs (mkey env k))) keys) = Some (map bulk_or_null ss)"
    if "batch_answer m (map (mkey env) keys) kvs" for kvs
  proof -
    have "batch_get_value env (collect_pairs kvs (mkey env k)) = Some (bulk_or_null s)"
      if "k \<in> set keys" "string_at env m k s" for k s
      using collect_batch [OF \<open>batch_answer m (map (mkey env) keys) kvs\<close>, of "mkey env k"]
        batch_get_value_string [OF that(2)] that(1) by simp
    with assms have "map (\<lambda>k. batch_get_value env (collect_pairs kvs (mkey env k))) keys = map (\<lambda>s. Some (bulk_or_null s)) ss"
      by (intro list_all2_eq [THEN iffD2] list_all2_map1 [THEN iffD2] list_all2_map2 [THEN iffD2])
        (erule list.rel_mono_strong, simp)
    then show ?thesis by simp
  qed
  then show ?thesis
    by (auto simp: body_spec_def batch_get_body_def wp_simps Let_def o_def)
qed

lemma wp_put_all:
  assumes "\<And>e m'. e \<in> F \<Longrightarrow> Q (Done (Inl (TikvClient e))) (db, (sn, m', True) # ts)"
    and "wp F p Q (db, (sn, put_pairs kvs m, True) # ts)"
  shows "wp F (put_all kvs p) Q (db, (sn, m, True) # ts)"
  using assms(2)
proof (induction kvs arbitrary: m)
  case (Cons kv kvs)
  then show ?case using assms(1)
    by (cases kv) (simp add: wp_simps put_pairs_def map_add_upd_left map_add_assoc)
qed (simp add: put_pairs_def)

lemma batch_put_body_spec:
  "body_spec F UNIV (batch_put_body kvs) m (\<lambda>r m'. r = Inr () \<and> m' = put_pairs kvs m)"
  by (auto simp: body_spec_def batch_put_body_def wp_simps intro!: wp_put_all)

text \<open>The keys of a list that exist for the client, counted with their repetitions.\<close>

definition alive :: "env \<Rightarrow> store \<Rightarrow> bytes \<Rightarrow> bool" where
  "alive env m key \<longleftrightarrow> (\<exists>b. m (mkey env key) = Some b \<and> \<not> stored_expired env b)"

definition has_ttl :: "env \<Rightarrow> store \<Rightarrow> bytes \<Rightarrow> bool" where
  "has_ttl env m key \<longleftrightarrow> (\<forall>b. m (mkey env key) = Some b \<longrightarrow> decode_key_ttl b \<noteq> None)"

lemma string_expire_any:
  assumes "has_ttl env m key" "TIKV_TXN_CLIENTS env"
  shows "body_spec F {False} (do_async_txnkv_string_expire_if_needed env True key) m
    (\<lambda>r m'. (\<exists>n. r = Inr n) \<and> (m' = m \<or> m' = m(mkey env key := None)))"
proof (cases "m (mkey env key)")
  case None
  then have "body_spec F UNIV (string_expire_body env key) m (\<lambda>r m'. r = Inr 0 \<and> m' = m)"
    by (auto simp: body_spec_def string_expire_body_def wp_simps Let_def)
  from body_spec_scoped [OF this] show ?thesis
    using assms(2)
    by (simp add: do_async_txnkv_string_expire_if_needed_def get_txn_client_def exec_in_txn_def)
      (erule body_spec_mono, auto)
next
  case (Some b)
  then obtain ttl where "decode_key_ttl b = Some ttl" using assms(1) by (auto simp: has_ttl_def)
  from string_expire_spec [where m = m, OF Some this assms(2)] show ?thesis
    by (rule body_spec_mono) auto
qed

lemma wp_exists_loop:
  assumes "TIKV_TXN_CLIENTS env"
    and "\<And>e m'. e \<in> F \<Longrightarrow> Q (Done (Inl (TikvClient e))) (db, (sn, m', False) # ts)"
    and "\<And>m'. Q (Done (Inr (Integer (scast (cnt + of_nat (length (filter (alive env kv) keys))))))) (db, (sn, m', False) # ts)"
    and "list_all (has_ttl env kv) keys" "list_all (has_ttl env m) keys"
  shows "wp F (exists_loop env kv keys cnt) Q (db, (sn, m, False) # ts)"
  using assms(3-5)
proof (induction keys arbitrary: cnt m)
  case Nil
  then show ?case by (simp add: wp_simps resp_int_def)
next
  case (Cons key keys)
  show ?case
  proof (cases "kv (mkey env key)")
    case None
    then show ?thesis using Cons by (simp add: alive_def)
  next
    case (Some b)
    then obtain ttl where ttl: "decode_key_ttl b = Some ttl" using Cons.prems(2) by (auto simp: has_ttl_def)
    show ?thesis
    proof (cases "key_is_expired env ttl")
      case True
      then have "\<not> alive env kv key" using Some ttl by (simp add: alive_def stored_expired_def)
      then have next_keys: "wp F (exists_loop env kv keys cnt) Q (db, (sn, m', False) # ts)" if "list_all (has_ttl env m') keys" for m'
        using Cons.prems that by (intro Cons.IH) auto
      have "has_ttl env m key" "list_all (has_ttl env (m(mkey env key := None))) keys" "list_all (has_ttl env m) keys"
        using Cons.prems(3) by (auto simp: has_ttl_def list_all_iff)
      then have "wp F (call (do_async_txnkv_string_expire_if_needed env True key) (\<lambda>_. exists_loop env kv keys cnt)) Q
          (db, (sn, m, False) # ts)"
        by (intro wp_call [OF string_expire_any]) (use next_keys assms(1,2) in auto)
      then show ?thesis using Some ttl True by (simp add: wp_simps)
    next
      case False
      then have "alive env kv key" using Some ttl by (simp add: alive_def stored_expired_def)
      then have "wp F (exists_loop env kv keys (cnt + 1)) Q (db, (sn, m, False) # ts)"
        using Cons.prems by (intro Cons.IH) (auto simp: ac_simps)
      then show ?thesis using Some ttl False by (simp add: wp_simps)
    qed
  qed
qed

lemma exists_body_spec:
  assumes "list_all (has_ttl env m) keys" "TIKV_TXN_CLIENTS env"
  shows "body_spec F UNIV (exists_body env keys) m
    (\<lambda>r m'. r = Inr (Integer (scast (of_nat (length (filter (alive env m) keys)) :: 32 word))))"
proof (rule body_specI)
  fix db sn ts
  let ?Q = "body_post F db sn ts UNIV
    (\<lambda>r m'. r = Inr (Integer (scast (of_nat (length (filter (alive env m) keys)) :: 32 word))))"
  have "wp F (exists_loop env (collect_pairs kvs) keys 0) ?Q (db, (sn, m, False) # ts)"
    if "batch_answer m (map (mkey env) keys) kvs" for kvs
  proof -
    have same: "collect_pairs kvs (mkey env key) = m (mkey env key)" if "key \<in> set keys" for key
      using collect_batch [OF \<open>batch_answer m (map (mkey env) keys) kvs\<close>] that by simp
    then have "filter (alive env (collect_pairs kvs)) keys = filter (alive env m) keys"
      by (intro filter_cong) (auto simp: alive_def)
    moreover have "list_all (has_ttl env (collect_pairs kvs)) keys"
      using assms(1) same by (auto simp: list_all_iff has_ttl_def)
    ultimately show ?thesis using assms by (intro wp_exists_loop) (auto simp: wp_simps)
  qed
  then show "wp F (exists_body env keys) ?Q (db, (sn, m, False) # ts)"
    by (auto simp: exists_body_def wp_simps)
qed

section \<open>The raw client\<close>

text \<open>The integer that \<^verbatim>\<open>INCR\<close> finds under a raw key.\<close>

definition counter :: "store \<Rightarrow> bytes \<Rightarrow> i64 \<Rightarrow> bool" where
  "counter m k x \<longleftrightarrow> (case m k of None \<Rightarrow> x = 0 | Some b \<Rightarrow> parse_i64 (utf8_lossy b) = Some x)"

lemma counter_put [simp]: "counter (m(k \<mapsto> i64_to_string x)) k y \<longleftrightarrow> y = x"
  by (auto simp: counter_def)

definition incr_post :: "tikv_error set \<Rightarrow> store \<Rightarrow> bytes \<Rightarrow> i64 \<Rightarrow> i64 \<Rightarrow> Frame result \<Rightarrow> store \<Rightarrow> bool" where
  "incr_post F m k x step r m' \<longleftrightarrow>
     (\<exists>j. counter m' k (x + of_nat j * step) \<and> (\<forall>k'. k' \<noteq> k \<longrightarrow> m' k' = m k') \<and>
        (case r of
           Inr fr \<Rightarrow> fr = Integer (x + of_nat j * step) \<and> 1 \<le> j \<and> (F = {} \<longrightarrow> j = 1)
         | Inl e \<Rightarrow> F \<noteq> {}))"

lemma incr_post_again:
  assumes "incr_post F m1 k (x + of_nat i * step) step r m'" "\<forall>k'. k' \<noteq> k \<longrightarrow> m1 k' = m k'" "F \<noteq> {}"
  shows "incr_post F m k x step r m'"
proof -
  obtain j where j: "counter m' k (x + of_nat i * step + of_nat j * step)" "\<forall>k'. k' \<noteq> k \<longrightarrow> m' k' = m1 k'"
    "case r of Inr fr \<Rightarrow> fr = Integer (x + of_nat i * step + of_nat j * step) \<and> 1 \<le> j | Inl e \<Rightarrow> True"
    using assms(1) unfolding incr_post_def by (cases r) force+
  have "x + of_nat i * step + of_nat j * step = x + of_nat (i + j) * step" by (simp add: algebra_simps)
  with j assms(2,3) show ?thesis
    unfolding incr_post_def by (intro exI [of _ "i + j"]) (auto split: sum.splits)
qed

lemma rawkv_incr_loop_spec:
  assumes "counter m k x" "0 < n \<or> F \<noteq> {}"
  shows "raw_wp F (rawkv_incr_loop n k step) (incr_post F m k x step) m"
  using assms
proof (induction n arbitrary: m x)
  case 0
  then show ?case by (auto simp: Throw_def incr_post_def intro!: exI [of _ 0])
next
  case (Suc n)
  let ?m' = "m(k \<mapsto> i64_to_string (x + step))"
  have failed: "incr_post F m k x step (Inl e) m'" if "F \<noteq> {}" "m' \<in> {m, ?m'}" for e m'
    using that Suc.prems(1) by (auto simp: incr_post_def intro: exI [of _ 0] exI [of _ 1])
  have again: "raw_wp F (rawkv_incr_loop n k step) (incr_post F m k x step) ?m'" if "F \<noteq> {}"
  proof (rule raw_wp_mono [OF Suc.IH [of ?m' "x + step"]])
    fix r m' assume "incr_post F ?m' k (x + step) step r m'"
    then show "incr_post F m k x step r m'"
      using that by (intro incr_post_again [of F ?m' k x 1 step]) simp_all
  qed (use that in \<open>simp_all del: fun_upd_apply\<close>)
  have "raw_wp F (raw_call (raw_compare_and_swap k (m k) (i64_to_string (x + step))) (\<lambda>(_, ret).
      if ret then Return (resp_int (x + step)) else rawkv_incr_loop n k step)) (incr_post F m k x step) m"
    unfolding raw_wp_call
    by (rule raw_wp_cas)
      (use failed again in \<open>auto simp: Return_def resp_int_def incr_post_def [of _ _ _ _ _ "Inr _"] intro!: exI [of _ 1]\<close>)
  moreover have "(case m k of Some val \<Rightarrow> parse_i64 (utf8_lossy val) | None \<Rightarrow> Some 0) = Some x"
    using Suc.prems(1) by (auto simp: counter_def split: option.splits)
  ultimately show ?case
    unfolding rawkv_incr_loop.simps raw_wp_call [of F "raw_get k"]
    by (intro raw_wp_get) (use failed in \<open>auto simp: Let_def\<close>)
qed

section \<open>The commands\<close>

lemma put_completes:
  assumes "client_ready api data snap view F env w"
  shows "completes api data F env (do_async_txnkv_put env False key val ts) w
    (\<lambda>fr m. fr = resp_ok \<and> m = (data (cluster w))(mkey env key \<mapsto> encode_txnkv_string_value val ts))"
  unfolding do_async_txnkv_put_def
  by (rule completes_exec_map [OF assms put_body_spec]) (auto simp: resp_ok_ignore_def)

lemma string_value_inject [simp]:
  "encode_txnkv_string_value val ttl = encode_txnkv_string_value val' ttl' \<longleftrightarrow> val = val' \<and> ttl = ttl'"
  by (auto simp: encode_txnkv_string_value_def encode_txnkv_string_internal_def)

lemma string_at_single [simp]:
  "string_at env [mkey env key \<mapsto> encode_txnkv_string_value val ttl] key s \<longleftrightarrow>
   s = (if key_is_expired env ttl then None else Some val)"
  by (auto simp: string_at_def split: option.splits)

lemma string_at_put:
  "\<not> key_is_expired env ts \<Longrightarrow>
   string_at env (m(mkey env key \<mapsto> encode_txnkv_string_value val ts)) key' s \<longleftrightarrow>
   (if key' = key then s = Some val else string_at env m key' s)"
  unfolding string_at_def
  by (auto split: option.splits)

lemma get_completes:
  assumes "client_ready api data snap view F env w" "string_at env (data (cluster w)) key s"
  shows "completes api data F env (do_async_txnkv_get env False key) w
    (\<lambda>fr m. fr = bulk_or_null s \<and> m = data (cluster w))"
  unfolding do_async_txnkv_get_def
  by (rule completes_latest [OF assms(1) string_at_reads(1) [OF assms(2) ready_connected [OF assms(1)]]]) auto

text \<open>(C13) \<^verbatim>\<open>SET\<close> and \<^verbatim>\<open>GET\<close> are a round trip: once \<^verbatim>\<open>SET\<close> of a key has answered \<^verbatim>\<open>OK\<close>, \<^verbatim>\<open>GET\<close> of it answers with the value
  until the time to live is over, and the other keys are as they were.\<close>

theorem set_get_roundtrip:
  assumes "client_ready api data snap view F env w" "\<not> key_is_expired env ts"
    and "run api (do_async_txnkv_put env False key val ts) w = (Done (Inr resp_ok), w')"
  shows "completes api data F env (do_async_txnkv_get env False key) w' (\<lambda>reply m. reply = Bulk val) \<and>
    (\<forall>x. x \<noteq> mkey env key \<longrightarrow> data (cluster w') x = data (cluster w) x)"
proof -
  have m: "data (cluster w') = (data (cluster w))(mkey env key \<mapsto> encode_txnkv_string_value val ts)" "txns w' = txns w"
    using completes_run [OF put_completes [OF assms(1)] assms(3)] by (auto simp: resp_ok_def tikv_error_reply_def)
  then have "string_at env (data (cluster w')) key (Some val)" using assms(2) by (simp add: string_at_put)
  from get_completes [OF ready_after [OF assms(1) m(2)] this]
  show ?thesis using m(1) by (auto simp: completes_def bulk_or_null_def)
qed

theorem set_get_roundtrip_witness:
  "\<exists>w'. run mem_api (do_async_txnkv_put env0 False [107] [1, 2] 0) (mem_world []) = (Done (Inr resp_ok), w') \<and>
     completes mem_api mem_data {} env0 (do_async_txnkv_get env0 False [107]) w' (\<lambda>reply m. reply = Bulk [1, 2])"
proof -
  obtain w' where "run mem_api (do_async_txnkv_put env0 False [107] [1, 2] 0) (mem_world []) = (Done (Inr resp_ok), w')"
    using put_completes [OF mem_ready [of "[]"], of "[107]" "[1, 2]" 0] by (auto simp: completes_def)
  then show ?thesis
    using set_get_roundtrip [OF mem_ready [of "[]"], of 0 "[107]" "[1, 2]" w'] by simp
qed

text \<open>The reads of one key, outside a transaction: \<^verbatim>\<open>GET\<close>, \<^verbatim>\<open>STRLEN\<close> and \<^verbatim>\<open>TYPE\<close> answer for the string the client sees,
  an expired one counts as absent, and nothing that is stored changes: an expired key is not removed.\<close>

theorem string_reads:
  assumes "client_ready api data snap view F env w" "string_at env (data (cluster w)) key s"
  shows "completes api data F env (do_async_txnkv_get env False key) w
      (\<lambda>reply m. reply = bulk_or_null s \<and> m = data (cluster w)) \<and>
    completes api data F env (do_async_txnkv_strlen env False key) w
      (\<lambda>reply m. reply = Integer (case s of None \<Rightarrow> 0 | Some val \<Rightarrow> of_nat (length val)) \<and> m = data (cluster w)) \<and>
    completes api data F env (do_async_txnkv_type env False key) w
      (\<lambda>reply m. reply = Simple (ascii (case s of None \<Rightarrow> ''none'' | Some val \<Rightarrow> ''string'')) \<and> m = data (cluster w))"
proof (intro conjI get_completes [OF assms])
  note reads = string_at_reads [OF assms(2) ready_connected [OF assms(1)]]
  show "completes api data F env (do_async_txnkv_strlen env False key) w
      (\<lambda>reply m. reply = Integer (case s of None \<Rightarrow> 0 | Some val \<Rightarrow> of_nat (length val)) \<and> m = data (cluster w))"
    unfolding do_async_txnkv_strlen_def by (rule completes_latest [OF assms(1) reads(2)]) auto
  show "completes api data F env (do_async_txnkv_type env False key) w
      (\<lambda>reply m. reply = Simple (ascii (case s of None \<Rightarrow> ''none'' | Some val \<Rightarrow> ''string'')) \<and> m = data (cluster w))"
    unfolding do_async_txnkv_type_def by (rule completes_latest [OF assms(1) reads(3)]) auto
qed

theorem string_reads_witness:
  "completes mem_api mem_data {} env0 (do_async_txnkv_get env0 False [107])
     (mem_world [(mkey env0 [107], encode_txnkv_string_value [1, 2] 5)])
     (\<lambda>reply m. reply = Null \<and> m = [mkey env0 [107] \<mapsto> encode_txnkv_string_value [1, 2] 5])"
  using string_reads [OF mem_ready [of "[(mkey env0 [107], encode_txnkv_string_value [1, 2] 5)]"], of "[107]" None]
  by (simp add: key_is_expired_def bulk_or_null_def)

text \<open>(C14) \<^verbatim>\<open>SETNX\<close> (and \<^verbatim>\<open>SET\<close> with \<^verbatim>\<open>NX\<close>) writes only where the client sees no string: the answer says whether it did, and
  otherwise nothing changes.\<close>

theorem setnx_writes_once:
  assumes "client_ready api data snap view F env w" "string_at env (data (cluster w)) key s"
  shows "completes api data F env (do_async_txnkv_put_not_exists env False key val True) w
    (\<lambda>reply m. if s = None then reply = Integer 1 \<and> m = (data (cluster w))(mkey env key \<mapsto> encode_txnkv_string_value val 0)
       else reply = Integer 0 \<and> m = data (cluster w)) \<and>
    completes api data F env (do_async_txnkv_put_not_exists env False key val False) w
    (\<lambda>reply m. if s = None then reply = resp_ok \<and> m = (data (cluster w))(mkey env key \<mapsto> encode_txnkv_string_value val 0)
       else reply = Null \<and> m = data (cluster w))"
  unfolding do_async_txnkv_put_not_exists_def
  by (intro conjI completes_exec [OF assms(1) put_not_exists_body_spec [OF assms(2)]])
    (auto simp: put_not_exists_reply_def resp_defs split: if_splits)

theorem setnx_writes_once_witness:
  "completes mem_api mem_data {} env0 (do_async_txnkv_put_not_exists env0 False [107] [9] True)
     (mem_world [(mkey env0 [107], encode_txnkv_string_value [1, 2] 0)])
     (\<lambda>reply m. reply = Integer 0 \<and> m = [mkey env0 [107] \<mapsto> encode_txnkv_string_value [1, 2] 0])"
  using setnx_writes_once [OF mem_ready [of "[(mkey env0 [107], encode_txnkv_string_value [1, 2] 0)]"],
      of "[107]" "Some [1, 2]" "[9]"]
  by simp

text \<open>(C15) \<^verbatim>\<open>INCR\<close> and its relatives add to the integer a string stands for, zero where the client sees none, modulo
  \<open>2\<close> to the power of 64, answer with the sum and store its decimal text without a time to live; a string that is
  no integer is an error and stays.\<close>

theorem incr_adds:
  assumes "client_ready api data snap view F env w" "string_at env (data (cluster w)) key s"
  shows "completes api data F env (do_async_txnkv_incr env False key step) w
    (\<lambda>reply m. case (case s of None \<Rightarrow> Some 0 | Some val \<Rightarrow> str_to_i64 val) of
         Some x \<Rightarrow> reply = Integer (x + step) \<and>
           m = (data (cluster w))(mkey env key \<mapsto> encode_txnkv_string_value (i64_to_string (x + step)) 0) \<and>
           string_at env m key (Some (i64_to_string (x + step))) \<and> str_to_i64 (i64_to_string (x + step)) = Some (x + step)
       | None \<Rightarrow> reply = resp_err REDIS_VALUE_IS_NOT_INTEGER_ERR \<and> m = data (cluster w))"
proof (cases "case s of None \<Rightarrow> Some 0 | Some val \<Rightarrow> str_to_i64 val")
  case None
  then obtain val where "string_at env (data (cluster w)) key (Some val)" "str_to_i64 val = None"
    using assms(2) by (auto split: option.splits)
  from completes_exec [OF assms(1) incr_body_not_integer [OF this]] show ?thesis
    unfolding do_async_txnkv_incr_def using None by auto
next
  case (Some x)
  from completes_exec [OF assms(1) incr_body_spec [OF assms(2) ready_connected [OF assms(1)] Some]] show ?thesis
    unfolding do_async_txnkv_incr_def using Some by (simp add: resp_int_def string_at_put)
qed

theorem incr_adds_witness:
  "completes mem_api mem_data {} env0 (do_async_txnkv_incr env0 False [107] 5)
     (mem_world [(mkey env0 [107], encode_txnkv_string_value (i64_to_string 37) 0)])
     (\<lambda>reply m. reply = Integer 42 \<and> m = [mkey env0 [107] \<mapsto> encode_txnkv_string_value (i64_to_string 42) 0])"
  using incr_adds [OF mem_ready [of "[(mkey env0 [107], encode_txnkv_string_value (i64_to_string 37) 0)]"],
      of "[107]" "Some (i64_to_string 37)" 5]
  by (auto simp: completes_def)

lemma mset_completes:
  assumes "client_ready api data snap view F env w"
  shows "completes api data F env (do_async_txnkv_batch_put env False kvs) w
    (\<lambda>fr m. fr = resp_ok \<and> m = put_pairs kvs (data (cluster w)))"
  unfolding do_async_txnkv_batch_put_def
  by (rule completes_exec [OF assms batch_put_body_spec]) auto

text \<open>The pairs that \<^verbatim>\<open>MSET\<close> gives to the store.\<close>

definition mset_pairs :: "env \<Rightarrow> kv_pair list \<Rightarrow> kv_pair list" where
  "mset_pairs env kvs = map (\<lambda>(key, val). (mkey env key, encode_txnkv_string_value val 0)) kvs"

lemma map_of_mset_pairs:
  "map_of (rev (mset_pairs env kvs)) (mkey env key) = map_option (\<lambda>val. encode_txnkv_string_value val 0) (map_of (rev kvs) key)"
proof -
  have "map_of (map (\<lambda>(key, val). (mkey env key, encode_txnkv_string_value val 0)) al) (mkey env key) =
      map_option (\<lambda>val. encode_txnkv_string_value val 0) (map_of al key)" for al
    by (induction al) auto
  then show ?thesis by (simp add: mset_pairs_def rev_map)
qed

lemma string_at_put_pairs:
  assumes "string_at env m key s"
  shows "string_at env (put_pairs (mset_pairs env kvs) m) key
    (case map_of (rev kvs) key of Some val \<Rightarrow> Some val | None \<Rightarrow> s)"
  using assms
  by (auto simp: string_at_def put_pairs_def map_of_mset_pairs map_add_def split: option.splits)

text \<open>(C16) \<^verbatim>\<open>MSET\<close> and \<^verbatim>\<open>MGET\<close>: after \<^verbatim>\<open>MSET\<close> has answered \<^verbatim>\<open>OK\<close>, \<^verbatim>\<open>MGET\<close> answers, in the order of its keys and with their
  repetitions, with the last value given for a key, with what the client saw before for a key not set, and
  with nil where there is none.\<close>

theorem mset_mget_roundtrip:
  assumes "client_ready api data snap view F env w" "list_all2 (string_at env (data (cluster w))) keys ss"
    and "run api (do_async_txnkv_batch_put env False (mset_pairs env kvs)) w = (Done (Inr resp_ok), w')"
  shows "completes api data F env (do_async_txnkv_batch_get env False keys) w'
    (\<lambda>reply m. m = data (cluster w') \<and>
       reply = Array (map2 (\<lambda>key s. bulk_or_null (case map_of (rev kvs) key of Some val \<Rightarrow> Some val | None \<Rightarrow> s)) keys ss))"
proof -
  have m: "data (cluster w') = put_pairs (mset_pairs env kvs) (data (cluster w))" "txns w' = txns w"
    using completes_run [OF mset_completes [OF assms(1)] assms(3)] by (auto simp: resp_ok_def tikv_error_reply_def)
  let ?ss = "map2 (\<lambda>key s. case map_of (rev kvs) key of Some val \<Rightarrow> Some val | None \<Rightarrow> s) keys ss"
  have "list_all2 (string_at env (data (cluster w'))) keys ?ss"
    using assms(2) unfolding m(1) by induction (auto intro: string_at_put_pairs)
  from completes_latest [OF ready_after [OF assms(1) m(2)] batch_get_body_spec [OF this]] show ?thesis
    unfolding do_async_txnkv_batch_get_def by (simp add: case_prod_unfold o_def)
qed

theorem mset_mget_roundtrip_witness:
  "\<exists>w'. run mem_api (do_async_txnkv_batch_put env0 False (mset_pairs env0 [([107], [1]), ([107], [2])])) (mem_world []) =
       (Done (Inr resp_ok), w') \<and>
     completes mem_api mem_data {} env0 (do_async_txnkv_batch_get env0 False [[108], [107], [107]]) w'
       (\<lambda>reply m. reply = Array [Null, Bulk [2], Bulk [2]])"
proof -
  obtain w' where w': "run mem_api (do_async_txnkv_batch_put env0 False (mset_pairs env0 [([107], [1]), ([107], [2])]))
      (mem_world []) = (Done (Inr resp_ok), w')"
    using mset_completes [OF mem_ready [of "[]"], of "mset_pairs env0 [([107], [1]), ([107], [2])]"]
    by (auto simp: completes_def)
  have "list_all2 (string_at env0 (mem_data (cluster (mem_world [])))) [[108], [107], [107]] [None, None, None]"
    by (simp add: string_at_def)
  from mset_mget_roundtrip [OF mem_ready [of "[]"] this w'] w' show ?thesis
    by (auto simp: bulk_or_null_def completes_def)
qed

text \<open>\<^verbatim>\<open>EXISTS\<close> answers with the number of its keys, repetitions included, under which there is something of any type
  that has not expired, as long as there are fewer than \<open>2\<close> to the power of 31 of them; nothing that is stored changes.\<close>

theorem exists_counts:
  assumes "client_ready api data snap view F env w"
    and "list_all (has_ttl env (data (cluster w))) keys" "length keys < 2 ^ 31"
  shows "completes api data F env (do_async_txnkv_exists env False keys) w
    (\<lambda>reply m. reply = Integer (of_nat (length (filter (alive env (data (cluster w))) keys))) \<and> m = data (cluster w))"
proof -
  have "scast (of_nat n :: 32 word) = (of_nat n :: u64)" if "n < 2 ^ 31" for n
  proof -
    have "sint (of_nat n :: 32 word) = int n"
      using that by (simp add: signed_of_nat signed_take_bit_int_eq_self)
    then show ?thesis by (simp add: scast_eq)
  qed
  moreover have "length (filter (alive env (data (cluster w))) keys) < 2 ^ 31"
    using assms(3) length_filter_le le_less_trans by blast
  ultimately show ?thesis
    unfolding do_async_txnkv_exists_def
    by (intro completes_latest [OF assms(1) exists_body_spec [OF assms(2) ready_connected [OF assms(1)]]]) auto
qed

theorem exists_counts_witness:
  "completes mem_api mem_data {} env0 (do_async_txnkv_exists env0 False [[107], [108], [107]])
     (mem_world [(mkey env0 [107], encode_txnkv_string_value [1] 0), (mkey env0 [109], encode_txnkv_string_value [1] 5)])
     (\<lambda>reply m. reply = Integer 2)"
  using exists_counts [OF mem_ready [of "[(mkey env0 [107], encode_txnkv_string_value [1] 0),
      (mkey env0 [109], encode_txnkv_string_value [1] 5)]"], of "[[107], [108], [107]]"]
  by (auto simp: has_ttl_def alive_def stored_expired_def completes_def split: if_splits)

text \<open>\<^verbatim>\<open>GET\<close> and \<^verbatim>\<open>STRLEN\<close> of a key that holds another type answer with the wrong-type error.\<close>

theorem string_wrong_type_rejected:
  assumes "client_ready api data snap view F env w"
    and "data (cluster w) (mkey env key) = Some b" "decode_key_type b = Some dt" "dt \<noteq> DT_String"
  shows "completes api data F env (do_async_txnkv_get env False key) w
      (\<lambda>reply m. reply = resp_err REDIS_WRONG_TYPE_ERR \<and> m = data (cluster w)) \<and>
    completes api data F env (do_async_txnkv_strlen env False key) w
      (\<lambda>reply m. reply = resp_err REDIS_WRONG_TYPE_ERR \<and> m = data (cluster w))"
  unfolding do_async_txnkv_get_def do_async_txnkv_strlen_def
  by (intro conjI completes_latest [OF assms(1) wrong_type_read_bodies(1) [where m = "data (cluster w)", OF assms(2-4)]]
      completes_latest [OF assms(1) wrong_type_read_bodies(2) [where m = "data (cluster w)", OF assms(2-4)]]) auto

theorem string_wrong_type_rejected_witness:
  "completes mem_api mem_data {} env0 (do_async_txnkv_get env0 False [107])
     (mem_world [(mkey env0 [107], encode_txnkv_list_meta_value 0 0 5 6)])
     (\<lambda>reply m. reply = resp_err REDIS_WRONG_TYPE_ERR \<and> m = [mkey env0 [107] \<mapsto> encode_txnkv_list_meta_value 0 0 5 6])"
  using string_wrong_type_rejected [OF mem_ready [of "[(mkey env0 [107], encode_txnkv_list_meta_value 0 0 5 6)]"], of "[107]"]
  by simp

section \<open>The commands over the raw client\<close>

definition raw_ready :: "('w, 't) api \<Rightarrow> ('w \<Rightarrow> store) \<Rightarrow> tikv_error set \<Rightarrow> env \<Rightarrow> bool" where
  "raw_ready api data F env \<longleftrightarrow> raw_laws api data F \<and> TIKV_RAW_CLIENT env"

text \<open>A command returns, and with the result and the raw data it leaves \<open>R\<close> holds.\<close>

definition raw_completes ::
  "('w, 't) api \<Rightarrow> ('w \<Rightarrow> store) \<Rightarrow> Frame action \<Rightarrow> ('w, 't) world \<Rightarrow> (Frame result \<Rightarrow> store \<Rightarrow> bool) \<Rightarrow> bool" where
  "raw_completes api data p w R \<longleftrightarrow> (\<exists>r w'. run api p w = (Done r, w') \<and> R r (data (cluster w')))"

lemma raw_completesI:
  assumes "raw_ready api data F env" "raw_wp F p R (data (cluster w))"
  shows "raw_completes api data (get_client env p) w R"
  using raw_laws.raw_run_sound [of api data F p R w] assms
  by (auto simp: raw_ready_def raw_completes_def get_client_def)

definition raw_failure :: "tikv_error set \<Rightarrow> Frame result \<Rightarrow> bool" where
  "raw_failure F r \<longleftrightarrow> (\<exists>e\<in>F. r = Inl (TikvClient e))"

text \<open>The raw \<^verbatim>\<open>SET\<close>, \<^verbatim>\<open>GET\<close> and \<^verbatim>\<open>SETNX\<close>: \<^verbatim>\<open>SET\<close> that answers \<^verbatim>\<open>OK\<close> has stored the value, however often its request was
  repeated; \<^verbatim>\<open>GET\<close> answers with what is stored; \<^verbatim>\<open>SETNX\<close> that answers \<^verbatim>\<open>OK\<close> has stored the value where there was none,
  and where there was one it answers nil and stores nothing.\<close>

theorem rawkv_set_get:
  fixes env key
  defines "k \<equiv> encode_rawkv_string (KEY_ENCODER env) key"
  assumes "raw_ready api data F env"
  shows "raw_completes api data (do_async_rawkv_put env key val) w
      (\<lambda>r m. raw_failure F r \<or> r = Inr resp_ok \<and> m = (data (cluster w))(k \<mapsto> val)) \<and>
    raw_completes api data (do_async_rawkv_get env key) w
      (\<lambda>r m. m = data (cluster w) \<and> (raw_failure F r \<or> r = Inr (bulk_or_null (data (cluster w) k)))) \<and>
    raw_completes api data (do_async_rawkv_put_not_exists env key val) w
      (\<lambda>r m. if data (cluster w) k = None
         then (F = {} \<longrightarrow> r = Inr resp_ok) \<and> (r = Inr resp_ok \<longrightarrow> m = (data (cluster w))(k \<mapsto> val))
         else m = data (cluster w) \<and> (raw_failure F r \<or> r = Inr Null))"
proof (intro conjI)
  show "raw_completes api data (do_async_rawkv_put env key val) w
      (\<lambda>r m. raw_failure F r \<or> r = Inr resp_ok \<and> m = (data (cluster w))(k \<mapsto> val))"
    unfolding do_async_rawkv_put_def k_def
    by (rule raw_completesI [OF assms(2)], unfold raw_wp_call, rule raw_wp_put) (auto simp: raw_failure_def Return_def)
  show "raw_completes api data (do_async_rawkv_get env key) w
      (\<lambda>r m. m = data (cluster w) \<and> (raw_failure F r \<or> r = Inr (bulk_or_null (data (cluster w) k))))"
    unfolding do_async_rawkv_get_def k_def
    by (rule raw_completesI [OF assms(2)], unfold raw_wp_call, rule raw_wp_get)
      (auto simp: raw_failure_def Return_def bulk_or_null_def split: option.splits)
  show "raw_completes api data (do_async_rawkv_put_not_exists env key val) w
      (\<lambda>r m. if data (cluster w) k = None
         then (F = {} \<longrightarrow> r = Inr resp_ok) \<and> (r = Inr resp_ok \<longrightarrow> m = (data (cluster w))(k \<mapsto> val))
         else m = data (cluster w) \<and> (raw_failure F r \<or> r = Inr Null))"
  proof (cases "data (cluster w) k")
    case None
    then show ?thesis unfolding do_async_rawkv_put_not_exists_def k_def
      by (intro raw_completesI [OF assms(2)], unfold raw_wp_call, intro raw_wp_cas) (auto simp: Return_def)
  next
    case (Some old)
    then show ?thesis unfolding do_async_rawkv_put_not_exists_def k_def
      by (intro raw_completesI [OF assms(2)], unfold raw_wp_call, intro raw_wp_cas_other)
        (auto simp: Return_def raw_failure_def resp_nil_def)
  qed
qed

lemma raw_mem_ready [simp]: "raw_ready mem_api (map_of \<circ> raw_data) {} env0"
  by (simp add: raw_ready_def raw_mem.raw_laws_axioms env0_def)

theorem rawkv_set_get_witness:
  "raw_completes mem_api (map_of \<circ> raw_data) (do_async_rawkv_put env0 [107] [7]) (mem_world [])
     (\<lambda>r m. r = Inr resp_ok \<and> m = [encode_rawkv_string (KEY_ENCODER env0) [107] \<mapsto> [7]])"
  using rawkv_set_get [OF raw_mem_ready, where key = "[107]" and val = "[7]" and w = "mem_world []"]
  by (simp add: raw_failure_def mem_world_def)

lemma incr_post_no_errors: "incr_post {} m k x step r m' \<Longrightarrow> r = Inr (Integer (x + step))"
  by (cases r) (auto simp: incr_post_def)

text \<open>(C17) The raw \<^verbatim>\<open>INCR\<close> always returns. When it answers with a number, that number is what is stored, and it is the old one
  plus a positive multiple of the step, exactly the step when the library reports no errors. A compare-and-swap that
  was repeated after an error may have taken effect twice. Other keys stay.\<close>

theorem rawkv_incr_adds:
  assumes "raw_ready api data F env" "counter (data (cluster w)) (encode_rawkv_string (KEY_ENCODER env) key) x"
  shows "raw_completes api data (do_async_rawkv_incr env key step) w
    (incr_post F (data (cluster w)) (encode_rawkv_string (KEY_ENCODER env) key) x step)"
  unfolding do_async_rawkv_incr_def
  by (rule raw_completesI [OF assms(1)], rule rawkv_incr_loop_spec [OF assms(2)]) simp

theorem rawkv_incr_adds_witness:
  "raw_completes mem_api (map_of \<circ> raw_data) (do_async_rawkv_incr env0 [107] 3) (mem_world [])
     (\<lambda>r m. r = Inr (Integer 3))"
  using rawkv_incr_adds [OF raw_mem_ready, of "mem_world []" "[107]" 0 3]
  by (fastforce simp: raw_completes_def counter_def mem_world_def dest: incr_post_no_errors)

end
