(* ===== verification/Counted.thy ===== *)
theory Counted
  imports Keyspace
begin

text \<open>
  What hashes, sets and sorted sets share: a meta key with the type, time to live and version, and their size
  spread over sub-meta keys, whose values a command adds to under an index of its own so that concurrent commands
  do not meet. \<^verbatim>\<open>txnkv_sum_key_size\<close> and the removal of a collection are the same code in \<^verbatim>\<open>src/tikv/hash.rs\<close>,
  \<^verbatim>\<open>set.rs\<close> and \<^verbatim>\<open>zset.rs\<close>, for their data types. The lemmas show that the sum of the counters is the size and
  that a removed collection leaves no keys.
\<close>

section \<open>The shared code\<close>

definition sum_key_size_body :: "env \<Rightarrow> DataType \<Rightarrow> bytes \<Rightarrow> u16 \<Rightarrow> i64 action" where
  "sum_key_size_body env dt key version =
     Lock (txn_get (encode_txnkv_meta_key (KEY_ENCODER env) key) (\<lambda>meta.
       case meta of
         Some meta_value \<Rightarrow>
           unwrap (decode_key_type meta_value) (\<lambda>t.
           if t \<noteq> dt then Throw REDIS_WRONG_TYPE_ERR
           else
             txn_scan (encode_txnkv_sub_meta_key_range (KEY_ENCODER env) key version) u32_MAX (\<lambda>kvs.
             unwrap (those (map (\<lambda>kv. u64_from_be_bytes (snd kv)) kvs)) (\<lambda>sizes.
             if i64_lt 0 (sum_list sizes) then Return (sum_list sizes) else Crash)))
       | None \<Rightarrow> Return 0))"

definition txnkv_sum_key_size :: "env \<Rightarrow> DataType \<Rightarrow> bool \<Rightarrow> bytes \<Rightarrow> u16 \<Rightarrow> i64 action" where
  "txnkv_sum_key_size env dt in_txn key version =
     get_txn_client env (exec_in_txn env in_txn (sum_key_size_body env dt key version))"

text \<open>The frame of the commands: read the meta key, check the type, give the time to live and the version to
  the command. \<open>wrong_type\<close> is what the command does with a key of another type.\<close>

definition with_meta ::
  "env \<Rightarrow> DataType \<Rightarrow> bytes \<Rightarrow> 'a action \<Rightarrow> 'a action \<Rightarrow> (u64 \<Rightarrow> u16 \<Rightarrow> 'a action) \<Rightarrow> 'a action" where
  "with_meta env dt key wrong_type absent f =
     Lock (txn_get (encode_txnkv_meta_key (KEY_ENCODER env) key) (\<lambda>meta.
       case meta of
         Some meta_value \<Rightarrow>
           unwrap (decode_key_type meta_value) (\<lambda>t.
           if t \<noteq> dt then wrong_type
           else unwrap (decode_key_meta meta_value) (\<lambda>(ttl, version, _). f ttl version))
       | None \<Rightarrow> absent))"

text \<open>\<^verbatim>\<open>count_unique_keys\<close>: the size of the set of the keys.\<close>

definition count_unique_keys :: "bytes list \<Rightarrow> nat" where
  "count_unique_keys ks = card (set ks)"

text \<open>Adding to the sub-meta key with an index, which is created if it does not exist.\<close>

definition update_sub_meta :: "env \<Rightarrow> bytes \<Rightarrow> u16 \<Rightarrow> u16 \<Rightarrow> i64 \<Rightarrow> 'a action \<Rightarrow> 'a action" where
  "update_sub_meta env key version idx delta p =
     (let sub_meta_key = encode_txnkv_sub_meta_key (KEY_ENCODER env) key version idx in
      txn_get sub_meta_key (\<lambda>r.
      unwrap (case r of None \<Rightarrow> Some delta | Some v \<Rightarrow> map_option (\<lambda>n. n + delta) (u64_from_be_bytes v)) (\<lambda>n.
      txn_put sub_meta_key (u64_to_be_bytes n) p)))"

text \<open>\<^verbatim>\<open>for k in txn.scan_keys(range, u32::MAX).await? { txn.delete(k).await?; }\<close>\<close>

definition delete_keys_in :: "bound_range \<Rightarrow> 'a action \<Rightarrow> 'a action" where
  "delete_keys_in rg p = txn_scan_keys rg u32_MAX (\<lambda>ks. delete_all ks p)"

text \<open>\<^verbatim>\<open>for pair in txn.batch_get(data_keys).await? { txn.delete(pair.0).await?; deleted += 1; }\<close>\<close>

primrec delete_pairs :: "kv_pair list \<Rightarrow> i64 \<Rightarrow> (i64 \<Rightarrow> 'a action) \<Rightarrow> 'a action" where
  "delete_pairs [] deleted f = f deleted"
| "delete_pairs (pair # pairs) deleted f = txn_delete (fst pair) (delete_pairs pairs (deleted + 1) f)"

text \<open>After members were removed: when none is left the meta key and the sub-meta keys go (hashes and sets delete the meta
  key first, sorted sets last), otherwise a sub-meta key is counted down.\<close>

definition clear_meta_first :: "env \<Rightarrow> bytes \<Rightarrow> u16 \<Rightarrow> 'a action \<Rightarrow> 'a action" where
  "clear_meta_first env key version p =
     txn_delete (encode_txnkv_meta_key (KEY_ENCODER env) key) (
     delete_keys_in (encode_txnkv_sub_meta_key_range (KEY_ENCODER env) key version) p)"

definition clear_meta_last :: "env \<Rightarrow> bytes \<Rightarrow> u16 \<Rightarrow> 'a action \<Rightarrow> 'a action" where
  "clear_meta_last env key version p =
     delete_keys_in (encode_txnkv_sub_meta_key_range (KEY_ENCODER env) key version) (
     txn_delete (encode_txnkv_meta_key (KEY_ENCODER env) key) p)"

definition shrink_collection ::
  "(env \<Rightarrow> bytes \<Rightarrow> u16 \<Rightarrow> 'a action \<Rightarrow> 'a action) \<Rightarrow> env \<Rightarrow> bytes \<Rightarrow> u16 \<Rightarrow> u16 \<Rightarrow> i64 \<Rightarrow> i64 \<Rightarrow> 'a action \<Rightarrow> 'a action" where
  "shrink_collection clear env key version idx size_before removed p =
     (if i64_le size_before removed then clear env key version p
      else update_sub_meta env key version idx (- removed) p)"

text \<open>The meta key goes, the rest is left to the garbage collector.\<close>

definition leave_to_gc :: "env \<Rightarrow> DataType \<Rightarrow> bytes \<Rightarrow> u16 \<Rightarrow> 'a action \<Rightarrow> 'a action" where
  "leave_to_gc env dt key version p =
     (let enc = KEY_ENCODER env in
      txn_delete (encode_txnkv_meta_key enc key) (
      txn_put (encode_txnkv_gc_key enc key) (u16_to_be_bytes version) (
      txn_put (encode_txnkv_gc_version_key enc key version) [get_type_bytes dt] p)))"

text \<open>Removing a collection: above the threshold it is left to the garbage collector, otherwise \<open>sweep\<close> deletes its
  keys, and the meta key is deleted after them.\<close>

definition clear_collection ::
  "env \<Rightarrow> DataType \<Rightarrow> u32 \<Rightarrow> ('a action \<Rightarrow> 'a action) \<Rightarrow> bytes \<Rightarrow> u16 \<Rightarrow> i64 \<Rightarrow> 'a action \<Rightarrow> 'a action" where
  "clear_collection env dt threshold sweep key version len p =
     (if i64_lt (ucast threshold) len then leave_to_gc env dt key version p
      else sweep (txn_delete (encode_txnkv_meta_key (KEY_ENCODER env) key) p))"

text \<open>\<^verbatim>\<open>drop(txn); let size = self.txnkv_sum_key_size(&key, version).await?; txn = txn_rc.lock().await; ... Ok(1)\<close>\<close>

definition remove_collection ::
  "env \<Rightarrow> DataType \<Rightarrow> u32 \<Rightarrow> (i64 action \<Rightarrow> i64 action) \<Rightarrow> bytes \<Rightarrow> u16 \<Rightarrow> i64 action" where
  "remove_collection env dt threshold sweep key version =
     Unlock (call (txnkv_sum_key_size env dt True key version) (\<lambda>size.
     Lock (clear_collection env dt threshold sweep key version size (Return 1))))"

text \<open>\<^verbatim>\<open>drop(txn); self.clone().do_async_txnkv_.._expire_if_needed(&key).await?; ...\<close>\<close>

definition expire_then :: "(env \<Rightarrow> bool \<Rightarrow> bytes \<Rightarrow> i64 action) \<Rightarrow> env \<Rightarrow> bytes \<Rightarrow> 'a action \<Rightarrow> 'a action" where
  "expire_then expire env key p = Unlock (call (expire env True key) (\<lambda>_. p))"

section \<open>Keys of a version\<close>

text \<open>The keys with a version: sub-meta keys and data keys, which differ in the byte after the user key.\<close>

definition dkey :: "env \<Rightarrow> bytes \<Rightarrow> u16 \<Rightarrow> u8 \<Rightarrow> bytes \<Rightarrow> bytes" where
  "dkey env key v t r = ukp (KEY_ENCODER env) key @ t # u16_to_be_bytes v @ 96 # r"

abbreviation skey :: "env \<Rightarrow> bytes \<Rightarrow> u16 \<Rightarrow> u16 \<Rightarrow> bytes" where
  "skey env key v i \<equiv> dkey env key v 109 (u16_to_be_bytes i)"

lemma collection_keys [simp]:
  "encode_txnkv_sub_meta_key (KEY_ENCODER env) key v i = skey env key v i"
  "encode_txnkv_hash_data_key (KEY_ENCODER env) key f v = dkey env key v 104 f"
  "encode_txnkv_set_data_key (KEY_ENCODER env) key f v = dkey env key v 115 f"
  "encode_txnkv_zset_data_key (KEY_ENCODER env) key f v = dkey env key v 122 f"
  by (simp_all add: dkey_def enc_simps)

lemma dkey_simps [simp]:
  "dkey env key v t r = dkey env key' v' t' r' \<longleftrightarrow> key = key' \<and> v = v' \<and> t = t' \<and> r = r'"
  "dkey env key v t r \<noteq> mkey env key'" "mkey env key' \<noteq> dkey env key v t r"
  "dkey env key v t r \<noteq> encode_txnkv_gc_key enc key'" "encode_txnkv_gc_key enc key' \<noteq> dkey env key v t r"
  "dkey env key v t r \<noteq> encode_txnkv_gc_version_key enc key' v'"
  "encode_txnkv_gc_version_key enc key' v' \<noteq> dkey env key v t r"
  "mkey env key' \<noteq> encode_txnkv_gc_key enc key''" "encode_txnkv_gc_key enc key'' \<noteq> mkey env key'"
  "mkey env key' \<noteq> encode_txnkv_gc_version_key enc key'' v'"
  "encode_txnkv_gc_version_key enc key'' v' \<noteq> mkey env key'"
  by (auto simp: dkey_def enc_simps(2))

lemma dkey_owned [simp]: "owned (KEY_ENCODER env) key (dkey env key' v t r) \<longleftrightarrow> key = key'"
  by (simp add: dkey_def)

lemma dkey_versioned [simp]: "versioned (KEY_ENCODER env) key v (dkey env key' v' t r) \<longleftrightarrow> key = key' \<and> v = v'"
  by (auto simp: dkey_def)

lemma versionedE:
  assumes "versioned (KEY_ENCODER env) key v x"
  obtains t r where "x = dkey env key v t r"
  using assms by (auto simp: versioned_def dkey_def)

lemma collection_ranges [simp]:
  "in_range (encode_txnkv_sub_meta_key_range (KEY_ENCODER env) key v) x \<longleftrightarrow> (\<exists>r. x = dkey env key v 109 r)"
  "in_range (encode_txnkv_hash_data_key_range (KEY_ENCODER env) key v) x \<longleftrightarrow> (\<exists>r. x = dkey env key v 104 r)"
  "in_range (encode_txnkv_set_data_key_range (KEY_ENCODER env) key v) x \<longleftrightarrow> (\<exists>r. x = dkey env key v 115 r)"
  "in_range (encode_txnkv_zset_data_key_range (KEY_ENCODER env) key v) x \<longleftrightarrow> (\<exists>r. x = dkey env key v 122 r)"
  "in_range (encode_txnkv_zset_score_key_range (KEY_ENCODER env) key v) x \<longleftrightarrow> (\<exists>r. x = dkey env key v 83 r)"
  by (simp_all add: enc_simps dkey_def)

section \<open>The size of a collection\<close>

definition sub_size :: "bytes option \<Rightarrow> i64" where
  "sub_size b = (case b of None \<Rightarrow> 0 | Some s \<Rightarrow> (case u64_from_be_bytes s of None \<Rightarrow> 0 | Some n \<Rightarrow> n))"

text \<open>The sub-meta keys of a version hold numbers that add up to \<open>n\<close>.\<close>

definition counted :: "env \<Rightarrow> store \<Rightarrow> bytes \<Rightarrow> u16 \<Rightarrow> nat \<Rightarrow> bool" where
  "counted env m key v n \<longleftrightarrow>
     (\<forall>r b. m (dkey env key v 109 r) = Some b \<longrightarrow> (\<exists>i. r = u16_to_be_bytes i) \<and> u64_from_be_bytes b \<noteq> None) \<and>
     (\<Sum>i\<in>UNIV. sub_size (m (skey env key v i))) = of_nat n"

lemma counted_cong:
  assumes "counted env m key v n" "\<And>r. m' (dkey env key v 109 r) = m (dkey env key v 109 r)"
  shows "counted env m' key v n"
  using assms by (simp add: counted_def)

lemma inj_skey: "inj (skey env key v)"
  by (rule injI) simp

lemma sub_meta_keys:
  assumes "counted env m key v n" "finite (dom m)"
  shows "set (range_keys m (encode_txnkv_sub_meta_key_range (KEY_ENCODER env) key v)) =
    skey env key v ` {i. m (skey env key v i) \<noteq> None}"
proof -
  have "\<exists>i. r = u16_to_be_bytes i" if "m (dkey env key v 109 r) \<noteq> None" for r
    using assms(1) that by (auto simp: counted_def)
  then show ?thesis using assms(2) by (fastforce simp: image_iff)
qed

lemma card_u16: "card (UNIV :: u16 set) = 65536"
  by (simp add: card_word)

lemma length_sub_meta_keys:
  assumes "counted env m key v n" "finite (dom m)"
  shows "length (range_keys m (encode_txnkv_sub_meta_key_range (KEY_ENCODER env) key v)) \<le> u32_MAX"
proof -
  let ?ks = "range_keys m (encode_txnkv_sub_meta_key_range (KEY_ENCODER env) key v)"
  have "length ?ks = card (set ?ks)" by (simp add: distinct_card)
  also have "\<dots> \<le> card {i. m (skey env key v i) \<noteq> None}"
    unfolding sub_meta_keys [OF assms] by (rule card_image_le) simp
  also have "\<dots> \<le> card (UNIV :: u16 set)" by (rule card_mono) simp_all
  finally show ?thesis by (simp only: card_u16 u32_MAX_def)
qed

lemma sub_sizes:
  assumes "counted env m key v n" "finite (dom m)"
  shows "\<exists>sizes. those (map (\<lambda>kv. u64_from_be_bytes (snd kv))
      (scan_store m False (encode_txnkv_sub_meta_key_range (KEY_ENCODER env) key v) u32_MAX)) = Some sizes \<and>
    sum_list sizes = of_nat n"
proof -
  let ?ks = "range_keys m (encode_txnkv_sub_meta_key_range (KEY_ENCODER env) key v)"
  have scan: "scan_store m False (encode_txnkv_sub_meta_key_range (KEY_ENCODER env) key v) u32_MAX = map (\<lambda>k. (k, the (m k))) ?ks"
    using length_sub_meta_keys [OF assms] by (simp add: scan_store_def)
  have dec: "u64_from_be_bytes (the (m k)) = Some (sub_size (m k))" if "k \<in> set ?ks" for k
    using that assms(1) unfolding sub_meta_keys [OF assms] by (fastforce simp: counted_def sub_size_def)
  have those: "those (map (\<lambda>k. u64_from_be_bytes (the (m k))) ks) = Some (map (\<lambda>k. sub_size (m k)) ks)" if "set ks \<subseteq> set ?ks" for ks
    using that dec by (induction ks) auto
  have "sum_list (map (\<lambda>k. sub_size (m k)) ?ks) = (\<Sum>k\<in>set ?ks. sub_size (m k))"
    by (simp add: sum_list_distinct_conv_sum_set)
  also have "\<dots> = (\<Sum>i | m (skey env key v i) \<noteq> None. sub_size (m (skey env key v i)))"
    unfolding sub_meta_keys [OF assms] by (rule sum.reindex_cong [OF inj_on_subset [OF inj_skey]]) auto
  also have "\<dots> = (\<Sum>i\<in>UNIV. sub_size (m (skey env key v i)))"
    by (rule sum.mono_neutral_left) (auto simp: sub_size_def)
  also have "\<dots> = of_nat n" using assms(1) by (simp add: counted_def)
  finally show ?thesis using those [OF order_refl] by (simp add: scan o_def)
qed

lemma sum_key_size_spec:
  assumes "m (mkey env key) = Some b" "decode_key_type b = Some dt" "counted env m key v n" "0 < n" "n < 2 ^ 63"
    and "TIKV_TXN_CLIENTS env"
  shows "body_spec F {False} (txnkv_sum_key_size env dt True key v) m (\<lambda>r m'. r = Inr (of_nat n) \<and> m' = m)"
proof -
  have pos: "i64_lt 0 (of_nat n)" using assms(4,5) by (simp add: i64_lt_def sint_of_nat_small)
  have "body_spec F UNIV (sum_key_size_body env dt key v) m (\<lambda>r m'. r = Inr (of_nat n) \<and> m' = m)"
  proof (rule body_specI)
    fix db sn ts
    show "wp F (sum_key_size_body env dt key v) (body_post F db sn ts UNIV (\<lambda>r m'. r = Inr (of_nat n) \<and> m' = m))
        (db, (sn, m, False) # ts)"
      using assms(1,2) sub_sizes [OF assms(3)] pos
      by (cases "finite (dom m)") (auto simp: sum_key_size_body_def wp_simps)
  qed
  then show ?thesis using assms(6)
    by (simp add: txnkv_sum_key_size_def get_txn_client_def exec_in_txn_def body_spec_scoped)
qed

text \<open>A counter is added to.\<close>

definition add_count :: "env \<Rightarrow> bytes \<Rightarrow> u16 \<Rightarrow> u16 \<Rightarrow> i64 \<Rightarrow> store \<Rightarrow> store" where
  "add_count env key v idx delta m =
     m(skey env key v idx \<mapsto> u64_to_be_bytes (sub_size (m (skey env key v idx)) + delta))"

lemma counted_add:
  assumes "counted env m key v n" "of_nat n' = of_nat n + delta"
  shows "counted env (add_count env key v idx delta m) key v n'"
proof -
  let ?m = "add_count env key v idx delta m"
  have "(\<Sum>i\<in>UNIV. sub_size (?m (skey env key v i))) =
      (\<Sum>i\<in>UNIV. sub_size (m (skey env key v i)) + (if i = idx then delta else 0))"
    by (rule sum.cong) (auto simp: add_count_def sub_size_def)
  also have "\<dots> = of_nat n + delta"
    using assms(1) by (simp add: counted_def sum.distrib)
  finally show ?thesis using assms by (auto simp: counted_def add_count_def)
qed

lemma wp_update_sub_meta:
  assumes "counted env m key v n"
    and "wp F p Q (db, (sn, add_count env key v idx delta m, True) # ts)"
    and "\<And>e m'. e \<in> F \<Longrightarrow> Q (Done (Inl (TikvClient e))) (db, (sn, m', True) # ts)"
  shows "wp F (update_sub_meta env key v idx delta p) Q (db, (sn, m, True) # ts)"
proof (cases "m (skey env key v idx)")
  case None
  then show ?thesis using assms(2,3) by (simp add: update_sub_meta_def Let_def wp_simps add_count_def sub_size_def)
next
  case (Some b)
  then obtain k where "u64_from_be_bytes b = Some k" using assms(1) by (fastforce simp: counted_def)
  then show ?thesis using Some assms(2,3)
    by (simp add: update_sub_meta_def Let_def wp_simps add_count_def sub_size_def)
qed

lemma add_count_other [simp]:
  "(\<And>i. x \<noteq> skey env key v i) \<Longrightarrow> add_count env key v idx delta m x = m x"
  by (simp add: add_count_def)

section \<open>Collections in the store\<close>

text \<open>The store holds a collection of version \<open>v\<close> under a key: the meta value \<open>b\<close>, the data keys \<open>D\<close> by their byte and
  suffix, the size \<open>n\<close>, and nothing else with a version that the garbage collector does not know of.\<close>

definition coll_rep ::
  "env \<Rightarrow> store \<Rightarrow> bytes \<Rightarrow> bytes \<Rightarrow> u16 \<Rightarrow> (u8 \<Rightarrow> bytes \<rightharpoonup> bytes) \<Rightarrow> nat \<Rightarrow> bool" where
  "coll_rep env m key b v D n \<longleftrightarrow>
     m (mkey env key) = Some b \<and> (\<forall>t r. t \<noteq> 109 \<longrightarrow> m (dkey env key v t r) = D t r) \<and>
     counted env m key v n \<and> gc_ok (KEY_ENCODER env) m key (Some v)"

lemma leave_to_gc_no_key:
  assumes "coll_rep env m key b v D n"
  shows "no_key env (m(mkey env key := None, encode_txnkv_gc_key (KEY_ENCODER env) key \<mapsto> u16_to_be_bytes v,
      encode_txnkv_gc_version_key (KEY_ENCODER env) key v \<mapsto> c)) key"
    and "others_same (KEY_ENCODER env) key m (m(mkey env key := None,
      encode_txnkv_gc_key (KEY_ENCODER env) key \<mapsto> u16_to_be_bytes v,
      encode_txnkv_gc_version_key (KEY_ENCODER env) key v \<mapsto> c))"
  using assms by (auto simp: no_key_def coll_rep_def gc_ok_def others_same_upd split: if_splits)

text \<open>The store without the keys of a version.\<close>

abbreviation swept :: "env \<Rightarrow> bytes \<Rightarrow> u16 \<Rightarrow> store \<Rightarrow> store" where
  "swept env key v m \<equiv> m |` (- Collect (versioned (KEY_ENCODER env) key v))"

lemma swept_no_key:
  assumes "coll_rep env m key b v D n"
  shows "no_key env ((swept env key v m)(mkey env key := None)) key"
    and "others_same (KEY_ENCODER env) key m ((swept env key v m)(mkey env key := None))"
proof -
  have "gc_ok (KEY_ENCODER env) (swept env key v m) key None"
    using assms by (auto simp: coll_rep_def gc_ok_def restrict_map_def)
  then show "no_key env ((swept env key v m)(mkey env key := None)) key"
    unfolding no_key_def gc_ok_def by (simp only: fun_upd_apply dkey_simps) auto
  show "others_same (KEY_ENCODER env) key m ((swept env key v m)(mkey env key := None))"
    using versioned_owned by (auto simp: others_same_def restrict_map_def)
qed

lemma wp_clear_collection:
  assumes rep: "coll_rep env m key b v D n" "n < 2 ^ 63"
    and Q: "\<And>m'. \<lbrakk>no_key env m' key; others_same (KEY_ENCODER env) key m m'\<rbrakk> \<Longrightarrow> wp F p Q (db, (sn, m', True) # ts)"
    and err: "\<And>e m'. e \<in> F \<Longrightarrow> Q (Done (Inl (TikvClient e))) (db, (sn, m', True) # ts)"
    and sweep: "\<And>p. \<lbrakk>n \<le> u32_MAX; wp F p Q (db, (sn, swept env key v m, True) # ts)\<rbrakk> \<Longrightarrow>
      wp F (sweep p) Q (db, (sn, m, True) # ts)"
  shows "wp F (clear_collection env dt threshold sweep key v (of_nat n) p) Q (db, (sn, m, True) # ts)"
proof (cases "i64_lt (ucast threshold) (of_nat n)")
  case True
  then show ?thesis using Q [OF leave_to_gc_no_key [OF rep(1)]] err
    by (simp add: clear_collection_def leave_to_gc_def Let_def wp_simps del: fun_upd_apply)
next
  case False
  have "unat threshold < 2 ^ 32" using unsigned_less [where ?w = threshold and ?'a = nat] by simp
  moreover from this have "unat (ucast threshold :: u64) = unat threshold"
    by (simp add: unsigned_ucast_eq take_bit_eq_mod)
  ultimately have "sint (ucast threshold :: u64) = int (unat threshold)" "unat threshold < 2 ^ 32"
    using sint_unat [of "ucast threshold"] by (simp_all del: uint_nat)
  then have "int n \<le> 4294967295"
    using False rep(2) unsigned_less [where ?w = threshold and ?'a = int] by (simp add: i64_lt_def sint_of_nat_small)
  then have "n \<le> u32_MAX" by (simp add: u32_MAX_def)
  moreover have "wp F (txn_delete (mkey env key) p) Q (db, (sn, swept env key v m, True) # ts)"
    using Q [OF swept_no_key [OF rep(1)]] err by (simp add: wp_simps)
  ultimately show ?thesis using False sweep by (simp add: clear_collection_def)
qed

lemma wp_delete_keys_in:
  assumes "finite (dom m) \<Longrightarrow> card {x \<in> dom m. in_range rg x} \<le> u32_MAX"
    and "finite (dom m) \<Longrightarrow> wp F p Q (db, (sn, m |` (- Collect (in_range rg)), True) # ts)"
    and err: "\<And>e m'. e \<in> F \<Longrightarrow> Q (Done (Inl (TikvClient e))) (db, (sn, m', True) # ts)"
  shows "wp F (delete_keys_in rg p) Q (db, (sn, m, True) # ts)"
proof (cases "finite (dom m)")
  case True
  have "length (range_keys m rg) = card (set (range_keys m rg))" by (simp add: distinct_card)
  also have "\<dots> = card {x \<in> dom m. in_range rg x}" using True by simp
  also have "\<dots> \<le> u32_MAX" using assms(1) True .
  finally have "map fst (scan_store m False rg u32_MAX) = range_keys m rg" by (simp add: scan_store_def o_def)
  moreover have "m |` (- set (range_keys m rg)) = m |` (- Collect (in_range rg))"
    using True by (auto simp: restrict_map_def fun_eq_iff)
  ultimately show ?thesis using assms(2) True err by (simp add: delete_keys_in_def wp_simps del: set_range_keys)
qed (use err in \<open>simp add: delete_keys_in_def wp_simps\<close>)

lemma wp_remove_collection:
  assumes rep: "coll_rep env m key b v D n" "0 < n" "n < 2 ^ 63" "decode_key_type b = Some dt" "TIKV_TXN_CLIENTS env"
    and Q: "\<And>m'. \<lbrakk>no_key env m' key; others_same (KEY_ENCODER env) key m m'\<rbrakk> \<Longrightarrow> Q (Done (Inr 1)) (db, (sn, m', True) # ts)"
    and err: "\<And>e m' h. e \<in> F \<Longrightarrow> Q (Done (Inl (TikvClient e))) (db, (sn, m', h) # ts)"
    and sweep: "\<And>p. \<lbrakk>n \<le> u32_MAX; wp F p Q (db, (sn, swept env key v m, True) # ts)\<rbrakk> \<Longrightarrow>
      wp F (sweep p) Q (db, (sn, m, True) # ts)"
  shows "wp F (remove_collection env dt threshold sweep key v) Q (db, (sn, m, True) # ts)"
proof -
  have size: "body_spec F {False} (txnkv_sum_key_size env dt True key v) m (\<lambda>r m'. r = Inr (of_nat n) \<and> m' = m)"
    using rep by (intro sum_key_size_spec) (auto simp: coll_rep_def)
  have "wp F (clear_collection env dt threshold sweep key v (of_nat n) (Return 1)) Q (db, (sn, m, True) # ts)"
    by (rule wp_clear_collection [OF rep(1,3)]) (use Q err sweep in \<open>auto simp: wp_simps\<close>)
  then have "wp F (call (txnkv_sum_key_size env dt True key v) (\<lambda>len.
      Lock (clear_collection env dt threshold sweep key v len (Return 1)))) Q (db, (sn, m, False) # ts)"
    by (intro wp_call [OF size]) (use err in auto)
  then show ?thesis by (simp add: remove_collection_def)
qed

section \<open>Changing a collection\<close>

lemma coll_rep_put:
  assumes "coll_rep env m key b v D n" "t \<noteq> 109"
  shows "coll_rep env (m(dkey env key v t r := y)) key b v (D(t := (D t)(r := y))) n"
  using assms by (auto simp: coll_rep_def counted_def gc_ok_def)

lemma coll_rep_add:
  assumes "coll_rep env m key b v D n" "of_nat n' = of_nat n + delta"
  shows "coll_rep env (add_count env key v idx delta m) key b v D n'"
proof -
  have "gc_ok (KEY_ENCODER env) (add_count env key v idx delta m) key (Some v)"
    using assms(1) by (auto simp: coll_rep_def gc_ok_def add_count_def)
  then show ?thesis using assms counted_add [of env m key v n n' delta idx] by (auto simp: coll_rep_def)
qed

lemma coll_rep_meta:
  assumes "coll_rep env m key b v D n"
  shows "coll_rep env (m(mkey env key \<mapsto> b')) key b' v D n"
  using assms by (auto simp: coll_rep_def counted_def gc_ok_def)

lemma others_same_add: "others_same (KEY_ENCODER env) key m m' \<Longrightarrow>
    others_same (KEY_ENCODER env) key m (add_count env key v idx delta m')"
  by (simp add: add_count_def others_same_upd)

text \<open>A new collection, without data yet, under the version that was chosen for it.\<close>

lemma coll_rep_new:
  assumes "no_key env m key" "async_deletion_enabled_or_default (SERVER_CONFIG env)" "next_version env m key = Some v"
  shows "coll_rep env (m(mkey env key \<mapsto> b)) key b v (\<lambda>_. Map.empty) 0"
proof -
  have fresh: "m (dkey env key v t r) = None" for t r
    using next_version_fresh(1) [OF assms(2) _ assms(3), of "dkey env key v t r"] assms(1) by (simp add: no_key_def)
  have "gc_ok (KEY_ENCODER env) m key (Some v)" using assms(1) by (auto simp: no_key_def gc_ok_def)
  then show ?thesis by (auto simp: coll_rep_def counted_def gc_ok_def fresh sub_size_def)
qed

lemma gc_ok_swept:
  assumes ok: "gc_ok enc m key (Some v)" and none: "\<And>x. versioned enc key v x \<Longrightarrow> m' x = None"
    and "\<And>x. m' x = m x \<or> m' x = None" "m' (encode_txnkv_gc_key enc key) = m (encode_txnkv_gc_key enc key)"
    and "\<And>v'. m' (encode_txnkv_gc_version_key enc key v') = m (encode_txnkv_gc_version_key enc key v')"
  shows "gc_ok enc m' key None"
proof -
  have "m' x = None" if "m (encode_txnkv_gc_version_key enc key v') = None" "versioned enc key v' x" for v' x
  proof (cases "v' = v")
    case False
    then have "m x = None" using ok that by (auto simp: gc_ok_def)
    then show ?thesis using assms(3) [of x] by auto
  qed (use none that in blast)
  then show ?thesis using ok assms(4,5) by (auto simp: gc_ok_def)
qed

text \<open>A collection whose data are gone goes with its meta key and its sub-meta keys.\<close>

lemma coll_rep_gone:
  assumes "coll_rep env m key b v (\<lambda>_. Map.empty) n"
  shows "no_key env ((m(mkey env key := None)) |` (- range (dkey env key v 109))) key"
    and "others_same (KEY_ENCODER env) key m ((m(mkey env key := None)) |` (- range (dkey env key v 109)))"
proof -
  let ?m = "(m(mkey env key := None)) |` (- range (dkey env key v 109))"
  have data: "m (dkey env key v t r) = None" if "t \<noteq> 109" for t r using assms that by (simp add: coll_rep_def)
  have "?m x = None" if "versioned (KEY_ENCODER env) key v x" for x
    using that
  proof (rule versionedE)
    fix t r assume "x = dkey env key v t r"
    then show ?thesis using data by (cases "t = 109") (auto simp: restrict_map_def)
  qed
  then have "gc_ok (KEY_ENCODER env) ?m key None"
    using assms by (intro gc_ok_swept [of _ m key v]) (auto simp: coll_rep_def restrict_map_def)
  then show "no_key env ?m key" by (auto simp: no_key_def restrict_map_def)
  show "others_same (KEY_ENCODER env) key m ?m" by (auto simp: others_same_def restrict_map_def)
qed

text \<open>The version of a new collection.\<close>

lemma wp_new_version:
  assumes "no_key env m key"
    and "next_version env m key = None \<Longrightarrow> Q (Done (Inl KEY_VERSION_EXHUSTED_ERR)) (db, (sn, m, False) # ts)"
    and "\<And>v. next_version env m key = Some v \<Longrightarrow> wp F (f v) Q (db, (sn, m, False) # ts)"
    and "\<And>e m'. e \<in> F \<Longrightarrow> Q (Done (Inl (TikvClient e))) (db, (sn, m', False) # ts)"
  shows "wp F (call (get_version_for_new env key) f) Q (db, (sn, m, False) # ts)"
proof -
  have "gc_ok (KEY_ENCODER env) m key None" using assms(1) by (simp add: no_key_def)
  from get_version_for_new_spec [OF this] show ?thesis
    by (rule wp_call) (use assms in \<open>auto split: option.splits\<close>)
qed

section \<open>The commands of a collection type\<close>

text \<open>What a command relies on: the meta values of the type decode, and the expiry of the type removes a
  collection that is due. \<open>sized\<close> says which data keys make a collection of a size.\<close>

locale collection =
  fixes dt :: DataType
    and meta_value :: "KeyEncoder \<Rightarrow> u64 \<Rightarrow> u16 \<Rightarrow> u16 \<Rightarrow> bytes"
    and expire :: "env \<Rightarrow> bool \<Rightarrow> bytes \<Rightarrow> i64 action"
    and sized :: "(u8 \<Rightarrow> bytes \<rightharpoonup> bytes) \<Rightarrow> nat \<Rightarrow> bool"
  assumes type_law: "decode_key_type (meta_value enc ttl v i) = Some dt"
    and meta_law: "decode_key_meta (meta_value enc ttl v i) = Some (ttl, v, stored_index_size enc i)"
    and sized_law: "sized D n \<Longrightarrow> 0 < n \<and> n < 2 ^ 63"
    and expire_law: "\<lbrakk>coll_rep env m key (meta_value (KEY_ENCODER env) ttl v i) v D n; sized D n;
      key_is_expired env ttl; TIKV_TXN_CLIENTS env\<rbrakk> \<Longrightarrow>
      body_spec F {False} (expire env True key) m
        (\<lambda>r m'. r = Inr 1 \<and> no_key env m' key \<and> others_same (KEY_ENCODER env) key m m')"
begin

lemma wp_with_meta:
  assumes "m (mkey env key) = Some (meta_value enc ttl v i)"
  shows "wp F (with_meta env dt key wrong_type absent f) Q (db, (sn, m, False) # ts) \<longleftrightarrow>
    (\<forall>e\<in>F. Q (Done (Inl (TikvClient e))) (db, (sn, m, True) # ts)) \<and> wp F (f ttl v) Q (db, (sn, m, True) # ts)"
  using assms by (simp add: with_meta_def wp_simps type_law meta_law)

lemma wp_sum_key_size:
  assumes "coll_rep env m key (meta_value enc ttl v i) v D n" "0 < n" "n < 2 ^ 63" "TIKV_TXN_CLIENTS env"
    and "wp F (f (of_nat n)) Q (db, (sn, m, False) # ts)"
    and "\<And>e m'. e \<in> F \<Longrightarrow> Q (Done (Inl (TikvClient e))) (db, (sn, m', False) # ts)"
  shows "wp F (call (txnkv_sum_key_size env dt True key v) f) Q (db, (sn, m, False) # ts)"
proof -
  have "body_spec F {False} (txnkv_sum_key_size env dt True key v) m (\<lambda>r m'. r = Inr (of_nat n) \<and> m' = m)"
    using assms(1-4) by (intro sum_key_size_spec) (auto simp: coll_rep_def type_law)
  then show ?thesis by (rule wp_call) (use assms in auto)
qed

lemma wp_expire_then:
  assumes "coll_rep env m key (meta_value (KEY_ENCODER env) ttl v i) v D n" "sized D n"
    and "key_is_expired env ttl" "TIKV_TXN_CLIENTS env"
    and "\<And>m'. \<lbrakk>no_key env m' key; others_same (KEY_ENCODER env) key m m'\<rbrakk> \<Longrightarrow> wp F p Q (db, (sn, m', False) # ts)"
    and "\<And>e m'. e \<in> F \<Longrightarrow> Q (Done (Inl (TikvClient e))) (db, (sn, m', False) # ts)"
  shows "wp F (expire_then expire env key p) Q (db, (sn, m, True) # ts)"
proof -
  have "wp F (call (expire env True key) (\<lambda>_. p)) Q (db, (sn, m, False) # ts)"
    by (rule wp_call [OF expire_law [OF assms(1-4)]]) (use assms(5,6) in auto)
  then show ?thesis by (simp add: expire_then_def)
qed

text \<open>A command that meets an expired collection removes it and answers \<open>x\<close>.\<close>

lemma expired_answer:
  assumes rep: "coll_rep env m key (meta_value (KEY_ENCODER env) ttl v i) v D n" "sized D n"
    and due: "key_is_expired env ttl" "TIKV_TXN_CLIENTS env"
    and p: "p = with_meta env dt key wrong_type absent f" "f ttl v = expire_then expire env key (Ret x)"
    and x: "\<And>e. x \<noteq> Inl (TikvClient e)"
  shows "body_spec F UNIV p m (\<lambda>r m'. r = x \<and> no_key env m' key \<and> others_same (KEY_ENCODER env) key m m')"
proof (rule body_specI)
  fix db sn ts
  let ?R = "\<lambda>r m'. r = x \<and> no_key env m' key \<and> others_same (KEY_ENCODER env) key m m'"
  have meta: "m (mkey env key) = Some (meta_value (KEY_ENCODER env) ttl v i)"
    using rep by (simp add: coll_rep_def)
  have "wp F (expire_then expire env key (Ret x)) (body_post F db sn ts UNIV ?R) (db, (sn, m, True) # ts)"
  proof (rule wp_expire_then [OF rep due])
    fix m' assume "no_key env m' key" "others_same (KEY_ENCODER env) key m m'"
    moreover have "result_ok F R x m' \<longleftrightarrow> R x m'" for R using x by (cases "(F, R, x, m')" rule: result_ok.cases) auto
    ultimately show "wp F (Ret x) (body_post F db sn ts UNIV ?R) (db, (sn, m', False) # ts)"
      by (simp add: body_post_def) blast
  qed (simp add: wp_simps)
  then show "wp F p (body_post F db sn ts UNIV ?R) (db, (sn, m, False) # ts)"
    using p by (simp add: wp_with_meta [where m = m, OF meta] wp_simps)
qed

end

lemma wp_with_meta_absent:
  assumes "m (mkey env key) = None"
  shows "wp F (with_meta env dt key wrong_type absent f) Q (db, (sn, m, False) # ts) \<longleftrightarrow>
    (\<forall>e\<in>F. Q (Done (Inl (TikvClient e))) (db, (sn, m, True) # ts)) \<and> wp F absent Q (db, (sn, m, True) # ts)"
  using assms by (simp add: with_meta_def wp_simps)

text \<open>There is something of another type under the key.\<close>

definition other_than :: "DataType \<Rightarrow> env \<Rightarrow> store \<Rightarrow> bytes \<Rightarrow> bool" where
  "other_than dt env m key \<longleftrightarrow> (\<exists>b t. m (mkey env key) = Some b \<and> decode_key_type b = Some t \<and> t \<noteq> dt)"

lemma wp_with_meta_wrong:
  assumes "other_than dt env m key"
  shows "wp F (with_meta env dt key wrong_type absent f) Q (db, (sn, m, False) # ts) \<longleftrightarrow>
    (\<forall>e\<in>F. Q (Done (Inl (TikvClient e))) (db, (sn, m, True) # ts)) \<and> wp F wrong_type Q (db, (sn, m, True) # ts)"
  using assms by (auto simp: other_than_def with_meta_def wp_simps)

section \<open>Deleting all keys of a version\<close>

lemma card_sub_meta_keys:
  assumes "counted env m key v n" "finite (dom m)"
  shows "card {x \<in> dom m. in_range (encode_txnkv_sub_meta_key_range (KEY_ENCODER env) key v) x} \<le> u32_MAX"
proof -
  let ?rg = "encode_txnkv_sub_meta_key_range (KEY_ENCODER env) key v"
  have "card (set (range_keys m ?rg)) = length (range_keys m ?rg)" by (simp add: distinct_card)
  also have "\<dots> \<le> u32_MAX" by (rule length_sub_meta_keys [OF assms])
  finally show ?thesis unfolding set_range_keys [OF assms(2)] .
qed

lemma card_data_keys:
  assumes "coll_rep env m key b v D n" "t \<noteq> 109" "finite (dom (D t))"
    and rg: "\<And>x. in_range rg x \<longleftrightarrow> (\<exists>r. x = dkey env key v t r)"
  shows "card {x \<in> dom m. in_range rg x} = card (dom (D t))"
proof -
  have "{x \<in> dom m. in_range rg x} = dkey env key v t ` dom (D t)"
    using assms(1,2) unfolding rg coll_rep_def by (auto simp: dom_def)
  then show ?thesis using card_image [of "dkey env key v t" "dom (D t)"] by (simp add: inj_on_def)
qed

lemma sweep_both:
  assumes "coll_rep env m key b v D n" "\<And>t'. t' \<noteq> t \<Longrightarrow> D t' = Map.empty" "t \<noteq> 109"
    and rg: "\<And>x. in_range rg x \<longleftrightarrow> (\<exists>r. x = dkey env key v t r)"
  shows "(m |` (- Collect (in_range rg))) |` (- Collect (in_range (encode_txnkv_sub_meta_key_range (KEY_ENCODER env) key v))) =
    swept env key v m"
proof
  fix x
  show "((m |` (- Collect (in_range rg))) |` (- Collect (in_range (encode_txnkv_sub_meta_key_range (KEY_ENCODER env) key v)))) x =
    swept env key v m x"
  proof (cases "versioned (KEY_ENCODER env) key v x")
    case True
    then obtain t' r where x: "x = dkey env key v t' r" by (rule versionedE)
    then have "m x = None" if "t' \<noteq> t" "t' \<noteq> 109" using that assms(1,2) by (simp add: coll_rep_def)
    then show ?thesis using True x by (auto simp: restrict_map_def rg)
  qed (auto simp: restrict_map_def rg)
qed

lemma counted_restrict:
  "counted env m key v n \<Longrightarrow> (\<And>r. dkey env key v 109 r \<in> A) \<Longrightarrow> counted env (m |` A) key v n"
  by (simp add: counted_def)

text \<open>A collection with one kind of data keys: the data keys and the sub-meta keys are deleted, in either order.\<close>

lemma wp_sweep_data:
  assumes rep: "coll_rep env m key b v D n" "\<And>t'. t' \<noteq> t \<Longrightarrow> D t' = Map.empty" "t \<noteq> 109"
    and fin: "finite (dom (D t))" "card (dom (D t)) \<le> u32_MAX"
    and rg: "\<And>x. in_range rg x \<longleftrightarrow> (\<exists>r. x = dkey env key v t r)"
    and p: "wp F p Q (db, (sn, swept env key v m, True) # ts)"
    and err: "\<And>e m'. e \<in> F \<Longrightarrow> Q (Done (Inl (TikvClient e))) (db, (sn, m', True) # ts)"
  shows "wp F (delete_keys_in rg (delete_keys_in (encode_txnkv_sub_meta_key_range (KEY_ENCODER env) key v) p)) Q
      (db, (sn, m, True) # ts)"
    and "wp F (delete_keys_in (encode_txnkv_sub_meta_key_range (KEY_ENCODER env) key v) (delete_keys_in rg p)) Q
      (db, (sn, m, True) # ts)"
proof -
  let ?sub = "encode_txnkv_sub_meta_key_range (KEY_ENCODER env) key v"
  let ?m1 = "m |` (- Collect (in_range rg))" and ?m2 = "m |` (- Collect (in_range ?sub))"
  have cnt: "counted env m key v n" using rep(1) by (simp add: coll_rep_def)
  then have cnt1: "counted env ?m1 key v n" using rep(3) by (intro counted_restrict) (auto simp: rg)
  have data: "card {x \<in> dom m. in_range rg x} \<le> u32_MAX" using card_data_keys [OF rep(1,3) fin(1) rg] fin(2) by simp
  have swept1: "?m1 |` (- Collect (in_range ?sub)) = swept env key v m" by (rule sweep_both [OF rep rg])
  then have swept2: "?m2 |` (- Collect (in_range rg)) = swept env key v m"
    by (simp add: restrict_map_def fun_eq_iff) metis
  have first: "wp F (delete_keys_in ?sub p) Q (db, (sn, ?m1, True) # ts)"
    by (rule wp_delete_keys_in) (use card_sub_meta_keys [OF cnt1] p swept1 err in auto)
  show "wp F (delete_keys_in rg (delete_keys_in ?sub p)) Q (db, (sn, m, True) # ts)"
    by (rule wp_delete_keys_in) (use first data err in auto)
  have "card {x \<in> dom ?m2. in_range rg x} \<le> card {x \<in> dom m. in_range rg x}" if "finite (dom m)"
    using that by (intro card_mono) auto
  then have data2: "card {x \<in> dom ?m2. in_range rg x} \<le> u32_MAX" if "finite (dom m)"
    using that data by (meson le_trans)
  have second: "wp F (delete_keys_in rg p) Q (db, (sn, ?m2, True) # ts)" if "finite (dom m)"
    by (rule wp_delete_keys_in) (use that data2 p swept2 err in auto)
  show "wp F (delete_keys_in ?sub (delete_keys_in rg p)) Q (db, (sn, m, True) # ts)"
    by (rule wp_delete_keys_in) (use second card_sub_meta_keys [OF cnt] err in auto)
qed

section \<open>A store with one collection\<close>

definition coll_store :: "env \<Rightarrow> bytes \<Rightarrow> bytes \<Rightarrow> u16 \<Rightarrow> ((u8 \<times> bytes) \<times> bytes) list \<Rightarrow> nat \<Rightarrow> kv_pair list" where
  "coll_store env key b v al n =
     (mkey env key, b) # (skey env key v 0, u64_to_be_bytes (of_nat n)) # map (\<lambda>((t, r), y). (dkey env key v t r, y)) al"

lemma map_of_dkey: "map_of (map (\<lambda>((t, r), y). (dkey env key v t r, y)) al) (dkey env key v t r) = map_of al (t, r)"
  by (induction al) auto

lemma coll_store_rep:
  assumes "\<And>t r. (t, r) \<in> fst ` set al \<Longrightarrow> t \<noteq> 109"
  shows "coll_rep env (map_of (coll_store env key b v al n)) key b v (\<lambda>t r. map_of al (t, r)) n"
proof -
  let ?m = "map_of (coll_store env key b v al n)"
  have dom: "x = mkey env key \<or> (\<exists>t r. x = dkey env key v t r)" if "?m x \<noteq> None" for x
    using that by (auto simp: coll_store_def split: if_splits dest!: map_of_SomeD)
  have sub: "?m (dkey env key v 109 r) = (if r = u16_to_be_bytes 0 then Some (u64_to_be_bytes (of_nat n)) else None)" for r
  proof -
    have "map_of al (109, r) = None" using assms [of 109 r] by (force simp: map_of_eq_None_iff)
    then show ?thesis by (simp add: coll_store_def map_of_dkey)
  qed
  have "(\<Sum>i\<in>UNIV. sub_size (?m (skey env key v i))) = (\<Sum>i\<in>(UNIV :: u16 set). if i = 0 then of_nat n else 0)"
    unfolding sub by (rule sum.cong) (auto simp: sub_size_def)
  then have "counted env ?m key v n" unfolding counted_def sub by auto
  moreover have "gc_ok (KEY_ENCODER env) ?m key (Some v)"
    unfolding gc_ok_def
  proof (intro conjI allI impI)
    fix b' assume "?m (encode_txnkv_gc_key (KEY_ENCODER env) key) = Some b'"
    then show "\<exists>v. b' = u16_to_be_bytes v" using dom [of "encode_txnkv_gc_key (KEY_ENCODER env) key"] by auto
  next
    fix v' x assume "Some v \<noteq> Some v' \<and> ?m (encode_txnkv_gc_version_key (KEY_ENCODER env) key v') = None \<and>
      versioned (KEY_ENCODER env) key v' x"
    then show "?m x = None" using dom [of x] by (cases "?m x") auto
  qed
  moreover have "?m (dkey env key v t r) = map_of al (t, r)" if "t \<noteq> 109" for t r
    using that by (simp add: coll_store_def map_of_dkey)
  ultimately show ?thesis by (simp add: coll_rep_def) (simp add: coll_store_def)
qed

section \<open>Scanning the data keys\<close>

lemma dkey_le [simp]: "dkey env key v t r \<le> dkey env key v t r' \<longleftrightarrow> r \<le> r'"
  by (simp add: dkey_def)

lemma data_range_keys:
  assumes "coll_rep env m key b v D n" "t \<noteq> 109" "finite (dom m)"
    and rg: "\<And>x. in_range rg x \<longleftrightarrow> (\<exists>r. x = dkey env key v t r)"
  shows "finite (dom (D t))" "range_keys m rg = map (dkey env key v t) (sorted_list_of_set (dom (D t)))"
proof -
  have D: "m (dkey env key v t r) = D t r" for r using assms(1,2) by (simp add: coll_rep_def)
  have dom: "{x \<in> dom m. in_range rg x} = dkey env key v t ` dom (D t)"
    unfolding rg by (auto simp: dom_def D)
  have "finite (dkey env key v t ` dom (D t))" using assms(3) unfolding dom [symmetric] by simp
  then show fin: "finite (dom (D t))" by (rule finite_imageD) (simp add: inj_on_def)
  show "range_keys m rg = map (dkey env key v t) (sorted_list_of_set (dom (D t)))"
    by (rule range_keys_eqI) (use fin dom in \<open>auto simp: sorted_map distinct_map inj_on_def\<close>)
qed

lemma data_scan:
  assumes "coll_rep env m key b v D n" "t \<noteq> 109" "finite (dom m)"
    and rg: "\<And>x. in_range rg x \<longleftrightarrow> (\<exists>r. x = dkey env key v t r)"
    and "card (dom (D t)) \<le> k"
  shows "scan_store m False rg k = map (\<lambda>r. (dkey env key v t r, the (D t r))) (sorted_list_of_set (dom (D t)))"
  using data_range_keys [OF assms(1-4)] assms(1,2,5) by (simp add: scan_store_def coll_rep_def)

section \<open>Removing members\<close>

text \<open>The number of pairs in an answer to \<^verbatim>\<open>batch_get\<close> of different keys.\<close>

lemma batch_answer_length:
  assumes "batch_answer m ks kvs" "distinct ks"
  shows "distinct (map fst kvs)" "length kvs = card {k \<in> set ks. m k \<noteq> None}" "fst ` set kvs = {k \<in> set ks. m k \<noteq> None}"
proof -
  have s: "set kvs = {(k, v). k \<in> set ks \<and> m k = Some v}" and sub: "mset (map fst kvs) \<subseteq># mset ks"
    using assms(1) by (auto simp: batch_answer_def)
  show d: "distinct (map fst kvs)" using sub assms(2)
    by (metis distinct_append mset_append mset_subset_eq_exists_conv mset_eq_imp_distinct_iff ex_mset)
  show "fst ` set kvs = {k \<in> set ks. m k \<noteq> None}" using s by (force simp: image_iff)
  then show "length kvs = card {k \<in> set ks. m k \<noteq> None}" using distinct_card [OF d] by simp
qed

lemma coll_rep_remove:
  assumes "coll_rep env m key b v D n" "t \<noteq> 109"
  shows "coll_rep env (m |` (- dkey env key v t ` S)) key b v (D(t := D t |` (- S))) n"
proof -
  let ?m = "m |` (- dkey env key v t ` S)"
  have "gc_ok (KEY_ENCODER env) ?m key (Some v)"
    using assms(1) by (auto simp: coll_rep_def gc_ok_def restrict_map_def image_iff)
  moreover have "counted env ?m key v n"
    using assms by (intro counted_restrict) (auto simp: coll_rep_def)
  moreover have "?m (dkey env key v t' r) = (D(t := D t |` (- S))) t' r" if "t' \<noteq> 109" for t' r
    using assms(1) that by (auto simp: coll_rep_def restrict_map_def image_iff)
  moreover have "?m (mkey env key) = Some b" using assms(1) by (auto simp: coll_rep_def restrict_map_def)
  ultimately show ?thesis by (simp add: coll_rep_def)
qed

lemma others_same_remove: "others_same (KEY_ENCODER env) key m (m |` (- dkey env key v t ` S))"
  by (auto simp: others_same_def restrict_map_def)

text \<open>Once the last member is deleted, the meta key and the sub-meta keys go, in either order.\<close>

lemma wp_clear:
  assumes rep: "coll_rep env m key b v (\<lambda>_. Map.empty) n" and "clear \<in> {clear_meta_first, clear_meta_last}"
    and Q: "\<And>m'. \<lbrakk>no_key env m' key; others_same (KEY_ENCODER env) key m m'\<rbrakk> \<Longrightarrow> wp F p Q (db, (sn, m', True) # ts)"
    and err: "\<And>e m'. e \<in> F \<Longrightarrow> Q (Done (Inl (TikvClient e))) (db, (sn, m', True) # ts)"
  shows "wp F (clear env key v p) Q (db, (sn, m, True) # ts)"
proof -
  let ?m = "m(mkey env key := None)" and ?rg = "encode_txnkv_sub_meta_key_range (KEY_ENCODER env) key v"
  have cnt: "counted env m key v n" "counted env ?m key v n" using rep by (auto simp: coll_rep_def intro: counted_cong)
  have rg: "Collect (in_range ?rg) = range (dkey env key v 109)" by auto
  then have gone: "wp F p Q (db, (sn, ?m |` (- Collect (in_range ?rg)), True) # ts)"
    using Q [OF coll_rep_gone [OF rep]] by simp
  then have "wp F (delete_keys_in ?rg p) Q (db, (sn, ?m, True) # ts)"
    by (intro wp_delete_keys_in) (use card_sub_meta_keys [OF cnt(2)] err in auto)
  moreover have "(m |` (- Collect (in_range ?rg)))(mkey env key := None) = ?m |` (- Collect (in_range ?rg))"
    unfolding rg by (auto simp: restrict_map_def fun_eq_iff)
  with gone have "wp F (txn_delete (mkey env key) p) Q (db, (sn, m |` (- Collect (in_range ?rg)), True) # ts)"
    using err by (simp add: wp_simps)
  then have "wp F (delete_keys_in ?rg (txn_delete (mkey env key) p)) Q (db, (sn, m, True) # ts)"
    by (intro wp_delete_keys_in) (use card_sub_meta_keys [OF cnt(1)] err in auto)
  ultimately show ?thesis using assms(2) err by (auto simp: clear_meta_first_def clear_meta_last_def wp_simps)
qed

lemma wp_shrink_collection:
  assumes rep: "coll_rep env m key b v D n" "n < 2 ^ 63" "n = left + k" "left = 0 \<Longrightarrow> D = (\<lambda>_. Map.empty)"
    and clear: "clear \<in> {clear_meta_first, clear_meta_last}"
    and none: "\<And>m'. \<lbrakk>left = 0; no_key env m' key; others_same (KEY_ENCODER env) key m m'\<rbrakk> \<Longrightarrow> wp F p Q (db, (sn, m', True) # ts)"
    and some: "\<And>m'. \<lbrakk>0 < left; coll_rep env m' key b v D left; others_same (KEY_ENCODER env) key m m'\<rbrakk> \<Longrightarrow>
      wp F p Q (db, (sn, m', True) # ts)"
    and err: "\<And>e m'. e \<in> F \<Longrightarrow> Q (Done (Inl (TikvClient e))) (db, (sn, m', True) # ts)"
  shows "wp F (shrink_collection clear env key v idx (of_nat n) (of_nat k) p) Q (db, (sn, m, True) # ts)"
proof (cases "left = 0")
  case True
  then have "wp F (clear env key v p) Q (db, (sn, m, True) # ts)"
    by (intro wp_clear [OF _ clear]) (use rep none err in auto)
  then show ?thesis using True rep(2,3) by (simp add: shrink_collection_def i64_le_def)
next
  case False
  have "k < 2 ^ 63" using rep(2,3) by linarith
  then have "\<not> i64_le (of_nat n) (of_nat k :: i64)" using rep(2,3) False by (simp only: i64_le_def sint_of_nat_small)
  moreover have "of_nat left = of_nat n + (- of_nat k :: i64)" using rep(3) by simp
  then have "coll_rep env (add_count env key v idx (- of_nat k) m) key b v D left" by (rule coll_rep_add [OF rep(1)])
  then have "wp F (update_sub_meta env key v idx (- of_nat k) p) Q (db, (sn, m, True) # ts)"
    by (intro wp_update_sub_meta [of env m key v n])
      (use rep(1) some False err in \<open>auto simp: coll_rep_def [of env m] others_same_add\<close>)
  ultimately show ?thesis by (simp add: shrink_collection_def)
qed

lemma wp_delete_pairs:
  assumes "wp F (f (deleted + of_nat (length pairs))) Q (db, (sn, m |` (- fst ` set pairs), True) # ts)"
    and "\<And>e m'. e \<in> F \<Longrightarrow> Q (Done (Inl (TikvClient e))) (db, (sn, m', True) # ts)"
  shows "wp F (delete_pairs pairs deleted f) Q (db, (sn, m, True) # ts)"
  using assms(1)
proof (induction pairs arbitrary: m deleted)
  case (Cons pair pairs)
  have "m(fst pair := None) |` (- fst ` set pairs) = m |` (- fst ` set (pair # pairs))"
    by (auto simp: restrict_map_def fun_eq_iff)
  moreover have "deleted + 1 + of_nat (length pairs) = deleted + of_nat (length (pair # pairs))" by simp
  ultimately have "wp F (delete_pairs pairs (deleted + 1) f) Q (db, (sn, m(fst pair := None), True) # ts)"
    using Cons.prems by (intro Cons.IH) (simp only:)
  then show ?case using assms(2) by (simp add: wp_simps)
qed (simp add: Compl_eq_Diff_UNIV)

text \<open>The keys of a list of members, read in one request: what is there is deleted, and counted.\<close>

lemma member_answer:
  assumes rep: "coll_rep env m key b v D n" "t \<noteq> 109" and "distinct rs" "batch_answer m (map (dkey env key v t) rs) kvs"
  shows "length kvs = card (dom (D t) \<inter> set rs)" "m |` (- fst ` set kvs) = m |` (- dkey env key v t ` set rs)"
proof -
  let ?ks = "map (dkey env key v t) rs"
  have "distinct ?ks" using assms(3) by (simp add: distinct_map inj_on_def)
  note answer = batch_answer_length(2,3) [OF assms(4) this]
  have "{k \<in> set ?ks. m k \<noteq> None} = dkey env key v t ` (dom (D t) \<inter> set rs)"
    using rep by (auto simp: coll_rep_def)
  then show "length kvs = card (dom (D t) \<inter> set rs)" using answer(1) by (simp add: card_image inj_on_def)
  show "m |` (- fst ` set kvs) = m |` (- dkey env key v t ` set rs)"
    unfolding answer(2) by (auto simp: restrict_map_def fun_eq_iff)
qed

lemma card_split: "finite (dom h) \<Longrightarrow> card (dom h) = card (dom (h |` (- S))) + card (dom h \<inter> S)"
  using card_Int_Diff [of "dom h" S] by (simp add: Diff_eq)

lemma completes_mono:
  "completes api data F env p w R \<Longrightarrow> (\<And>fr m. R fr m \<Longrightarrow> R' fr m) \<Longrightarrow> completes api data F env p w R'"
  by (auto simp: completes_def)

section \<open>Commands that choose an index\<close>

lemma served_idx:
  assumes "config_meta_key_number_or_default (SERVER_CONFIG env) \<noteq> 0" "\<And>idx. served F env in_txn (f idx) m R"
  shows "served F env in_txn (gen_next_meta_index env f) m R"
  using assms by (auto simp: served_def body_spec_def gen_next_meta_index_def Let_def)

lemma completes_exec_idx:
  assumes ready: "client_ready api data snap view F env w"
    and number: "config_meta_key_number_or_default (SERVER_CONFIG env) \<noteq> 0"
    and f: "\<And>idx. body_spec F H (f idx) (data (cluster w)) R0"
    and ok: "\<And>x m'. R0 (Inr x) m' \<Longrightarrow> R (ok x) m'"
    and err: "\<And>e m'. R0 (Inl e) m' \<Longrightarrow> (\<And>t. e \<noteq> TikvClient t) \<Longrightarrow> R (resp_err e) (data (cluster w))"
  shows "completes api data F env (get_txn_client env (gen_next_meta_index env (\<lambda>idx. reply ok (exec_in_txn env False (f idx))))) w R"
  by (rule completesI [OF ready]) (simp add: served_connected, rule served_idx [OF number], rule served_exec [OF f], use ok err in auto)

text \<open>The index that is chosen next is the counter modulo the configured number.\<close>

definition next_index :: "env \<Rightarrow> ('w, 't) world \<Rightarrow> u16" where
  "next_index env w = INDEX_COUNT w mod config_meta_key_number_or_default (SERVER_CONFIG env)"

lemma completes_next_index:
  assumes "config_meta_key_number_or_default (SERVER_CONFIG env) \<noteq> 0" "TIKV_TXN_CLIENTS env"
    and "completes api data F env (f (next_index env w)) (w\<lparr>INDEX_COUNT := INDEX_COUNT w + 1\<rparr>) R"
  shows "completes api data F env (get_txn_client env (gen_next_meta_index env f)) w R"
  using assms by (simp add: completes_def get_txn_client_def gen_next_meta_index_def Let_def next_index_def)

section \<open>Writing members\<close>

definition map_put :: "(bytes \<times> bytes) list \<Rightarrow> (bytes \<rightharpoonup> bytes) \<Rightarrow> bytes \<rightharpoonup> bytes" where
  "map_put kvs h = fold (\<lambda>(r, y) h. h(r \<mapsto> y)) kvs h"

definition data_put :: "env \<Rightarrow> bytes \<Rightarrow> u16 \<Rightarrow> u8 \<Rightarrow> (bytes \<times> bytes) list \<Rightarrow> store \<Rightarrow> store" where
  "data_put env key v t kvs m = fold (\<lambda>(r, y) m. m(dkey env key v t r \<mapsto> y)) kvs m"

lemma map_put_simps [simp]:
  "map_put [] h = h" "map_put ((r, y) # kvs) h = map_put kvs (h(r \<mapsto> y))"
  "data_put env key v t [] m = m"
  "data_put env key v t ((r, y) # kvs) m = data_put env key v t kvs (m(dkey env key v t r \<mapsto> y))"
  by (simp_all add: map_put_def data_put_def)

lemma dom_map_put [simp]: "dom (map_put kvs h) = dom h \<union> fst ` set kvs"
proof (induction kvs arbitrary: h)
  case (Cons kv kvs)
  obtain r y where kv: "kv = (r, y)" by (cases kv)
  show ?case unfolding kv map_put_simps Cons.IH by simp
qed simp

lemma data_put_other: "(\<And>r. x \<noteq> dkey env key v t r) \<Longrightarrow> data_put env key v t kvs m x = m x"
  by (induction kvs arbitrary: m) auto

lemma data_put_upd:
  "(\<And>r. x \<noteq> dkey env key v t r) \<Longrightarrow> (data_put env key v t kvs m)(x := y) = data_put env key v t kvs (m(x := y))"
proof (induction kvs arbitrary: m)
  case (Cons kv kvs)
  obtain r z where kv: "kv = (r, z)" by (cases kv)
  have "m(dkey env key v t r \<mapsto> z, x := y) = m(x := y, dkey env key v t r \<mapsto> z)"
    by (rule fun_upd_twist) (use Cons.prems in metis)
  then show ?case unfolding kv map_put_simps Cons.IH [OF Cons.prems] by (simp only:)
qed simp

lemma coll_rep_data_put:
  assumes "coll_rep env m key b v D n" "t \<noteq> 109"
  shows "coll_rep env (data_put env key v t kvs m) key b v (D(t := map_put kvs (D t))) n"
  using assms(1)
proof (induction kvs arbitrary: m D)
  case (Cons kv kvs)
  obtain r z where kv: "kv = (r, z)" by (cases kv)
  show ?case using Cons.IH [OF coll_rep_put [OF Cons.prems assms(2), of r "Some z"]]
    unfolding kv map_put_simps by (simp only: fun_upd_same fun_upd_upd)
qed simp

lemma others_same_data_put: "others_same (KEY_ENCODER env) key m (data_put env key v t kvs m)"
  by (auto simp: others_same_def intro!: data_put_other)

text \<open>The members are written, the counter is added to, and the meta value is written or was there.\<close>

lemma coll_rep_grow:
  assumes rep: "coll_rep env (m(mkey env key \<mapsto> b)) key b v D n" "t \<noteq> 109" and n': "of_nat n' = of_nat n + delta"
  shows "counted env (data_put env key v t kvs m) key v n"
    and "coll_rep env ((add_count env key v idx delta (data_put env key v t kvs m))(mkey env key \<mapsto> b)) key b v
      (D(t := map_put kvs (D t))) n'"
    and "others_same (KEY_ENCODER env) key m (add_count env key v idx delta (data_put env key v t kvs m))"
proof -
  have skey: "data_put env key v t kvs m' (dkey env key v 109 r) = m' (dkey env key v 109 r)" for m' r
    using rep(2) by (intro data_put_other) simp
  show "counted env (data_put env key v t kvs m) key v n"
    by (rule counted_cong [of env "m(mkey env key \<mapsto> b)"]) (use rep in \<open>simp_all add: coll_rep_def skey\<close>)
  have "(add_count env key v idx delta (data_put env key v t kvs m))(mkey env key \<mapsto> b) =
      add_count env key v idx delta (data_put env key v t kvs (m(mkey env key \<mapsto> b)))"
    by (simp add: add_count_def data_put_upd skey fun_upd_twist)
  then show "coll_rep env ((add_count env key v idx delta (data_put env key v t kvs m))(mkey env key \<mapsto> b)) key b v
      (D(t := map_put kvs (D t))) n'"
    using coll_rep_add [OF coll_rep_data_put [OF rep, of kvs] n', of idx] by simp
  show "others_same (KEY_ENCODER env) key m (add_count env key v idx delta (data_put env key v t kvs m))"
    by (intro others_same_add others_same_data_put)
qed

text \<open>The same for a new collection, whose first counter is written as it is.\<close>

lemma coll_rep_first:
  assumes new: "no_key env m key" "async_deletion_enabled_or_default (SERVER_CONFIG env)" "next_version env m key = Some v"
    and "t \<noteq> 109"
  shows "coll_rep env ((data_put env key v t kvs m)(mkey env key \<mapsto> b, skey env key v idx \<mapsto> u64_to_be_bytes (of_nat n))) key b v
      ((\<lambda>_. Map.empty)(t := map_put kvs Map.empty)) n"
    and "others_same (KEY_ENCODER env) key m
      ((data_put env key v t kvs m)(mkey env key \<mapsto> b, skey env key v idx \<mapsto> u64_to_be_bytes (of_nat n)))"
proof -
  have "m (skey env key v idx) = None"
    using next_version_fresh(1) [OF new(2) _ new(3)] new(1) by (simp add: no_key_def)
  moreover have "data_put env key v t kvs m' (dkey env key v 109 r) = m' (dkey env key v 109 r)" for m' r
    using assms(4) by (intro data_put_other) simp
  ultimately have "(data_put env key v t kvs m)(mkey env key \<mapsto> b, skey env key v idx \<mapsto> u64_to_be_bytes (of_nat n)) =
      (add_count env key v idx (of_nat n) (data_put env key v t kvs m))(mkey env key \<mapsto> b)"
    by (simp add: add_count_def sub_size_def fun_upd_twist)
  then show "coll_rep env ((data_put env key v t kvs m)(mkey env key \<mapsto> b, skey env key v idx \<mapsto> u64_to_be_bytes (of_nat n))) key b v
      ((\<lambda>_. Map.empty)(t := map_put kvs Map.empty)) n"
    using coll_rep_grow(2) [OF coll_rep_new [OF new, of b] assms(4), of n "of_nat n" idx kvs] by simp
  show "others_same (KEY_ENCODER env) key m
      ((data_put env key v t kvs m)(mkey env key \<mapsto> b, skey env key v idx \<mapsto> u64_to_be_bytes (of_nat n)))"
    by (intro others_same_upd others_same_data_put) simp_all
qed

end
