(* ===== verification/Hashes.thy ===== *)
theory Hashes
  imports Counted
begin

text \<open>
  The hash commands, \<^verbatim>\<open>src/tikv/hash.rs\<close>. A hash has a meta key, a data key per field, and its size in sub-meta
  keys. Every method of \<^verbatim>\<open>HashCommandCtx\<close> is a definition; the closure given to \<^verbatim>\<open>exec_in_txn\<close> is the definition
  with the suffix \<open>body\<close>.
\<close>

section \<open>Removal and expiry\<close>

text \<open>The data keys go first, then the sub-meta keys.\<close>

definition hash_sweep :: "env \<Rightarrow> bytes \<Rightarrow> u16 \<Rightarrow> 'a action \<Rightarrow> 'a action" where
  "hash_sweep env key version p =
     delete_keys_in (encode_txnkv_hash_data_key_range (KEY_ENCODER env) key version) (
     delete_keys_in (encode_txnkv_sub_meta_key_range (KEY_ENCODER env) key version) p)"

definition hash_del_body :: "env \<Rightarrow> bytes \<Rightarrow> i64 action" where
  "hash_del_body env key =
     Lock (txn_get (encode_txnkv_meta_key (KEY_ENCODER env) key) (\<lambda>meta.
       case meta of
         Some meta_value \<Rightarrow>
           unwrap (decode_key_meta meta_value) (\<lambda>(_, version, _).
           remove_collection env DT_Hash (async_del_hash_threshold_or_default (SERVER_CONFIG env))
             (hash_sweep env key version) key version)
       | None \<Rightarrow> Return 0))"

definition do_async_txnkv_hash_del :: "env \<Rightarrow> bool \<Rightarrow> bytes \<Rightarrow> i64 action" where
  "do_async_txnkv_hash_del env in_txn key = get_txn_client env (exec_in_txn env in_txn (hash_del_body env key))"

definition hash_expire_body :: "env \<Rightarrow> bytes \<Rightarrow> i64 action" where
  "hash_expire_body env key =
     Lock (txn_get (encode_txnkv_meta_key (KEY_ENCODER env) key) (\<lambda>meta.
       case meta of
         Some meta_value \<Rightarrow>
           unwrap (decode_key_meta meta_value) (\<lambda>(ttl, version, _).
           if \<not> key_is_expired env ttl then Return 0
           else
             remove_collection env DT_Hash (async_expire_hash_threshold_or_default (SERVER_CONFIG env))
               (hash_sweep env key version) key version)
       | None \<Rightarrow> Return 0))"

definition do_async_txnkv_hash_expire_if_needed :: "env \<Rightarrow> bool \<Rightarrow> bytes \<Rightarrow> i64 action" where
  "do_async_txnkv_hash_expire_if_needed env in_txn key =
     get_txn_client env (exec_in_txn env in_txn (hash_expire_body env key))"

abbreviation hash_expire_then :: "env \<Rightarrow> bytes \<Rightarrow> 'a action \<Rightarrow> 'a action" where
  "hash_expire_then \<equiv> expire_then do_async_txnkv_hash_expire_if_needed"

section \<open>Writing fields\<close>

text \<open>The data key of a field given as bytes, which are made a string first.\<close>

definition field_data_key :: "env \<Rightarrow> bytes \<Rightarrow> u16 \<Rightarrow> bytes \<Rightarrow> bytes" where
  "field_data_key env key version field = encode_txnkv_hash_data_key (KEY_ENCODER env) key (utf8_lossy field) version"

primrec put_fields :: "env \<Rightarrow> bytes \<Rightarrow> u16 \<Rightarrow> kv_pair list \<Rightarrow> 'a action \<Rightarrow> 'a action" where
  "put_fields env key version [] p = p"
| "put_fields env key version (kv # kvs) p =
     txn_put (field_data_key env key version (fst kv)) (snd kv) (put_fields env key version kvs p)"

definition put_hash_meta :: "env \<Rightarrow> bytes \<Rightarrow> u64 \<Rightarrow> u16 \<Rightarrow> 'a action \<Rightarrow> 'a action" where
  "put_hash_meta env key ttl version p =
     txn_put (encode_txnkv_meta_key (KEY_ENCODER env) key)
       (encode_txnkv_hash_meta_value (KEY_ENCODER env) ttl version (config_meta_key_number_or_default (SERVER_CONFIG env))) p"

text \<open>The part of \<^verbatim>\<open>HSET\<close> for a key that existed: \<open>added_count\<close> is 1 with \<^verbatim>\<open>NX\<close>, otherwise the number of different data
  keys less the number of pairs that \<^verbatim>\<open>batch_get\<close> answers with.\<close>

definition hset_existing :: "env \<Rightarrow> bytes \<Rightarrow> kv_pair list \<Rightarrow> bool \<Rightarrow> u16 \<Rightarrow> u64 \<Rightarrow> u16 \<Rightarrow> bool \<Rightarrow> u64 action" where
  "hset_existing env key fvs is_nx idx ttl version expired =
     (let fields_data_key = map (\<lambda>kv. field_data_key env key version (fst kv)) fvs;
          finish = (\<lambda>added_count.
            put_fields env key version fvs (
            update_sub_meta env key version idx added_count (
            if expired then put_hash_meta env key ttl version (Return (of_nat (length fvs)))
            else Return (of_nat (length fvs)))))
      in
        if is_nx then finish 1
        else
          txn_batch_get fields_data_key (\<lambda>pairs.
          finish (of_nat (count_unique_keys fields_data_key) - of_nat (length pairs))))"

definition hset_new :: "env \<Rightarrow> bytes \<Rightarrow> kv_pair list \<Rightarrow> u16 \<Rightarrow> u16 \<Rightarrow> u64 action" where
  "hset_new env key fvs idx version =
     (let fields_data_key = map (\<lambda>kv. field_data_key env key version (fst kv)) fvs in
      put_fields env key version fvs (
      put_hash_meta env key 0 version (
      txn_put (encode_txnkv_sub_meta_key (KEY_ENCODER env) key version idx)
        (u64_to_be_bytes (of_nat (count_unique_keys fields_data_key)))
        (Return (of_nat (length fvs))))))"

definition hset_body :: "env \<Rightarrow> bytes \<Rightarrow> kv_pair list \<Rightarrow> bool \<Rightarrow> u16 \<Rightarrow> u64 action" where
  "hset_body env key fvs is_nx idx =
     with_meta env DT_Hash key (Throw REDIS_WRONG_TYPE_ERR)
       (Unlock (call (get_version_for_new env key) (\<lambda>version. Lock (hset_new env key fvs idx version))))
       (\<lambda>ttl version.
          if key_is_expired env ttl then
            hash_expire_then env key (call (get_version_for_new env key) (\<lambda>version.
              Lock (hset_existing env key fvs is_nx idx ttl version True)))
          else if is_nx then
            (case fvs of
               [] \<Rightarrow> Crash
             | kv # _ \<Rightarrow>
                 txn_key_exists (field_data_key env key version (fst kv)) (\<lambda>ex.
                 if ex then Return 0 else hset_existing env key fvs is_nx idx ttl version False))
          else hset_existing env key fvs is_nx idx ttl version False)"

definition do_async_txnkv_hset :: "env \<Rightarrow> bool \<Rightarrow> bytes \<Rightarrow> kv_pair list \<Rightarrow> bool \<Rightarrow> bool \<Rightarrow> Frame action" where
  "do_async_txnkv_hset env in_txn key fvs is_hmset is_nx =
     get_txn_client env (gen_next_meta_index env (\<lambda>idx.
       reply (\<lambda>num. if is_hmset then resp_ok else resp_int num)
         (exec_in_txn env in_txn (hset_body env key fvs is_nx idx))))"

section \<open>Reading fields\<close>

definition hget_body :: "env \<Rightarrow> bytes \<Rightarrow> bytes \<Rightarrow> Frame action" where
  "hget_body env key field =
     with_meta env DT_Hash key (Return (resp_err REDIS_WRONG_TYPE_ERR)) (Return resp_nil)
       (\<lambda>ttl version.
          if key_is_expired env ttl then hash_expire_then env key (Return resp_nil)
          else
            txn_get (encode_txnkv_hash_data_key (KEY_ENCODER env) key field version) (\<lambda>r.
            case r of None \<Rightarrow> Return resp_nil | Some data \<Rightarrow> Return (resp_bulk data)))"

definition do_async_txnkv_hget :: "env \<Rightarrow> bool \<Rightarrow> bytes \<Rightarrow> bytes \<Rightarrow> Frame action" where
  "do_async_txnkv_hget env in_txn key field = get_txn_client env (exec_in_txn env in_txn (hget_body env key field))"

definition hstrlen_body :: "env \<Rightarrow> bytes \<Rightarrow> bytes \<Rightarrow> Frame action" where
  "hstrlen_body env key field =
     with_meta env DT_Hash key (Return (resp_err REDIS_WRONG_TYPE_ERR)) (Return (resp_int 0))
       (\<lambda>ttl version.
          if key_is_expired env ttl then hash_expire_then env key (Return (resp_int 0))
          else
            txn_get (encode_txnkv_hash_data_key (KEY_ENCODER env) key field version) (\<lambda>r.
            case r of None \<Rightarrow> Return (resp_int 0) | Some data \<Rightarrow> Return (resp_int (i64_of_len (length data)))))"

definition do_async_txnkv_hstrlen :: "env \<Rightarrow> bool \<Rightarrow> bytes \<Rightarrow> bytes \<Rightarrow> Frame action" where
  "do_async_txnkv_hstrlen env in_txn key field =
     get_txn_client env (exec_in_txn env in_txn (hstrlen_body env key field))"

definition hexists_body :: "env \<Rightarrow> bytes \<Rightarrow> bytes \<Rightarrow> Frame action" where
  "hexists_body env key field =
     with_meta env DT_Hash key (Return (resp_err REDIS_WRONG_TYPE_ERR)) (Return (resp_int 0))
       (\<lambda>ttl version.
          if key_is_expired env ttl then hash_expire_then env key (Return (resp_int 0))
          else
            txn_key_exists (encode_txnkv_hash_data_key (KEY_ENCODER env) key field version) (\<lambda>ex.
            if ex then Return (resp_int 1) else Return (resp_int 0)))"

definition do_async_txnkv_hexists :: "env \<Rightarrow> bool \<Rightarrow> bytes \<Rightarrow> bytes \<Rightarrow> Frame action" where
  "do_async_txnkv_hexists env in_txn key field =
     get_txn_client env (exec_in_txn env in_txn (hexists_body env key field))"

definition hmget_body :: "env \<Rightarrow> bytes \<Rightarrow> bytes list \<Rightarrow> Frame action" where
  "hmget_body env key flds =
     with_meta env DT_Hash key (Return (resp_err REDIS_WRONG_TYPE_ERR))
       (Return (resp_array (replicate (length flds) resp_nil)))
       (\<lambda>ttl version.
          if key_is_expired env ttl then hash_expire_then env key (Return (resp_array []))
          else
            let data_key = (\<lambda>field. encode_txnkv_hash_data_key (KEY_ENCODER env) key field version) in
            txn_batch_get (map data_key flds) (\<lambda>pairs.
            let fields_result = collect_pairs pairs in
            Return (resp_array (map (\<lambda>field.
              case fields_result (data_key field) of Some data \<Rightarrow> resp_bulk data | None \<Rightarrow> resp_nil) flds))))"

definition do_async_txnkv_hmget :: "env \<Rightarrow> bool \<Rightarrow> bytes \<Rightarrow> bytes list \<Rightarrow> Frame action" where
  "do_async_txnkv_hmget env in_txn key flds = get_txn_client env (exec_in_txn env in_txn (hmget_body env key flds))"

definition hlen_body :: "env \<Rightarrow> bytes \<Rightarrow> Frame action" where
  "hlen_body env key =
     with_meta env DT_Hash key (Return (resp_err REDIS_WRONG_TYPE_ERR)) (Return (resp_int 0))
       (\<lambda>ttl version.
          if key_is_expired env ttl then hash_expire_then env key (Return (resp_int 0))
          else Unlock (call (txnkv_sum_key_size env DT_Hash True key version) (\<lambda>meta_size. Return (resp_int meta_size))))"

definition do_async_txnkv_hlen :: "env \<Rightarrow> bool \<Rightarrow> bytes \<Rightarrow> Frame action" where
  "do_async_txnkv_hlen env in_txn key = get_txn_client env (exec_in_txn env in_txn (hlen_body env key))"

text \<open>The frames of one pair of a hash: \<^verbatim>\<open>HGETALL\<close>, \<^verbatim>\<open>HKEYS\<close> and \<^verbatim>\<open>HVALS\<close>.\<close>

definition hash_pair_frames :: "bytes \<Rightarrow> bool \<Rightarrow> bool \<Rightarrow> kv_pair \<Rightarrow> Frame list option" where
  "hash_pair_frames key with_field with_value kv =
     (if with_field \<and> with_value then
        map_option (\<lambda>field. [resp_bulk field, resp_bulk (snd kv)]) (decode_key_hash_userkey_from_datakey key (fst kv))
      else if with_field then map_option (\<lambda>field. [resp_bulk field]) (decode_key_hash_userkey_from_datakey key (fst kv))
      else Some [resp_bulk (snd kv)])"

definition hgetall_body :: "env \<Rightarrow> bytes \<Rightarrow> bool \<Rightarrow> bool \<Rightarrow> Frame action" where
  "hgetall_body env key with_field with_value =
     with_meta env DT_Hash key (Return (resp_err REDIS_WRONG_TYPE_ERR)) (Return (resp_array []))
       (\<lambda>ttl version.
          if key_is_expired env ttl then hash_expire_then env key (Return resp_nil)
          else
            txn_scan (Range (encode_txnkv_hash_data_key_start (KEY_ENCODER env) key version)
                (encode_txnkv_hash_data_key_end (KEY_ENCODER env) key version)) u32_MAX (\<lambda>kvs.
            unwrap (those (map (hash_pair_frames key with_field with_value) kvs)) (\<lambda>frames.
            Return (resp_array (concat frames)))))"

definition do_async_txnkv_hgetall :: "env \<Rightarrow> bool \<Rightarrow> bytes \<Rightarrow> bool \<Rightarrow> bool \<Rightarrow> Frame action" where
  "do_async_txnkv_hgetall env in_txn key with_field with_value =
     get_txn_client env (exec_in_txn env in_txn (hgetall_body env key with_field with_value))"

section \<open>Removing fields and counting\<close>

definition hdel_body :: "env \<Rightarrow> bytes \<Rightarrow> bytes list \<Rightarrow> i64 action" where
  "hdel_body env key flds =
     with_meta env DT_Hash key (Throw REDIS_WRONG_TYPE_ERR) (Return 0)
       (\<lambda>ttl version.
          if key_is_expired env ttl then hash_expire_then env key (Return 0)
          else
            txn_batch_get (map (\<lambda>field. encode_txnkv_hash_data_key (KEY_ENCODER env) key field version) flds) (\<lambda>pairs.
            delete_pairs pairs 0 (\<lambda>deleted.
            gen_next_meta_index env (\<lambda>idx.
            Unlock (call (txnkv_sum_key_size env DT_Hash True key version) (\<lambda>old_size.
            Lock (shrink_collection clear_meta_first env key version idx old_size deleted (Return deleted))))))))"

definition do_async_txnkv_hdel :: "env \<Rightarrow> bool \<Rightarrow> bytes \<Rightarrow> bytes list \<Rightarrow> Frame action" where
  "do_async_txnkv_hdel env in_txn key flds =
     get_txn_client env (reply resp_int (exec_in_txn env in_txn (hdel_body env key flds)))"

definition hincrby_put :: "bytes \<Rightarrow> i64 \<Rightarrow> i64 \<Rightarrow> i64 action" where
  "hincrby_put data_key step prev_int =
     (let new_int = prev_int + step in txn_put data_key (i64_to_string new_int) (Return new_int))"

text \<open>The part of \<^verbatim>\<open>HINCRBY\<close> for a key that existed. For a field that does not exist the sub-meta key is written back with the
  value it had, or with 1 if it did not exist.\<close>

definition hincrby_existing :: "env \<Rightarrow> bytes \<Rightarrow> bytes \<Rightarrow> i64 \<Rightarrow> u16 \<Rightarrow> u64 \<Rightarrow> u16 \<Rightarrow> bool \<Rightarrow> i64 action" where
  "hincrby_existing env key field step idx ttl version expired =
     (let data_key = encode_txnkv_hash_data_key (KEY_ENCODER env) key field version;
          sub_meta_key = encode_txnkv_sub_meta_key (KEY_ENCODER env) key version idx
      in
        txn_get data_key (\<lambda>data.
        case data of
          Some data_value \<Rightarrow>
            (case parse_i64 (utf8_lossy data_value) of
               Some ival \<Rightarrow> hincrby_put data_key step ival
             | None \<Rightarrow> Throw REDIS_VALUE_IS_NOT_INTEGER_ERR)
        | None \<Rightarrow>
            txn_get sub_meta_key (\<lambda>sub.
            unwrap (case sub of None \<Rightarrow> Some 1 | Some v \<Rightarrow> u64_from_be_bytes v) (\<lambda>sub_size.
            txn_put sub_meta_key (u64_to_be_bytes sub_size) (
            if expired then put_hash_meta env key ttl version (hincrby_put data_key step 0)
            else hincrby_put data_key step 0)))))"

text \<open>This closure does not set \<^verbatim>\<open>self.txn\<close>: outside a transaction of the caller the expiry runs in a transaction of its
  own.\<close>

definition hincrby_body :: "env \<Rightarrow> bool \<Rightarrow> bytes \<Rightarrow> bytes \<Rightarrow> i64 \<Rightarrow> u16 \<Rightarrow> i64 action" where
  "hincrby_body env in_txn key field step idx =
     with_meta env DT_Hash key (Throw REDIS_WRONG_TYPE_ERR)
       (Unlock (call (get_version_for_new env key) (\<lambda>version. Lock (
          put_hash_meta env key 0 version (
          txn_put (encode_txnkv_sub_meta_key (KEY_ENCODER env) key version idx) (u64_to_be_bytes 1) (
          hincrby_put (encode_txnkv_hash_data_key (KEY_ENCODER env) key field version) step 0))))))
       (\<lambda>ttl version.
          if key_is_expired env ttl then
            Unlock (call (do_async_txnkv_hash_expire_if_needed env in_txn key) (\<lambda>_.
            call (get_version_for_new env key) (\<lambda>version.
            Lock (hincrby_existing env key field step idx ttl version True))))
          else hincrby_existing env key field step idx ttl version False)"

definition do_async_txnkv_hincrby :: "env \<Rightarrow> bool \<Rightarrow> bytes \<Rightarrow> bytes \<Rightarrow> i64 \<Rightarrow> Frame action" where
  "do_async_txnkv_hincrby env in_txn key field step =
     get_txn_client env (gen_next_meta_index env (\<lambda>idx.
       reply resp_int (exec_in_txn env in_txn (hincrby_body env in_txn key field step idx))))"

end
