(* ===== verification/Hash_Properties.thy ===== *)
theory Hash_Properties
  imports Hashes Mem_Store
begin

text \<open>
  Hashes as finite maps from fields to values: the representation in the store, and what the commands do with
  it.
\<close>

section \<open>Hashes as maps\<close>

definition hash_data :: "(bytes \<rightharpoonup> bytes) \<Rightarrow> u8 \<Rightarrow> bytes \<rightharpoonup> bytes" where
  "hash_data h t = (if t = 104 then h else Map.empty)"

definition hash_sized :: "(u8 \<Rightarrow> bytes \<rightharpoonup> bytes) \<Rightarrow> nat \<Rightarrow> bool" where
  "hash_sized D n \<longleftrightarrow> (\<exists>h. D = hash_data h \<and> finite (dom h) \<and> n = card (dom h) \<and> 0 < n \<and> n < 2 ^ 63)"

definition hash_rep :: "env \<Rightarrow> store \<Rightarrow> bytes \<Rightarrow> u64 \<Rightarrow> u16 \<Rightarrow> (bytes \<rightharpoonup> bytes) \<Rightarrow> bool" where
  "hash_rep env m key ttl v h \<longleftrightarrow>
     (\<exists>i. coll_rep env m key (encode_txnkv_hash_meta_value (KEY_ENCODER env) ttl v i) v (hash_data h) (card (dom h))) \<and>
     finite (dom h) \<and> h \<noteq> Map.empty \<and> card (dom h) < 2 ^ 63"

definition hash_state :: "env \<Rightarrow> store \<Rightarrow> bytes \<Rightarrow> u64 \<Rightarrow> (bytes \<rightharpoonup> bytes) \<Rightarrow> bool" where
  "hash_state env m key ttl h \<longleftrightarrow> (if h = Map.empty then no_key env m key else \<exists>v. hash_rep env m key ttl v h)"

lemma hash_repE:
  assumes "hash_rep env m key ttl v h"
  obtains i where "coll_rep env m key (encode_txnkv_hash_meta_value (KEY_ENCODER env) ttl v i) v (hash_data h) (card (dom h))"
    "hash_sized (hash_data h) (card (dom h))" "0 < card (dom h)" "card (dom h) < 2 ^ 63" "finite (dom h)"
proof -
  obtain i where "coll_rep env m key (encode_txnkv_hash_meta_value (KEY_ENCODER env) ttl v i) v (hash_data h) (card (dom h))"
    "finite (dom h)" "card (dom h) < 2 ^ 63" "h \<noteq> Map.empty"
    using assms by (auto simp: hash_rep_def)
  moreover from this have "0 < card (dom h)" by (simp add: card_gt_0_iff)
  ultimately show thesis using that [of i] by (auto simp: hash_sized_def)
qed

lemma hash_sweep_ok:
  assumes "coll_rep env m key b v (hash_data h) n" "finite (dom h)" "card (dom h) \<le> u32_MAX"
    and "wp F p Q (db, (sn, swept env key v m, True) # ts)"
    and "\<And>e m'. e \<in> F \<Longrightarrow> Q (Done (Inl (TikvClient e))) (db, (sn, m', True) # ts)"
  shows "wp F (hash_sweep env key v p) Q (db, (sn, m, True) # ts)"
  unfolding hash_sweep_def
  by (rule wp_sweep_data(1) [where t = 104, OF assms(1)]) (use assms in \<open>auto simp: hash_data_def\<close>)

lemma wp_hash_remove:
  assumes "coll_rep env m key (encode_txnkv_hash_meta_value (KEY_ENCODER env) ttl v i) v D n" "hash_sized D n"
    and "TIKV_TXN_CLIENTS env"
    and Q: "\<And>m'. \<lbrakk>no_key env m' key; others_same (KEY_ENCODER env) key m m'\<rbrakk> \<Longrightarrow> Q (Done (Inr 1)) (db, (sn, m', True) # ts)"
    and err: "\<And>e m' h. e \<in> F \<Longrightarrow> Q (Done (Inl (TikvClient e))) (db, (sn, m', h) # ts)"
  shows "wp F (remove_collection env DT_Hash threshold (hash_sweep env key v) key v) Q (db, (sn, m, True) # ts)"
proof -
  obtain h where h: "D = hash_data h" "finite (dom h)" "n = card (dom h)" "0 < n" "n < 2 ^ 63"
    using assms(2) by (auto simp: hash_sized_def)
  show ?thesis
  proof (rule wp_remove_collection [OF assms(1) h(4,5) decode_hash_meta_value(1) assms(3)])
    fix p assume "n \<le> u32_MAX" "wp F p Q (db, (sn, swept env key v m, True) # ts)"
    then show "wp F (hash_sweep env key v p) Q (db, (sn, m, True) # ts)"
      using assms(1) h err by (intro hash_sweep_ok [of env m key _ v h n]) auto
  qed (use Q err in auto)
qed

lemma hash_expire_spec:
  assumes "coll_rep env m key (encode_txnkv_hash_meta_value (KEY_ENCODER env) ttl v i) v D n" "hash_sized D n"
    and "key_is_expired env ttl" "TIKV_TXN_CLIENTS env"
  shows "body_spec F {False} (do_async_txnkv_hash_expire_if_needed env True key) m
    (\<lambda>r m'. r = Inr 1 \<and> no_key env m' key \<and> others_same (KEY_ENCODER env) key m m')"
proof -
  have meta: "m (mkey env key) = Some (encode_txnkv_hash_meta_value (KEY_ENCODER env) ttl v i)"
    using assms(1) by (simp add: coll_rep_def)
  have "body_spec F UNIV (hash_expire_body env key) m
      (\<lambda>r m'. r = Inr 1 \<and> no_key env m' key \<and> others_same (KEY_ENCODER env) key m m')"
    using assms(3) meta
    by (auto simp: body_spec_def hash_expire_body_def wp_simps intro!: wp_hash_remove [OF assms(1,2,4)])
  from body_spec_scoped [OF this] show ?thesis using assms(4)
    by (simp add: do_async_txnkv_hash_expire_if_needed_def get_txn_client_def exec_in_txn_def)
qed

interpretation hash: collection DT_Hash encode_txnkv_hash_meta_value do_async_txnkv_hash_expire_if_needed hash_sized
  by unfold_locales (simp_all add: hash_expire_spec, auto simp: hash_sized_def)

lemma hash_del_spec:
  assumes "hash_rep env m key ttl v h" "TIKV_TXN_CLIENTS env"
  shows "body_spec F UNIV (hash_del_body env key) m
    (\<lambda>r m'. r = Inr 1 \<and> no_key env m' key \<and> others_same (KEY_ENCODER env) key m m')"
proof -
  obtain i where rep: "coll_rep env m key (encode_txnkv_hash_meta_value (KEY_ENCODER env) ttl v i) v (hash_data h) (card (dom h))"
    "hash_sized (hash_data h) (card (dom h))" using assms(1) by (rule hash_repE)
  then have "m (mkey env key) = Some (encode_txnkv_hash_meta_value (KEY_ENCODER env) ttl v i)"
    by (simp add: coll_rep_def)
  then show ?thesis
    by (auto simp: body_spec_def hash_del_body_def wp_simps intro!: wp_hash_remove [OF rep assms(2)])
qed

section \<open>Reading a hash\<close>

lemma hash_rep_reads:
  assumes "hash_rep env m key ttl v h"
  shows "\<exists>i. m (mkey env key) = Some (encode_txnkv_hash_meta_value (KEY_ENCODER env) ttl v i)" "m (dkey env key v 104 f) = h f"
  using assms by (auto simp: hash_rep_def coll_rep_def hash_data_def)

lemma hash_live_reads:
  assumes rep: "hash_rep env m key ttl v h" "\<not> key_is_expired env ttl"
  shows "body_spec F UNIV (hget_body env key f) m (\<lambda>r m'. r = Inr (bulk_or_null (h f)) \<and> m' = m)"
    and "body_spec F UNIV (hstrlen_body env key f) m
      (\<lambda>r m'. r = Inr (Integer (case h f of None \<Rightarrow> 0 | Some val \<Rightarrow> of_nat (length val))) \<and> m' = m)"
    and "body_spec F UNIV (hexists_body env key f) m (\<lambda>r m'. r = Inr (Integer (if h f = None then 0 else 1)) \<and> m' = m)"
    and "body_spec F UNIV (hmget_body env key flds) m (\<lambda>r m'. r = Inr (Array (map (bulk_or_null \<circ> h) flds)) \<and> m' = m)"
proof -
  obtain i where meta: "m (mkey env key) = Some (encode_txnkv_hash_meta_value (KEY_ENCODER env) ttl v i)"
    using hash_rep_reads(1) [OF rep(1)] ..
  note [simp] = hash.wp_with_meta [where m = m, OF meta] hash_rep_reads(2) [OF rep(1)] and [simp] = rep(2)
  show "body_spec F UNIV (hget_body env key f) m (\<lambda>r m'. r = Inr (bulk_or_null (h f)) \<and> m' = m)"
    "body_spec F UNIV (hstrlen_body env key f) m
      (\<lambda>r m'. r = Inr (Integer (case h f of None \<Rightarrow> 0 | Some val \<Rightarrow> of_nat (length val))) \<and> m' = m)"
    "body_spec F UNIV (hexists_body env key f) m (\<lambda>r m'. r = Inr (Integer (if h f = None then 0 else 1)) \<and> m' = m)"
    by (auto simp: body_spec_def hget_body_def hstrlen_body_def hexists_body_def wp_simps bulk_or_null_def
        i64_of_len_def resp_defs split: option.splits)
  have "collect_pairs kvs (dkey env key v 104 f) = h f"
    if "batch_answer m (map (dkey env key v 104) flds) kvs" "f \<in> set flds" for kvs f
    using collect_batch [OF that(1)] that(2) by simp
  then show "body_spec F UNIV (hmget_body env key flds) m (\<lambda>r m'. r = Inr (Array (map (bulk_or_null \<circ> h) flds)) \<and> m' = m)"
    by (auto simp: body_spec_def hmget_body_def wp_simps Let_def resp_array_def resp_nil_def resp_bulk_def bulk_or_null_def
        split: option.splits)
qed

lemma hlen_counted:
  assumes rep: "coll_rep env m key (encode_txnkv_hash_meta_value (KEY_ENCODER env) ttl v i) v D n" "0 < n" "n < 2 ^ 63"
    and live: "\<not> key_is_expired env ttl" and conn: "TIKV_TXN_CLIENTS env"
  shows "body_spec F UNIV (hlen_body env key) m (\<lambda>r m'. r = Inr (Integer (of_nat n)) \<and> m' = m)"
proof -
  have meta: "m (mkey env key) = Some (encode_txnkv_hash_meta_value (KEY_ENCODER env) ttl v i)"
    using rep(1) by (simp add: coll_rep_def)
  show ?thesis using live
    by (auto simp: body_spec_def hlen_body_def hash.wp_with_meta [where m = m, OF meta] wp_simps resp_int_def
        intro!: hash.wp_sum_key_size [OF rep conn])
qed

lemma hlen_live:
  assumes "hash_rep env m key ttl v h" "\<not> key_is_expired env ttl" "TIKV_TXN_CLIENTS env"
  shows "body_spec F UNIV (hlen_body env key) m (\<lambda>r m'. r = Inr (Integer (of_nat (card (dom h)))) \<and> m' = m)"
  using assms(1) by (rule hash_repE) (rule hlen_counted [OF _ _ _ assms(2,3)])

text \<open>The frames of \<^verbatim>\<open>HGETALL\<close>, \<^verbatim>\<open>HKEYS\<close> and \<^verbatim>\<open>HVALS\<close> for a field.\<close>

definition field_frames :: "(bytes \<rightharpoonup> bytes) \<Rightarrow> bool \<Rightarrow> bool \<Rightarrow> bytes \<Rightarrow> Frame list" where
  "field_frames h with_field with_value f =
     (if with_field \<and> with_value then [Bulk f, Bulk (the (h f))] else if with_field then [Bulk f] else [Bulk (the (h f))])"

lemma hgetall_live:
  assumes rep: "hash_rep env m key ttl v h" "\<not> key_is_expired env ttl" "card (dom h) \<le> u32_MAX"
  shows "body_spec F UNIV (hgetall_body env key with_field with_value) m
    (\<lambda>r m'. r = Inr (Array (concat (map (field_frames h with_field with_value) (sorted_list_of_set (dom h))))) \<and> m' = m)"
  using rep(1)
proof (rule hash_repE)
  fix i assume h: "coll_rep env m key (encode_txnkv_hash_meta_value (KEY_ENCODER env) ttl v i) v (hash_data h) (card (dom h))"
  then have meta: "m (mkey env key) = Some (encode_txnkv_hash_meta_value (KEY_ENCODER env) ttl v i)" by (simp add: coll_rep_def)
  let ?rg = "encode_txnkv_hash_data_key_range (KEY_ENCODER env) key v"
  have rg: "Range (encode_txnkv_hash_data_key_start (KEY_ENCODER env) key v) (encode_txnkv_hash_data_key_end (KEY_ENCODER env) key v) = ?rg"
    by (simp add: encode_txnkv_hash_data_key_range_def)
  have scan: "scan_store m False ?rg u32_MAX = map (\<lambda>f. (dkey env key v 104 f, the (h f))) (sorted_list_of_set (dom h))"
    if "finite (dom m)"
    using data_scan [OF h _ that, of 104 ?rg u32_MAX] rep(3) by (simp add: hash_data_def)
  have frames: "hash_pair_frames key with_field with_value (dkey env key v 104 f, the (h f)) =
      Some (field_frames h with_field with_value f)" for f
    using decode_data_keys(1) [of key "KEY_ENCODER env" f v]
    by (simp add: hash_pair_frames_def field_frames_def resp_bulk_def del: decode_data_keys)
  show ?thesis using rep(2)
    by (auto simp: body_spec_def hgetall_body_def hash.wp_with_meta [where m = m, OF meta] wp_simps rg scan o_def frames resp_array_def)
qed

lemma hash_absent_reads:
  assumes "no_key env m key"
  shows "body_spec F UNIV (hget_body env key f) m (\<lambda>r m'. r = Inr Null \<and> m' = m)"
    and "body_spec F UNIV (hstrlen_body env key f) m (\<lambda>r m'. r = Inr (Integer 0) \<and> m' = m)"
    and "body_spec F UNIV (hexists_body env key f) m (\<lambda>r m'. r = Inr (Integer 0) \<and> m' = m)"
    and "body_spec F UNIV (hmget_body env key flds) m (\<lambda>r m'. r = Inr (Array (replicate (length flds) Null)) \<and> m' = m)"
    and "body_spec F UNIV (hlen_body env key) m (\<lambda>r m'. r = Inr (Integer 0) \<and> m' = m)"
    and "body_spec F UNIV (hgetall_body env key with_field with_value) m (\<lambda>r m'. r = Inr (Array []) \<and> m' = m)"
    and "body_spec F UNIV (hdel_body env key flds) m (\<lambda>r m'. r = Inr 0 \<and> m' = m)"
proof -
  have "m (mkey env key) = None" using assms by (simp add: no_key_def)
  note [simp] = wp_with_meta_absent [where m = m, OF this]
  show "body_spec F UNIV (hget_body env key f) m (\<lambda>r m'. r = Inr Null \<and> m' = m)"
    "body_spec F UNIV (hstrlen_body env key f) m (\<lambda>r m'. r = Inr (Integer 0) \<and> m' = m)"
    "body_spec F UNIV (hexists_body env key f) m (\<lambda>r m'. r = Inr (Integer 0) \<and> m' = m)"
    "body_spec F UNIV (hmget_body env key flds) m (\<lambda>r m'. r = Inr (Array (replicate (length flds) Null)) \<and> m' = m)"
    "body_spec F UNIV (hlen_body env key) m (\<lambda>r m'. r = Inr (Integer 0) \<and> m' = m)"
    "body_spec F UNIV (hgetall_body env key with_field with_value) m (\<lambda>r m'. r = Inr (Array []) \<and> m' = m)"
    "body_spec F UNIV (hdel_body env key flds) m (\<lambda>r m'. r = Inr 0 \<and> m' = m)"
    by (simp_all add: body_spec_def hget_body_def hstrlen_body_def hexists_body_def hmget_body_def hlen_body_def
        hgetall_body_def hdel_body_def wp_simps resp_defs)
qed

section \<open>Writing fields\<close>

text \<open>The hash after \<^verbatim>\<open>HSET\<close>: a field given twice has its last value.\<close>

definition field_pairs :: "kv_pair list \<Rightarrow> kv_pair list" where
  "field_pairs fvs = map (\<lambda>kv. (utf8_lossy (fst kv), snd kv)) fvs"

definition hset_map :: "kv_pair list \<Rightarrow> (bytes \<rightharpoonup> bytes) \<Rightarrow> bytes \<rightharpoonup> bytes" where
  "hset_map fvs h = map_put (field_pairs fvs) h"

abbreviation fields_put :: "env \<Rightarrow> bytes \<Rightarrow> u16 \<Rightarrow> kv_pair list \<Rightarrow> store \<Rightarrow> store" where
  "fields_put env key v fvs \<equiv> data_put env key v 104 (field_pairs fvs)"

lemma field_data_key_dkey [simp]: "field_data_key env key v f = dkey env key v 104 (utf8_lossy f)"
  by (simp add: field_data_key_def)

lemma field_pairs_simps [simp]:
  "field_pairs [] = []" "field_pairs (kv # fvs) = (utf8_lossy (fst kv), snd kv) # field_pairs fvs"
  by (simp_all add: field_pairs_def)

lemma dom_hset_map [simp]: "dom (hset_map fvs h) = dom h \<union> set (map (utf8_lossy \<circ> fst) fvs)"
  by (simp add: hset_map_def field_pairs_def image_image)

lemma hset_map_ne: "fvs \<noteq> [] \<Longrightarrow> hset_map fvs h \<noteq> Map.empty"
  using dom_hset_map [of fvs h] by (metis Un_empty dom_empty list.map_disc_iff set_empty)

lemma hash_data_hset: "(hash_data h)(104 := map_put (field_pairs fvs) (hash_data h 104)) = hash_data (hset_map fvs h)"
  by (simp add: hash_data_def hset_map_def fun_eq_iff)

lemma wp_put_fields:
  assumes "wp F p Q (db, (sn, fields_put env key v fvs m, True) # ts)"
    and "\<And>e m'. e \<in> F \<Longrightarrow> Q (Done (Inl (TikvClient e))) (db, (sn, m', True) # ts)"
  shows "wp F (put_fields env key v fvs p) Q (db, (sn, m, True) # ts)"
  using assms(1) by (induction fvs arbitrary: m) (simp_all add: wp_simps assms(2))

lemma card_hset_map:
  assumes "finite (dom h)" "distinct (map (utf8_lossy \<circ> fst) fvs)"
  shows "card (dom (hset_map fvs h)) + card {f \<in> set (map (utf8_lossy \<circ> fst) fvs). h f \<noteq> None} = card (dom h) + length fvs"
proof -
  have "{f \<in> set (map (utf8_lossy \<circ> fst) fvs). h f \<noteq> None} = dom h \<inter> set (map (utf8_lossy \<circ> fst) fvs)"
    by auto
  then show ?thesis
    using card_Un_Int [of "dom h" "set (map (utf8_lossy \<circ> fst) fvs)"] assms distinct_card [OF assms(2)] by simp
qed

lemma wp_hset_finish:
  assumes rep: "coll_rep env (m(mkey env key \<mapsto> b)) key b v (hash_data h) (card (dom h))"
    and meta: "if expired then b = encode_txnkv_hash_meta_value (KEY_ENCODER env) ttl v
        (config_meta_key_number_or_default (SERVER_CONFIG env)) else m (mkey env key) = Some b"
    and added: "of_nat (card (dom (hset_map fvs h))) = of_nat (card (dom h)) + added_count"
    and Q: "\<And>m'. \<lbrakk>coll_rep env m' key b v (hash_data (hset_map fvs h)) (card (dom (hset_map fvs h)));
        others_same (KEY_ENCODER env) key m m'\<rbrakk> \<Longrightarrow> wp F p Q (db, (sn, m', True) # ts)"
    and err: "\<And>e m'. e \<in> F \<Longrightarrow> Q (Done (Inl (TikvClient e))) (db, (sn, m', True) # ts)"
  shows "wp F (put_fields env key v fvs (update_sub_meta env key v idx added_count (
      if expired then put_hash_meta env key ttl v p else p))) Q (db, (sn, m, True) # ts)"
proof -
  let ?m2 = "add_count env key v idx added_count (fields_put env key v fvs m)"
  note cnt = coll_rep_grow(1) [where t = 104 and kvs = "field_pairs fvs", OF rep _ added]
  note grow = coll_rep_grow(2,3) [where t = 104 and kvs = "field_pairs fvs" and idx = idx, OF rep _ added, unfolded hash_data_hset]
  have "?m2(mkey env key \<mapsto> b) = ?m2" if "\<not> expired"
    using meta that by (auto simp: add_count_def data_put_other)
  moreover have "others_same (KEY_ENCODER env) key m (?m2(mkey env key \<mapsto> b))"
    by (rule others_same_upd) (use grow(2) in simp_all)
  ultimately have "wp F (if expired then put_hash_meta env key ttl v p else p) Q (db, (sn, ?m2, True) # ts)"
    using grow Q meta err by (auto simp: put_hash_meta_def wp_simps)
  then show ?thesis by (intro wp_put_fields wp_update_sub_meta [OF cnt]) (use err in auto)
qed

text \<open>What \<^verbatim>\<open>HSET\<close> needs of its arguments: the fields differ; with \<^verbatim>\<open>NX\<close> there is one, which does not exist.\<close>

definition hset_args :: "(bytes \<rightharpoonup> bytes) \<Rightarrow> bool \<Rightarrow> kv_pair list \<Rightarrow> bool" where
  "hset_args h is_nx fvs \<longleftrightarrow> fvs \<noteq> [] \<and> distinct (map (utf8_lossy \<circ> fst) fvs) \<and>
     (is_nx \<longrightarrow> length fvs = 1 \<and> h (utf8_lossy (fst (hd fvs))) = None)"

lemma wp_hset_existing:
  assumes rep: "coll_rep env (m(mkey env key \<mapsto> b)) key b v (hash_data h) (card (dom h))" "finite (dom h)"
    and meta: "if expired then b = encode_txnkv_hash_meta_value (KEY_ENCODER env) ttl v
        (config_meta_key_number_or_default (SERVER_CONFIG env)) else m (mkey env key) = Some b"
    and args: "hset_args h is_nx fvs"
    and Q: "\<And>m'. \<lbrakk>coll_rep env m' key b v (hash_data (hset_map fvs h)) (card (dom (hset_map fvs h)));
        others_same (KEY_ENCODER env) key m m'\<rbrakk> \<Longrightarrow> Q (Done (Inr (of_nat (length fvs)))) (db, (sn, m', True) # ts)"
    and err: "\<And>e m'. e \<in> F \<Longrightarrow> Q (Done (Inl (TikvClient e))) (db, (sn, m', True) # ts)"
  shows "wp F (hset_existing env key fvs is_nx idx ttl v expired) Q (db, (sn, m, True) # ts)"
proof -
  let ?fs = "map (utf8_lossy \<circ> fst) fvs"
  let ?ks = "map (\<lambda>kv. dkey env key v 104 (utf8_lossy (fst kv))) fvs"
  let ?finish = "if expired then put_hash_meta env key ttl v (Return (of_nat (length fvs))) else Return (of_nat (length fvs))"
  have distinct: "distinct ?fs" using args by (simp add: hset_args_def)
  have finish: "wp F (put_fields env key v fvs (update_sub_meta env key v idx added_count ?finish)) Q (db, (sn, m, True) # ts)"
    if "of_nat (card (dom (hset_map fvs h))) = of_nat (card (dom h)) + added_count" for added_count
    by (rule wp_hset_finish [OF rep(1) meta that]) (use Q err in \<open>simp_all add: wp_simps\<close>)
  show ?thesis
  proof (cases is_nx)
    case True
    then have none: "length fvs = 1" "h (utf8_lossy (fst (hd fvs))) = None" using args by (simp_all add: hset_args_def)
    then have "card {f \<in> set ?fs. h f \<noteq> None} = 0" by (cases fvs) auto
    then have "card (dom (hset_map fvs h)) = card (dom h) + 1"
      using card_hset_map [OF rep(2) distinct] none(1) by linarith
    then show ?thesis using finish [of 1] True by (simp add: hset_existing_def Let_def)
  next
    case False
    have ks: "distinct ?ks" using distinct by (simp add: distinct_map inj_on_def)
    have "wp F (put_fields env key v fvs (update_sub_meta env key v idx
        (of_nat (count_unique_keys ?ks) - of_nat (length pairs)) ?finish)) Q (db, (sn, m, True) # ts)"
      if "batch_answer m ?ks pairs" for pairs
    proof (rule finish)
      have "m (dkey env key v 104 f) = h f" for f using rep(1) by (simp add: coll_rep_def hash_data_def)
      then have "{k \<in> set ?ks. m k \<noteq> None} = dkey env key v 104 ` {f \<in> set ?fs. h f \<noteq> None}" by auto
      then have "length pairs = card {f \<in> set ?fs. h f \<noteq> None}"
        using batch_answer_length(2) [OF that ks] by (simp add: card_image inj_on_def)
      moreover have "count_unique_keys ?ks = length fvs" using distinct_card [OF ks] by (simp add: count_unique_keys_def)
      ultimately have eq: "card (dom (hset_map fvs h)) + length pairs = card (dom h) + count_unique_keys ?ks"
        using card_hset_map [OF rep(2) distinct] by simp
      show "of_nat (card (dom (hset_map fvs h))) =
          of_nat (card (dom h)) + (of_nat (count_unique_keys ?ks) - of_nat (length pairs) :: i64)"
        using arg_cong [OF eq, of "of_nat :: nat \<Rightarrow> i64"] by (simp add: algebra_simps)
    qed
    then show ?thesis using False err by (simp add: hset_existing_def Let_def wp_simps)
  qed
qed

lemma hash_stateI:
  assumes "coll_rep env m key (encode_txnkv_hash_meta_value (KEY_ENCODER env) ttl v i) v (hash_data h) (card (dom h))"
    and "finite (dom h)" "h \<noteq> Map.empty" "card (dom h) < 2 ^ 63"
  shows "hash_state env m key ttl h"
  using assms by (auto simp: hash_state_def hash_rep_def)

lemma card_hset_le:
  assumes "finite (dom h)" "card (dom h) + length fvs < 2 ^ 63"
  shows "card (dom (hset_map fvs h)) < 2 ^ 63"
proof -
  have "card (dom (hset_map fvs h)) \<le> card (dom h) + card (set (map (utf8_lossy \<circ> fst) fvs))"
    by (simp only: dom_hset_map card_Un_le)
  also have "\<dots> \<le> card (dom h) + length fvs" using card_length [of "map (utf8_lossy \<circ> fst) fvs"] by simp
  finally show ?thesis using assms(2) by linarith
qed

lemma hset_live:
  assumes rep: "hash_rep env m key ttl v h" "\<not> key_is_expired env ttl"
    and args: "hset_args h is_nx fvs" "card (dom h) + length fvs < 2 ^ 63"
  shows "body_spec F UNIV (hset_body env key fvs is_nx idx) m
    (\<lambda>r m'. r = Inr (of_nat (length fvs)) \<and> hash_state env m' key ttl (hset_map fvs h) \<and> others_same (KEY_ENCODER env) key m m')"
  using rep(1)
proof (rule hash_repE)
  fix i assume h: "coll_rep env m key (encode_txnkv_hash_meta_value (KEY_ENCODER env) ttl v i) v (hash_data h) (card (dom h))"
    "finite (dom h)"
  let ?b = "encode_txnkv_hash_meta_value (KEY_ENCODER env) ttl v i"
  let ?Q = "\<lambda>db sn ts. body_post F db sn ts UNIV
    (\<lambda>r m'. r = Inr (of_nat (length fvs)) \<and> hash_state env m' key ttl (hset_map fvs h) \<and> others_same (KEY_ENCODER env) key m m')"
  have meta: "m (mkey env key) = Some ?b" using h(1) by (simp add: coll_rep_def)
  then have "m(mkey env key \<mapsto> ?b) = m" by (simp add: fun_upd_idem)
  then have existing: "wp F (hset_existing env key fvs is_nx idx ttl v False) (?Q db sn ts) (db, (sn, m, True) # ts)" for db sn ts
    using h meta args card_hset_le [OF h(2) args(2)] hset_map_ne [of fvs h]
    by (intro wp_hset_existing [where b = ?b]) (auto simp: wp_simps hset_args_def intro!: hash_stateI)
  have nx: "\<exists>kv. fvs = [kv] \<and> h (utf8_lossy (fst kv)) = None" if is_nx
    using args(1) that by (cases fvs) (auto simp: hset_args_def)
  show ?thesis
  proof (rule body_specI)
    fix db sn ts
    show "wp F (hset_body env key fvs is_nx idx) (?Q db sn ts) (db, (sn, m, False) # ts)"
      using existing rep(2) nx hash_rep_reads(2) [OF rep(1)]
      by (auto simp: hset_body_def hash.wp_with_meta [where m = m, OF meta] wp_simps)
  qed
qed

lemma hset_live_nx:
  assumes rep: "hash_rep env m key ttl v h" "\<not> key_is_expired env ttl" and "h (utf8_lossy f) \<noteq> None"
  shows "body_spec F UNIV (hset_body env key ((f, x) # fvs) True idx) m (\<lambda>r m'. r = Inr 0 \<and> m' = m)"
proof -
  obtain i where meta: "m (mkey env key) = Some (encode_txnkv_hash_meta_value (KEY_ENCODER env) ttl v i)"
    using hash_rep_reads(1) [OF rep(1)] ..
  show ?thesis using rep(2) assms(3) hash_rep_reads(2) [OF rep(1)]
    by (auto simp: body_spec_def hset_body_def hash.wp_with_meta [where m = m, OF meta] wp_simps)
qed

text \<open>A new hash.\<close>

lemma wp_hset_new:
  assumes new: "no_key env m key" "async_deletion_enabled_or_default (SERVER_CONFIG env)" "next_version env m key = Some v"
    and args: "fvs \<noteq> []" "length fvs < 2 ^ 63"
    and Q: "\<And>m'. \<lbrakk>hash_state env m' key 0 (hset_map fvs Map.empty); others_same (KEY_ENCODER env) key m m'\<rbrakk> \<Longrightarrow>
        Q (Done (Inr (of_nat (length fvs)))) (db, (sn, m', True) # ts)"
    and err: "\<And>e m'. e \<in> F \<Longrightarrow> Q (Done (Inl (TikvClient e))) (db, (sn, m', True) # ts)"
  shows "wp F (hset_new env key fvs idx v) Q (db, (sn, m, True) # ts)"
proof -
  let ?b = "encode_txnkv_hash_meta_value (KEY_ENCODER env) 0 v (config_meta_key_number_or_default (SERVER_CONFIG env))"
  let ?ks = "map (\<lambda>kv. dkey env key v 104 (utf8_lossy (fst kv))) fvs"
  let ?h = "hset_map fvs Map.empty"
  let ?m = "(fields_put env key v fvs m)(mkey env key \<mapsto> ?b, skey env key v idx \<mapsto> u64_to_be_bytes (of_nat (count_unique_keys ?ks)))"
  have "set ?ks = dkey env key v 104 ` dom ?h" by auto
  then have count: "count_unique_keys ?ks = card (dom ?h)"
    by (simp add: count_unique_keys_def card_image inj_on_def del: set_map dom_hset_map)
  have "(\<lambda>_. Map.empty)(104 := map_put (field_pairs fvs) Map.empty) = hash_data ?h"
    by (simp add: hash_data_def hset_map_def fun_eq_iff)
  note first = coll_rep_first [OF new, of 104 "field_pairs fvs" ?b idx "count_unique_keys ?ks", unfolded this]
  have "hash_state env ?m key 0 ?h"
    by (rule hash_stateI [of env ?m key 0 v]) (use first(1) count args hset_map_ne card_hset_le [of Map.empty fvs] in auto)
  moreover have "others_same (KEY_ENCODER env) key m ?m" using first(2) by simp
  ultimately show ?thesis
    unfolding hset_new_def Let_def put_hash_meta_def
    by (intro wp_put_fields) (use Q err in \<open>simp_all add: wp_simps\<close>)
qed

lemma hset_absent:
  assumes "no_key env m key" "async_deletion_enabled_or_default (SERVER_CONFIG env)" "fvs \<noteq> []" "length fvs < 2 ^ 63"
  shows "body_spec F UNIV (hset_body env key fvs is_nx idx) m
    (\<lambda>r m'. case next_version env m key of
       None \<Rightarrow> r = Inl KEY_VERSION_EXHUSTED_ERR
     | Some v \<Rightarrow> r = Inr (of_nat (length fvs)) \<and> hash_state env m' key 0 (hset_map fvs Map.empty) \<and>
         others_same (KEY_ENCODER env) key m m')"
    (is "body_spec F UNIV _ m ?R")
proof (rule body_specI)
  fix db sn ts
  have none: "m (mkey env key) = None" using assms(1) by (simp add: no_key_def)
  have "wp F (call (get_version_for_new env key) (\<lambda>version. Lock (hset_new env key fvs idx version)))
      (body_post F db sn ts UNIV ?R) (db, (sn, m, False) # ts)"
  proof (rule wp_new_version [OF assms(1)])
    fix v assume "next_version env m key = Some v"
    then show "wp F (Lock (hset_new env key fvs idx v)) (body_post F db sn ts UNIV ?R) (db, (sn, m, False) # ts)"
      using assms by (auto simp: wp_simps intro!: wp_hset_new)
  qed (simp_all add: wp_simps)
  then show "wp F (hset_body env key fvs is_nx idx) (body_post F db sn ts UNIV ?R) (db, (sn, m, False) # ts)"
    by (simp add: hset_body_def wp_with_meta_absent [where m = m, OF none] wp_simps)
qed

text \<open>\<^verbatim>\<open>HSET\<close> on an expired hash: the old hash goes, the new one gets its time to live, which is over.\<close>

lemma hset_expired:
  assumes rep: "hash_rep env m key ttl v h" "key_is_expired env ttl"
    and "TIKV_TXN_CLIENTS env" "async_deletion_enabled_or_default (SERVER_CONFIG env)"
    and args: "hset_args Map.empty is_nx fvs" "length fvs < 2 ^ 63"
  shows "body_spec F UNIV (hset_body env key fvs is_nx idx) m
    (\<lambda>r m'. r = Inl KEY_VERSION_EXHUSTED_ERR \<or> r = Inr (of_nat (length fvs)) \<and>
       hash_state env m' key ttl (hset_map fvs Map.empty) \<and> others_same (KEY_ENCODER env) key m m')"
    (is "body_spec F UNIV _ m ?R")
  using rep(1)
proof (rule hash_repE)
  fix i assume h: "coll_rep env m key (encode_txnkv_hash_meta_value (KEY_ENCODER env) ttl v i) v (hash_data h) (card (dom h))"
    "hash_sized (hash_data h) (card (dom h))"
  then have meta: "m (mkey env key) = Some (encode_txnkv_hash_meta_value (KEY_ENCODER env) ttl v i)" by (simp add: coll_rep_def)
  have new: "wp F (call (get_version_for_new env key) (\<lambda>version. Lock (hset_existing env key fvs is_nx idx ttl version True)))
      (body_post F db sn ts UNIV ?R) (db, (sn, m', False) # ts)"
    if m': "no_key env m' key" "others_same (KEY_ENCODER env) key m m'" for m' db sn ts
  proof (rule wp_new_version [OF m'(1)])
    fix v' assume v': "next_version env m' key = Some v'"
    let ?b = "encode_txnkv_hash_meta_value (KEY_ENCODER env) ttl v' (config_meta_key_number_or_default (SERVER_CONFIG env))"
    have "coll_rep env (m'(mkey env key \<mapsto> ?b)) key ?b v' (hash_data Map.empty) (card (dom (Map.empty :: bytes \<rightharpoonup> bytes)))"
      using coll_rep_new [OF m'(1) assms(4) v', of ?b] by (simp add: hash_data_def [abs_def])
    then have "wp F (hset_existing env key fvs is_nx idx ttl v' True) (body_post F db sn ts UNIV ?R) (db, (sn, m', True) # ts)"
      using args card_hset_le [of Map.empty fvs] hset_map_ne [of fvs Map.empty] m'(2)
      by (intro wp_hset_existing [where b = ?b and h = Map.empty])
        (auto simp: wp_simps hset_args_def intro!: hash_stateI others_same_trans [OF m'(2)])
    then show "wp F (Lock (hset_existing env key fvs is_nx idx ttl v' True)) (body_post F db sn ts UNIV ?R) (db, (sn, m', False) # ts)"
      by (simp add: wp_simps)
  qed (simp_all add: wp_simps)
  show ?thesis
  proof (rule body_specI)
    fix db sn ts
    have "wp F (hash_expire_then env key (call (get_version_for_new env key) (\<lambda>version.
        Lock (hset_existing env key fvs is_nx idx ttl version True)))) (body_post F db sn ts UNIV ?R) (db, (sn, m, True) # ts)"
      by (rule hash.wp_expire_then [OF h rep(2) assms(3) new]) (auto simp: wp_simps)
    then show "wp F (hset_body env key fvs is_nx idx) (body_post F db sn ts UNIV ?R) (db, (sn, m, False) # ts)"
      using rep(2) by (simp add: hset_body_def hash.wp_with_meta [where m = m, OF meta] wp_simps)
  qed
qed

section \<open>Removing fields\<close>

lemma wp_hdel_end:
  assumes rep: "coll_rep env m key (encode_txnkv_hash_meta_value (KEY_ENCODER env) ttl v i) v (hash_data (h |` (- S))) (card (dom h))"
    and h: "finite (dom h)" "0 < card (dom h)" "card (dom h) < 2 ^ 63" and conn: "TIKV_TXN_CLIENTS env"
    and Q: "\<And>m'. \<lbrakk>hash_state env m' key ttl (h |` (- S)); others_same (KEY_ENCODER env) key m m'\<rbrakk> \<Longrightarrow>
        Q (Done (Inr (of_nat (card (dom h \<inter> S)) :: i64))) (db, (sn, m', True) # ts)"
    and err: "\<And>e m' h. e \<in> F \<Longrightarrow> Q (Done (Inl (TikvClient e))) (db, (sn, m', h) # ts)"
  shows "wp F (call (txnkv_sum_key_size env DT_Hash True key v) (\<lambda>old_size. Lock (
      shrink_collection clear_meta_first env key v idx old_size (of_nat (card (dom h \<inter> S))) (
      Return (of_nat (card (dom h \<inter> S))))))) Q (db, (sn, m, False) # ts)"
proof (rule hash.wp_sum_key_size [OF rep h(2,3) conn])
  let ?h = "h |` (- S)"
  have empty: "?h = Map.empty" if "card (dom ?h) = 0"
  proof -
    have "dom ?h = {}" using that h(1) by auto
    then show ?thesis by (simp only: dom_eq_empty_conv)
  qed
  have "wp F (shrink_collection clear_meta_first env key v idx (of_nat (card (dom h))) (of_nat (card (dom h \<inter> S))) (
      Return (of_nat (card (dom h \<inter> S))))) Q (db, (sn, m, True) # ts)"
  proof (rule wp_shrink_collection [OF rep h(3) card_split [OF h(1), of S]])
    fix m' assume pos: "0 < card (dom ?h)" and same: "others_same (KEY_ENCODER env) key m m'"
      and rep': "coll_rep env m' key (encode_txnkv_hash_meta_value (KEY_ENCODER env) ttl v i) v (hash_data ?h) (card (dom ?h))"
    have "?h \<noteq> Map.empty" using pos by (metis card.empty dom_empty less_irrefl)
    moreover have "card (dom ?h) < 2 ^ 63" using h(3) card_split [OF h(1), of S] by linarith
    ultimately have "hash_state env m' key ttl ?h" using h(1) by (intro hash_stateI [OF rep']) auto
    then show "wp F (Return (of_nat (card (dom h \<inter> S)))) Q (db, (sn, m', True) # ts)"
      using same Q by (simp add: wp_simps)
  next
    show "hash_data ?h = (\<lambda>_. Map.empty)" if "card (dom ?h) = 0"
      using empty [OF that] by (simp add: hash_data_def [abs_def])
  qed (use Q err empty in \<open>auto simp: wp_simps hash_state_def\<close>)
  then show "wp F (Lock (shrink_collection clear_meta_first env key v idx (of_nat (card (dom h))) (of_nat (card (dom h \<inter> S))) (
      Return (of_nat (card (dom h \<inter> S)))))) Q (db, (sn, m, False) # ts)" by simp
qed (use err in auto)

lemma hdel_live:
  assumes rep: "hash_rep env m key ttl v h" "\<not> key_is_expired env ttl" and conn: "TIKV_TXN_CLIENTS env"
    and "distinct flds" and number: "config_meta_key_number_or_default (SERVER_CONFIG env) \<noteq> 0"
  shows "body_spec F UNIV (hdel_body env key flds) m
    (\<lambda>r m'. r = Inr (of_nat (card (dom h \<inter> set flds))) \<and> hash_state env m' key ttl (h |` (- set flds)) \<and>
       others_same (KEY_ENCODER env) key m m')"
    (is "body_spec F UNIV _ m ?R")
  using rep(1)
proof (rule hash_repE)
  fix i assume h: "coll_rep env m key (encode_txnkv_hash_meta_value (KEY_ENCODER env) ttl v i) v (hash_data h) (card (dom h))"
    "0 < card (dom h)" "card (dom h) < 2 ^ 63" "finite (dom h)"
  then have meta: "m (mkey env key) = Some (encode_txnkv_hash_meta_value (KEY_ENCODER env) ttl v i)" by (simp add: coll_rep_def)
  let ?ks = "map (dkey env key v 104) flds"
  let ?m = "m |` (- dkey env key v 104 ` set flds)" and ?h = "h |` (- set flds)"
  have "(hash_data h)(104 := hash_data h 104 |` (- set flds)) = hash_data ?h" by (auto simp: hash_data_def fun_eq_iff)
  then have rep': "coll_rep env ?m key (encode_txnkv_hash_meta_value (KEY_ENCODER env) ttl v i) v (hash_data ?h) (card (dom h))"
    using coll_rep_remove [OF h(1), of 104 "set flds"] by simp
  have pairs: "length kvs = card (dom h \<inter> set flds)" "m |` (- fst ` set kvs) = ?m" if "batch_answer m ?ks kvs" for kvs
    using member_answer [OF h(1) _ assms(4) that] by (simp_all add: hash_data_def)
  show ?thesis
  proof (rule body_specI)
    fix db sn ts
    let ?Q = "body_post F db sn ts UNIV ?R"
    let ?last = "\<lambda>deleted idx. call (txnkv_sum_key_size env DT_Hash True key v) (\<lambda>old_size. Lock (
          shrink_collection clear_meta_first env key v idx old_size deleted (Return deleted)))"
    let ?finish = "\<lambda>deleted. gen_next_meta_index env (\<lambda>idx. Unlock (?last deleted idx))"
    have "wp F (?last (of_nat (card (dom h \<inter> set flds))) idx) ?Q (db, (sn, ?m, False) # ts)" for idx
      by (rule wp_hdel_end [OF rep' h(4,2,3) conn])
        (use others_same_trans [OF others_same_remove [of env key m v 104 "set flds"]] in \<open>simp_all add: wp_simps\<close>)
    then have last: "wp F (?finish (of_nat (card (dom h \<inter> set flds)))) ?Q (db, (sn, ?m, True) # ts)"
      using number by (simp add: gen_next_meta_index_def Let_def wp_simps)
    have "wp F (delete_pairs kvs 0 ?finish) ?Q (db, (sn, m, True) # ts)" if "batch_answer m ?ks kvs" for kvs
      by (rule wp_delete_pairs, unfold pairs [OF that] add_0, rule last) (simp add: wp_simps)
    then show "wp F (hdel_body env key flds) ?Q (db, (sn, m, False) # ts)"
      using rep(2) by (simp add: hdel_body_def hash.wp_with_meta [where m = m, OF meta] wp_simps)
  qed
qed

section \<open>Counting\<close>

lemma wp_hincrby_put [wp_simps]:
  "wp F (hincrby_put k step x) Q (db, (sn, m, True) # ts) \<longleftrightarrow>
   (\<forall>e\<in>F. Q (Done (Inl (TikvClient e))) (db, (sn, m, True) # ts)) \<and>
   Q (Done (Inr (x + step))) (db, (sn, m(k \<mapsto> i64_to_string (x + step)), True) # ts)"
  by (simp add: hincrby_put_def Let_def wp_simps)

lemma hash_data_put:
  "coll_rep env m key b v (hash_data h) n \<Longrightarrow>
   coll_rep env (m(dkey env key v 104 f \<mapsto> y)) key b v (hash_data (h(f \<mapsto> y))) n"
proof -
  assume rep: "coll_rep env m key b v (hash_data h) n"
  have "(hash_data h)(104 := (hash_data h 104)(f \<mapsto> y)) = hash_data (h(f \<mapsto> y))"
    by (simp add: hash_data_def fun_eq_iff)
  then show ?thesis using coll_rep_put [OF rep, of 104 f "Some y"] by simp
qed

lemma hincrby_live:
  assumes rep: "hash_rep env m key ttl v h" "\<not> key_is_expired env ttl" and f: "h f = Some val"
  shows "body_spec F UNIV (hincrby_body env in_txn key f step idx) m
    (\<lambda>r m'. case parse_i64 (utf8_lossy val) of
       None \<Rightarrow> r = Inl REDIS_VALUE_IS_NOT_INTEGER_ERR
     | Some x \<Rightarrow> r = Inr (x + step) \<and> hash_state env m' key ttl (h(f \<mapsto> i64_to_string (x + step))) \<and>
         others_same (KEY_ENCODER env) key m m')"
  using rep(1)
proof (rule hash_repE)
  fix i assume h: "coll_rep env m key (encode_txnkv_hash_meta_value (KEY_ENCODER env) ttl v i) v (hash_data h) (card (dom h))"
    "card (dom h) < 2 ^ 63" "finite (dom h)"
  then have meta: "m (mkey env key) = Some (encode_txnkv_hash_meta_value (KEY_ENCODER env) ttl v i)" by (simp add: coll_rep_def)
  have "dom (h(f \<mapsto> y)) = dom h" for y using f by auto
  then have "hash_state env (m(dkey env key v 104 f \<mapsto> y)) key ttl (h(f \<mapsto> y))" for y
    using hash_data_put [OF h(1), of f y] h(2,3) by (intro hash_stateI [of env _ key ttl v i]) auto
  then show ?thesis using rep(2) f hash_rep_reads(2) [OF rep(1), of f]
    by (auto simp: body_spec_def hincrby_body_def hincrby_existing_def Let_def hash.wp_with_meta [where m = m, OF meta]
        wp_simps others_same_upd split: option.splits)
qed

lemma hincrby_absent:
  assumes new: "no_key env m key" "async_deletion_enabled_or_default (SERVER_CONFIG env)"
  shows "body_spec F UNIV (hincrby_body env in_txn key f step idx) m
    (\<lambda>r m'. case next_version env m key of
       None \<Rightarrow> r = Inl KEY_VERSION_EXHUSTED_ERR
     | Some v \<Rightarrow> r = Inr step \<and> hash_state env m' key 0 [f \<mapsto> i64_to_string step] \<and> others_same (KEY_ENCODER env) key m m')"
    (is "body_spec F UNIV _ m ?R")
proof (rule body_specI)
  fix db sn ts
  let ?b = "\<lambda>v. encode_txnkv_hash_meta_value (KEY_ENCODER env) 0 v (config_meta_key_number_or_default (SERVER_CONFIG env))"
  have none: "m (mkey env key) = None" using new(1) by (simp add: no_key_def)
  have state: "hash_state env (m(mkey env key \<mapsto> ?b v, skey env key v idx \<mapsto> u64_to_be_bytes 1,
      dkey env key v 104 f \<mapsto> y)) key 0 [f \<mapsto> y]" if v: "next_version env m key = Some v" for v y
  proof -
    have "m (skey env key v idx) = None"
      using next_version_fresh(1) [OF new(2) _ v] new(1) by (simp add: no_key_def)
    then have m: "m(mkey env key \<mapsto> ?b v, skey env key v idx \<mapsto> u64_to_be_bytes 1) =
        add_count env key v idx 1 (m(mkey env key \<mapsto> ?b v))" by (simp add: add_count_def sub_size_def)
    have "coll_rep env (m(mkey env key \<mapsto> ?b v)) key (?b v) v (hash_data Map.empty) 0"
      using coll_rep_new [OF new v, of "?b v"] by (simp add: hash_data_def [abs_def])
    then have "coll_rep env (add_count env key v idx 1 (m(mkey env key \<mapsto> ?b v))) key (?b v) v (hash_data Map.empty) 1"
      by (rule coll_rep_add) simp
    note put = hash_data_put [OF this, of f y]
    show ?thesis unfolding m
      by (rule hash_stateI [of env _ key 0 v "config_meta_key_number_or_default (SERVER_CONFIG env)"])
        (use put in \<open>simp_all del: fun_upd_apply\<close>)
  qed
  have "wp F (call (get_version_for_new env key) (\<lambda>version. Lock (
      put_hash_meta env key 0 version (
      txn_put (encode_txnkv_sub_meta_key (KEY_ENCODER env) key version idx) (u64_to_be_bytes 1) (
      hincrby_put (encode_txnkv_hash_data_key (KEY_ENCODER env) key f version) step 0)))))
      (body_post F db sn ts UNIV ?R) (db, (sn, m, False) # ts)"
    by (rule wp_new_version [OF new(1)])
      (use state in \<open>simp_all add: put_hash_meta_def wp_simps others_same_upd del: fun_upd_apply\<close>)
  then show "wp F (hincrby_body env in_txn key f step idx) (body_post F db sn ts UNIV ?R) (db, (sn, m, False) # ts)"
    by (simp add: hincrby_body_def wp_with_meta_absent [where m = m, OF none] wp_simps)
qed

text \<open>A new field of an existing hash: a sub-meta key that is there keeps its value, and the counted size stays.\<close>

lemma hincrby_new_field:
  assumes rep: "coll_rep env m key (encode_txnkv_hash_meta_value (KEY_ENCODER env) ttl v i) v (hash_data h) n" "h f = None"
    and "\<not> key_is_expired env ttl" "m (skey env key v idx) \<noteq> None"
  shows "body_spec F UNIV (hincrby_body env in_txn key f step idx) m
    (\<lambda>r m'. r = Inr step \<and>
       coll_rep env m' key (encode_txnkv_hash_meta_value (KEY_ENCODER env) ttl v i) v (hash_data (h(f \<mapsto> i64_to_string step))) n)"
proof -
  have meta: "m (mkey env key) = Some (encode_txnkv_hash_meta_value (KEY_ENCODER env) ttl v i)" and
    "m (dkey env key v 104 f) = None" using rep by (simp_all add: coll_rep_def hash_data_def)
  obtain b where b: "m (skey env key v idx) = Some b" using assms(4) by auto
  then obtain s where s: "u64_from_be_bytes b = Some s" using rep(1) by (fastforce simp: coll_rep_def counted_def)
  then have "m(skey env key v idx \<mapsto> u64_to_be_bytes s) = add_count env key v idx 0 m"
    using b by (simp add: add_count_def sub_size_def)
  then have "coll_rep env (m(skey env key v idx \<mapsto> u64_to_be_bytes s)) key
      (encode_txnkv_hash_meta_value (KEY_ENCODER env) ttl v i) v (hash_data h) n"
    using coll_rep_add [OF rep(1), of n 0 idx] by simp
  note put = hash_data_put [OF this, of f "i64_to_string step"]
  show ?thesis using assms(3) b s put \<open>m (dkey env key v 104 f) = None\<close>
    by (simp add: body_spec_def hincrby_body_def hincrby_existing_def Let_def hash.wp_with_meta [where m = m, OF meta] wp_simps
        del: fun_upd_apply)
qed

section \<open>The commands\<close>

text \<open>The hash a client sees under a key.\<close>

definition hash_at :: "env \<Rightarrow> store \<Rightarrow> bytes \<Rightarrow> (bytes \<rightharpoonup> bytes) \<Rightarrow> bool" where
  "hash_at env m key h \<longleftrightarrow> (\<exists>ttl. \<not> key_is_expired env ttl \<and> hash_state env m key ttl h)"

lemma hash_atE:
  assumes "hash_at env m key h"
  obtains (absent) "h = Map.empty" "no_key env m key"
  | (live) ttl v where "hash_rep env m key ttl v h" "\<not> key_is_expired env ttl" "h \<noteq> Map.empty"
  using assms by (auto simp: hash_at_def hash_state_def split: if_splits)

lemma hash_read_bodies:
  assumes "hash_at env m key h" "TIKV_TXN_CLIENTS env"
  shows "body_spec F UNIV (hget_body env key f) m (\<lambda>r m'. r = Inr (bulk_or_null (h f)) \<and> m' = m)"
    and "body_spec F UNIV (hstrlen_body env key f) m
      (\<lambda>r m'. r = Inr (Integer (case h f of None \<Rightarrow> 0 | Some val \<Rightarrow> of_nat (length val))) \<and> m' = m)"
    and "body_spec F UNIV (hexists_body env key f) m (\<lambda>r m'. r = Inr (Integer (if h f = None then 0 else 1)) \<and> m' = m)"
    and "body_spec F UNIV (hmget_body env key flds) m (\<lambda>r m'. r = Inr (Array (map (bulk_or_null \<circ> h) flds)) \<and> m' = m)"
    and "body_spec F UNIV (hlen_body env key) m (\<lambda>r m'. r = Inr (Integer (of_nat (card (dom h)))) \<and> m' = m)"
    and "card (dom h) \<le> u32_MAX \<Longrightarrow> body_spec F UNIV (hgetall_body env key with_field with_value) m
      (\<lambda>r m'. r = Inr (Array (concat (map (field_frames h with_field with_value) (sorted_list_of_set (dom h))))) \<and> m' = m)"
  using assms(1)
  by (cases rule: hash_atE;
      use hash_live_reads hlen_live [OF _ _ assms(2)] hgetall_live hash_absent_reads in
        \<open>simp add: bulk_or_null_def o_def map_replicate_const\<close>)+

text \<open>(C18) The reads of a hash, on any key that holds a live hash or nothing: \<^verbatim>\<open>HGET\<close>, \<^verbatim>\<open>HSTRLEN\<close> and \<^verbatim>\<open>HEXISTS\<close> answer for a
  field, \<^verbatim>\<open>HMGET\<close> for its fields in their order, \<^verbatim>\<open>HLEN\<close> with the number of fields, \<^verbatim>\<open>HGETALL\<close>, \<^verbatim>\<open>HKEYS\<close> and \<^verbatim>\<open>HVALS\<close> with
  all fields in the order of their bytes; nothing that is stored changes.\<close>

theorem hash_reads:
  assumes "client_ready api data snap view F env w" "hash_at env (data (cluster w)) key h"
  shows "completes api data F env (do_async_txnkv_hget env False key f) w
      (\<lambda>reply m. reply = bulk_or_null (h f) \<and> m = data (cluster w)) \<and>
    completes api data F env (do_async_txnkv_hstrlen env False key f) w
      (\<lambda>reply m. reply = Integer (case h f of None \<Rightarrow> 0 | Some val \<Rightarrow> of_nat (length val)) \<and> m = data (cluster w)) \<and>
    completes api data F env (do_async_txnkv_hexists env False key f) w
      (\<lambda>reply m. reply = Integer (if h f = None then 0 else 1) \<and> m = data (cluster w)) \<and>
    completes api data F env (do_async_txnkv_hmget env False key flds) w
      (\<lambda>reply m. reply = Array (map (bulk_or_null \<circ> h) flds) \<and> m = data (cluster w)) \<and>
    completes api data F env (do_async_txnkv_hlen env False key) w
      (\<lambda>reply m. reply = Integer (of_nat (card (dom h))) \<and> m = data (cluster w)) \<and>
    (card (dom h) \<le> u32_MAX \<longrightarrow>
      completes api data F env (do_async_txnkv_hgetall env False key with_field with_value) w
        (\<lambda>reply m. reply = Array (concat (map (field_frames h with_field with_value) (sorted_list_of_set (dom h)))) \<and>
           m = data (cluster w)))"
  unfolding do_async_txnkv_hget_def do_async_txnkv_hstrlen_def do_async_txnkv_hexists_def do_async_txnkv_hmget_def
    do_async_txnkv_hlen_def do_async_txnkv_hgetall_def
  by (intro conjI impI; rule completes_exec_frame [OF assms(1)], rule hash_read_bodies [OF assms(2) ready_connected [OF assms(1)]])
    simp_all

text \<open>A store with one hash.\<close>

definition hash_store :: "env \<Rightarrow> bytes \<Rightarrow> u64 \<Rightarrow> kv_pair list \<Rightarrow> kv_pair list" where
  "hash_store env key ttl fvs =
     coll_store env key (encode_txnkv_hash_meta_value (KEY_ENCODER env) ttl 0 0) 0 (map (\<lambda>(f, x). ((104, f), x)) fvs) (card (fst ` set fvs))"

lemma hash_store_rep:
  assumes "fvs \<noteq> []" "length fvs < 2 ^ 63"
  shows "hash_rep env (map_of (hash_store env key ttl fvs)) key ttl 0 (map_of fvs)"
proof -
  have data: "(\<lambda>t r. map_of (map (\<lambda>(f, x). ((104, f), x)) fvs) (t, r)) = hash_data (map_of fvs)"
  proof (intro ext)
    fix t r show "map_of (map (\<lambda>(f, x). ((104, f), x)) fvs) (t, r) = hash_data (map_of fvs) t r"
      by (induction fvs) (auto simp: hash_data_def split: if_splits)
  qed
  have dom: "dom (map_of fvs) = fst ` set fvs" by (rule dom_map_of_conv_image_fst)
  have "card (fst ` set fvs) \<le> length fvs" using card_length [of "map fst fvs"] by simp
  then have "card (fst ` set fvs) < 2 ^ 63" using assms(2) by linarith
  moreover have "map_of fvs \<noteq> Map.empty" using assms(1) by simp
  moreover have "coll_rep env (map_of (hash_store env key ttl fvs)) key (encode_txnkv_hash_meta_value (KEY_ENCODER env) ttl 0 0) 0
      (hash_data (map_of fvs)) (card (fst ` set fvs))"
    unfolding hash_store_def data [symmetric] by (rule coll_store_rep) auto
  ultimately show ?thesis unfolding hash_rep_def dom by blast
qed

lemma hash_store_at:
  "fvs \<noteq> [] \<Longrightarrow> length fvs < 2 ^ 63 \<Longrightarrow> hash_at env (map_of (hash_store env key 0 fvs)) key (map_of fvs)"
  using hash_store_rep [of fvs env key 0] by (auto simp: hash_at_def hash_state_def intro!: exI [of _ 0])

theorem hash_reads_witness:
  "completes mem_api mem_data {} env0 (do_async_txnkv_hgetall env0 False [107] True True)
     (mem_world (hash_store env0 [107] 0 [([102], [7]), ([97], [8, 9])]))
     (\<lambda>reply m. reply = Array [Bulk [97], Bulk [8, 9], Bulk [102], Bulk [7]])"
proof -
  let ?fvs = "[([102], [7]), ([97], [8, 9])] :: kv_pair list"
  have at: "hash_at env0 (mem_data (cluster (mem_world (hash_store env0 [107] 0 ?fvs)))) [107] (map_of ?fvs)"
    using hash_store_at [of ?fvs env0 "[107]"] by (simp del: map_of.simps)
  have dom: "dom (map_of ?fvs) = {[97], [102]}" by auto
  have "sorted_list_of_set {[97], [102 :: u8]} = [[97], [102]]" by simp
  then show ?thesis
    using hash_reads [OF mem_ready at, of "[]" "[]" True True] unfolding dom
    by (auto simp: u32_MAX_def field_frames_def elim!: completes_mono simp del: sorted_list_of_set_insert_remove)
qed

text \<open>What \<^verbatim>\<open>HSET\<close>, \<^verbatim>\<open>HMSET\<close> and \<^verbatim>\<open>HSETNX\<close> answer and leave.\<close>

definition hset_post :: "env \<Rightarrow> store \<Rightarrow> bytes \<Rightarrow> u64 \<Rightarrow> (bytes \<rightharpoonup> bytes) \<Rightarrow> kv_pair list \<Rightarrow> bool \<Rightarrow> u64 result \<Rightarrow> store \<Rightarrow> bool" where
  "hset_post env m key ttl h fvs is_nx r m' \<longleftrightarrow>
     (if is_nx \<and> h (utf8_lossy (fst (hd fvs))) \<noteq> None then r = Inr 0 \<and> m' = m
      else if h = Map.empty \<and> next_version env m key = None then r = Inl KEY_VERSION_EXHUSTED_ERR
      else r = Inr (of_nat (length fvs)) \<and> hash_state env m' key (if h = Map.empty then 0 else ttl) (hset_map fvs h) \<and>
        others_same (KEY_ENCODER env) key m m')"

lemma hset_body_spec:
  assumes state: "hash_state env m key ttl h" "\<not> key_is_expired env ttl" and "async_deletion_enabled_or_default (SERVER_CONFIG env)"
    and fvs: "fvs \<noteq> []" "distinct (map (utf8_lossy \<circ> fst) fvs)" "is_nx \<Longrightarrow> length fvs = 1" "card (dom h) + length fvs < 2 ^ 63"
  shows "body_spec F UNIV (hset_body env key fvs is_nx idx) m (hset_post env m key ttl h fvs is_nx)"
proof (cases "h = Map.empty")
  case True
  then show ?thesis using state fvs assms(3)
    by (intro body_spec_mono [OF hset_absent, where H' = UNIV])
      (auto simp: hset_post_def hash_state_def split: option.splits)
next
  case False
  then obtain v where rep: "hash_rep env m key ttl v h" using state(1) by (auto simp: hash_state_def)
  show ?thesis
  proof (cases "is_nx \<and> h (utf8_lossy (fst (hd fvs))) \<noteq> None")
    case True
    then obtain f x where "fvs = [(f, x)]" using fvs(3) by (cases fvs) auto
    then show ?thesis using True hset_live_nx [OF rep state(2), of f F x "[]" idx]
      by (auto simp: hset_post_def elim!: body_spec_mono)
  next
    case no: False
    then have "hset_args h is_nx fvs" using fvs by (auto simp: hset_args_def)
    show ?thesis
      by (rule body_spec_mono [OF hset_live [OF rep state(2) \<open>hset_args h is_nx fvs\<close> fvs(4)]])
        (use False no in \<open>auto simp: hset_post_def\<close>)
  qed
qed

text \<open>(C19) \<^verbatim>\<open>HSET\<close>, \<^verbatim>\<open>HMSET\<close> and \<^verbatim>\<open>HSETNX\<close> on a live hash or on nothing, with different fields: the fields get their values, the
  other fields, the time to live and all other keys stay; the answer is the number of pairs that were given, also of those
  that replaced a value. \<^verbatim>\<open>HSETNX\<close> of a field that exists writes nothing. When all versions of a new key still wait for the
  garbage collector, the answer is the error and nothing is written.\<close>

theorem hset_writes:
  assumes "client_ready api data snap view F env w"
    and "hash_state env (data (cluster w)) key ttl h" "\<not> key_is_expired env ttl"
    and "async_deletion_enabled_or_default (SERVER_CONFIG env)" "config_meta_key_number_or_default (SERVER_CONFIG env) \<noteq> 0"
    and "fvs \<noteq> []" "distinct (map (utf8_lossy \<circ> fst) fvs)" "is_nx \<Longrightarrow> length fvs = 1" "card (dom h) + length fvs < 2 ^ 63"
  shows "completes api data F env (do_async_txnkv_hset env False key fvs is_hmset is_nx) w
    (\<lambda>reply m. \<exists>r. hset_post env (data (cluster w)) key ttl h fvs is_nx r m \<and>
       reply = (case r of Inr num \<Rightarrow> if is_hmset then resp_ok else Integer num | Inl e \<Rightarrow> resp_err e))"
  unfolding do_async_txnkv_hset_def
proof (rule completes_exec_idx [OF assms(1,5)])
  show "body_spec F UNIV (hset_body env key fvs is_nx idx) (data (cluster w))
      (hset_post env (data (cluster w)) key ttl h fvs is_nx)" for idx
    by (rule hset_body_spec [OF assms(2-4,6-9)])
next
  fix e m' assume "hset_post env (data (cluster w)) key ttl h fvs is_nx (Inl e) m'"
  then show "\<exists>r. hset_post env (data (cluster w)) key ttl h fvs is_nx r (data (cluster w)) \<and>
      resp_err e = (case r of Inr num \<Rightarrow> if is_hmset then resp_ok else Integer num | Inl e \<Rightarrow> resp_err e)"
    by (intro exI [of _ "Inl e"]) (auto simp: hset_post_def split: if_splits)
qed (auto simp: resp_int_def intro: exI [of _ "Inr _"])

theorem hset_writes_witness:
  "completes mem_api mem_data {} env0 (do_async_txnkv_hset env0 False [107] [([97], [1]), ([98], [2])] False False)
     (mem_world (hash_store env0 [107] 0 [([97], [9])]))
     (\<lambda>reply m. reply = Integer 2 \<and> hash_state env0 m [107] 0 [[97] \<mapsto> [1], [98] \<mapsto> [2]])"
proof -
  have "hash_state env0 (mem_data (cluster (mem_world (hash_store env0 [107] 0 [([97], [9])])))) [107] 0 [[97] \<mapsto> [9]]"
    using hash_store_rep [of "[([97], [9])]" env0 "[107]" 0] by (auto simp: hash_state_def)
  then show ?thesis
    by (rule completes_mono [OF hset_writes [OF mem_ready]])
      (auto simp: utf8_lossy_ascii hset_post_def hset_map_def simp del: fun_upd_apply)
qed

text \<open>(C20) \<^verbatim>\<open>HDEL\<close> of different fields, on a live hash or on nothing: the fields that existed go, the answer is their number,
  and the last one takes the key with it, its counters included.\<close>

theorem hdel_removes:
  assumes "client_ready api data snap view F env w"
    and "hash_state env (data (cluster w)) key ttl h" "\<not> key_is_expired env ttl"
    and "config_meta_key_number_or_default (SERVER_CONFIG env) \<noteq> 0" "distinct flds"
  shows "completes api data F env (do_async_txnkv_hdel env False key flds) w
    (\<lambda>reply m. reply = Integer (of_nat (card (dom h \<inter> set flds))) \<and> hash_state env m key ttl (h |` (- set flds)) \<and>
       others_same (KEY_ENCODER env) key (data (cluster w)) m)"
proof (cases "h = Map.empty")
  case True
  then have none: "no_key env (data (cluster w)) key" using assms(2) by (simp add: hash_state_def)
  show ?thesis unfolding do_async_txnkv_hdel_def
    by (rule completes_exec [OF assms(1) hash_absent_reads(7) [OF none]]) (use True none in \<open>auto simp: hash_state_def resp_int_def\<close>)
next
  case False
  then obtain v where "hash_rep env (data (cluster w)) key ttl v h" using assms(2) by (auto simp: hash_state_def)
  from hdel_live [OF this assms(3) ready_connected [OF assms(1)] assms(5,4)] show ?thesis
    unfolding do_async_txnkv_hdel_def by (rule completes_exec [OF assms(1)]) (auto simp: resp_int_def)
qed

theorem hdel_removes_witness:
  "completes mem_api mem_data {} env0 (do_async_txnkv_hdel env0 False [107] [[98], [97]])
     (mem_world (hash_store env0 [107] 0 [([97], [9])]))
     (\<lambda>reply m. reply = Integer 1 \<and> no_key env0 m [107])"
proof -
  have "hash_state env0 (mem_data (cluster (mem_world (hash_store env0 [107] 0 [([97], [9])])))) [107] 0 [[97] \<mapsto> [9]]"
    using hash_store_rep [of "[([97], [9])]" env0 "[107]" 0] by (auto simp: hash_state_def)
  then show ?thesis
    by (rule completes_mono [OF hdel_removes [OF mem_ready]]) (auto simp: hash_state_def simp del: fun_upd_apply)
qed

text \<open>(C21) \<^verbatim>\<open>HINCRBY\<close> of a field that exists adds to the integer its value stands for, modulo \<open>2\<close> to the power of 64, and answers
  with the sum; a value that is no integer is an error and stays. On a key that does not exist it creates a hash with the
  one field.\<close>

theorem hincrby_adds:
  assumes "client_ready api data snap view F env w"
    and "hash_state env (data (cluster w)) key ttl h" "\<not> key_is_expired env ttl"
    and "async_deletion_enabled_or_default (SERVER_CONFIG env)" "config_meta_key_number_or_default (SERVER_CONFIG env) \<noteq> 0"
    and "h = Map.empty \<or> h f \<noteq> None"
  shows "completes api data F env (do_async_txnkv_hincrby env False key f step) w
    (\<lambda>reply m.
       if h = Map.empty \<and> next_version env (data (cluster w)) key = None then
         reply = resp_err KEY_VERSION_EXHUSTED_ERR \<and> m = data (cluster w)
       else case (case h f of None \<Rightarrow> Some 0 | Some val \<Rightarrow> parse_i64 (utf8_lossy val)) of
         None \<Rightarrow> reply = resp_err REDIS_VALUE_IS_NOT_INTEGER_ERR \<and> m = data (cluster w)
       | Some x \<Rightarrow> reply = Integer (x + step) \<and>
           hash_state env m key (if h = Map.empty then 0 else ttl) (h(f \<mapsto> i64_to_string (x + step))) \<and>
           others_same (KEY_ENCODER env) key (data (cluster w)) m)"
proof (cases "h = Map.empty")
  case True
  then have "no_key env (data (cluster w)) key" using assms(2) by (simp add: hash_state_def)
  then show ?thesis
    unfolding do_async_txnkv_hincrby_def
    by (rule completes_exec_idx [OF assms(1,5) hincrby_absent [OF _ assms(4)]]) (auto simp: True resp_int_def split: option.splits simp del: fun_upd_apply)
next
  case False
  then obtain v val where "hash_rep env (data (cluster w)) key ttl v h" "h f = Some val"
    using assms(2,6) by (auto simp: hash_state_def)
  note live = hincrby_live [OF this(1) assms(3) this(2)]
  show ?thesis
    unfolding do_async_txnkv_hincrby_def
    by (rule completes_exec_idx [OF assms(1,5) live])
      (auto simp: False \<open>h f = Some val\<close> resp_int_def split: option.splits simp del: fun_upd_apply)
qed

theorem hincrby_adds_witness:
  "completes mem_api mem_data {} env0 (do_async_txnkv_hincrby env0 False [107] [97] 5)
     (mem_world (hash_store env0 [107] 0 [([97], i64_to_string 37)]))
     (\<lambda>reply m. reply = Integer 42 \<and> hash_state env0 m [107] 0 [[97] \<mapsto> i64_to_string 42])"
proof -
  have "hash_state env0 (mem_data (cluster (mem_world (hash_store env0 [107] 0 [([97], i64_to_string 37)])))) [107] 0
      [[97] \<mapsto> i64_to_string 37]"
    using hash_store_rep [of "[([97], i64_to_string 37)]" env0 "[107]" 0] by (auto simp: hash_state_def)
  then show ?thesis
    by (rule completes_mono [OF hincrby_adds [OF mem_ready]]) auto
qed

lemma hincrby_new_completes:
  assumes ready: "client_ready api data snap view F env w"
    and rep: "hash_rep env (data (cluster w)) key ttl v h" "\<not> key_is_expired env ttl" "h f = None"
    and number: "config_meta_key_number_or_default (SERVER_CONFIG env) \<noteq> 0"
    and chosen: "data (cluster w) (skey env key v (next_index env w)) \<noteq> None"
  shows "completes api data F env (do_async_txnkv_hincrby env False key f step) w
    (\<lambda>reply m. reply = Integer step \<and>
       (\<exists>i. coll_rep env m key (encode_txnkv_hash_meta_value (KEY_ENCODER env) ttl v i) v (hash_data (h(f \<mapsto> i64_to_string step))) (card (dom h))))"
  using rep(1)
proof (rule hash_repE)
  fix i assume
    rep0: "coll_rep env (data (cluster w)) key (encode_txnkv_hash_meta_value (KEY_ENCODER env) ttl v i) v (hash_data h) (card (dom h))"
  have "client_ready api data snap view F env (w\<lparr>INDEX_COUNT := INDEX_COUNT w + 1\<rparr>)"
    using ready by (simp add: client_ready_def)
  then show ?thesis
    unfolding do_async_txnkv_hincrby_def
    by (intro completes_next_index [OF number ready_connected [OF ready]] completesI)
      (assumption, rule served_exec [OF hincrby_new_field [where h = h and f = f, OF _ rep(3,2)]],
        use rep0 chosen in \<open>auto simp: resp_int_def simp del: fun_upd_apply\<close>)
qed

text \<open>(C22) \<^verbatim>\<open>HINCRBY\<close> of a new field of an existing hash does not count the field when the sub-meta key it chose exists, as all of
  them do in a hash that has been written to often: afterwards \<^verbatim>\<open>HGET\<close> finds the field, \<^verbatim>\<open>HLEN\<close> still answers with the old
  number.\<close>

theorem hincrby_undercounts:
  assumes "client_ready api data snap view F env w"
    and rep: "hash_rep env (data (cluster w)) key ttl v h" "\<not> key_is_expired env ttl" "h f = None"
    and number: "config_meta_key_number_or_default (SERVER_CONFIG env) \<noteq> 0"
    and chosen: "data (cluster w) (skey env key v (next_index env w)) \<noteq> None"
    and run: "run api (do_async_txnkv_hincrby env False key f step) w = (Done (Inr (Integer x)), w')"
  shows "completes api data F env (do_async_txnkv_hget env False key f) w' (\<lambda>reply m. reply = Bulk (i64_to_string step)) \<and>
    completes api data F env (do_async_txnkv_hlen env False key) w' (\<lambda>reply m. reply = Integer (of_nat (card (dom h))))"
proof -
  let ?b = "\<lambda>i. encode_txnkv_hash_meta_value (KEY_ENCODER env) ttl v i" and ?h = "h(f \<mapsto> i64_to_string step)"
  have conn: "TIKV_TXN_CLIENTS env" by (rule ready_connected [OF assms(1)])
  have h: "0 < card (dom h)" "card (dom h) < 2 ^ 63" using rep(1) by (auto elim: hash_repE)
  obtain i where rep': "coll_rep env (data (cluster w')) key (?b i) v (hash_data ?h) (card (dom h))"
    and ready: "client_ready api data snap view F env w'"
    using completes_run [OF hincrby_new_completes [OF assms(1) rep number chosen] run] ready_after [OF assms(1)]
    by (auto simp: tikv_error_reply_def)
  have meta: "data (cluster w') (mkey env key) = Some (?b i)" "data (cluster w') (dkey env key v 104 f) = Some (i64_to_string step)"
    using rep' by (simp_all add: coll_rep_def hash_data_def)
  have hget: "body_spec F UNIV (hget_body env key f) (data (cluster w')) (\<lambda>r m'. r = Inr (Bulk (i64_to_string step)))"
    using rep(2) meta(2) by (simp add: body_spec_def hget_body_def hash.wp_with_meta [where m = "data (cluster w')", OF meta(1)]
      wp_simps resp_bulk_def)
  show ?thesis unfolding do_async_txnkv_hget_def do_async_txnkv_hlen_def
    by (intro conjI completes_exec_frame [OF ready hget] completes_exec_frame [OF ready hlen_counted [OF rep' h rep(2) conn]]) auto
qed

theorem hincrby_undercounts_witness:
  "\<exists>w'. run mem_api (do_async_txnkv_hincrby env0 False [107] [98] 5) (mem_world (hash_store env0 [107] 0 [([97], [7])])) =
       (Done (Inr (Integer 5)), w') \<and>
     completes mem_api mem_data {} env0 (do_async_txnkv_hlen env0 False [107]) w' (\<lambda>reply m. reply = Integer 1)"
proof -
  let ?w = "mem_world (hash_store env0 [107] 0 [([97], [7])])"
  have rep: "hash_rep env0 (mem_data (cluster ?w)) [107] 0 0 [[97] \<mapsto> [7]]"
    using hash_store_rep [of "[([97], [7])]" env0 "[107]" 0] by simp
  have idx: "next_index env0 ?w = 0" by (simp add: next_index_def mem_world_def)
  have chosen: "mem_data (cluster ?w) (skey env0 [107] 0 (next_index env0 ?w)) \<noteq> None"
    unfolding idx by (simp add: hash_store_def coll_store_def)
  obtain w' where run: "run mem_api (do_async_txnkv_hincrby env0 False [107] [98] 5) ?w = (Done (Inr (Integer 5)), w')"
    using hincrby_new_completes [OF mem_ready rep _ _ _ chosen, of "[98]" 5] by (auto simp: completes_def)
  have "[[97] \<mapsto> [7]] [98 :: u8] = (None :: bytes option)" by simp
  from hincrby_undercounts [OF mem_ready rep _ this _ chosen run] run show ?thesis by (auto simp del: fun_upd_apply)
qed

text \<open>Every command on a hash whose time to live is over removes it with all its keys, or leaves them to the garbage
  collector, and answers as for an empty hash, \<^verbatim>\<open>HGETALL\<close> with nil and \<^verbatim>\<open>HMGET\<close> with an empty array.\<close>

theorem hash_expired:
  assumes "client_ready api data snap view F env w"
    and "hash_rep env (data (cluster w)) key ttl v h" "key_is_expired env ttl"
    and "(p, answer) \<in> {(do_async_txnkv_hget env False key f, Null), (do_async_txnkv_hstrlen env False key f, Integer 0),
      (do_async_txnkv_hexists env False key f, Integer 0), (do_async_txnkv_hmget env False key flds, Array []),
      (do_async_txnkv_hlen env False key, Integer 0), (do_async_txnkv_hgetall env False key with_field with_value, Null),
      (do_async_txnkv_hdel env False key flds, Integer 0)}"
  shows "completes api data F env p w (\<lambda>reply m. reply = answer \<and> no_key env m key \<and>
    others_same (KEY_ENCODER env) key (data (cluster w)) m)"
  using assms(2)
proof (rule hash_repE)
  fix i assume h: "coll_rep env (data (cluster w)) key (encode_txnkv_hash_meta_value (KEY_ENCODER env) ttl v i) v (hash_data h) (card (dom h))"
    "hash_sized (hash_data h) (card (dom h))"
  note answer = hash.expired_answer [OF h assms(3) ready_connected [OF assms(1)]]
  have frame: "completes api data F env (get_txn_client env (exec_in_txn env False q)) w
      (\<lambda>reply m. reply = fr \<and> no_key env m key \<and> others_same (KEY_ENCODER env) key (data (cluster w)) m)"
    if "q = with_meta env DT_Hash key wt ab g" "g ttl v = hash_expire_then env key (Ret (Inr fr))" for q wt ab g fr
    by (rule completes_exec_frame [OF assms(1) answer [OF that]]) auto
  have int: "completes api data F env (get_txn_client env (reply resp_int (exec_in_txn env False q))) w
      (\<lambda>reply m. reply = Integer n \<and> no_key env m key \<and> others_same (KEY_ENCODER env) key (data (cluster w)) m)"
    if "q = with_meta env DT_Hash key wt ab g" "g ttl v = hash_expire_then env key (Ret (Inr n))" for q wt ab g n
    by (rule completes_exec [OF assms(1) answer [OF that]]) (auto simp: resp_int_def)
  note [simp] = assms(3) Return_def resp_defs
  from assms(4) show ?thesis
    by (elim insertE; clarsimp simp: do_async_txnkv_hget_def do_async_txnkv_hstrlen_def do_async_txnkv_hexists_def
        do_async_txnkv_hmget_def do_async_txnkv_hlen_def do_async_txnkv_hgetall_def do_async_txnkv_hdel_def)
      (rule frame int, simp only: hget_body_def hstrlen_body_def hexists_body_def hmget_body_def hlen_body_def
        hgetall_body_def hdel_body_def, simp)+
qed

theorem hash_expired_witness:
  "completes mem_api mem_data {} env0 (do_async_txnkv_hget env0 False [107] [97])
     (mem_world (hash_store env0 [107] 5 [([97], [7])])) (\<lambda>reply m. reply = Null \<and> no_key env0 m [107])"
proof -
  have "hash_rep env0 (mem_data (cluster (mem_world (hash_store env0 [107] 5 [([97], [7])])))) [107] 5 0 [[97] \<mapsto> [7]]"
    using hash_store_rep [of "[([97], [7])]" env0 "[107]" 5] by simp
  then show ?thesis
    by (rule completes_mono [OF hash_expired [OF mem_ready]]) (auto simp: key_is_expired_def)
qed

end
