(* ===== verification/Sets.thy ===== *)
theory Sets
  imports Counted
begin

text \<open>
  The set commands, \<^verbatim>\<open>src/tikv/set.rs\<close>. A set has a meta key, a data key per member with the value \<open>[0]\<close>, and its
  size in sub-meta keys. Every method of \<^verbatim>\<open>SetCommandCtx\<close> is a definition; the closure given to \<^verbatim>\<open>exec_in_txn\<close> is the
  definition with the suffix \<open>body\<close>. The random generator of \<^verbatim>\<open>SRANDMEMBER\<close> is a parameter.
\<close>

section \<open>Removal and expiry\<close>

text \<open>The sub-meta keys go first, then the data keys.\<close>

definition set_sweep :: "env \<Rightarrow> bytes \<Rightarrow> u16 \<Rightarrow> 'a action \<Rightarrow> 'a action" where
  "set_sweep env key version p =
     delete_keys_in (encode_txnkv_sub_meta_key_range (KEY_ENCODER env) key version) (
     delete_keys_in (encode_txnkv_set_data_key_range (KEY_ENCODER env) key version) p)"

definition set_del_body :: "env \<Rightarrow> bytes \<Rightarrow> i64 action" where
  "set_del_body env key =
     Lock (txn_get (encode_txnkv_meta_key (KEY_ENCODER env) key) (\<lambda>meta.
       case meta of
         Some meta_value \<Rightarrow>
           unwrap (decode_key_version meta_value) (\<lambda>version.
           remove_collection env DT_Set (async_del_set_threshold_or_default (SERVER_CONFIG env))
             (set_sweep env key version) key version)
       | None \<Rightarrow> Return 0))"

definition do_async_txnkv_set_del :: "env \<Rightarrow> bool \<Rightarrow> bytes \<Rightarrow> i64 action" where
  "do_async_txnkv_set_del env in_txn key = get_txn_client env (exec_in_txn env in_txn (set_del_body env key))"

definition set_expire_body :: "env \<Rightarrow> bytes \<Rightarrow> i64 action" where
  "set_expire_body env key =
     Lock (txn_get (encode_txnkv_meta_key (KEY_ENCODER env) key) (\<lambda>meta.
       case meta of
         Some meta_value \<Rightarrow>
           unwrap (decode_key_meta meta_value) (\<lambda>(ttl, version, _).
           if \<not> key_is_expired env ttl then Return 0
           else
             remove_collection env DT_Set (async_expire_set_threshold_or_default (SERVER_CONFIG env))
               (set_sweep env key version) key version)
       | None \<Rightarrow> Return 0))"

definition do_async_txnkv_set_expire_if_needed :: "env \<Rightarrow> bool \<Rightarrow> bytes \<Rightarrow> i64 action" where
  "do_async_txnkv_set_expire_if_needed env in_txn key =
     get_txn_client env (exec_in_txn env in_txn (set_expire_body env key))"

abbreviation set_expire_then :: "env \<Rightarrow> bytes \<Rightarrow> 'a action \<Rightarrow> 'a action" where
  "set_expire_then \<equiv> expire_then do_async_txnkv_set_expire_if_needed"

section \<open>Adding members\<close>

primrec put_members :: "env \<Rightarrow> bytes \<Rightarrow> u16 \<Rightarrow> bytes list \<Rightarrow> 'a action \<Rightarrow> 'a action" where
  "put_members env key version [] p = p"
| "put_members env key version (m # ms) p =
     txn_put (encode_txnkv_set_data_key (KEY_ENCODER env) key m version) [0] (put_members env key version ms p)"

text \<open>The meta value of a new set has no time to live, also after an expiry.\<close>

definition put_set_meta :: "env \<Rightarrow> bytes \<Rightarrow> u16 \<Rightarrow> 'a action \<Rightarrow> 'a action" where
  "put_set_meta env key version p =
     txn_put (encode_txnkv_meta_key (KEY_ENCODER env) key) (encode_txnkv_set_meta_value (KEY_ENCODER env) 0 version 0) p"

definition sadd_existing :: "env \<Rightarrow> bytes \<Rightarrow> bytes list \<Rightarrow> u16 \<Rightarrow> u16 \<Rightarrow> bool \<Rightarrow> i64 action" where
  "sadd_existing env key members idx version expired =
     (let member_data_keys = map (\<lambda>m. encode_txnkv_set_data_key (KEY_ENCODER env) key m version) members in
      txn_batch_get member_data_keys (\<lambda>pairs.
      let added = of_nat (count_unique_keys member_data_keys) - of_nat (length pairs) in
      put_members env key version members (
      update_sub_meta env key version idx added (
      if expired then put_set_meta env key version (Return added) else Return added))))"

definition sadd_new :: "env \<Rightarrow> bytes \<Rightarrow> bytes list \<Rightarrow> u16 \<Rightarrow> u16 \<Rightarrow> i64 action" where
  "sadd_new env key members idx version =
     put_members env key version members (
     put_set_meta env key version (
     let added = of_nat (count_unique_keys members) in
     txn_put (encode_txnkv_sub_meta_key (KEY_ENCODER env) key version idx) (u64_to_be_bytes added) (Return added)))"

definition sadd_body :: "env \<Rightarrow> bytes \<Rightarrow> bytes list \<Rightarrow> u16 \<Rightarrow> i64 action" where
  "sadd_body env key members idx =
     with_meta env DT_Set key (Throw REDIS_WRONG_TYPE_ERR)
       (Unlock (call (get_version_for_new env key) (\<lambda>version. Lock (sadd_new env key members idx version))))
       (\<lambda>ttl version.
          if key_is_expired env ttl then
            set_expire_then env key (call (get_version_for_new env key) (\<lambda>version.
              Lock (sadd_existing env key members idx version True)))
          else sadd_existing env key members idx version False)"

definition do_async_txnkv_sadd :: "env \<Rightarrow> bool \<Rightarrow> bytes \<Rightarrow> bytes list \<Rightarrow> Frame action" where
  "do_async_txnkv_sadd env in_txn key members =
     get_txn_client env (gen_next_meta_index env (\<lambda>idx.
       reply resp_int (exec_in_txn env in_txn (sadd_body env key members idx))))"

section \<open>Reading a set\<close>

definition scard_body :: "env \<Rightarrow> bytes \<Rightarrow> Frame action" where
  "scard_body env key =
     with_meta env DT_Set key (Return (resp_err REDIS_WRONG_TYPE_ERR)) (Return (resp_int 0))
       (\<lambda>ttl version.
          if key_is_expired env ttl then set_expire_then env key (Return (resp_int 0))
          else Unlock (call (txnkv_sum_key_size env DT_Set True key version) (\<lambda>len. Return (resp_int len))))"

definition do_async_txnkv_scard :: "env \<Rightarrow> bool \<Rightarrow> bytes \<Rightarrow> Frame action" where
  "do_async_txnkv_scard env in_txn key = get_txn_client env (exec_in_txn env in_txn (scard_body env key))"

definition no_members_reply :: "bool \<Rightarrow> nat \<Rightarrow> Frame" where
  "no_members_reply resp_in_arr member_len =
     (if \<not> resp_in_arr then resp_int 0 else resp_array (replicate member_len (resp_int 0)))"

definition sismember_body :: "env \<Rightarrow> bytes \<Rightarrow> bytes list \<Rightarrow> bool \<Rightarrow> Frame action" where
  "sismember_body env key members resp_in_arr =
     with_meta env DT_Set key (Return (resp_err REDIS_WRONG_TYPE_ERR))
       (Return (no_members_reply resp_in_arr (length members)))
       (\<lambda>ttl version.
          let data_key = (\<lambda>m. encode_txnkv_set_data_key (KEY_ENCODER env) key m version) in
          if key_is_expired env ttl then
            set_expire_then env key (Return (no_members_reply resp_in_arr (length members)))
          else if \<not> resp_in_arr then
            (case members of
               [] \<Rightarrow> Crash
             | m # _ \<Rightarrow> txn_key_exists (data_key m) (\<lambda>ex. Return (resp_int (if ex then 1 else 0))))
          else
            txn_batch_get (map data_key members) (\<lambda>pairs.
            let member_result = collect_pairs pairs in
            Return (resp_array (map (\<lambda>m.
              case member_result (data_key m) of Some _ \<Rightarrow> resp_int 1 | None \<Rightarrow> resp_int 0) members))))"

definition do_async_txnkv_sismember :: "env \<Rightarrow> bool \<Rightarrow> bytes \<Rightarrow> bytes list \<Rightarrow> bool \<Rightarrow> Frame action" where
  "do_async_txnkv_sismember env in_txn key members resp_in_arr =
     get_txn_client env (exec_in_txn env in_txn (sismember_body env key members resp_in_arr))"

text \<open>The frames of the members in scanned data keys.\<close>

definition member_frames :: "bytes \<Rightarrow> bytes list \<Rightarrow> Frame list option" where
  "member_frames key ks = those (map (\<lambda>k. map_option resp_bulk (decode_key_set_member_from_datakey key k)) ks)"

definition smembers_body :: "env \<Rightarrow> bytes \<Rightarrow> Frame action" where
  "smembers_body env key =
     with_meta env DT_Set key (Return (resp_err REDIS_WRONG_TYPE_ERR)) (Return (resp_array []))
       (\<lambda>ttl version.
          if key_is_expired env ttl then set_expire_then env key (Return (resp_array []))
          else
            txn_scan_keys (encode_txnkv_set_data_key_range (KEY_ENCODER env) key version) u32_MAX (\<lambda>ks.
            unwrap (member_frames key ks) (\<lambda>resp. Return (resp_array resp))))"

definition do_async_txnkv_smembers :: "env \<Rightarrow> bool \<Rightarrow> bytes \<Rightarrow> Frame action" where
  "do_async_txnkv_smembers env in_txn key = get_txn_client env (exec_in_txn env in_txn (smembers_body env key))"

section \<open>Random members\<close>

text \<open>What is used of the crate \<^verbatim>\<open>rand\<close>: a generator from entropy, the shuffle of a slice, and a number below a bound.\<close>

record 'g rng =
  from_entropy :: 'g
  shuffle_slice :: "Frame list \<Rightarrow> 'g \<Rightarrow> Frame list \<times> 'g"
  gen_range :: "nat \<Rightarrow> 'g \<Rightarrow> nat \<times> 'g"

definition RANDOM_BASE :: i64 where "RANDOM_BASE = 100"

text \<open>\<^verbatim>\<open>while repeatable && (resp.len() as i64) < count\<close>: as many elements of the first \<open>resp_len\<close> as are missing. An empty
  range makes \<^verbatim>\<open>gen_range\<close> panic.\<close>

primrec fill_random :: "'g rng \<Rightarrow> nat \<Rightarrow> nat \<Rightarrow> Frame list \<Rightarrow> 'g \<Rightarrow> Frame list option" where
  "fill_random rng 0 resp_len resp g = Some resp"
| "fill_random rng (Suc n) resp_len resp g =
     (if resp_len = 0 then None
      else let (rand_idx, g') = gen_range rng resp_len g in
        fill_random rng n resp_len (resp @ [resp ! rand_idx]) g')"

definition missing_elements :: "nat \<Rightarrow> i64 \<Rightarrow> nat" where
  "missing_elements resp_len cnt = (if int resp_len < sint cnt then nat (sint cnt) - resp_len else 0)"

definition srandmember_reply :: "'g rng \<Rightarrow> i64 \<Rightarrow> bool \<Rightarrow> bool \<Rightarrow> Frame list \<Rightarrow> Frame action" where
  "srandmember_reply rng cnt repeatable array_resp found =
     (let (resp, g) = shuffle_slice rng found (from_entropy rng);
          resp_len = length resp
      in
        if \<not> array_resp then
          if cnt \<noteq> 1 \<or> resp_len = 0 then Crash
          else Return (resp ! fst (gen_range rng resp_len g))
        else
          unwrap (if repeatable then fill_random rng (missing_elements resp_len cnt) resp_len resp g else Some resp) (\<lambda>resp.
          if i64_lt cnt (of_nat resp_len) then
            if sint cnt < 0 then Crash else Return (resp_array (take (unat cnt) resp))
          else Return (resp_array resp)))"

definition srandmember_body :: "'g rng \<Rightarrow> env \<Rightarrow> bytes \<Rightarrow> i64 \<Rightarrow> bool \<Rightarrow> bool \<Rightarrow> Frame action" where
  "srandmember_body rng env key cnt repeatable array_resp =
     with_meta env DT_Set key (Return (resp_err REDIS_WRONG_TYPE_ERR))
       (if array_resp then Return (resp_array []) else if cnt = 1 then Return resp_nil else Crash)
       (\<lambda>ttl version.
          if key_is_expired env ttl then set_expire_then env key (Return (resp_array []))
          else
            unwrap (i64_to_u32 (if i64_lt RANDOM_BASE cnt then cnt else RANDOM_BASE)) (\<lambda>ele_count.
            txn_scan_keys (encode_txnkv_set_data_key_range (KEY_ENCODER env) key version) ele_count (\<lambda>ks.
            unwrap (member_frames key ks) (\<lambda>found. srandmember_reply rng cnt repeatable array_resp found))))"

definition do_async_txnkv_srandmemeber :: "'g rng \<Rightarrow> env \<Rightarrow> bool \<Rightarrow> bytes \<Rightarrow> i64 \<Rightarrow> bool \<Rightarrow> bool \<Rightarrow> Frame action" where
  "do_async_txnkv_srandmemeber rng env in_txn key cnt repeatable array_resp =
     get_txn_client env (exec_in_txn env in_txn (srandmember_body rng env key cnt repeatable array_resp))"

section \<open>Removing members\<close>

definition srem_body :: "env \<Rightarrow> bytes \<Rightarrow> bytes list \<Rightarrow> u16 \<Rightarrow> i64 action" where
  "srem_body env key members idx =
     with_meta env DT_Set key (Throw REDIS_WRONG_TYPE_ERR) (Return 0)
       (\<lambda>ttl version.
          if key_is_expired env ttl then set_expire_then env key (Return 0)
          else
            Unlock (call (txnkv_sum_key_size env DT_Set True key version) (\<lambda>len.
            Lock (txn_batch_get (map (\<lambda>m. encode_txnkv_set_data_key (KEY_ENCODER env) key m version) members) (\<lambda>pairs.
            delete_pairs pairs 0 (\<lambda>removed.
            shrink_collection clear_meta_first env key version idx len removed (Return removed)))))))"

definition do_async_txnkv_srem :: "env \<Rightarrow> bool \<Rightarrow> bytes \<Rightarrow> bytes list \<Rightarrow> Frame action" where
  "do_async_txnkv_srem env in_txn key members =
     get_txn_client env (gen_next_meta_index env (\<lambda>idx.
       reply resp_int (exec_in_txn env in_txn (srem_body env key members idx))))"

definition spop_body :: "env \<Rightarrow> bytes \<Rightarrow> u64 \<Rightarrow> u16 \<Rightarrow> Frame list action" where
  "spop_body env key cnt idx =
     with_meta env DT_Set key (Throw REDIS_WRONG_TYPE_ERR) (Return [])
       (\<lambda>ttl version.
          if key_is_expired env ttl then set_expire_then env key (Return [])
          else
            unwrap (u64_to_u32 cnt) (\<lambda>limit.
            txn_scan_keys (encode_txnkv_set_data_key_range (KEY_ENCODER env) key version) limit (\<lambda>ks.
            unwrap (member_frames key ks) (\<lambda>resp.
            delete_all ks (
            Unlock (call (txnkv_sum_key_size env DT_Set True key version) (\<lambda>len.
            Lock (shrink_collection clear_meta_first env key version idx len (i64_of_len (length ks)) (Return resp)))))))))"

definition spop_reply :: "u64 \<Rightarrow> Frame list \<Rightarrow> Frame" where
  "spop_reply cnt v = (if cnt = 1 then (if v = [] then resp_nil else last v) else resp_array v)"

definition do_async_txnkv_spop :: "env \<Rightarrow> bool \<Rightarrow> bytes \<Rightarrow> u64 \<Rightarrow> Frame action" where
  "do_async_txnkv_spop env in_txn key cnt =
     get_txn_client env (gen_next_meta_index env (\<lambda>idx.
       reply (spop_reply cnt) (exec_in_txn env in_txn (spop_body env key cnt idx))))"

end
