(* ===== verification/Set_Properties.thy ===== *)
theory Set_Properties
  imports Sets Mem_Store
begin

text \<open>
  Sets as finite sets of members: the representation in the store, and what the commands do with it.
\<close>

section \<open>Sets in the store\<close>

definition set_data :: "bytes set \<Rightarrow> u8 \<Rightarrow> bytes \<rightharpoonup> bytes" where
  "set_data S t r = (if t = 115 \<and> r \<in> S then Some [0] else None)"

definition set_sized :: "(u8 \<Rightarrow> bytes \<rightharpoonup> bytes) \<Rightarrow> nat \<Rightarrow> bool" where
  "set_sized D n \<longleftrightarrow> (\<exists>S. D = set_data S \<and> finite S \<and> n = card S \<and> 0 < n \<and> n < 2 ^ 63)"

definition set_rep :: "env \<Rightarrow> store \<Rightarrow> bytes \<Rightarrow> u64 \<Rightarrow> u16 \<Rightarrow> bytes set \<Rightarrow> bool" where
  "set_rep env m key ttl v S \<longleftrightarrow>
     (\<exists>i. coll_rep env m key (encode_txnkv_set_meta_value (KEY_ENCODER env) ttl v i) v (set_data S) (card S)) \<and>
     finite S \<and> S \<noteq> {} \<and> card S < 2 ^ 63"

definition set_state :: "env \<Rightarrow> store \<Rightarrow> bytes \<Rightarrow> u64 \<Rightarrow> bytes set \<Rightarrow> bool" where
  "set_state env m key ttl S \<longleftrightarrow> (if S = {} then no_key env m key else \<exists>v. set_rep env m key ttl v S)"

lemma set_repE:
  assumes "set_rep env m key ttl v S"
  obtains i where "coll_rep env m key (encode_txnkv_set_meta_value (KEY_ENCODER env) ttl v i) v (set_data S) (card S)"
    "set_sized (set_data S) (card S)" "0 < card S" "card S < 2 ^ 63" "finite S"
    "m (mkey env key) = Some (encode_txnkv_set_meta_value (KEY_ENCODER env) ttl v i)"
proof -
  obtain i where rep: "coll_rep env m key (encode_txnkv_set_meta_value (KEY_ENCODER env) ttl v i) v (set_data S) (card S)"
    and S: "finite S" "card S < 2 ^ 63" "S \<noteq> {}"
    using assms by (auto simp: set_rep_def)
  then have "0 < card S" by (simp add: card_gt_0_iff)
  with rep S that [of i] show thesis by (auto simp: set_sized_def coll_rep_def)
qed

lemma set_stateI:
  assumes "coll_rep env m key (encode_txnkv_set_meta_value (KEY_ENCODER env) ttl v i) v (set_data S) (card S)"
    and "finite S" "S \<noteq> {}" "card S < 2 ^ 63"
  shows "set_state env m key ttl S"
  using assms by (auto simp: set_state_def set_rep_def)

lemma set_data_simps [simp]:
  "set_data {} = (\<lambda>_. Map.empty)" "dom (set_data S 115) = S" "t \<noteq> 115 \<Longrightarrow> set_data S t = Map.empty"
  by (auto simp: set_data_def fun_eq_iff dom_def)

lemma wp_set_remove:
  assumes "coll_rep env m key (encode_txnkv_set_meta_value (KEY_ENCODER env) ttl v i) v D n" "set_sized D n"
    and "TIKV_TXN_CLIENTS env"
    and Q: "\<And>m'. \<lbrakk>no_key env m' key; others_same (KEY_ENCODER env) key m m'\<rbrakk> \<Longrightarrow> Q (Done (Inr 1)) (db, (sn, m', True) # ts)"
    and err: "\<And>e m' h. e \<in> F \<Longrightarrow> Q (Done (Inl (TikvClient e))) (db, (sn, m', h) # ts)"
  shows "wp F (remove_collection env DT_Set threshold (set_sweep env key v) key v) Q (db, (sn, m, True) # ts)"
proof -
  obtain S where S: "D = set_data S" "finite S" "n = card S" "0 < n" "n < 2 ^ 63"
    using assms(2) by (auto simp: set_sized_def)
  show ?thesis
  proof (rule wp_remove_collection [OF assms(1) S(4,5) decode_set_meta_value(1) assms(3)])
    fix p assume "n \<le> u32_MAX" "wp F p Q (db, (sn, swept env key v m, True) # ts)"
    then show "wp F (set_sweep env key v p) Q (db, (sn, m, True) # ts)"
      unfolding set_sweep_def
      by (intro wp_sweep_data(2) [where t = 115, OF assms(1)]) (use S err in auto)
  qed (use Q err in auto)
qed

lemma set_expire_spec:
  assumes "coll_rep env m key (encode_txnkv_set_meta_value (KEY_ENCODER env) ttl v i) v D n" "set_sized D n"
    and "key_is_expired env ttl" "TIKV_TXN_CLIENTS env"
  shows "body_spec F {False} (do_async_txnkv_set_expire_if_needed env True key) m
    (\<lambda>r m'. r = Inr 1 \<and> no_key env m' key \<and> others_same (KEY_ENCODER env) key m m')"
proof -
  have meta: "m (mkey env key) = Some (encode_txnkv_set_meta_value (KEY_ENCODER env) ttl v i)"
    using assms(1) by (simp add: coll_rep_def)
  have "body_spec F UNIV (set_expire_body env key) m
      (\<lambda>r m'. r = Inr 1 \<and> no_key env m' key \<and> others_same (KEY_ENCODER env) key m m')"
    using assms(3) meta
    by (auto simp: body_spec_def set_expire_body_def wp_simps intro!: wp_set_remove [OF assms(1,2,4)])
  from body_spec_scoped [OF this] show ?thesis using assms(4)
    by (simp add: do_async_txnkv_set_expire_if_needed_def get_txn_client_def exec_in_txn_def)
qed

interpretation sets: collection DT_Set encode_txnkv_set_meta_value do_async_txnkv_set_expire_if_needed set_sized
  by unfold_locales (simp_all add: set_expire_spec, auto simp: set_sized_def)

lemma set_del_spec:
  assumes "set_rep env m key ttl v S" "TIKV_TXN_CLIENTS env"
  shows "body_spec F UNIV (set_del_body env key) m
    (\<lambda>r m'. r = Inr 1 \<and> no_key env m' key \<and> others_same (KEY_ENCODER env) key m m')"
  using assms(1)
proof (rule set_repE)
  fix i assume rep: "coll_rep env m key (encode_txnkv_set_meta_value (KEY_ENCODER env) ttl v i) v (set_data S) (card S)"
    "set_sized (set_data S) (card S)" and "m (mkey env key) = Some (encode_txnkv_set_meta_value (KEY_ENCODER env) ttl v i)"
  then show ?thesis
    by (auto simp: body_spec_def set_del_body_def wp_simps intro!: wp_set_remove [OF rep assms(2)])
qed

section \<open>Reading a set\<close>


lemma member_frames_dkey:
  "member_frames key (map (dkey env key v 115) rs) = Some (map Bulk rs)"
  using decode_data_keys(2) [of key "KEY_ENCODER env" _ v] by (simp add: member_frames_def o_def resp_bulk_def)

lemma set_scan:
  assumes "coll_rep env m key b v (set_data S) n" "finite (dom m)"
  shows "map fst (scan_store m False (encode_txnkv_set_data_key_range (KEY_ENCODER env) key v) k) =
    map (dkey env key v 115) (take k (sorted_list_of_set S))"
  using data_range_keys(2) [OF assms(1) _ assms(2), of 115] by (simp add: scan_store_def o_def take_map)



lemma set_absent_reads:
  assumes "no_key env m key"
  shows "body_spec F UNIV (scard_body env key) m (\<lambda>r m'. r = Inr (Integer 0) \<and> m' = m)"
    and "body_spec F UNIV (sismember_body env key members in_arr) m
      (\<lambda>r m'. r = Inr (if in_arr then Array (map (\<lambda>_. Integer 0) members) else Integer 0) \<and> m' = m)"
    and "body_spec F UNIV (smembers_body env key) m (\<lambda>r m'. r = Inr (Array []) \<and> m' = m)"
    and "body_spec F UNIV (srem_body env key members idx) m (\<lambda>r m'. r = Inr 0 \<and> m' = m)"
    and "body_spec F UNIV (spop_body env key cnt idx) m (\<lambda>r m'. r = Inr [] \<and> m' = m)"
proof -
  have "m (mkey env key) = None" using assms by (simp add: no_key_def)
  note [simp] = wp_with_meta_absent [where m = m, OF this]
  show "body_spec F UNIV (scard_body env key) m (\<lambda>r m'. r = Inr (Integer 0) \<and> m' = m)"
    "body_spec F UNIV (sismember_body env key members in_arr) m
      (\<lambda>r m'. r = Inr (if in_arr then Array (map (\<lambda>_. Integer 0) members) else Integer 0) \<and> m' = m)"
    "body_spec F UNIV (smembers_body env key) m (\<lambda>r m'. r = Inr (Array []) \<and> m' = m)"
    "body_spec F UNIV (srem_body env key members idx) m (\<lambda>r m'. r = Inr 0 \<and> m' = m)"
    "body_spec F UNIV (spop_body env key cnt idx) m (\<lambda>r m'. r = Inr [] \<and> m' = m)"
    by (simp_all add: body_spec_def scard_body_def sismember_body_def smembers_body_def srem_body_def spop_body_def
        no_members_reply_def map_replicate_const wp_simps resp_defs)
qed

section \<open>Adding members\<close>

definition member_pairs :: "bytes list \<Rightarrow> kv_pair list" where
  "member_pairs members = map (\<lambda>x. (x, [0])) members"

lemma member_pairs_simps [simp]: "member_pairs [] = []" "member_pairs (x # xs) = (x, [0]) # member_pairs xs"
  by (simp_all add: member_pairs_def)

lemma map_put_member_pairs: "map_put (member_pairs xs) (set_data S 115) = set_data (S \<union> set xs) 115"
proof (induction xs arbitrary: S)
  case (Cons x xs)
  have "(set_data S 115)(x \<mapsto> [0]) = set_data (insert x S) 115" by (auto simp: set_data_def)
  then show ?case using Cons by simp
qed simp

lemma set_data_add: "(set_data S)(115 := map_put (member_pairs xs) (set_data S 115)) = set_data (S \<union> set xs)"
  unfolding map_put_member_pairs by (auto simp: set_data_def fun_eq_iff)

lemma wp_put_members:
  assumes "wp F p Q (db, (sn, data_put env key v 115 (member_pairs xs) m, True) # ts)"
    and "\<And>e m'. e \<in> F \<Longrightarrow> Q (Done (Inl (TikvClient e))) (db, (sn, m', True) # ts)"
  shows "wp F (put_members env key v xs p) Q (db, (sn, m, True) # ts)"
  using assms(1) by (induction xs arbitrary: m) (simp_all add: wp_simps assms(2))

lemma wp_sadd_existing:
  assumes rep: "coll_rep env (m(mkey env key \<mapsto> b)) key b v (set_data S) (card S)" "finite S"
    and meta: "if expired then b = encode_txnkv_set_meta_value (KEY_ENCODER env) 0 v 0 else m (mkey env key) = Some b"
    and "distinct xs"
    and Q: "\<And>m'. \<lbrakk>coll_rep env m' key b v (set_data (S \<union> set xs)) (card (S \<union> set xs)); others_same (KEY_ENCODER env) key m m'\<rbrakk> \<Longrightarrow>
      Q (Done (Inr (of_nat (card (set xs - S))))) (db, (sn, m', True) # ts)"
    and err: "\<And>e m'. e \<in> F \<Longrightarrow> Q (Done (Inl (TikvClient e))) (db, (sn, m', True) # ts)"
  shows "wp F (sadd_existing env key xs idx v expired) Q (db, (sn, m, True) # ts)"
proof -
  let ?n = "of_nat (card (set xs - S)) :: i64"
  let ?m2 = "add_count env key v idx ?n (data_put env key v 115 (member_pairs xs) m)"
  have added: "of_nat (card (S \<union> set xs)) = of_nat (card S) + ?n"
  proof -
    have "card (S \<union> set xs) = card S + card (set xs - S)"
      using card_Un_disjoint [of S "set xs - S"] rep(2) by (simp add: Un_Diff_cancel)
    then show ?thesis by simp
  qed
  note cnt = coll_rep_grow(1) [where t = 115 and kvs = "member_pairs xs", OF rep(1) _ added]
  note grow = coll_rep_grow(2,3) [where t = 115 and kvs = "member_pairs xs" and idx = idx, OF rep(1) _ added, unfolded set_data_add]
  have "?m2(mkey env key \<mapsto> b) = ?m2" if "\<not> expired"
    using meta that by (auto simp: add_count_def data_put_other)
  moreover have "others_same (KEY_ENCODER env) key m (?m2(mkey env key \<mapsto> b))"
    by (rule others_same_upd) (use grow(2) in simp_all)
  ultimately have "wp F (if expired then put_set_meta env key v (Return ?n) else Return ?n) Q (db, (sn, ?m2, True) # ts)"
    using grow Q meta err by (auto simp: put_set_meta_def wp_simps)
  then have puts: "wp F (put_members env key v xs (update_sub_meta env key v idx ?n (
      if expired then put_set_meta env key v (Return ?n) else Return ?n))) Q (db, (sn, m, True) # ts)"
    by (intro wp_put_members wp_update_sub_meta [OF cnt]) (use err in auto)
  have "of_nat (count_unique_keys (map (dkey env key v 115) xs)) - of_nat (length pairs) = ?n"
    if "batch_answer m (map (dkey env key v 115) xs) pairs" for pairs
  proof -
    have ks: "distinct (map (dkey env key v 115) xs)" using assms(4) by (simp add: distinct_map inj_on_def)
    have "m (dkey env key v 115 x) = (if x \<in> S then Some [0] else None)" for x
      using rep(1) by (simp add: coll_rep_def set_data_def)
    then have "{k \<in> set (map (dkey env key v 115) xs). m k \<noteq> None} = dkey env key v 115 ` (set xs \<inter> S)"
      by (auto split: if_splits)
    then have "length pairs = card (set xs \<inter> S)"
      using batch_answer_length(2) [OF that ks] by (simp add: card_image inj_on_def)
    moreover have "count_unique_keys (map (dkey env key v 115) xs) = card (set xs)"
      using distinct_card [OF ks] distinct_card [OF assms(4)] by (simp add: count_unique_keys_def)
    moreover have "card (set xs) = card (set xs - S) + card (set xs \<inter> S)"
      using card_Int_Diff [of "set xs" S] by simp
    ultimately show ?thesis by simp
  qed
  with puts err show ?thesis by (auto simp: sadd_existing_def Let_def wp_simps)
qed

lemma sadd_live:
  assumes rep: "set_rep env m key ttl v S" "\<not> key_is_expired env ttl" and xs: "distinct xs" "card (S \<union> set xs) < 2 ^ 63"
  shows "body_spec F UNIV (sadd_body env key xs idx) m
    (\<lambda>r m'. r = Inr (of_nat (card (set xs - S))) \<and> set_state env m' key ttl (S \<union> set xs) \<and> others_same (KEY_ENCODER env) key m m')"
  using rep(1)
proof (rule set_repE)
  fix i assume S: "coll_rep env m key (encode_txnkv_set_meta_value (KEY_ENCODER env) ttl v i) v (set_data S) (card S)"
    "0 < card S" "finite S"
    and meta: "m (mkey env key) = Some (encode_txnkv_set_meta_value (KEY_ENCODER env) ttl v i)"
  then have "m(mkey env key \<mapsto> encode_txnkv_set_meta_value (KEY_ENCODER env) ttl v i) = m" by (simp add: fun_upd_idem)
  moreover have "S \<noteq> {}" using S(2) by auto
  ultimately show ?thesis using S meta rep(2) xs
    by (auto simp: body_spec_def sadd_body_def sets.wp_with_meta [where m = m, OF meta] wp_simps
        intro!: wp_sadd_existing [where b = "encode_txnkv_set_meta_value (KEY_ENCODER env) ttl v i" and S = S] set_stateI)
qed

lemma sadd_absent:
  assumes new: "no_key env m key" "async_deletion_enabled_or_default (SERVER_CONFIG env)" and xs: "xs \<noteq> []" "card (set xs) < 2 ^ 63"
  shows "body_spec F UNIV (sadd_body env key xs idx) m
    (\<lambda>r m'. case next_version env m key of
       None \<Rightarrow> r = Inl KEY_VERSION_EXHUSTED_ERR
     | Some v \<Rightarrow> r = Inr (of_nat (card (set xs))) \<and> set_state env m' key 0 (set xs) \<and> others_same (KEY_ENCODER env) key m m')"
    (is "body_spec F UNIV _ m ?R")
proof (rule body_specI)
  fix db sn ts
  have none: "m (mkey env key) = None" using new(1) by (simp add: no_key_def)
  have "wp F (call (get_version_for_new env key) (\<lambda>version. Lock (sadd_new env key xs idx version)))
      (body_post F db sn ts UNIV ?R) (db, (sn, m, False) # ts)"
  proof (rule wp_new_version [OF new(1)])
    fix v assume v: "next_version env m key = Some v"
    let ?b = "encode_txnkv_set_meta_value (KEY_ENCODER env) 0 v 0"
    have "(\<lambda>_. Map.empty)(115 := map_put (member_pairs xs) Map.empty) = set_data (set xs)"
      using set_data_add [of "{}" xs] by simp
    note first = coll_rep_first [OF new v, of 115 "member_pairs xs" ?b idx "card (set xs)", unfolded this]
    have "set_state env ((data_put env key v 115 (member_pairs xs) m)(mkey env key \<mapsto> ?b,
        skey env key v idx \<mapsto> u64_to_be_bytes (of_nat (card (set xs))))) key 0 (set xs)"
      by (rule set_stateI) (use first(1) xs in auto)
    then show "wp F (Lock (sadd_new env key xs idx v)) (body_post F db sn ts UNIV ?R) (db, (sn, m, False) # ts)"
      using first(2) v unfolding sadd_new_def Let_def put_set_meta_def count_unique_keys_def
      by (simp add: wp_simps del: fun_upd_apply) (intro wp_put_members, simp_all add: wp_simps del: fun_upd_apply)
  qed (simp_all add: wp_simps)
  then show "wp F (sadd_body env key xs idx) (body_post F db sn ts UNIV ?R) (db, (sn, m, False) # ts)"
    by (simp add: sadd_body_def wp_with_meta_absent [where m = m, OF none] wp_simps)
qed

text \<open>\<^verbatim>\<open>SADD\<close> on an expired set: the old set goes, the new one has no time to live.\<close>

lemma sadd_expired:
  assumes rep: "set_rep env m key ttl v S" "key_is_expired env ttl"
    and "TIKV_TXN_CLIENTS env" "async_deletion_enabled_or_default (SERVER_CONFIG env)"
    and xs: "xs \<noteq> []" "distinct xs" "length xs < 2 ^ 63"
  shows "body_spec F UNIV (sadd_body env key xs idx) m
    (\<lambda>r m'. r = Inl KEY_VERSION_EXHUSTED_ERR \<or> r = Inr (of_nat (length xs)) \<and>
       set_state env m' key 0 (set xs) \<and> others_same (KEY_ENCODER env) key m m')"
    (is "body_spec F UNIV _ m ?R")
  using rep(1)
proof (rule set_repE)
  fix i assume S: "coll_rep env m key (encode_txnkv_set_meta_value (KEY_ENCODER env) ttl v i) v (set_data S) (card S)"
    "set_sized (set_data S) (card S)"
    and meta: "m (mkey env key) = Some (encode_txnkv_set_meta_value (KEY_ENCODER env) ttl v i)"
  have card: "card (set xs) = length xs" using xs(2) by (rule distinct_card)
  have new: "wp F (call (get_version_for_new env key) (\<lambda>version. Lock (sadd_existing env key xs idx version True)))
      (body_post F db sn ts UNIV ?R) (db, (sn, m', False) # ts)"
    if m': "no_key env m' key" "others_same (KEY_ENCODER env) key m m'" for m' db sn ts
  proof (rule wp_new_version [OF m'(1)])
    fix v' assume v': "next_version env m' key = Some v'"
    let ?b = "encode_txnkv_set_meta_value (KEY_ENCODER env) 0 v' 0"
    have "coll_rep env (m'(mkey env key \<mapsto> ?b)) key ?b v' (set_data {}) (card ({} :: bytes set))"
      using coll_rep_new [OF m'(1) assms(4) v', of ?b] by simp
    then have "wp F (sadd_existing env key xs idx v' True) (body_post F db sn ts UNIV ?R) (db, (sn, m', True) # ts)"
      by (rule wp_sadd_existing) (use xs card in \<open>auto simp: wp_simps intro!: set_stateI others_same_trans [OF m'(2)]\<close>)
    then show "wp F (Lock (sadd_existing env key xs idx v' True)) (body_post F db sn ts UNIV ?R) (db, (sn, m', False) # ts)"
      by (simp add: wp_simps)
  qed (simp_all add: wp_simps)
  show ?thesis
  proof (rule body_specI)
    fix db sn ts
    have "wp F (set_expire_then env key (call (get_version_for_new env key) (\<lambda>version.
        Lock (sadd_existing env key xs idx version True)))) (body_post F db sn ts UNIV ?R) (db, (sn, m, True) # ts)"
      by (rule sets.wp_expire_then [OF S rep(2) assms(3) new]) (auto simp: wp_simps)
    then show "wp F (sadd_body env key xs idx) (body_post F db sn ts UNIV ?R) (db, (sn, m, False) # ts)"
      using rep(2) by (simp add: sadd_body_def sets.wp_with_meta [where m = m, OF meta] wp_simps)
  qed
qed

section \<open>Removing members\<close>

lemma set_data_remove: "(set_data S)(115 := set_data S 115 |` (- X)) = set_data (S - X)"
  by (auto simp: set_data_def restrict_map_def fun_eq_iff)

lemma wp_set_shrink:
  assumes rep: "coll_rep env m key (encode_txnkv_set_meta_value (KEY_ENCODER env) ttl v i) v (set_data (S - X)) (card S)"
    and S: "finite S" "card S < 2 ^ 63"
    and Q: "\<And>m'. \<lbrakk>set_state env m' key ttl (S - X); others_same (KEY_ENCODER env) key m m'\<rbrakk> \<Longrightarrow> wp F p Q (db, (sn, m', True) # ts)"
    and err: "\<And>e m'. e \<in> F \<Longrightarrow> Q (Done (Inl (TikvClient e))) (db, (sn, m', True) # ts)"
  shows "wp F (shrink_collection clear_meta_first env key v idx (of_nat (card S)) (of_nat (card (S \<inter> X))) p) Q (db, (sn, m, True) # ts)"
proof (rule wp_shrink_collection [OF rep S(2), where left = "card (S - X)"])
  show split: "card S = card (S - X) + card (S \<inter> X)" using card_Int_Diff [OF S(1), of X] by simp
  show "set_data (S - X) = (\<lambda>_. Map.empty)" if "card (S - X) = 0"
  proof -
    have "S - X = {}" using that S(1) by simp
    then show ?thesis by (simp only: set_data_simps)
  qed
  show "wp F p Q (db, (sn, m', True) # ts)"
    if "card (S - X) = 0" "no_key env m' key" "others_same (KEY_ENCODER env) key m m'" for m'
    using that S(1) by (intro Q) (simp_all add: set_state_def)
  show "wp F p Q (db, (sn, m', True) # ts)"
    if "0 < card (S - X)" "others_same (KEY_ENCODER env) key m m'"
      "coll_rep env m' key (encode_txnkv_set_meta_value (KEY_ENCODER env) ttl v i) v (set_data (S - X)) (card (S - X))" for m'
  proof (intro Q set_stateI [OF that(3)])
    show "S - X \<noteq> {}" using that(1) by (metis card.empty less_irrefl)
  qed (use that S split in auto)
qed (use err in auto)

lemma srem_live:
  assumes rep: "set_rep env m key ttl v S" "\<not> key_is_expired env ttl" and conn: "TIKV_TXN_CLIENTS env" and "distinct xs"
  shows "body_spec F UNIV (srem_body env key xs idx) m
    (\<lambda>r m'. r = Inr (of_nat (card (S \<inter> set xs))) \<and> set_state env m' key ttl (S - set xs) \<and> others_same (KEY_ENCODER env) key m m')"
    (is "body_spec F UNIV _ m ?R")
  using rep(1)
proof (rule set_repE)
  fix i assume S: "coll_rep env m key (encode_txnkv_set_meta_value (KEY_ENCODER env) ttl v i) v (set_data S) (card S)"
    "0 < card S" "card S < 2 ^ 63" "finite S"
    and meta: "m (mkey env key) = Some (encode_txnkv_set_meta_value (KEY_ENCODER env) ttl v i)"
  let ?m = "m |` (- dkey env key v 115 ` set xs)"
  have rep': "coll_rep env ?m key (encode_txnkv_set_meta_value (KEY_ENCODER env) ttl v i) v (set_data (S - set xs)) (card S)"
    using coll_rep_remove [OF S(1), of 115 "set xs"] by (simp add: set_data_remove)
  have pairs: "length kvs = card (S \<inter> set xs)" "m |` (- fst ` set kvs) = ?m" if "batch_answer m (map (dkey env key v 115) xs) kvs" for kvs
    using member_answer [OF S(1) _ assms(4) that] by simp_all
  show ?thesis
  proof (rule body_specI)
    fix db sn ts
    let ?Q = "body_post F db sn ts UNIV ?R"
    have last: "wp F (shrink_collection clear_meta_first env key v idx (of_nat (card S)) (of_nat (card (S \<inter> set xs)))
        (Return (of_nat (card (S \<inter> set xs))))) ?Q (db, (sn, ?m, True) # ts)"
      by (rule wp_set_shrink [OF rep' S(4,3)])
        (use others_same_trans [OF others_same_remove [of env key m v 115 "set xs"]] in \<open>simp_all add: wp_simps\<close>)
    have "wp F (delete_pairs kvs 0 (\<lambda>removed. shrink_collection clear_meta_first env key v idx (of_nat (card S)) removed
        (Return removed))) ?Q (db, (sn, m, True) # ts)" if "batch_answer m (map (dkey env key v 115) xs) kvs" for kvs
      by (rule wp_delete_pairs, unfold pairs [OF that] add_0, rule last) (simp add: wp_simps)
    then have "wp F (call (txnkv_sum_key_size env DT_Set True key v) (\<lambda>len.
        Lock (txn_batch_get (map (\<lambda>m. encode_txnkv_set_data_key (KEY_ENCODER env) key m v) xs) (\<lambda>pairs.
        delete_pairs pairs 0 (\<lambda>removed.
        shrink_collection clear_meta_first env key v idx len removed (Return removed)))))) ?Q (db, (sn, m, False) # ts)"
      by (intro sets.wp_sum_key_size [OF S(1-3) conn]) (simp_all add: wp_simps)
    then show "wp F (srem_body env key xs idx) ?Q (db, (sn, m, False) # ts)"
      using rep(2) by (simp add: srem_body_def sets.wp_with_meta [where m = m, OF meta] wp_simps)
  qed
qed

text \<open>\<^verbatim>\<open>SPOP\<close> takes the first members in the order of their bytes.\<close>

definition first_members :: "nat \<Rightarrow> bytes set \<Rightarrow> bytes list" where
  "first_members n S = take n (sorted_list_of_set S)"

lemma first_members:
  assumes "finite S"
  shows "distinct (first_members n S)" "set (first_members n S) \<subseteq> S" "length (first_members n S) = min n (card S)"
    "card (S \<inter> set (first_members n S)) = length (first_members n S)"
proof -
  show d: "distinct (first_members n S)" and sub: "set (first_members n S) \<subseteq> S"
    using assms set_take_subset [of n "sorted_list_of_set S"] by (auto simp: first_members_def)
  show "length (first_members n S) = min n (card S)" by (simp add: first_members_def min.commute)
  show "card (S \<inter> set (first_members n S)) = length (first_members n S)"
    using sub distinct_card [OF d] by (simp add: Int_absorb1)
qed

lemma spop_live:
  assumes rep: "set_rep env m key ttl v S" "\<not> key_is_expired env ttl" and conn: "TIKV_TXN_CLIENTS env" and "unat cnt \<le> u32_MAX"
  shows "body_spec F UNIV (spop_body env key cnt idx) m
    (\<lambda>r m'. r = Inr (map Bulk (first_members (unat cnt) S)) \<and> set_state env m' key ttl (S - set (first_members (unat cnt) S)) \<and>
       others_same (KEY_ENCODER env) key m m')"
    (is "body_spec F UNIV _ m ?R")
  using rep(1)
proof (rule set_repE)
  fix i assume S: "coll_rep env m key (encode_txnkv_set_meta_value (KEY_ENCODER env) ttl v i) v (set_data S) (card S)"
    "0 < card S" "card S < 2 ^ 63" "finite S"
    and meta: "m (mkey env key) = Some (encode_txnkv_set_meta_value (KEY_ENCODER env) ttl v i)"
  let ?xs = "first_members (unat cnt) S"
  let ?m = "m |` (- dkey env key v 115 ` set ?xs)"
  have rep': "coll_rep env ?m key (encode_txnkv_set_meta_value (KEY_ENCODER env) ttl v i) v (set_data (S - set ?xs)) (card S)"
    using coll_rep_remove [OF S(1), of 115 "set ?xs"] by (simp add: set_data_remove)
  have scan: "map fst (scan_store m False (encode_txnkv_set_data_key_range (KEY_ENCODER env) key v) (unat cnt)) =
      map (dkey env key v 115) ?xs" if "finite (dom m)"
    using set_scan [OF S(1) that] by (simp add: first_members_def)
  show ?thesis
  proof (rule body_specI)
    fix db sn ts
    let ?Q = "body_post F db sn ts UNIV ?R"
    have "wp F (shrink_collection clear_meta_first env key v idx (of_nat (card S)) (of_nat (length ?xs))
        (Return (map Bulk ?xs))) ?Q (db, (sn, ?m, True) # ts)"
      unfolding first_members(4) [OF S(4), symmetric]
      by (rule wp_set_shrink [OF rep' S(4,3)])
        (use others_same_trans [OF others_same_remove [of env key m v 115 "set ?xs"]] in \<open>simp_all add: wp_simps\<close>)
    then have "wp F (call (txnkv_sum_key_size env DT_Set True key v) (\<lambda>len.
        Lock (shrink_collection clear_meta_first env key v idx len (of_nat (length ?xs)) (Return (map Bulk ?xs))))) ?Q
        (db, (sn, ?m, False) # ts)"
      by (intro sets.wp_sum_key_size [OF rep' S(2,3) conn]) (simp_all add: wp_simps)
    then show "wp F (spop_body env key cnt idx) ?Q (db, (sn, m, False) # ts)"
      using rep(2) assms(4) by (simp add: spop_body_def sets.wp_with_meta [where m = m, OF meta] u64_to_u32_def wp_simps
          scan member_frames_dkey i64_of_len_def)
  qed
qed

section \<open>Random members\<close>







section \<open>The commands\<close>





text \<open>A store with one set.\<close>

definition set_store :: "env \<Rightarrow> bytes \<Rightarrow> u64 \<Rightarrow> bytes list \<Rightarrow> kv_pair list" where
  "set_store env key ttl xs =
     coll_store env key (encode_txnkv_set_meta_value (KEY_ENCODER env) ttl 0 0) 0 (map (\<lambda>x. ((115, x), [0])) xs) (card (set xs))"

lemma set_store_rep:
  assumes "xs \<noteq> []" "length xs < 2 ^ 63"
  shows "set_rep env (map_of (set_store env key ttl xs)) key ttl 0 (set xs)"
proof -
  have data: "(\<lambda>t r. map_of (map (\<lambda>x. ((115, x), [0])) xs) (t, r)) = set_data (set xs)"
  proof (intro ext)
    fix t r show "map_of (map (\<lambda>x. ((115, x), [0])) xs) (t, r) = set_data (set xs) t r"
      by (induction xs) (auto simp: set_data_def split: if_splits)
  qed
  have "card (set xs) < 2 ^ 63" using card_length [of xs] assms(2) by linarith
  moreover have "coll_rep env (map_of (set_store env key ttl xs)) key (encode_txnkv_set_meta_value (KEY_ENCODER env) ttl 0 0) 0
      (set_data (set xs)) (card (set xs))"
    unfolding set_store_def data [symmetric] by (rule coll_store_rep) auto
  ultimately show ?thesis using assms(1) unfolding set_rep_def by auto
qed

lemma set_store_state:
  assumes "xs \<noteq> []" "length xs < 2 ^ 63"
  shows "set_state env0 (mem_data (cluster (mem_world (set_store env0 key ttl xs)))) key ttl (set xs)"
  using set_store_rep [OF assms, of env0 key ttl] assms(1) by (auto simp: set_state_def)


text \<open>(C24) \<^verbatim>\<open>SADD\<close> of different members, to a live set or to nothing: the members are added, the answer is the number of
  those that are new, and the time to live and all other keys stay. When all versions of a new key still wait for the
  garbage collector, the answer is the error and nothing is written.\<close>

theorem sadd_adds:
  assumes "client_ready api data snap view F env w"
    and "set_state env (data (cluster w)) key ttl S" "\<not> key_is_expired env ttl"
    and "async_deletion_enabled_or_default (SERVER_CONFIG env)" "config_meta_key_number_or_default (SERVER_CONFIG env) \<noteq> 0"
    and "members \<noteq> []" "distinct members" "card (S \<union> set members) < 2 ^ 63"
  shows "completes api data F env (do_async_txnkv_sadd env False key members) w
    (\<lambda>reply m.
       if S = {} \<and> next_version env (data (cluster w)) key = None then
         reply = resp_err KEY_VERSION_EXHUSTED_ERR \<and> m = data (cluster w)
       else reply = Integer (of_nat (card (set members - S))) \<and>
         set_state env m key (if S = {} then 0 else ttl) (S \<union> set members) \<and>
         others_same (KEY_ENCODER env) key (data (cluster w)) m)"
proof (cases "S = {}")
  case True
  then have new: "no_key env (data (cluster w)) key" using assms(2) by (simp add: set_state_def)
  show ?thesis unfolding do_async_txnkv_sadd_def
    by (rule completes_exec_idx [OF assms(1,5) sadd_absent [OF new assms(4,6)]])
      (use assms(8) in \<open>auto simp: True resp_int_def split: option.splits\<close>)
next
  case False
  then obtain v where rep: "set_rep env (data (cluster w)) key ttl v S" using assms(2) by (auto simp: set_state_def)
  show ?thesis unfolding do_async_txnkv_sadd_def
    by (rule completes_exec_idx [OF assms(1,5) sadd_live [OF rep assms(3,7,8)]]) (auto simp: False resp_int_def)
qed

theorem sadd_adds_witness:
  "completes mem_api mem_data {} env0 (do_async_txnkv_sadd env0 False [107] [[97], [98]])
     (mem_world (set_store env0 [107] 0 [[97], [99]]))
     (\<lambda>reply m. reply = Integer 1 \<and> set_state env0 m [107] 0 {[97], [98], [99]})"
proof -
  have "set_state env0 (mem_data (cluster (mem_world (set_store env0 [107] 0 [[97], [99]])))) [107] 0 {[97], [99]}"
    using set_store_state [of "[[97], [99]]" "[107]" 0] by simp
  then show ?thesis
    by (rule completes_mono [OF sadd_adds [OF mem_ready]]) (auto simp: insert_commute)
qed

text \<open>(C25) \<^verbatim>\<open>SREM\<close> of different members and \<^verbatim>\<open>SPOP\<close>, on a live set or on nothing: \<^verbatim>\<open>SREM\<close> removes the members that are there and
  answers with their number; \<^verbatim>\<open>SPOP\<close> removes the first \<open>cnt\<close> members in the order of their bytes and answers with them, with
  one member or nil when \<open>cnt\<close> is 1. The last member takes the key with it.\<close>

theorem srem_spop_remove:
  assumes "client_ready api data snap view F env w"
    and "set_state env (data (cluster w)) key ttl S" "\<not> key_is_expired env ttl"
    and "config_meta_key_number_or_default (SERVER_CONFIG env) \<noteq> 0" "distinct members" "unat cnt \<le> u32_MAX"
  shows "completes api data F env (do_async_txnkv_srem env False key members) w
      (\<lambda>reply m. reply = Integer (of_nat (card (S \<inter> set members))) \<and> set_state env m key ttl (S - set members) \<and>
         others_same (KEY_ENCODER env) key (data (cluster w)) m) \<and>
    completes api data F env (do_async_txnkv_spop env False key cnt) w
      (\<lambda>reply m. let popped = first_members (unat cnt) S in
         reply = (if cnt = 1 then (if S = {} then Null else Bulk (hd popped)) else Array (map Bulk popped)) \<and>
         set_state env m key ttl (S - set popped) \<and> others_same (KEY_ENCODER env) key (data (cluster w)) m)"
proof (cases "S = {}")
  case True
  then have new: "no_key env (data (cluster w)) key" using assms(2) by (simp add: set_state_def)
  show ?thesis unfolding do_async_txnkv_srem_def do_async_txnkv_spop_def
    by (intro conjI completes_exec_idx [OF assms(1,4) set_absent_reads(4) [OF new]]
        completes_exec_idx [OF assms(1,4) set_absent_reads(5) [OF new]])
      (use True assms(2) in \<open>auto simp: set_state_def resp_defs spop_reply_def first_members_def\<close>)
next
  case False
  then obtain v where rep: "set_rep env (data (cluster w)) key ttl v S" using assms(2) by (auto simp: set_state_def)
  have "finite S" using rep by (simp add: set_rep_def)
  then have one: "\<exists>x. first_members 1 S = [x]"
    using first_members(3) [of S 1] False by (cases "first_members 1 S") (auto simp: card_gt_0_iff min_def Suc_le_eq)
  have "spop_reply cnt (map Bulk (first_members (unat cnt) S)) =
      (if cnt = 1 then Bulk (hd (first_members (unat cnt) S)) else Array (map Bulk (first_members (unat cnt) S)))"
    using one by (auto simp: spop_reply_def resp_array_def)
  then show ?thesis unfolding do_async_txnkv_srem_def do_async_txnkv_spop_def
    by (intro conjI completes_exec_idx [OF assms(1,4) srem_live [OF rep assms(3) ready_connected [OF assms(1)] assms(5)]]
        completes_exec_idx [OF assms(1,4) spop_live [OF rep assms(3) ready_connected [OF assms(1)] assms(6)]])
      (auto simp: False resp_int_def Let_def)
qed

theorem srem_spop_remove_witness:
  "completes mem_api mem_data {} env0 (do_async_txnkv_spop env0 False [107] 1)
     (mem_world (set_store env0 [107] 0 [[99], [97]])) (\<lambda>reply m. reply = Bulk [97] \<and> set_state env0 m [107] 0 {[99]})"
proof -
  have "set_state env0 (mem_data (cluster (mem_world (set_store env0 [107] 0 [[99], [97]])))) [107] 0 {[97], [99]}"
    using set_store_state [of "[[99], [97]]" "[107]" 0] by (simp add: insert_commute)
  moreover have "first_members 1 {[97], [99 :: u8]} = [[97]]" by (simp add: first_members_def)
  moreover have "unat (1 :: u64) \<le> u32_MAX" by (simp add: u32_MAX_def)
  ultimately show ?thesis
    using srem_spop_remove [OF mem_ready [of "set_store env0 [107] 0 [[99], [97]]"], of "[107]" 0 "{[97], [99]}" "[]" 1]
    by (auto elim!: completes_mono)
qed




text \<open>Every command on a set whose time to live is over removes it with all its keys, or leaves them to the garbage
  collector, and answers as for an empty set.\<close>

theorem set_expired:
  assumes "client_ready api data snap view F env w"
    and "set_rep env (data (cluster w)) key ttl v S" "key_is_expired env ttl"
    and "config_meta_key_number_or_default (SERVER_CONFIG env) \<noteq> 0"
    and "(p, answer) \<in> {(do_async_txnkv_scard env False key, Integer 0),
      (do_async_txnkv_sismember env False key members False, Integer 0),
      (do_async_txnkv_sismember env False key members True, Array (map (\<lambda>_. Integer 0) members)),
      (do_async_txnkv_smembers env False key, Array []),
      (do_async_txnkv_srandmemeber rng env False key cnt repeatable array_resp, Array []),
      (do_async_txnkv_srem env False key members, Integer 0),
      (do_async_txnkv_spop env False key n, if n = 1 then Null else Array [])}"
  shows "completes api data F env p w (\<lambda>reply m. reply = answer \<and> no_key env m key \<and>
    others_same (KEY_ENCODER env) key (data (cluster w)) m)"
  using assms(2)
proof (rule set_repE)
  fix i assume S: "coll_rep env (data (cluster w)) key (encode_txnkv_set_meta_value (KEY_ENCODER env) ttl v i) v (set_data S) (card S)"
    "set_sized (set_data S) (card S)"
  let ?gone = "\<lambda>m. no_key env m key \<and> others_same (KEY_ENCODER env) key (data (cluster w)) m"
  note answer = sets.expired_answer [OF S assms(3) ready_connected [OF assms(1)]]
  have frame: "completes api data F env (get_txn_client env (exec_in_txn env False q)) w (\<lambda>reply m. reply = fr \<and> ?gone m)"
    if "q = with_meta env DT_Set key wt ab g" "g ttl v = set_expire_then env key (Ret (Inr fr))" for q wt ab g fr
    by (rule completes_exec_frame [OF assms(1) answer [OF that]]) auto
  have idx: "completes api data F env (get_txn_client env (gen_next_meta_index env (\<lambda>idx.
      reply ok (exec_in_txn env False (q idx))))) w (\<lambda>reply m. reply = ok x \<and> ?gone m)"
    if "\<And>idx. q idx = with_meta env DT_Set key wt ab (g idx)" "\<And>idx. g idx ttl v = set_expire_then env key (Ret (Inr x))"
    for q wt ab g and x :: 'x and ok
    by (rule completes_exec_idx [OF assms(1,4) answer [OF that]]) auto
  note [simp] = assms(3) Return_def resp_defs spop_reply_def no_members_reply_def map_replicate_const Let_def
  from assms(5) consider
      "p = do_async_txnkv_srem env False key members" "answer = resp_int 0"
    | "p = do_async_txnkv_spop env False key n" "answer = spop_reply n []"
    | q wt ab g where "p = get_txn_client env (exec_in_txn env False q)" "q = with_meta env DT_Set key wt ab g"
        "g ttl v = set_expire_then env key (Ret (Inr answer))"
    by (elim insertE; clarsimp simp: do_async_txnkv_scard_def do_async_txnkv_sismember_def do_async_txnkv_smembers_def
        do_async_txnkv_srandmemeber_def scard_body_def sismember_body_def smembers_body_def srandmember_body_def)
  then show ?thesis
  proof cases
    case 1
    show ?thesis unfolding 1 do_async_txnkv_srem_def by (rule idx, simp only: srem_body_def, simp)
  next
    case 2
    show ?thesis unfolding 2 do_async_txnkv_spop_def by (rule idx, simp only: spop_body_def, simp)
  next
    case 3
    show ?thesis unfolding 3(1) by (rule frame [OF 3(2,3)])
  qed
qed

theorem set_expired_witness:
  "completes mem_api mem_data {} env0 (do_async_txnkv_spop env0 False [107] 1)
     (mem_world (set_store env0 [107] 5 [[97]])) (\<lambda>reply m. reply = Null \<and> no_key env0 m [107])"
proof -
  have "set_rep env0 (mem_data (cluster (mem_world (set_store env0 [107] 5 [[97]])))) [107] 5 0 {[97]}"
    using set_store_rep [of "[[97]]" env0 "[107]" 5] by simp
  then show ?thesis
    by (rule completes_mono [OF set_expired [OF mem_ready]]) (auto simp: key_is_expired_def)
qed

end
