(* ===== verification/Floats.thy ===== *)
theory Floats
  imports Prelude "HOL-Library.Log_Nat"
begin

text \<open>
  The \<^verbatim>\<open>f64\<close> of the standard library, on bit patterns: addition, \<^verbatim>\<open>to_string\<close> and \<^verbatim>\<open>parse::<f64>\<close>. A finite value is an
  integer multiple of \<open>2\<close> to the power of \<open>-1074\<close>, so everything is computed in these units, exactly, and then rounded to the
  nearest value, to even on ties.
\<close>

section \<open>Values\<close>

definition f64_INFINITY :: f64 where "f64_INFINITY = 0x7FF0000000000000"
definition f64_NAN :: f64 where "f64_NAN = 0x7FF8000000000000"

definition f64_is_infinite :: "f64 \<Rightarrow> bool" where
  "f64_is_infinite x \<longleftrightarrow> f64_magnitude x = f64_INFINITY"

definition f64_exponent :: "f64 \<Rightarrow> nat" where
  "f64_exponent x = unat (f64_magnitude x) div 2 ^ 52"

definition f64_mantissa :: "f64 \<Rightarrow> nat" where
  "f64_mantissa x = unat (f64_magnitude x) mod 2 ^ 52"

definition f64_eq :: "f64 \<Rightarrow> f64 \<Rightarrow> bool" where
  "f64_eq x y \<longleftrightarrow> \<not> f64_is_nan x \<and> \<not> f64_is_nan y \<and> f64_rank x = f64_rank y"

text \<open>The absolute value of a finite number in units.\<close>

definition f64_units :: "f64 \<Rightarrow> nat" where
  "f64_units x =
     (if f64_exponent x = 0 then f64_mantissa x else (2 ^ 52 + f64_mantissa x) * 2 ^ (f64_exponent x - 1))"

text \<open>The bits of the number next to \<open>n / d\<close> units.\<close>

definition f64_round :: "nat \<Rightarrow> nat \<Rightarrow> f64" where
  "f64_round n d =
     (let e = bitlen (int (n div d)) - 53;
          unit = d * 2 ^ nat e;
          q = n div unit;
          r = n mod unit;
          q' = (if unit < 2 * r \<or> (unit = 2 * r \<and> odd q) then q + 1 else q);
          bits = q' + nat e * 2 ^ 52
      in if bits < unat f64_INFINITY then of_nat bits else f64_INFINITY)"

definition f64_neg :: "f64 \<Rightarrow> f64" where
  "f64_neg x = x XOR 0x8000000000000000"

definition f64_signed :: "bool \<Rightarrow> f64 \<Rightarrow> f64" where
  "f64_signed negative x = (if negative then f64_neg x else x)"

text \<open>Addition. The pattern of a result that is not a number is left open by the language; the model has the one of
  \<^verbatim>\<open>f64::NAN\<close>.\<close>

definition f64_add :: "f64 \<Rightarrow> f64 \<Rightarrow> f64" where
  "f64_add x y =
     (if f64_is_nan x \<or> f64_is_nan y then f64_NAN
      else if f64_is_infinite x then (if f64_is_infinite y \<and> x \<noteq> y then f64_NAN else x)
      else if f64_is_infinite y then y
      else
        let value = (\<lambda>z. if bit z 63 then - int (f64_units z) else int (f64_units z));
            s = value x + value y
        in if s = 0 then f64_signed (bit x 63 \<and> bit y 63) 0
           else f64_signed (s < 0) (f64_round (nat \<bar>s\<bar>) 1))"

section \<open>Decimal text\<close>

text \<open>\<^verbatim>\<open>to_string\<close>: the shortest decimal number that lies in the rounding interval of the value. It is found from
  the highest decimal position downwards; the first position with a multiple in the interval wins, and the nearer of
  the two neighbours. Below a power of two the interval is half as wide; it contains its ends when the mantissa is even,
  where the mantissa of a subnormal number counts as doubled. All numbers are in units divided by four.\<close>

definition decimal_at :: "f64 \<Rightarrow> int \<Rightarrow> nat option" where
  "decimal_at x p =
     (let gap = 2 ^ (f64_exponent x - 1);
          power_of_two = f64_exponent x \<noteq> 0 \<and> f64_mantissa x = 0;
          inclusive = f64_exponent x = 0 \<or> even (f64_mantissa x);
          scale = 10 ^ nat (- p);
          unit = 10 ^ nat p * 2 ^ 1076;
          v = 4 * f64_units x * scale;
          low = (4 * f64_units x - (if power_of_two then gap else 2 * gap)) * scale;
          high = (4 * f64_units x + 2 * gap) * scale;
          d = v div unit;
          down = (if inclusive then low \<le> d * unit else low < d * unit);
          up = (if inclusive then (d + 1) * unit \<le> high else (d + 1) * unit < high)
      in if up \<and> (\<not> down \<or> unit \<le> 2 * (v mod unit)) then Some (d + 1) else if down then Some d else None)"

fun shortest_decimal :: "f64 \<Rightarrow> int list \<Rightarrow> nat \<times> int" where
  "shortest_decimal x [] = (0, 0)"
| "shortest_decimal x (p # ps) = (case decimal_at x p of Some d \<Rightarrow> (d, p) | None \<Rightarrow> shortest_decimal x ps)"

definition decimal_text :: "bytes \<Rightarrow> int \<Rightarrow> bytes" where
  "decimal_text ds p =
     (let k = int (length ds) + p in
      if 0 \<le> p then ds @ replicate (nat p) 48
      else if 0 < k then take (nat k) ds @ 46 # drop (nat k) ds
      else [48, 46] @ replicate (nat (- k)) 48 @ ds)"

definition f64_to_string :: "f64 \<Rightarrow> bytes" where
  "f64_to_string x =
     (if f64_is_nan x then ascii ''NaN''
      else (if bit x 63 then [45] else []) @
        (if f64_is_infinite x then ascii ''inf''
         else if f64_magnitude x = 0 then ascii ''0''
         else case shortest_decimal x (rev [-324..308]) of (d, p) \<Rightarrow> decimal_text (nat_digits d) p))"

text \<open>\<^verbatim>\<open>parse::<f64>\<close>: a sign, then digits with a point and an exponent, or one of the words for infinity and not-a-number in
  any case.\<close>

definition to_lower :: "u8 \<Rightarrow> u8" where
  "to_lower b = (if 65 \<le> b \<and> b \<le> 90 then b + 32 else b)"

definition parse_exponent :: "bytes \<Rightarrow> int option" where
  "parse_exponent bs =
     (let negative = (bs \<noteq> [] \<and> hd bs = 45);
          ds = (if bs \<noteq> [] \<and> hd bs \<in> {43, 45} then tl bs else bs)
      in if ds \<noteq> [] \<and> list_all is_digit ds
         then Some (if negative then - int (digits_val ds) else int (digits_val ds))
         else None)"

definition round_decimal :: "nat \<Rightarrow> int \<Rightarrow> f64" where
  "round_decimal m e = f64_round (m * 10 ^ nat e * 2 ^ 1074) (10 ^ nat (- e))"

definition parse_decimal :: "bytes \<Rightarrow> f64 option" where
  "parse_decimal bs =
     (let whole = takeWhile is_digit bs;
          rest = dropWhile is_digit bs;
          point = (rest \<noteq> [] \<and> hd rest = 46);
          frac = (if point then takeWhile is_digit (tl rest) else []);
          rest' = (if point then dropWhile is_digit (tl rest) else rest)
      in if whole = [] \<and> frac = [] then None
         else
           map_option (\<lambda>e. round_decimal (digits_val (whole @ frac)) (e - int (length frac)))
             (case rest' of
                [] \<Rightarrow> Some 0
              | c # bs' \<Rightarrow> if c \<in> {101, 69} then parse_exponent bs' else None))"

definition parse_f64 :: "bytes \<Rightarrow> f64 option" where
  "parse_f64 bs =
     (let negative = (bs \<noteq> [] \<and> hd bs = 45);
          body = (if bs \<noteq> [] \<and> hd bs \<in> {43, 45} then tl bs else bs);
          word = map to_lower body
      in map_option (f64_signed negative)
           (if word = ascii ''inf'' \<or> word = ascii ''infinity'' then Some f64_INFINITY
            else if word = ascii ''nan'' then Some f64_NAN
            else parse_decimal body))"

end
