(* ===== verification/Zsets.thy ===== *)
theory Zsets
  imports Counted Floats
begin

text \<open>
  The commands of sorted sets, \<^verbatim>\<open>src/tikv/zset.rs\<close>. A sorted set has a meta key, a data key per member with its score, a
  score key per member that sorts by score and then by member, and its size in sub-meta keys. Every method of
  \<^verbatim>\<open>ZsetCommandCtx\<close> is a definition; the closure given to \<^verbatim>\<open>exec_in_txn\<close> is the definition with the suffix \<open>body\<close>.
\<close>

section \<open>Removal and expiry\<close>

text \<open>For each data key the data key and its score key go, then the sub-meta keys.\<close>

primrec delete_members :: "env \<Rightarrow> bytes \<Rightarrow> u16 \<Rightarrow> kv_pair list \<Rightarrow> 'a action \<Rightarrow> 'a action" where
  "delete_members env key version [] p = p"
| "delete_members env key version (kv # kvs) p =
     unwrap (decode_key_zset_data_value (snd kv)) (\<lambda>score.
     unwrap (decode_key_zset_member_from_datakey key (fst kv)) (\<lambda>member_vec.
     txn_delete (fst kv) (
     txn_delete (encode_txnkv_zset_score_key (KEY_ENCODER env) key score (utf8_lossy member_vec) version) (
     delete_members env key version kvs p))))"

definition zset_sweep :: "env \<Rightarrow> bytes \<Rightarrow> u16 \<Rightarrow> 'a action \<Rightarrow> 'a action" where
  "zset_sweep env key version p =
     txn_scan (encode_txnkv_zset_data_key_range (KEY_ENCODER env) key version) u32_MAX (\<lambda>kvs.
     delete_members env key version kvs (
     delete_keys_in (encode_txnkv_sub_meta_key_range (KEY_ENCODER env) key version) p))"

definition zset_del_body :: "env \<Rightarrow> bytes \<Rightarrow> i64 action" where
  "zset_del_body env key =
     Lock (txn_get (encode_txnkv_meta_key (KEY_ENCODER env) key) (\<lambda>meta.
       case meta of
         Some meta_value \<Rightarrow>
           unwrap (decode_key_version meta_value) (\<lambda>version.
           remove_collection env DT_Zset (async_del_zset_threshold_or_default (SERVER_CONFIG env))
             (zset_sweep env key version) key version)
       | None \<Rightarrow> Return 0))"

definition do_async_txnk_zset_del :: "env \<Rightarrow> bool \<Rightarrow> bytes \<Rightarrow> i64 action" where
  "do_async_txnk_zset_del env in_txn key = get_txn_client env (exec_in_txn env in_txn (zset_del_body env key))"

definition zset_expire_body :: "env \<Rightarrow> bytes \<Rightarrow> i64 action" where
  "zset_expire_body env key =
     Lock (txn_get (encode_txnkv_meta_key (KEY_ENCODER env) key) (\<lambda>meta.
       case meta of
         Some meta_value \<Rightarrow>
           unwrap (decode_key_ttl meta_value) (\<lambda>ttl.
           if \<not> key_is_expired env ttl then Return 0
           else
             unwrap (decode_key_version meta_value) (\<lambda>version.
             remove_collection env DT_Zset (async_expire_zset_threshold_or_default (SERVER_CONFIG env))
               (zset_sweep env key version) key version))
       | None \<Rightarrow> Return 0))"

definition do_async_txnkv_zset_expire_if_needed :: "env \<Rightarrow> bool \<Rightarrow> bytes \<Rightarrow> i64 action" where
  "do_async_txnkv_zset_expire_if_needed env in_txn key =
     get_txn_client env (exec_in_txn env in_txn (zset_expire_body env key))"

abbreviation zset_expire_then :: "env \<Rightarrow> bytes \<Rightarrow> 'a action \<Rightarrow> 'a action" where
  "zset_expire_then \<equiv> expire_then do_async_txnkv_zset_expire_if_needed"

section \<open>Adding members\<close>

definition put_zset_meta :: "env \<Rightarrow> bytes \<Rightarrow> u64 \<Rightarrow> u16 \<Rightarrow> 'a action \<Rightarrow> 'a action" where
  "put_zset_meta env key ttl version p =
     txn_put (encode_txnkv_meta_key (KEY_ENCODER env) key) (encode_txnkv_zset_meta_value (KEY_ENCODER env) ttl version 0) p"

text \<open>The score keys of a score that changes are replaced.\<close>

definition delete_old_score ::
  "env \<Rightarrow> bytes \<Rightarrow> u16 \<Rightarrow> bytes \<Rightarrow> f64 \<Rightarrow> bytes option \<Rightarrow> 'a action \<Rightarrow> 'a action" where
  "delete_old_score env key version member new_score old_data_value p =
     (case old_data_value of
        None \<Rightarrow> p
      | Some v \<Rightarrow>
          unwrap (decode_key_zset_data_value v) (\<lambda>old_score.
          if \<not> f64_eq old_score new_score
          then txn_delete (encode_txnkv_zset_score_key (KEY_ENCODER env) key old_score member version) p
          else p))"

text \<open>What one member adds to the count of changed members.\<close>

definition changed :: "bool \<Rightarrow> f64 \<Rightarrow> bytes option \<Rightarrow> i64 option" where
  "changed changed_only new_score old_data_value =
     (if changed_only then
        case old_data_value of
          None \<Rightarrow> Some 1
        | Some v \<Rightarrow> map_option (\<lambda>old_score. if \<not> f64_eq old_score new_score then 1 else 0) (decode_key_zset_data_value v)
      else Some 0)"

text \<open>\<open>exists\<close> is the flag \<^verbatim>\<open>NX\<close> (false) or \<^verbatim>\<open>XX\<close> (true).\<close>

fun zadd_loop ::
  "env \<Rightarrow> bytes \<Rightarrow> u16 \<Rightarrow> bool option \<Rightarrow> bool \<Rightarrow> store \<Rightarrow> bytes list \<Rightarrow> f64 list \<Rightarrow> i64 \<Rightarrow> i64 \<Rightarrow> (i64 \<Rightarrow> i64 \<Rightarrow> 'a action) \<Rightarrow> 'a action"
where
  "zadd_loop env key version exists changed_only data_map [] scores added_count updated_count f = f added_count updated_count"
| "zadd_loop env key version exists changed_only data_map (member # members) [] added_count updated_count f = Crash"
| "zadd_loop env key version exists changed_only data_map (member # members) (new_score # scores) added_count updated_count f =
     (let enc = KEY_ENCODER env;
          data_key = encode_txnkv_zset_data_key enc key member version;
          score_key = encode_txnkv_zset_score_key enc key new_score member version;
          old_data_value = data_map data_key;
          member_exists = (old_data_value \<noteq> None)
      in
        if (case exists of Some v \<Rightarrow> (v \<and> member_exists) \<or> (\<not> v \<and> \<not> member_exists) | None \<Rightarrow> True) then
          unwrap (changed changed_only new_score old_data_value) (\<lambda>c.
          txn_put data_key (encode_txnkv_zset_data_value new_score) (
          delete_old_score env key version member new_score old_data_value (
          txn_put score_key member (
          zadd_loop env key version exists changed_only data_map members scores
            (if member_exists then added_count else added_count + 1) (updated_count + c) f))))
        else zadd_loop env key version exists changed_only data_map members scores added_count updated_count f)"

definition zadd_existing ::
  "env \<Rightarrow> bytes \<Rightarrow> bytes list \<Rightarrow> f64 list \<Rightarrow> bool option \<Rightarrow> bool \<Rightarrow> u16 \<Rightarrow> u64 \<Rightarrow> u16 \<Rightarrow> bool \<Rightarrow> i64 action" where
  "zadd_existing env key members scores exists changed_only idx ttl version expired =
     txn_batch_get (map (\<lambda>member. encode_txnkv_zset_data_key (KEY_ENCODER env) key member version) members) (\<lambda>pairs.
     zadd_loop env key version exists changed_only (collect_pairs pairs) members scores 0 0 (\<lambda>added_count updated_count.
     let finish = Return (if changed_only then updated_count else added_count);
         meta = (if expired then put_zset_meta env key ttl version finish else finish)
     in if i64_lt 0 added_count then update_sub_meta env key version idx added_count meta else meta))"

fun put_scores :: "env \<Rightarrow> bytes \<Rightarrow> u16 \<Rightarrow> bytes list \<Rightarrow> f64 list \<Rightarrow> 'a action \<Rightarrow> 'a action" where
  "put_scores env key version [] scores p = p"
| "put_scores env key version (member # members) [] p = Crash"
| "put_scores env key version (member # members) (score # scores) p =
     txn_put (encode_txnkv_zset_data_key (KEY_ENCODER env) key member version) (encode_txnkv_zset_data_value score) (
     txn_put (encode_txnkv_zset_score_key (KEY_ENCODER env) key score member version) member (
     put_scores env key version members scores p))"

definition zadd_new :: "env \<Rightarrow> bytes \<Rightarrow> bytes list \<Rightarrow> f64 list \<Rightarrow> bool option \<Rightarrow> u16 \<Rightarrow> u16 \<Rightarrow> i64 action" where
  "zadd_new env key members scores exists idx version =
     (if exists = Some True then Return 0
      else
        put_scores env key version members scores (
        txn_put (encode_txnkv_sub_meta_key (KEY_ENCODER env) key version idx) (u64_to_be_bytes (i64_of_len (length members))) (
        put_zset_meta env key 0 version (Return (i64_of_len (length members))))))"

definition zadd_body :: "env \<Rightarrow> bytes \<Rightarrow> bytes list \<Rightarrow> f64 list \<Rightarrow> bool option \<Rightarrow> bool \<Rightarrow> u16 \<Rightarrow> i64 action" where
  "zadd_body env key members scores exists changed_only idx =
     with_meta env DT_Zset key (Throw REDIS_WRONG_TYPE_ERR)
       (Unlock (call (get_version_for_new env key) (\<lambda>version.
          Lock (zadd_new env key members scores exists idx version))))
       (\<lambda>ttl version.
          if key_is_expired env ttl then
            zset_expire_then env key (call (get_version_for_new env key) (\<lambda>version.
              Lock (zadd_existing env key members scores exists changed_only idx ttl version True)))
          else zadd_existing env key members scores exists changed_only idx ttl version False)"

definition do_async_txnkv_zadd ::
  "env \<Rightarrow> bool \<Rightarrow> bytes \<Rightarrow> bytes list \<Rightarrow> f64 list \<Rightarrow> bool option \<Rightarrow> bool \<Rightarrow> bool \<Rightarrow> Frame action" where
  "do_async_txnkv_zadd env in_txn key members scores exists changed_only incr =
     get_txn_client env (gen_next_meta_index env (\<lambda>idx.
       reply resp_int (exec_in_txn env in_txn (zadd_body env key members scores exists changed_only idx))))"

section \<open>Incrementing a score\<close>

definition zincrby_put :: "env \<Rightarrow> bytes \<Rightarrow> u16 \<Rightarrow> f64 \<Rightarrow> bytes \<Rightarrow> f64 \<Rightarrow> f64 action" where
  "zincrby_put env key version step member prev_score =
     (let new_score = f64_add prev_score step in
      txn_put (encode_txnkv_zset_data_key (KEY_ENCODER env) key member version) (encode_txnkv_zset_data_value new_score) (
      txn_put (encode_txnkv_zset_score_key (KEY_ENCODER env) key new_score member version) member (Return new_score)))"

definition zincrby_existing :: "env \<Rightarrow> bytes \<Rightarrow> f64 \<Rightarrow> bytes \<Rightarrow> u64 \<Rightarrow> u16 \<Rightarrow> bool \<Rightarrow> f64 action" where
  "zincrby_existing env key step member ttl version expired =
     txn_get (encode_txnkv_zset_data_key (KEY_ENCODER env) key member version) (\<lambda>r.
     case r of
       Some data_value \<Rightarrow>
         unwrap (decode_key_zset_data_value data_value) (\<lambda>prev_score.
         txn_delete (encode_txnkv_zset_score_key (KEY_ENCODER env) key prev_score member version) (
         zincrby_put env key version step member prev_score))
     | None \<Rightarrow>
         gen_next_meta_index env (\<lambda>idx.
         update_sub_meta env key version idx 1 (
         (if expired then put_zset_meta env key ttl version else id) (
         zincrby_put env key version step member 0))))"

definition zincrby_body :: "env \<Rightarrow> bytes \<Rightarrow> f64 \<Rightarrow> bytes \<Rightarrow> f64 action" where
  "zincrby_body env key step member =
     with_meta env DT_Zset key (Throw REDIS_WRONG_TYPE_ERR)
       (Unlock (call (get_version_for_new env key) (\<lambda>version.
          Lock (put_zset_meta env key 0 version (
            gen_next_meta_index env (\<lambda>idx.
            txn_put (encode_txnkv_sub_meta_key (KEY_ENCODER env) key version idx) (u64_to_be_bytes 1) (
            zincrby_put env key version step member 0)))))))
       (\<lambda>ttl version.
          if key_is_expired env ttl then
            zset_expire_then env key (call (get_version_for_new env key) (\<lambda>version.
              Lock (zincrby_existing env key step member ttl version True)))
          else zincrby_existing env key step member ttl version False)"

definition do_async_txnkv_zincrby :: "env \<Rightarrow> bool \<Rightarrow> bytes \<Rightarrow> f64 \<Rightarrow> bytes \<Rightarrow> Frame action" where
  "do_async_txnkv_zincrby env in_txn key step member =
     (if f64_is_nan step then Return (resp_err REDIS_VALUE_IS_NOT_VALID_FLOAT_ERR)
      else
        get_txn_client env (
        reply (\<lambda>new_score. resp_bulk (f64_to_string new_score)) (exec_in_txn env in_txn (zincrby_body env key step member))))"

section \<open>Reading a sorted set\<close>

definition zcard_body :: "env \<Rightarrow> bytes \<Rightarrow> Frame action" where
  "zcard_body env key =
     with_meta env DT_Zset key (Return (resp_err REDIS_WRONG_TYPE_ERR)) (Return (resp_int 0))
       (\<lambda>ttl version.
          if key_is_expired env ttl then zset_expire_then env key (Return (resp_int 0))
          else Unlock (call (txnkv_sum_key_size env DT_Zset True key version) (\<lambda>len. Return (resp_int len))))"

definition do_async_txnkv_zcard :: "env \<Rightarrow> bool \<Rightarrow> bytes \<Rightarrow> Frame action" where
  "do_async_txnkv_zcard env in_txn key = get_txn_client env (exec_in_txn env in_txn (zcard_body env key))"

definition zscore_body :: "env \<Rightarrow> bytes \<Rightarrow> bytes \<Rightarrow> Frame action" where
  "zscore_body env key member =
     with_meta env DT_Zset key (Return (resp_err REDIS_WRONG_TYPE_ERR)) (Return resp_nil)
       (\<lambda>ttl version.
          if key_is_expired env ttl then zset_expire_then env key (Return resp_nil)
          else
            txn_get (encode_txnkv_zset_data_key (KEY_ENCODER env) key member version) (\<lambda>r.
            case r of
              Some data_value \<Rightarrow>
                unwrap (decode_key_zset_data_value data_value) (\<lambda>score. Return (resp_bulk (f64_to_string score)))
            | None \<Rightarrow> Return resp_nil))"

definition do_async_txnkv_zcore :: "env \<Rightarrow> bool \<Rightarrow> bytes \<Rightarrow> bytes \<Rightarrow> Frame action" where
  "do_async_txnkv_zcore env in_txn key member = get_txn_client env (exec_in_txn env in_txn (zscore_body env key member))"

definition zcount_body :: "env \<Rightarrow> bytes \<Rightarrow> f64 \<Rightarrow> bool \<Rightarrow> f64 \<Rightarrow> bool \<Rightarrow> Frame action" where
  "zcount_body env key lo min_inclusive hi max_inclusive =
     with_meta env DT_Zset key (Return (resp_err REDIS_WRONG_TYPE_ERR)) (Return (resp_int 0))
       (\<lambda>ttl version.
          if key_is_expired env ttl then zset_expire_then env key (Return (resp_array []))
          else if f64_lt hi lo then Return (resp_int 0)
          else
            txn_scan
              (RangeInclusive
                (encode_txnkv_zset_score_key_score_start (KEY_ENCODER env) key lo min_inclusive version)
                (encode_txnkv_zset_score_key_score_end (KEY_ENCODER env) key hi max_inclusive version))
              u32_MAX (\<lambda>kvs. Return (resp_int (i64_of_len (length kvs)))))"

definition do_async_txnkv_zcount :: "env \<Rightarrow> bool \<Rightarrow> bytes \<Rightarrow> f64 \<Rightarrow> bool \<Rightarrow> f64 \<Rightarrow> bool \<Rightarrow> Frame action" where
  "do_async_txnkv_zcount env in_txn key lo min_inclusive hi max_inclusive =
     get_txn_client env (exec_in_txn env in_txn (zcount_body env key lo min_inclusive hi max_inclusive))"

text \<open>\<^verbatim>\<open>for k in iter { if k == score_key { break; } rank += 1; }\<close>\<close>

definition rank_of :: "bytes \<Rightarrow> bytes list \<Rightarrow> i64" where
  "rank_of score_key ks = i64_of_len (length (takeWhile (\<lambda>k. k \<noteq> score_key) ks))"

definition zrank_body :: "env \<Rightarrow> bytes \<Rightarrow> bytes \<Rightarrow> Frame action" where
  "zrank_body env key member =
     with_meta env DT_Zset key (Return (resp_err REDIS_WRONG_TYPE_ERR)) (Return resp_nil)
       (\<lambda>ttl version.
          if key_is_expired env ttl then zset_expire_then env key (Return resp_nil)
          else
            txn_get (encode_txnkv_zset_data_key (KEY_ENCODER env) key member version) (\<lambda>r.
            case r of
              Some data_value \<Rightarrow>
                unwrap (decode_key_zset_data_value data_value) (\<lambda>score.
                txn_scan_keys (encode_txnkv_zset_score_key_range (KEY_ENCODER env) key version) u32_MAX (\<lambda>ks.
                Return (resp_int (rank_of (encode_txnkv_zset_score_key (KEY_ENCODER env) key score member version) ks))))
            | None \<Rightarrow> Return resp_nil))"

definition do_async_txnkv_zrank :: "env \<Rightarrow> bool \<Rightarrow> bytes \<Rightarrow> bytes \<Rightarrow> Frame action" where
  "do_async_txnkv_zrank env in_txn key member = get_txn_client env (exec_in_txn env in_txn (zrank_body env key member))"

section \<open>Ranges\<close>

text \<open>A pair of a score key and its member is added to the answer, at its head when the order is reversed.\<close>

definition push_member :: "bytes \<Rightarrow> bool \<Rightarrow> bool \<Rightarrow> Frame list \<Rightarrow> kv_pair \<Rightarrow> Frame list option" where
  "push_member key with_scores reverse resp kv =
     (if with_scores then
        map_option (\<lambda>score.
          let fr = [resp_bulk (snd kv), resp_bulk (f64_to_string score)] in if reverse then fr @ resp else resp @ fr)
          (decode_key_zset_score_from_scorekey key (fst kv))
      else Some (if reverse then resp_bulk (snd kv) # resp else resp @ [resp_bulk (snd kv)]))"

text \<open>The loops over the scanned pairs, with and without the positions \<open>lo\<close> and \<open>hi\<close>.\<close>

fun zrange_loop :: "bytes \<Rightarrow> bool \<Rightarrow> bool \<Rightarrow> i64 \<Rightarrow> i64 \<Rightarrow> i64 \<Rightarrow> Frame list \<Rightarrow> kv_pair list \<Rightarrow> Frame list option" where
  "zrange_loop key with_scores reverse lo hi idx resp [] = Some resp"
| "zrange_loop key with_scores reverse lo hi idx resp (kv # kvs) =
     (if i64_lt idx lo then zrange_loop key with_scores reverse lo hi (idx + 1) resp kvs
      else if i64_lt hi idx then Some resp
      else
        Option.bind (push_member key with_scores reverse resp kv) (\<lambda>resp.
        zrange_loop key with_scores reverse lo hi (idx + 1) resp kvs))"

fun push_members :: "bytes \<Rightarrow> bool \<Rightarrow> bool \<Rightarrow> Frame list \<Rightarrow> kv_pair list \<Rightarrow> Frame list option" where
  "push_members key with_scores reverse resp [] = Some resp"
| "push_members key with_scores reverse resp (kv # kvs) =
     Option.bind (push_member key with_scores reverse resp kv) (\<lambda>resp. push_members key with_scores reverse resp kvs)"

definition zrange_body :: "env \<Rightarrow> bytes \<Rightarrow> i64 \<Rightarrow> i64 \<Rightarrow> bool \<Rightarrow> bool \<Rightarrow> Frame action" where
  "zrange_body env key lo hi with_scores reverse =
     with_meta env DT_Zset key (Return (resp_err REDIS_WRONG_TYPE_ERR)) (Return (resp_array []))
       (\<lambda>ttl version.
          if key_is_expired env ttl then zset_expire_then env key (Return (resp_array []))
          else
            Unlock (call (txnkv_sum_key_size env DT_Zset True key version) (\<lambda>len.
            let lo1 = (if i64_lt lo 0 then lo + len else lo);
                hi1 = (if i64_lt hi 0 then hi + len else hi);
                lo2 = (if reverse then len - hi1 - 1 else lo1);
                hi2 = (if reverse then len - lo1 - 1 else hi1)
            in
              Lock (unwrap (i64_to_u32 len) (\<lambda>limit.
              txn_scan (encode_txnkv_zset_score_key_range (KEY_ENCODER env) key version) limit (\<lambda>kvs.
              unwrap (zrange_loop key with_scores reverse lo2 hi2 0 [] kvs) (\<lambda>resp. Return (resp_array resp))))))))"

definition do_async_txnkv_zrange :: "env \<Rightarrow> bool \<Rightarrow> bytes \<Rightarrow> i64 \<Rightarrow> i64 \<Rightarrow> bool \<Rightarrow> bool \<Rightarrow> Frame action" where
  "do_async_txnkv_zrange env in_txn key lo hi with_scores reverse =
     get_txn_client env (exec_in_txn env in_txn (zrange_body env key lo hi with_scores reverse))"

definition zrange_by_score_body ::
  "env \<Rightarrow> bytes \<Rightarrow> f64 \<Rightarrow> bool \<Rightarrow> f64 \<Rightarrow> bool \<Rightarrow> bool \<Rightarrow> bool \<Rightarrow> Frame action" where
  "zrange_by_score_body env key lo0 min_inclusive0 hi0 max_inclusive0 with_scores reverse =
     with_meta env DT_Zset key (Return (resp_err REDIS_WRONG_TYPE_ERR)) (Return (resp_array []))
       (\<lambda>ttl version.
          if key_is_expired env ttl then zset_expire_then env key (Return (resp_array []))
          else
            let (lo, hi) = (if reverse then (hi0, lo0) else (lo0, hi0));
                (min_inclusive, max_inclusive) =
                  (if reverse then (max_inclusive0, min_inclusive0) else (min_inclusive0, max_inclusive0))
            in
              if f64_lt hi lo then Unlock (Return (resp_array []))
              else
                Unlock (call (txnkv_sum_key_size env DT_Zset True key version) (\<lambda>len.
                Lock (unwrap (i64_to_u32 len) (\<lambda>limit.
                txn_scan
                  (Range
                    (encode_txnkv_zset_score_key_score_start (KEY_ENCODER env) key lo min_inclusive version)
                    (encode_txnkv_zset_score_key_score_end (KEY_ENCODER env) key hi max_inclusive version))
                  limit (\<lambda>kvs.
                unwrap (push_members key with_scores reverse [] kvs) (\<lambda>resp. Return (resp_array resp))))))))"

definition do_async_txnkv_zrange_by_score ::
  "env \<Rightarrow> bool \<Rightarrow> bytes \<Rightarrow> f64 \<Rightarrow> bool \<Rightarrow> f64 \<Rightarrow> bool \<Rightarrow> bool \<Rightarrow> bool \<Rightarrow> Frame action" where
  "do_async_txnkv_zrange_by_score env in_txn key lo min_inclusive hi max_inclusive with_scores reverse =
     get_txn_client env (exec_in_txn env in_txn
       (zrange_by_score_body env key lo min_inclusive hi max_inclusive with_scores reverse))"

section \<open>Removing members\<close>

text \<open>The member of a score key and its data key.\<close>

definition scorekey_data_key :: "env \<Rightarrow> bytes \<Rightarrow> u16 \<Rightarrow> bytes \<Rightarrow> bytes" where
  "scorekey_data_key env key version member =
     encode_txnkv_zset_data_key (KEY_ENCODER env) key (utf8_lossy member) version"

fun zpop_loop :: "env \<Rightarrow> bytes \<Rightarrow> u16 \<Rightarrow> bytes list \<Rightarrow> Frame list \<Rightarrow> i64 \<Rightarrow> (Frame list \<Rightarrow> i64 \<Rightarrow> 'a action) \<Rightarrow> 'a action" where
  "zpop_loop env key version [] resp poped_count f = f resp poped_count"
| "zpop_loop env key version (k # ks) resp poped_count f =
     unwrap (decode_key_zset_member_from_scorekey key k) (\<lambda>member.
     unwrap (decode_key_zset_score_from_scorekey key k) (\<lambda>score.
     txn_delete (scorekey_data_key env key version member) (
     txn_delete k (
     zpop_loop env key version ks (resp @ [resp_bulk member, resp_bulk (f64_to_string score)]) (poped_count + 1) f))))"

definition zpop_body :: "env \<Rightarrow> bytes \<Rightarrow> bool \<Rightarrow> u64 \<Rightarrow> u16 \<Rightarrow> Frame list action" where
  "zpop_body env key from_min cnt idx =
     with_meta env DT_Zset key (Throw REDIS_WRONG_TYPE_ERR) (Return [])
       (\<lambda>ttl version.
          if key_is_expired env ttl then zset_expire_then env key (Return [])
          else
            unwrap (u64_to_u32 cnt) (\<lambda>limit.
            (if from_min then txn_scan_keys else txn_scan_keys_reverse)
              (encode_txnkv_zset_score_key_range (KEY_ENCODER env) key version) limit (\<lambda>ks.
            zpop_loop env key version ks [] 0 (\<lambda>resp poped_count.
            Unlock (call (txnkv_sum_key_size env DT_Zset True key version) (\<lambda>len.
            Lock (shrink_collection clear_meta_last env key version idx len poped_count (Return resp))))))))"

definition do_async_txnkv_zpop :: "env \<Rightarrow> bool \<Rightarrow> bytes \<Rightarrow> bool \<Rightarrow> u64 \<Rightarrow> Frame action" where
  "do_async_txnkv_zpop env in_txn key from_min cnt =
     get_txn_client env (gen_next_meta_index env (\<lambda>idx.
       reply resp_array (exec_in_txn env in_txn (zpop_body env key from_min cnt idx))))"

fun zrem_loop :: "env \<Rightarrow> bytes \<Rightarrow> u16 \<Rightarrow> store \<Rightarrow> bytes list \<Rightarrow> 'a action \<Rightarrow> 'a action" where
  "zrem_loop env key version data_map [] p = p"
| "zrem_loop env key version data_map (member # members) p =
     (let data_key = encode_txnkv_zset_data_key (KEY_ENCODER env) key member version in
      case data_map data_key of
        Some score \<Rightarrow>
          unwrap (decode_key_zset_data_value score) (\<lambda>iscore.
          txn_delete data_key (
          txn_delete (encode_txnkv_zset_score_key (KEY_ENCODER env) key iscore member version) (
          zrem_loop env key version data_map members p)))
      | None \<Rightarrow> zrem_loop env key version data_map members p)"

definition zrem_body :: "env \<Rightarrow> bytes \<Rightarrow> bytes list \<Rightarrow> u16 \<Rightarrow> i64 action" where
  "zrem_body env key members idx =
     with_meta env DT_Zset key (Throw REDIS_WRONG_TYPE_ERR) (Return 0)
       (\<lambda>ttl version.
          if key_is_expired env ttl then zset_expire_then env key (Return 0)
          else
            txn_batch_get (map (\<lambda>m. encode_txnkv_zset_data_key (KEY_ENCODER env) key m version) members) (\<lambda>pairs.
            zrem_loop env key version (collect_pairs pairs) members (
            let removed_count = i64_of_len (card (dom (collect_pairs pairs))) in
            Unlock (call (txnkv_sum_key_size env DT_Zset True key version) (\<lambda>len.
            Lock (shrink_collection clear_meta_last env key version idx len removed_count (Return removed_count)))))))"

definition do_async_txnkv_zrem :: "env \<Rightarrow> bool \<Rightarrow> bytes \<Rightarrow> bytes list \<Rightarrow> Frame action" where
  "do_async_txnkv_zrem env in_txn key members =
     get_txn_client env (gen_next_meta_index env (\<lambda>idx.
       reply resp_int (exec_in_txn env in_txn (zrem_body env key members idx))))"

fun zremrange_loop ::
  "env \<Rightarrow> bytes \<Rightarrow> u16 \<Rightarrow> i64 \<Rightarrow> i64 \<Rightarrow> i64 \<Rightarrow> i64 \<Rightarrow> kv_pair list \<Rightarrow> (i64 \<Rightarrow> 'a action) \<Rightarrow> 'a action" where
  "zremrange_loop env key version lo hi idx removed_count [] f = f removed_count"
| "zremrange_loop env key version lo hi idx removed_count (kv # kvs) f =
     (if i64_lt idx lo then zremrange_loop env key version lo hi (idx + 1) removed_count kvs f
      else if i64_lt hi idx then f removed_count
      else
        txn_delete (scorekey_data_key env key version (snd kv)) (
        txn_delete (fst kv) (
        zremrange_loop env key version lo hi (idx + 1) (removed_count + 1) kvs f)))"

definition zremrange_by_rank_body :: "env \<Rightarrow> bytes \<Rightarrow> i64 \<Rightarrow> i64 \<Rightarrow> u16 \<Rightarrow> i64 action" where
  "zremrange_by_rank_body env key lo hi meta_idx =
     with_meta env DT_Zset key (Throw REDIS_WRONG_TYPE_ERR) (Return 0)
       (\<lambda>ttl version.
          if key_is_expired env ttl then zset_expire_then env key (Return 0)
          else
            Unlock (call (txnkv_sum_key_size env DT_Zset True key version) (\<lambda>len.
            let lo1 = (if i64_lt lo 0 then lo + len else lo);
                hi1 = (if i64_lt hi 0 then hi + len else hi)
            in
              Lock (unwrap (i64_to_u32 len) (\<lambda>limit.
              txn_scan (encode_txnkv_zset_score_key_range (KEY_ENCODER env) key version) limit (\<lambda>kvs.
              zremrange_loop env key version lo1 hi1 0 0 kvs (\<lambda>removed_count.
              Unlock (Lock (
              shrink_collection clear_meta_last env key version meta_idx len removed_count (Return removed_count))))))))))"

definition do_async_txnkv_zremrange_by_rank :: "env \<Rightarrow> bool \<Rightarrow> bytes \<Rightarrow> i64 \<Rightarrow> i64 \<Rightarrow> Frame action" where
  "do_async_txnkv_zremrange_by_rank env in_txn key lo hi =
     get_txn_client env (gen_next_meta_index env (\<lambda>idx.
       reply resp_int (exec_in_txn env in_txn (zremrange_by_rank_body env key lo hi idx))))"

fun delete_scorekeys :: "env \<Rightarrow> bytes \<Rightarrow> u16 \<Rightarrow> bytes list \<Rightarrow> i64 \<Rightarrow> (i64 \<Rightarrow> 'a action) \<Rightarrow> 'a action" where
  "delete_scorekeys env key version [] removed_count f = f removed_count"
| "delete_scorekeys env key version (k # ks) removed_count f =
     unwrap (decode_key_zset_member_from_scorekey key k) (\<lambda>member.
     txn_delete (scorekey_data_key env key version member) (
     txn_delete k (
     delete_scorekeys env key version ks (removed_count + 1) f)))"

definition zremrange_by_score_body :: "env \<Rightarrow> bytes \<Rightarrow> f64 \<Rightarrow> f64 \<Rightarrow> u16 \<Rightarrow> i64 action" where
  "zremrange_by_score_body env key lo hi idx =
     with_meta env DT_Zset key (Throw REDIS_WRONG_TYPE_ERR) (Return 0)
       (\<lambda>ttl version.
          if key_is_expired env ttl then zset_expire_then env key (Return 0)
          else if f64_lt hi lo then Return 0
          else
            txn_scan_keys
              (RangeInclusive
                (encode_txnkv_zset_score_key_score_start (KEY_ENCODER env) key lo True version)
                (encode_txnkv_zset_score_key_score_end (KEY_ENCODER env) key hi True version))
              u32_MAX (\<lambda>ks.
            delete_scorekeys env key version ks 0 (\<lambda>removed_count.
            Unlock (call (txnkv_sum_key_size env DT_Zset True key version) (\<lambda>len.
            Lock (shrink_collection clear_meta_last env key version idx len removed_count (Return removed_count)))))))"

definition do_async_txnkv_zremrange_by_score :: "env \<Rightarrow> bool \<Rightarrow> bytes \<Rightarrow> f64 \<Rightarrow> f64 \<Rightarrow> Frame action" where
  "do_async_txnkv_zremrange_by_score env in_txn key lo hi =
     get_txn_client env (gen_next_meta_index env (\<lambda>idx.
       reply resp_int (exec_in_txn env in_txn (zremrange_by_score_body env key lo hi idx))))"

end
