(* ===== verification/Zset_Ranges.thy ===== *)
theory Zset_Ranges
  imports Zsets Mem_Store "HOL-Library.Product_Lexorder"
begin

text \<open>
  Sorted sets as finite maps from members to scores: the representation in the store, the order of the members, and
  what the commands that read answer.
\<close>

section \<open>Scores\<close>

text \<open>The scores in the store are numbers, and the negative zero is stored as zero.\<close>

definition score_ok :: "f64 \<Rightarrow> bool" where
  "score_ok s \<longleftrightarrow> \<not> f64_is_nan s \<and> s \<noteq> SIGN_MASK"

definition stored_score :: "f64 \<Rightarrow> f64" where
  "stored_score s = (if s = SIGN_MASK then 0 else s)"

lemma stored_score_ok [simp]: "\<not> f64_is_nan s \<Longrightarrow> score_ok (stored_score s)"
  by (simp add: score_ok_def stored_score_def SIGN_MASK_def)

lemma stored_score_id [simp]: "score_ok s \<Longrightarrow> stored_score s = s"
  by (simp add: score_ok_def stored_score_def)

lemma decode_code: "\<not> f64_is_nan s \<Longrightarrow> decode_cmp_uint64_to_f64 (encode_f64_to_cmp_uint64 s) = stored_score s"
  by (simp add: decode_encode_f64 stored_score_def)

lemma rank_sign_mask: "f64_rank SIGN_MASK = 0" "\<not> f64_is_nan SIGN_MASK"
  by (simp_all add: f64_rank_def SIGN_MASK_def f64_magnitude_def f64_is_nan_def)

lemma stored_score_rank [simp]: "f64_rank (stored_score s) = f64_rank s" "f64_is_nan (stored_score s) = f64_is_nan s"
  by (simp_all add: stored_score_def rank_sign_mask)

lemma code_stored [simp]:
  assumes "\<not> f64_is_nan s"
  shows "encode_f64_to_cmp_uint64 (stored_score s) = encode_f64_to_cmp_uint64 s"
  using assms uint_encode_f64 [of s] uint_encode_f64 [of "stored_score s"] by (simp add: word_uint_eq_iff)

lemma code_inject: "score_ok s \<Longrightarrow> score_ok s' \<Longrightarrow> encode_f64_to_cmp_uint64 s = encode_f64_to_cmp_uint64 s' \<longleftrightarrow> s = s'"
  by (metis decode_code stored_score_id score_ok_def)

lemma rank_inject:
  assumes "score_ok s" "score_ok s'"
  shows "f64_rank s = f64_rank s' \<longleftrightarrow> s = s'"
proof
  assume "f64_rank s = f64_rank s'"
  then have "uint (encode_f64_to_cmp_uint64 s) = uint (encode_f64_to_cmp_uint64 s')"
    using assms by (simp add: uint_encode_f64 score_ok_def)
  then show "s = s'" using code_inject [OF assms] by (simp add: word_uint_eq_iff)
qed simp

lemma code_less: "score_ok s \<Longrightarrow> score_ok s' \<Longrightarrow> encode_f64_to_cmp_uint64 s < encode_f64_to_cmp_uint64 s' \<longleftrightarrow> f64_rank s < f64_rank s'"
  by (simp add: encode_f64_less_iff f64_lt_def score_ok_def)

lemma f64_eq_stored:
  assumes "score_ok s" "\<not> f64_is_nan s'"
  shows "f64_eq s s' \<longleftrightarrow> s = stored_score s'"
proof -
  have "f64_eq s s' \<longleftrightarrow> f64_rank s = f64_rank (stored_score s')" using assms by (simp add: f64_eq_def score_ok_def)
  then show ?thesis using rank_inject [OF assms(1) stored_score_ok [OF assms(2)]] by simp
qed

section \<open>Sorted sets in the store\<close>

type_synonym zset = "bytes \<rightharpoonup> f64"

definition zset_ok :: "zset \<Rightarrow> bool" where
  "zset_ok z \<longleftrightarrow> finite (dom z) \<and> (\<forall>x s. z x = Some s \<longrightarrow> utf8_valid x \<and> score_ok s)"

lemma zset_okD [dest]: "zset_ok z \<Longrightarrow> finite (dom z)" "zset_ok z \<Longrightarrow> z x = Some s \<Longrightarrow> utf8_valid x"
  "zset_ok z \<Longrightarrow> z x = Some s \<Longrightarrow> score_ok s"
  by (auto simp: zset_ok_def)

text \<open>The suffix of a score key.\<close>

definition score_row :: "f64 \<Rightarrow> bytes \<Rightarrow> bytes" where
  "score_row s x = u64_to_be_bytes (encode_f64_to_cmp_uint64 s) @ 96 # x"

definition zset_data :: "zset \<Rightarrow> u8 \<Rightarrow> bytes \<rightharpoonup> bytes" where
  "zset_data z t r =
     (if t = 122 then map_option encode_txnkv_zset_data_value (z r)
      else if t = 83 then
        case z (drop 9 r) of None \<Rightarrow> None | Some s \<Rightarrow> if r = score_row s (drop 9 r) then Some (drop 9 r) else None
      else None)"

lemma drop_score_row [simp]: "drop 9 (score_row s x) = x"
  by (simp add: score_row_def)

lemma score_row_eq: "score_row s x = score_row s' x' \<longleftrightarrow> encode_f64_to_cmp_uint64 s = encode_f64_to_cmp_uint64 s' \<and> x = x'"
  by (simp add: score_row_def)

lemma score_row_stored [simp]: "\<not> f64_is_nan s \<Longrightarrow> score_row (stored_score s) x = score_row s x"
  by (simp add: score_row_def)

lemma zset_keys [simp]:
  "encode_txnkv_zset_score_key (KEY_ENCODER env) key s x v = dkey env key v 83 (score_row s x)"
  "encode_txnkv_zset_score_key_score_start (KEY_ENCODER env) key s incl v =
     dkey env key v 83 (u64_to_be_bytes (encode_f64_to_cmp_uint64 s + (if incl then 0 else 1)) @ [96])"
  "encode_txnkv_zset_score_key_score_end (KEY_ENCODER env) key s incl v =
     dkey env key v 83 (u64_to_be_bytes (encode_f64_to_cmp_uint64 s - (if incl then 0 else 1)) @ [97])"
  by (simp_all add: dkey_def enc_simps score_row_def ukp_def layout_defs encode_txnkv_type_data_key_prefix_def
      encode_txnkv_zset_score_key_score_start_def encode_txnkv_zset_score_key_score_end_def)

lemma zset_decode [simp]:
  "decode_key_zset_member_from_datakey key (dkey env key v 122 x) = Some x"
  "decode_key_zset_member_from_scorekey key (dkey env key v 83 (score_row s x)) = Some x"
  "\<not> f64_is_nan s \<Longrightarrow> decode_key_zset_score_from_scorekey key (dkey env key v 83 (score_row s x)) = Some (stored_score s)"
  "\<not> f64_is_nan s \<Longrightarrow> decode_key_zset_data_value (encode_txnkv_zset_data_value s) = Some (stored_score s)"
proof -
  show "decode_key_zset_member_from_datakey key (dkey env key v 122 x) = Some x"
    using decode_data_keys(3) [of key "KEY_ENCODER env" x v] by simp
  show "decode_key_zset_member_from_scorekey key (dkey env key v 83 (score_row s x)) = Some x"
    using decode_data_keys(5) [of key "KEY_ENCODER env" s x v] by simp
  show "decode_key_zset_score_from_scorekey key (dkey env key v 83 (score_row s x)) = Some (stored_score s)" if "\<not> f64_is_nan s"
    using decode_code [OF that]
    by (simp add: dkey_def score_row_def decode_key_zset_score_from_scorekey_def slice_defs)
  show "decode_key_zset_data_value (encode_txnkv_zset_data_value s) = Some (stored_score s)" if "\<not> f64_is_nan s"
    using decode_zset_data_value [OF that] by (simp add: stored_score_def)
qed

lemma zset_data_simps [simp]:
  "zset_data z 122 x = map_option encode_txnkv_zset_data_value (z x)"
  "dom (zset_data z 122) = dom z"
  "t \<noteq> 122 \<Longrightarrow> t \<noteq> 83 \<Longrightarrow> zset_data z t = Map.empty"
  "zset_data Map.empty = (\<lambda>_. Map.empty)"
  by (auto simp: zset_data_def fun_eq_iff dom_def)

lemma zset_data_score:
  "zset_data z 83 (score_row s x) = (case z x of None \<Rightarrow> None | Some s' \<Rightarrow>
     if encode_f64_to_cmp_uint64 s = encode_f64_to_cmp_uint64 s' then Some x else None)"
  by (auto simp: zset_data_def score_row_eq split: option.splits)

lemma dom_zset_score: "dom (zset_data z 83) = (\<lambda>x. score_row (the (z x)) x) ` dom z"
proof
  show "dom (zset_data z 83) \<subseteq> (\<lambda>x. score_row (the (z x)) x) ` dom z"
    by (force simp: zset_data_def dom_def image_iff split: option.splits if_splits)
  show "(\<lambda>x. score_row (the (z x)) x) ` dom z \<subseteq> dom (zset_data z 83)"
    by (auto simp: zset_data_score dom_def)
qed

text \<open>A member that goes, or gets a score.\<close>

lemma zset_data_del:
  assumes "z x = Some s"
  shows "(zset_data z)(122 := (zset_data z 122)(x := None), 83 := (zset_data z 83)(score_row s x := None)) = zset_data (z(x := None))"
    (is "?l = ?r")
proof (intro ext)
  fix t r
  show "?l t r = ?r t r"
  proof (cases "t = 83")
    case True
    then show ?thesis using assms by (cases "drop 9 r = x") (auto simp: zset_data_def split: option.splits)
  qed (auto simp: zset_data_def)
qed

lemma zset_data_put:
  "(zset_data z)(122 := (zset_data z 122)(x \<mapsto> encode_txnkv_zset_data_value s),
     83 := (case z x of None \<Rightarrow> zset_data z 83 | Some s' \<Rightarrow> (zset_data z 83)(score_row s' x := None))(score_row s x \<mapsto> x)) =
   zset_data (z(x \<mapsto> s))"
    (is "?l = ?r")
proof (intro ext)
  fix t r
  show "?l t r = ?r t r"
  proof (cases "t = 83")
    case True
    then show ?thesis by (cases "drop 9 r = x") (auto simp: zset_data_def split: option.splits)
  qed (auto simp: zset_data_def)
qed

definition zset_sized :: "(u8 \<Rightarrow> bytes \<rightharpoonup> bytes) \<Rightarrow> nat \<Rightarrow> bool" where
  "zset_sized D n \<longleftrightarrow> (\<exists>z. D = zset_data z \<and> zset_ok z \<and> n = card (dom z) \<and> 0 < n \<and> n < 2 ^ 63)"

definition zset_rep :: "env \<Rightarrow> store \<Rightarrow> bytes \<Rightarrow> u64 \<Rightarrow> u16 \<Rightarrow> zset \<Rightarrow> bool" where
  "zset_rep env m key ttl v z \<longleftrightarrow>
     (\<exists>i. coll_rep env m key (encode_txnkv_zset_meta_value (KEY_ENCODER env) ttl v i) v (zset_data z) (card (dom z))) \<and>
     zset_ok z \<and> z \<noteq> Map.empty \<and> card (dom z) < 2 ^ 63"

definition zset_state :: "env \<Rightarrow> store \<Rightarrow> bytes \<Rightarrow> u64 \<Rightarrow> zset \<Rightarrow> bool" where
  "zset_state env m key ttl z \<longleftrightarrow> (if z = Map.empty then no_key env m key else \<exists>v. zset_rep env m key ttl v z)"

lemma zset_repE:
  assumes "zset_rep env m key ttl v z"
  obtains i where "coll_rep env m key (encode_txnkv_zset_meta_value (KEY_ENCODER env) ttl v i) v (zset_data z) (card (dom z))"
    "zset_sized (zset_data z) (card (dom z))" "0 < card (dom z)" "card (dom z) < 2 ^ 63" "zset_ok z"
    "m (mkey env key) = Some (encode_txnkv_zset_meta_value (KEY_ENCODER env) ttl v i)"
proof -
  obtain i where rep: "coll_rep env m key (encode_txnkv_zset_meta_value (KEY_ENCODER env) ttl v i) v (zset_data z) (card (dom z))"
    and z: "zset_ok z" "card (dom z) < 2 ^ 63" "z \<noteq> Map.empty"
    using assms by (auto simp: zset_rep_def)
  then have "0 < card (dom z)" by (auto simp: card_gt_0_iff)
  with rep z that [of i] show thesis by (auto simp: zset_sized_def coll_rep_def)
qed

lemma zset_stateI:
  assumes "coll_rep env m key (encode_txnkv_zset_meta_value (KEY_ENCODER env) ttl v i) v (zset_data z) (card (dom z))"
    and "zset_ok z" "z \<noteq> Map.empty" "card (dom z) < 2 ^ 63"
  shows "zset_state env m key ttl z"
  using assms by (auto simp: zset_state_def zset_rep_def)

text \<open>The store without the data keys and score keys of some members.\<close>

definition zset_cut :: "env \<Rightarrow> bytes \<Rightarrow> u16 \<Rightarrow> zset \<Rightarrow> bytes set \<Rightarrow> store \<Rightarrow> store" where
  "zset_cut env key v z X m =
     m |` (- dkey env key v 122 ` X) |` (- dkey env key v 83 ` (\<lambda>x. score_row (the (z x)) x) ` X)"

lemma zset_cut_insert:
  "zset_cut env key v z X (m(dkey env key v 122 x := None, dkey env key v 83 (score_row (the (z x)) x) := None)) =
   zset_cut env key v z (insert x X) m"
  by (auto simp: zset_cut_def restrict_map_def fun_eq_iff)

lemma zset_cut_empty [simp]: "zset_cut env key v z {} m = m"
  by (simp add: zset_cut_def restrict_map_def)

lemma zset_data_cut:
  assumes "X \<subseteq> dom z"
  shows "(zset_data z)(122 := zset_data z 122 |` (- X), 83 := zset_data z 83 |` (- (\<lambda>x. score_row (the (z x)) x) ` X)) =
    zset_data (z |` (- X))"
    (is "?l = ?r")
proof (intro ext)
  fix t r
  show "?l t r = ?r t r"
  proof (cases "t = 83")
    case True
    show ?thesis
    proof (cases "zset_data z 83 r")
      case None
      then show ?thesis using True by (auto simp: zset_data_def restrict_map_def split: option.splits)
    next
      case (Some y)
      then obtain x s where "z x = Some s" "r = score_row s x"
        by (auto simp: zset_data_def split: option.splits if_splits)
      then show ?thesis using True assms
        by (auto simp: zset_data_score restrict_map_def image_iff score_row_eq)
    qed
  qed (auto simp: zset_data_def restrict_map_def)
qed

lemma coll_rep_cut:
  assumes "coll_rep env m key b v (zset_data z) n" "X \<subseteq> dom z"
  shows "coll_rep env (zset_cut env key v z X m) key b v (zset_data (z |` (- X))) n"
  using coll_rep_remove [OF coll_rep_remove [OF assms(1), of 122 X], of 83 "(\<lambda>x. score_row (the (z x)) x) ` X"]
    zset_data_cut [OF assms(2)]
  by (simp add: zset_cut_def)

lemma others_same_cut: "others_same (KEY_ENCODER env) key m (zset_cut env key v z X m)"
  by (auto simp: zset_cut_def others_same_def restrict_map_def)

lemma wp_delete_members:
  assumes "zset_ok z" "set xs \<subseteq> dom z"
    and "wp F p Q (db, (sn, zset_cut env key v z (set xs) m, True) # ts)"
    and err: "\<And>e m'. e \<in> F \<Longrightarrow> Q (Done (Inl (TikvClient e))) (db, (sn, m', True) # ts)"
  shows "wp F (delete_members env key v (map (\<lambda>x. (dkey env key v 122 x, encode_txnkv_zset_data_value (the (z x)))) xs) p) Q
    (db, (sn, m, True) # ts)"
  using assms(2,3)
proof (induction xs arbitrary: m)
  case (Cons x xs)
  obtain s where x: "z x = Some s" using Cons.prems by auto
  then have "\<not> f64_is_nan s" "utf8_lossy x = x" "stored_score s = s"
    using assms(1) by (auto simp: zset_ok_def score_ok_def utf8_lossy_valid)
  moreover have "wp F (delete_members env key v (map (\<lambda>x. (dkey env key v 122 x, encode_txnkv_zset_data_value (the (z x)))) xs) p) Q
      (db, (sn, m(dkey env key v 122 x := None, dkey env key v 83 (score_row s x) := None), True) # ts)"
    using Cons zset_cut_insert [of env key v z "set xs" m x] x by simp
  ultimately show ?case using err x by (simp add: wp_simps del: fun_upd_apply)
qed simp

lemma wp_zset_sweep:
  assumes rep: "coll_rep env m key b v (zset_data z) n" and z: "zset_ok z" "card (dom z) \<le> u32_MAX"
    and p: "wp F p Q (db, (sn, swept env key v m, True) # ts)"
    and err: "\<And>e m'. e \<in> F \<Longrightarrow> Q (Done (Inl (TikvClient e))) (db, (sn, m', True) # ts)"
  shows "wp F (zset_sweep env key v p) Q (db, (sn, m, True) # ts)"
proof -
  let ?m = "zset_cut env key v z (dom z) m" and ?sub = "encode_txnkv_sub_meta_key_range (KEY_ENCODER env) key v"
  have "z |` (- dom z) = Map.empty" by (auto simp: restrict_map_def fun_eq_iff)
  then have rep': "coll_rep env ?m key b v (\<lambda>_. Map.empty) n" using coll_rep_cut [OF rep subset_refl] by simp
  have "?m |` (- Collect (in_range ?sub)) = swept env key v m"
  proof
    fix x
    show "(?m |` (- Collect (in_range ?sub))) x = swept env key v m x"
    proof (cases "versioned (KEY_ENCODER env) key v x")
      case True
      then obtain t r where x: "x = dkey env key v t r" by (rule versionedE)
      then have "?m x = None" if "t \<noteq> 109" using that rep' by (simp add: coll_rep_def)
      then show ?thesis using True x by (cases "t = 109") (auto simp: restrict_map_def)
    next
      case False
      then have "x \<noteq> dkey env key v t r" for t r by auto
      then have "?m x = m x" by (auto simp: zset_cut_def restrict_map_def)
      then show ?thesis using False by (auto simp: restrict_map_def)
    qed
  qed
  then have last: "wp F (delete_keys_in ?sub p) Q (db, (sn, ?m, True) # ts)"
    by (intro wp_delete_keys_in) (use card_sub_meta_keys rep' p err in \<open>auto simp: coll_rep_def\<close>)
  have "wp F (delete_members env key v (scan_store m False (encode_txnkv_zset_data_key_range (KEY_ENCODER env) key v) u32_MAX)
      (delete_keys_in ?sub p)) Q (db, (sn, m, True) # ts)" if "finite (dom m)"
  proof -
    have "scan_store m False (encode_txnkv_zset_data_key_range (KEY_ENCODER env) key v) u32_MAX =
        map (\<lambda>x. (dkey env key v 122 x, the (zset_data z 122 x))) (sorted_list_of_set (dom z))"
      using data_scan [OF rep _ that, of 122] z(2) by simp
    also have "\<dots> = map (\<lambda>x. (dkey env key v 122 x, encode_txnkv_zset_data_value (the (z x)))) (sorted_list_of_set (dom z))"
      using z(1) by (auto simp: zset_ok_def)
    finally show ?thesis using last err z(1)
      by (simp only:) (rule wp_delete_members, auto simp: zset_ok_def)
  qed
  then show ?thesis using err by (simp add: zset_sweep_def wp_simps)
qed

lemma wp_zset_remove:
  assumes "coll_rep env m key (encode_txnkv_zset_meta_value (KEY_ENCODER env) ttl v i) v D n" "zset_sized D n"
    and "TIKV_TXN_CLIENTS env"
    and Q: "\<And>m'. \<lbrakk>no_key env m' key; others_same (KEY_ENCODER env) key m m'\<rbrakk> \<Longrightarrow> Q (Done (Inr 1)) (db, (sn, m', True) # ts)"
    and err: "\<And>e m' h. e \<in> F \<Longrightarrow> Q (Done (Inl (TikvClient e))) (db, (sn, m', h) # ts)"
  shows "wp F (remove_collection env DT_Zset threshold (zset_sweep env key v) key v) Q (db, (sn, m, True) # ts)"
proof -
  obtain z where z: "D = zset_data z" "zset_ok z" "n = card (dom z)" "0 < n" "n < 2 ^ 63"
    using assms(2) by (auto simp: zset_sized_def)
  show ?thesis
  proof (rule wp_remove_collection [OF assms(1) z(4,5) decode_zset_meta_value(1) assms(3)])
    fix p assume "n \<le> u32_MAX" "wp F p Q (db, (sn, swept env key v m, True) # ts)"
    then show "wp F (zset_sweep env key v p) Q (db, (sn, m, True) # ts)"
      by (intro wp_zset_sweep [OF assms(1) [unfolded z(1)] z(2)]) (use z(3) err in auto)
  qed (use Q err in auto)
qed

lemma zset_expire_spec:
  assumes "coll_rep env m key (encode_txnkv_zset_meta_value (KEY_ENCODER env) ttl v i) v D n" "zset_sized D n"
    and "key_is_expired env ttl" "TIKV_TXN_CLIENTS env"
  shows "body_spec F {False} (do_async_txnkv_zset_expire_if_needed env True key) m
    (\<lambda>r m'. r = Inr 1 \<and> no_key env m' key \<and> others_same (KEY_ENCODER env) key m m')"
proof -
  have meta: "m (mkey env key) = Some (encode_txnkv_zset_meta_value (KEY_ENCODER env) ttl v i)"
    using assms(1) by (simp add: coll_rep_def)
  have "body_spec F UNIV (zset_expire_body env key) m
      (\<lambda>r m'. r = Inr 1 \<and> no_key env m' key \<and> others_same (KEY_ENCODER env) key m m')"
    using assms(3) meta
    by (auto simp: body_spec_def zset_expire_body_def wp_simps intro!: wp_zset_remove [OF assms(1,2,4)])
  from body_spec_scoped [OF this] show ?thesis using assms(4)
    by (simp add: do_async_txnkv_zset_expire_if_needed_def get_txn_client_def exec_in_txn_def)
qed

interpretation zsets: collection DT_Zset encode_txnkv_zset_meta_value do_async_txnkv_zset_expire_if_needed zset_sized
  by unfold_locales (simp_all add: zset_expire_spec, auto simp: zset_sized_def)

lemma zset_del_spec:
  assumes "zset_rep env m key ttl v z" "TIKV_TXN_CLIENTS env"
  shows "body_spec F UNIV (zset_del_body env key) m
    (\<lambda>r m'. r = Inr 1 \<and> no_key env m' key \<and> others_same (KEY_ENCODER env) key m m')"
  using assms(1)
proof (rule zset_repE)
  fix i assume rep: "coll_rep env m key (encode_txnkv_zset_meta_value (KEY_ENCODER env) ttl v i) v (zset_data z) (card (dom z))"
    "zset_sized (zset_data z) (card (dom z))" and "m (mkey env key) = Some (encode_txnkv_zset_meta_value (KEY_ENCODER env) ttl v i)"
  then show ?thesis
    by (auto simp: body_spec_def zset_del_body_def wp_simps intro!: wp_zset_remove [OF rep assms(2)])
qed

section \<open>The order of a sorted set\<close>

text \<open>The members with their scores, by score and then by member.\<close>

definition ranked :: "zset \<Rightarrow> (bytes \<times> f64) list" where
  "ranked z = map (\<lambda>(_, x). (x, the (z x))) (sorted_list_of_set ((\<lambda>x. (f64_rank (the (z x)), x)) ` dom z))"

lemma ranked_facts:
  assumes "finite (dom z)"
  shows "set (ranked z) = {(x, s). z x = Some s}" "distinct (map fst (ranked z))" "length (ranked z) = card (dom z)"
proof -
  let ?A = "(\<lambda>x. (f64_rank (the (z x)), x)) ` dom z"
  have fin: "finite ?A" using assms by simp
  show "set (ranked z) = {(x, s). z x = Some s}" using fin by (force simp: ranked_def image_iff dom_def)
  have "inj_on snd ?A" by (auto simp: inj_on_def)
  then have "distinct (map snd (sorted_list_of_set ?A))" using fin by (simp add: distinct_map)
  moreover have "map fst (ranked z) = map snd (sorted_list_of_set ?A)" by (auto simp: ranked_def)
  ultimately show "distinct (map fst (ranked z))" by simp
  have "length (ranked z) = card ?A" by (simp add: ranked_def)
  also have "\<dots> = card (dom z)" by (rule card_image) (auto simp: inj_on_def)
  finally show "length (ranked z) = card (dom z)" .
qed

lemma ranked_ok: "zset_ok z \<Longrightarrow> (x, s) \<in> set (ranked z) \<Longrightarrow> z x = Some s \<and> utf8_valid x \<and> score_ok s \<and> \<not> f64_is_nan s"
  using ranked_facts(1) [of z] by (auto simp: zset_ok_def score_ok_def)

lemma sorted_list_of_set_map:
  assumes "finite A" "\<And>a b. a \<in> A \<Longrightarrow> b \<in> A \<Longrightarrow> a < b \<Longrightarrow> f a < f b"
  shows "sorted_list_of_set (f ` A) = map f (sorted_list_of_set A)"
proof -
  have strict: "sorted_wrt (<) (map f (sorted_list_of_set A))"
    unfolding sorted_wrt_map
    by (rule sorted_wrt_mono_rel [OF _ strict_sorted_list_of_set]) (use assms in auto)
  show ?thesis
    by (rule strict_sorted_equal [OF strict strict_sorted_list_of_set]) (use assms(1) in simp)
qed

lemma score_row_less:
  assumes "score_ok s" "score_ok s'"
  shows "score_row s x < score_row s' x' \<longleftrightarrow> f64_rank s < f64_rank s' \<or> s = s' \<and> x < x'"
  using code_less [OF assms] code_inject [OF assms] by (simp add: score_row_def append_less_append_iff)

lemma sorted_rows:
  assumes "zset_ok z"
  shows "sorted_list_of_set (dom (zset_data z 83)) = map (\<lambda>(x, s). score_row s x) (ranked z)"
proof -
  let ?A = "(\<lambda>x. (f64_rank (the (z x)), x)) ` dom z" and ?f = "\<lambda>(_, x). score_row (the (z x)) x"
  have "?f a < ?f b" if ab: "a \<in> ?A" "b \<in> ?A" "a < b" for a b :: "int \<times> bytes"
  proof -
    obtain x s where a: "a = (f64_rank s, x)" "z x = Some s" using ab(1) by (auto simp: dom_def)
    obtain y t where b: "b = (f64_rank t, y)" "z y = Some t" using ab(2) by (auto simp: dom_def)
    have "score_ok s" "score_ok t" using a(2) b(2) assms by auto
    then show ?thesis using ab(3) a b rank_inject by (auto simp: score_row_less less_prod_def' )
  qed
  then have "sorted_list_of_set (?f ` ?A) = map ?f (sorted_list_of_set ?A)"
    using assms by (intro sorted_list_of_set_map) auto
  moreover have "?f ` ?A = dom (zset_data z 83)" by (simp add: dom_zset_score image_image)
  moreover have "map ?f (sorted_list_of_set ?A) = map (\<lambda>(x, s). score_row s x) (ranked z)" by (auto simp: ranked_def)
  ultimately show ?thesis by simp
qed

text \<open>The pair of a score key.\<close>

definition score_pair :: "env \<Rightarrow> bytes \<Rightarrow> u16 \<Rightarrow> bytes \<times> f64 \<Rightarrow> kv_pair" where
  "score_pair env key v p = (dkey env key v 83 (score_row (snd p) (fst p)), fst p)"

lemma score_range_keys:
  assumes "coll_rep env m key b v (zset_data z) n" "zset_ok z" "finite (dom m)"
  shows "range_keys m (encode_txnkv_zset_score_key_range (KEY_ENCODER env) key v) = map (fst \<circ> score_pair env key v) (ranked z)"
  using data_range_keys(2) [OF assms(1) _ assms(3), of 83] by (simp add: sorted_rows [OF assms(2)] score_pair_def split_def)

lemma score_value:
  assumes "coll_rep env m key b v (zset_data z) n" "zset_ok z" "p \<in> set (ranked z)"
  shows "(fst (score_pair env key v p), the (m (fst (score_pair env key v p)))) = score_pair env key v p"
proof -
  obtain x s where p: "p = (x, s)" by (cases p)
  then have "z x = Some s" using ranked_ok [OF assms(2)] assms(3) by blast
  moreover have "m (dkey env key v 83 (score_row s x)) = zset_data z 83 (score_row s x)"
    using assms(1) by (simp add: coll_rep_def)
  ultimately show ?thesis by (simp add: p score_pair_def zset_data_score)
qed

lemma score_scan:
  assumes "coll_rep env m key b v (zset_data z) n" "zset_ok z" "finite (dom m)"
  shows "scan_store m False (encode_txnkv_zset_score_key_range (KEY_ENCODER env) key v) k =
      map (score_pair env key v) (take k (ranked z))"
    and "scan_store m True (encode_txnkv_zset_score_key_range (KEY_ENCODER env) key v) k =
      map (score_pair env key v) (take k (rev (ranked z)))"
proof -
  have "map (\<lambda>p. (fst (score_pair env key v p), the (m (fst (score_pair env key v p))))) ps = map (score_pair env key v) ps"
    if "set ps \<subseteq> set (ranked z)" for ps
    using score_value [OF assms(1,2)] that by (auto intro!: map_cong)
  from this [of "take k (ranked z)"] this [of "take k (rev (ranked z))"]
  show "scan_store m False (encode_txnkv_zset_score_key_range (KEY_ENCODER env) key v) k =
      map (score_pair env key v) (take k (ranked z))"
    "scan_store m True (encode_txnkv_zset_score_key_range (KEY_ENCODER env) key v) k =
      map (score_pair env key v) (take k (rev (ranked z)))"
    using set_take_subset [of k "ranked z"] set_take_subset [of k "rev (ranked z)"]
    by (simp_all add: scan_store_def score_range_keys [OF assms] take_map rev_map o_def)
qed

section \<open>Positions and scores\<close>

text \<open>The elements at the positions from \<open>lo\<close> to \<open>hi\<close>.\<close>

definition ranks :: "int \<Rightarrow> int \<Rightarrow> 'a list \<Rightarrow> 'a list" where
  "ranks lo hi ps = drop (nat lo) (take (nat (hi + 1)) ps)"

lemma ranks_Nil [simp]: "ranks lo hi [] = []"
  by (simp add: ranks_def)

lemma ranks_Cons:
  "ranks lo hi (p # ps) = (if 0 < lo then ranks (lo - 1) (hi - 1) ps else if hi < 0 then [] else p # ranks (lo - 1) (hi - 1) ps)"
proof -
  have "nat (hi + 1) = Suc (nat hi)" if "0 \<le> hi" using that by simp
  moreover have "nat lo = Suc (nat (lo - 1))" if "0 < lo" using that by simp
  moreover have "nat (hi + 1) = 0" "nat hi = 0" if "hi < 0" using that by simp_all
  moreover have "nat lo = 0" "nat (lo - 1) = 0" if "\<not> 0 < lo" using that by simp_all
  ultimately show ?thesis by (cases "0 < lo"; cases "hi < 0") (simp_all add: ranks_def)
qed

lemma set_ranks: "set (ranks lo hi ps) \<subseteq> set ps"
  unfolding ranks_def by (meson set_drop_subset set_take_subset subset_trans)

lemma distinct_ranks: "distinct (map f ps) \<Longrightarrow> distinct (map f (ranks lo hi ps))"
  by (simp add: ranks_def drop_map [symmetric] take_map [symmetric])

lemma rev_ranks:
  "rev (ranks (int (length ps) - hi - 1) (int (length ps) - lo - 1) ps) = ranks lo hi (rev ps)"
proof -
  let ?n = "length ps"
  have "ranks lo hi (rev ps) = drop (nat lo) (rev (drop (?n - nat (hi + 1)) ps))" by (simp add: ranks_def take_rev)
  also have "\<dots> = rev (take (?n - (?n - nat (hi + 1)) - nat lo) (drop (?n - nat (hi + 1)) ps))" by (simp add: drop_rev)
  also have "take (?n - (?n - nat (hi + 1)) - nat lo) (drop (?n - nat (hi + 1)) ps) =
      ranks (int ?n - hi - 1) (int ?n - lo - 1) ps"
  proof (cases "0 \<le> hi + 1 \<and> 0 \<le> lo \<and> lo \<le> int ?n")
    case True
    show ?thesis
    proof (cases "nat (hi + 1) \<le> ?n")
      case le: True
      have "nat (int ?n - hi - 1) = ?n - nat (hi + 1)" "nat (int ?n - lo - 1 + 1) = ?n - nat lo" using True le by auto
      moreover have "?n - (?n - nat (hi + 1)) - nat lo = ?n - nat lo - (?n - nat (hi + 1))" using le by arith
      ultimately show ?thesis by (simp add: ranks_def drop_take)
    next
      case False
      have "nat (int ?n - hi - 1) = 0" "nat (int ?n - lo - 1 + 1) = ?n - nat lo" using True False by auto
      then show ?thesis using False by (simp add: ranks_def)
    qed
  next
    case False
    then consider "hi + 1 < 0" | "lo < 0" | "int ?n < lo" by linarith
    then show ?thesis
    proof cases
      case 1
      then show ?thesis by (simp add: ranks_def)
    next
      case 2
      then have "nat lo = 0" "nat (int ?n - lo - 1 + 1) \<ge> ?n" by auto
      moreover have "drop (?n - nat (hi + 1)) ps = drop (nat (int ?n - hi - 1)) ps"
      proof (cases "nat (hi + 1) \<le> ?n \<and> 0 \<le> hi + 1")
        case True
        then have "nat (int ?n - hi - 1) = ?n - nat (hi + 1)" by auto
        then show ?thesis by simp
      qed auto
      ultimately show ?thesis by (simp add: ranks_def)
    next
      case 3
      then have "nat (int ?n - lo - 1 + 1) = 0" "?n - nat lo = 0" by auto
      then show ?thesis by (auto simp: ranks_def)
    qed
  qed
  finally show ?thesis by simp
qed

text \<open>The frames of a member.\<close>

definition zset_frames :: "bool \<Rightarrow> bytes \<times> f64 \<Rightarrow> Frame list" where
  "zset_frames with_scores p = Bulk (fst p) # (if with_scores then [Bulk (f64_to_string (snd p))] else [])"

lemma push_member_pair:
  assumes "score_ok (snd p)"
  shows "push_member key with_scores reverse resp (score_pair env key v p) =
    Some (if reverse then zset_frames with_scores p @ resp else resp @ zset_frames with_scores p)"
  using assms by (auto simp: push_member_def score_pair_def zset_frames_def resp_bulk_def Let_def score_ok_def)

definition answer_frames :: "bool \<Rightarrow> bool \<Rightarrow> (bytes \<times> f64) list \<Rightarrow> Frame list" where
  "answer_frames with_scores reverse ps = concat (map (zset_frames with_scores) (if reverse then rev ps else ps))"

lemma push_members_pairs:
  assumes "\<And>p. p \<in> set ps \<Longrightarrow> score_ok (snd p)"
  shows "push_members key with_scores reverse resp (map (score_pair env key v) ps) =
    Some (if reverse then answer_frames with_scores True ps @ resp else resp @ answer_frames with_scores False ps)"
  using assms by (induction ps arbitrary: resp) (auto simp: push_member_pair answer_frames_def)

lemma zrange_loop_ranks:
  assumes "\<And>p. p \<in> set ps \<Longrightarrow> score_ok (snd p)" "0 \<le> sint idx" "sint idx + int (length ps) < 2 ^ 63"
  shows "zrange_loop key with_scores reverse lo hi idx resp (map (score_pair env key v) ps) =
    (let sel = ranks (sint lo - sint idx) (sint hi - sint idx) ps in
     Some (if reverse then answer_frames with_scores True sel @ resp else resp @ answer_frames with_scores False sel))"
  using assms
proof (induction ps arbitrary: idx resp)
  case (Cons p ps)
  have next_idx: "sint (idx + 1) = sint idx + 1" using Cons.prems(2,3) by (intro sint_add_small [of idx 1, simplified]) auto
  have IH: "zrange_loop key with_scores reverse lo hi (idx + 1) resp (map (score_pair env key v) ps) =
    (let sel = ranks (sint lo - sint idx - 1) (sint hi - sint idx - 1) ps in
     Some (if reverse then answer_frames with_scores True sel @ resp else resp @ answer_frames with_scores False sel))" for resp
    using Cons.IH [of "idx + 1" resp] Cons.prems by (simp add: next_idx diff_diff_eq)
  show ?case using Cons.prems(1) [of p]
    by (auto simp: IH ranks_Cons i64_lt_def push_member_pair Let_def answer_frames_def)
qed (simp add: answer_frames_def)

text \<open>Bounds on scores.\<close>

definition score_between :: "f64 \<Rightarrow> bool \<Rightarrow> f64 \<Rightarrow> bool \<Rightarrow> f64 \<Rightarrow> bool" where
  "score_between lo lo_inclusive hi hi_inclusive s \<longleftrightarrow>
     (if lo_inclusive then f64_le lo s else f64_lt lo s) \<and> (if hi_inclusive then f64_le s hi else f64_lt s hi)"

lemma code_bounds:
  assumes "\<not> f64_is_nan s"
  shows "encode_f64_to_cmp_uint64 s \<noteq> 0" "encode_f64_to_cmp_uint64 s \<noteq> - 1"
proof -
  have "uint (f64_magnitude s) \<le> 0x7FF0000000000000" using assms by (simp add: f64_is_nan_def word_less_def)
  moreover have "f64_rank s = uint (f64_magnitude s) \<or> f64_rank s = - uint (f64_magnitude s)" by (simp add: f64_rank_def)
  ultimately have "- 0x7FF0000000000000 \<le> f64_rank s" "f64_rank s \<le> 0x7FF0000000000000"
    using uint_nonnegative [of "f64_magnitude s"] by linarith+
  then have "0 < uint (encode_f64_to_cmp_uint64 s)" "uint (encode_f64_to_cmp_uint64 s) < 2 ^ 64 - 1"
    unfolding uint_encode_f64 [OF assms] by (auto split: if_splits)
  moreover have "uint (0 :: u64) = 0" "uint (- 1 :: u64) = 2 ^ 64 - 1"
    by (simp_all add: unsigned_minus_1_eq_mask mask_eq_exp_minus_1)
  ultimately show "encode_f64_to_cmp_uint64 s \<noteq> 0" "encode_f64_to_cmp_uint64 s \<noteq> - 1" by auto
qed

lemma word_le_pred: "c \<noteq> 0 \<Longrightarrow> x \<le> c - 1 \<longleftrightarrow> x < c" for x c :: u64
  using unat_sub_cases [of c 1] unat_gt_0 [of c] by (auto simp: word_le_nat_alt word_less_nat_alt)

lemma word_succ_le: "c \<noteq> - 1 \<Longrightarrow> c + 1 \<le> x \<longleftrightarrow> c < x" for x c :: u64
proof -
  assume "c \<noteq> - 1"
  then have "c + 1 \<noteq> 0" by (metis add.commute add_eq_0_iff)
  then show ?thesis using word_le_pred [of "c + 1" x] by (metis add_diff_cancel_right' linorder_not_less not_less_iff_gr_or_eq word_le_pred)
qed

lemma code_between:
  assumes "score_ok s" "\<not> f64_is_nan lo" "\<not> f64_is_nan hi"
  shows "encode_f64_to_cmp_uint64 lo + (if lo_incl then 0 else 1) \<le> encode_f64_to_cmp_uint64 s \<and>
      encode_f64_to_cmp_uint64 s \<le> encode_f64_to_cmp_uint64 hi - (if hi_incl then 0 else 1) \<longleftrightarrow>
    score_between lo lo_incl hi hi_incl s"
proof -
  have s: "\<not> f64_is_nan s" using assms(1) by (simp add: score_ok_def)
  show ?thesis
    using word_succ_le [OF code_bounds(2) [OF assms(2)], of "encode_f64_to_cmp_uint64 s"]
      word_le_pred [OF code_bounds(1) [OF assms(3)], of "encode_f64_to_cmp_uint64 s"]
      encode_f64_less_iff [OF assms(2) s] encode_f64_less_iff [OF s assms(3)]
      encode_f64_le_iff [OF assms(2) s] encode_f64_le_iff [OF s assms(3)]
    by (auto simp: score_between_def)
qed

text \<open>The ranges of score keys between two scores, half-open or closed.\<close>

lemma score_key_range:
  fixes c1 c2 :: u64
  assumes "rg \<in> {Range a b, RangeInclusive a b}"
    and "a = dkey env key v 83 (u64_to_be_bytes c1 @ [96])" "b = dkey env key v 83 (u64_to_be_bytes c2 @ [97])"
  shows "in_range rg (dkey env key v 83 (score_row s x)) \<longleftrightarrow> c1 \<le> encode_f64_to_cmp_uint64 s \<and> encode_f64_to_cmp_uint64 s \<le> c2"
    and "in_range rg y \<Longrightarrow> \<exists>r. y = dkey env key v 83 r"
proof -
  show "in_range rg (dkey env key v 83 (score_row s x)) \<longleftrightarrow> c1 \<le> encode_f64_to_cmp_uint64 s \<and> encode_f64_to_cmp_uint64 s \<le> c2"
    using assms by (auto simp: in_range.simps dkey_def score_row_def append_less_append_iff append_le_append_iff word_le_less_eq)
  assume "in_range rg y"
  then have "a \<le> y" "y \<le> b" using assms(1) by (auto simp: in_range.simps)
  then show "\<exists>r. y = dkey env key v 83 r"
    using prefix_between [of "ukp (KEY_ENCODER env) key @ 83 # u16_to_be_bytes v @ [96]" "u64_to_be_bytes c1 @ [96]" y "u64_to_be_bytes c2 @ [97]"]
    by (auto simp: assms(2,3) dkey_def)
qed

lemma score_range_scan:
  assumes rep: "coll_rep env m key b v (zset_data z) n" "zset_ok z" "finite (dom m)"
    and nan: "\<not> f64_is_nan lo" "\<not> f64_is_nan hi"
    and rg: "rg \<in> {Range a c, RangeInclusive a c}"
    and a: "a = encode_txnkv_zset_score_key_score_start (KEY_ENCODER env) key lo lo_incl v"
    and c: "c = encode_txnkv_zset_score_key_score_end (KEY_ENCODER env) key hi hi_incl v"
  shows "scan_store m False rg k =
    map (score_pair env key v) (take k (filter (score_between lo lo_incl hi hi_incl \<circ> snd) (ranked z)))"
proof -
  let ?full = "encode_txnkv_zset_score_key_range (KEY_ENCODER env) key v"
  let ?P = "\<lambda>p. in_range rg (fst (score_pair env key v p))"
  note key = score_key_range [OF rg a [unfolded zset_keys] c [unfolded zset_keys]]
  have "range_keys m rg = filter (in_range rg) (range_keys m ?full)"
  proof (rule range_keys_eqI)
    show "set (filter (in_range rg) (range_keys m ?full)) = {k \<in> dom m. in_range rg k}"
      using rep(3) key(2) by auto
  qed (simp_all add: range_keys_sorted sorted_wrt_filter)
  also have "\<dots> = map (fst \<circ> score_pair env key v) (filter ?P (ranked z))"
    unfolding score_range_keys [OF rep] by (simp add: filter_map o_def)
  also have "filter ?P (ranked z) = filter (score_between lo lo_incl hi hi_incl \<circ> snd) (ranked z)"
  proof (rule filter_cong [OF refl])
    fix p assume "p \<in> set (ranked z)"
    then have "score_ok (snd p)" using ranked_ok [OF rep(2)] by (metis prod.collapse)
    from code_between [OF this nan, of lo_incl hi_incl] show "?P p \<longleftrightarrow> (score_between lo lo_incl hi hi_incl \<circ> snd) p"
      by (simp add: score_pair_def key(1))
  qed
  finally have keys: "range_keys m rg = map (fst \<circ> score_pair env key v) (filter (score_between lo lo_incl hi hi_incl \<circ> snd) (ranked z))"
    (is "_ = map _ ?ps") .
  have "map (\<lambda>p. (fst (score_pair env key v p), the (m (fst (score_pair env key v p))))) (take k ?ps) =
      map (score_pair env key v) (take k ?ps)"
    using score_value [OF rep(1,2)] by (auto intro!: map_cong dest!: in_set_takeD)
  then show ?thesis by (simp add: scan_store_def keys take_map o_def)
qed

section \<open>Reading a sorted set\<close>

lemma zset_member_key: "coll_rep env m key b v (zset_data z) n \<Longrightarrow>
    m (dkey env key v 122 x) = map_option encode_txnkv_zset_data_value (z x)"
  by (simp add: coll_rep_def)

lemma rank_of_ranked:
  assumes "zset_ok z" "z x = Some s"
  shows "rank_of (dkey env key v 83 (score_row s x)) (map (fst \<circ> score_pair env key v) (ranked z)) =
    of_nat (length (takeWhile (\<lambda>p. fst p \<noteq> x) (ranked z)))"
proof -
  have "takeWhile ((\<lambda>k. k \<noteq> dkey env key v 83 (score_row s x)) \<circ> (fst \<circ> score_pair env key v)) (ranked z) =
      takeWhile (\<lambda>p. fst p \<noteq> x) (ranked z)"
  proof (rule takeWhile_cong [OF refl])
    fix p assume "p \<in> set (ranked z)"
    then have "z (fst p) = Some (snd p)" using ranked_ok [OF assms(1), of "fst p" "snd p"] by simp
    then show "((\<lambda>k. k \<noteq> dkey env key v 83 (score_row s x)) \<circ> (fst \<circ> score_pair env key v)) p = (fst p \<noteq> x)"
      using assms(2) by (auto simp: score_pair_def score_row_eq)
  qed
  then show ?thesis by (simp add: rank_of_def takeWhile_map i64_of_len_def)
qed

lemma zset_live_reads:
  assumes rep: "zset_rep env m key ttl v z" "\<not> key_is_expired env ttl" and conn: "TIKV_TXN_CLIENTS env"
  shows "body_spec F UNIV (zcard_body env key) m (\<lambda>r m'. r = Inr (Integer (of_nat (card (dom z)))) \<and> m' = m)"
    and "body_spec F UNIV (zscore_body env key x) m
      (\<lambda>r m'. r = Inr (bulk_or_null (map_option f64_to_string (z x))) \<and> m' = m)"
    and "card (dom z) \<le> u32_MAX \<Longrightarrow> body_spec F UNIV (zrank_body env key x) m
      (\<lambda>r m'. r = Inr (case z x of None \<Rightarrow> Null | Some s \<Rightarrow> Integer (of_nat (length (takeWhile (\<lambda>p. fst p \<noteq> x) (ranked z))))) \<and> m' = m)"
proof -
  obtain i where z: "coll_rep env m key (encode_txnkv_zset_meta_value (KEY_ENCODER env) ttl v i) v (zset_data z) (card (dom z))"
    "0 < card (dom z)" "card (dom z) < 2 ^ 63" "zset_ok z"
    and meta: "m (mkey env key) = Some (encode_txnkv_zset_meta_value (KEY_ENCODER env) ttl v i)"
    using rep(1) by (rule zset_repE)
  note [simp] = zsets.wp_with_meta [where m = m, OF meta] zset_member_key [OF z(1)] and [simp] = rep(2)
  have score: "decode_key_zset_data_value (encode_txnkv_zset_data_value s) = Some s" if "z x = Some s" for s
    using that z(4) by (auto simp: zset_ok_def score_ok_def)
  show "body_spec F UNIV (zcard_body env key) m (\<lambda>r m'. r = Inr (Integer (of_nat (card (dom z)))) \<and> m' = m)"
    by (auto simp: body_spec_def zcard_body_def wp_simps resp_int_def intro!: zsets.wp_sum_key_size [OF z(1-3) conn])
  show "body_spec F UNIV (zscore_body env key x) m
      (\<lambda>r m'. r = Inr (bulk_or_null (map_option f64_to_string (z x))) \<and> m' = m)"
    by (cases "z x") (auto simp: body_spec_def zscore_body_def wp_simps score resp_defs bulk_or_null_def)
  show "body_spec F UNIV (zrank_body env key x) m
      (\<lambda>r m'. r = Inr (case z x of None \<Rightarrow> Null | Some s \<Rightarrow> Integer (of_nat (length (takeWhile (\<lambda>p. fst p \<noteq> x) (ranked z))))) \<and> m' = m)"
    if "card (dom z) \<le> u32_MAX"
  proof (cases "z x")
    case (Some s)
    have "take u32_MAX (ranked z) = ranked z" using ranked_facts(3) [of z] z(4) that by auto
    then have "map fst (scan_store m False (encode_txnkv_zset_score_key_range (KEY_ENCODER env) key v) u32_MAX) =
        map (fst \<circ> score_pair env key v) (ranked z)" if "finite (dom m)"
      using score_scan(1) [OF z(1,4) that] by simp
    then show ?thesis using Some score
      by (auto simp: body_spec_def zrank_body_def wp_simps rank_of_ranked [OF z(4)] resp_int_def)
  qed (auto simp: body_spec_def zrank_body_def wp_simps resp_nil_def)
qed

text \<open>A negative position counts from the end.\<close>

definition from_end :: "nat \<Rightarrow> int \<Rightarrow> int" where
  "from_end n i = (if i < 0 then i + int n else i)"

lemma sint_from_end:
  assumes "\<bar>sint i\<bar> < 2 ^ 62" "n < 2 ^ 62"
  shows "sint (if i64_lt i 0 then i + of_nat n else i) = from_end n (sint i)"
proof -
  have "sint (of_nat n :: i64) = int n" using assms(2) by (intro sint_of_nat_small) simp
  moreover from this have "sint (i + of_nat n) = sint i + int n" using assms by (subst sint_add_small) auto
  ultimately show ?thesis by (simp add: from_end_def i64_lt_def)
qed

lemma limit_word: "n \<le> u32_MAX \<Longrightarrow> i64_to_u32 (of_nat n) = Some n"
  using sint_of_nat_small [of n] by (simp add: i64_to_u32_def u32_MAX_def)

lemma length_ranked: "zset_ok z \<Longrightarrow> length (ranked z) = card (dom z)"
  using ranked_facts(3) by auto

lemma ranked_score_ok: "zset_ok z \<Longrightarrow> p \<in> set (ranked z) \<Longrightarrow> score_ok (snd p)"
  using ranked_ok [of z "fst p" "snd p"] by simp

lemma none_between: "f64_lt hi lo \<Longrightarrow> filter (score_between lo lo_incl hi hi_incl \<circ> snd) ps = []"
  by (auto simp: filter_empty_conv score_between_def f64_lt_def f64_le_def split: if_splits)

lemma zcount_live:
  assumes rep: "zset_rep env m key ttl v z" "\<not> key_is_expired env ttl" and "card (dom z) \<le> u32_MAX"
    and nan: "\<not> f64_is_nan lo" "\<not> f64_is_nan hi"
  shows "body_spec F UNIV (zcount_body env key lo lo_incl hi hi_incl) m
    (\<lambda>r m'. r = Inr (Integer (of_nat (length (filter (score_between lo lo_incl hi hi_incl \<circ> snd) (ranked z))))) \<and> m' = m)"
  using rep(1)
proof (rule zset_repE)
  fix i assume z: "coll_rep env m key (encode_txnkv_zset_meta_value (KEY_ENCODER env) ttl v i) v (zset_data z) (card (dom z))"
    "zset_ok z" and meta: "m (mkey env key) = Some (encode_txnkv_zset_meta_value (KEY_ENCODER env) ttl v i)"
  have "length (filter (score_between lo lo_incl hi hi_incl \<circ> snd) (ranked z)) \<le> u32_MAX"
    using length_filter_le [of _ "ranked z"] length_ranked [OF z(2)] assms(3) by (metis le_trans)
  then show ?thesis using score_range_scan [OF z _ nan _ refl refl, where k = u32_MAX] rep(2)
    by (auto simp: none_between body_spec_def zcount_body_def zsets.wp_with_meta [where m = m, OF meta] wp_simps resp_int_def i64_of_len_def)
qed

lemma wp_range_by_score:
  assumes z: "coll_rep env m key (encode_txnkv_zset_meta_value (KEY_ENCODER env) ttl v i) v (zset_data z) (card (dom z))"
    "0 < card (dom z)" "card (dom z) \<le> u32_MAX" "zset_ok z" and conn: "TIKV_TXN_CLIENTS env"
    and nan: "\<not> f64_is_nan lo" "\<not> f64_is_nan hi"
    and Q: "Q (Done (Inr (Array (answer_frames with_scores reverse (filter (score_between lo lo_incl hi hi_incl \<circ> snd) (ranked z))))))
      (db, (sn, m, True) # ts)"
    and err: "\<And>e m' h. e \<in> F \<Longrightarrow> Q (Done (Inl (TikvClient e))) (db, (sn, m', h) # ts)"
  shows "wp F (call (txnkv_sum_key_size env DT_Zset True key v) (\<lambda>len. Lock (unwrap (i64_to_u32 len) (\<lambda>limit.
      txn_scan (Range (encode_txnkv_zset_score_key_score_start (KEY_ENCODER env) key lo lo_incl v)
        (encode_txnkv_zset_score_key_score_end (KEY_ENCODER env) key hi hi_incl v)) limit (\<lambda>kvs.
      unwrap (push_members key with_scores reverse [] kvs) (\<lambda>resp. Return (resp_array resp))))))) Q (db, (sn, m, False) # ts)"
    (is "wp F (call _ ?f) _ _")
proof -
  let ?ps = "filter (score_between lo lo_incl hi hi_incl \<circ> snd) (ranked z)"
  have "push_members key with_scores reverse [] (map (score_pair env key v) ?ps) = Some (answer_frames with_scores reverse ?ps)"
    using push_members_pairs [of ?ps key with_scores reverse "[]" env v] ranked_score_ok [OF z(4)] by (cases reverse) auto
  moreover have "scan_store m False (Range (encode_txnkv_zset_score_key_score_start (KEY_ENCODER env) key lo lo_incl v)
      (encode_txnkv_zset_score_key_score_end (KEY_ENCODER env) key hi hi_incl v)) (card (dom z)) =
      map (score_pair env key v) ?ps" if "finite (dom m)"
    using score_range_scan [OF z(1,4) that nan _ refl refl] length_filter_le [of _ "ranked z"] length_ranked [OF z(4)] by simp
  ultimately have "wp F (?f (of_nat (card (dom z)))) Q (db, (sn, m, False) # ts)"
    using Q err by (simp add: limit_word [OF z(3)] wp_simps resp_array_def del: zset_keys)
  then show ?thesis
    by (intro zsets.wp_sum_key_size [OF z(1,2) _ conn]) (use z(3) err in \<open>auto simp: u32_MAX_def\<close>)
qed

lemma zrange_by_score_live:
  assumes rep: "zset_rep env m key ttl v z" "\<not> key_is_expired env ttl" and "TIKV_TXN_CLIENTS env" "card (dom z) \<le> u32_MAX"
    and nan: "\<not> f64_is_nan lo" "\<not> f64_is_nan hi"
  shows "body_spec F UNIV (if reverse then zrange_by_score_body env key hi hi_incl lo lo_incl with_scores True
      else zrange_by_score_body env key lo lo_incl hi hi_incl with_scores False) m
    (\<lambda>r m'. r = Inr (Array (answer_frames with_scores reverse
       (filter (score_between lo lo_incl hi hi_incl \<circ> snd) (ranked z)))) \<and> m' = m)"
  using rep(1)
proof (rule zset_repE)
  fix i assume z: "coll_rep env m key (encode_txnkv_zset_meta_value (KEY_ENCODER env) ttl v i) v (zset_data z) (card (dom z))"
    "0 < card (dom z)" "zset_ok z" and meta: "m (mkey env key) = Some (encode_txnkv_zset_meta_value (KEY_ENCODER env) ttl v i)"
  note by_score = wp_range_by_score [OF z(1,2) assms(4) z(3) assms(3) nan]
  show ?thesis using rep(2)
    by (auto simp: none_between body_spec_def zrange_by_score_body_def zsets.wp_with_meta [where m = m, OF meta] wp_simps
        answer_frames_def [of _ _ "[]"] resp_array_def [of "[]"] simp del: zset_keys intro!: by_score)
qed

lemma sint_flip:
  assumes "\<bar>sint i\<bar> < 2 ^ 62" "n < 2 ^ 32"
  shows "sint (of_nat n - (if i64_lt i 0 then i + of_nat n else i) - 1) = int n - from_end n (sint i) - 1"
proof -
  let ?i = "if i64_lt i 0 then i + of_nat n else i"
  have b: "\<bar>from_end n (sint i)\<bar> < 2 ^ 62" using assms by (auto simp: from_end_def)
  have "sint (of_nat n :: i64) = int n" using assms(2) by (intro sint_of_nat_small) simp
  moreover have "sint ?i = from_end n (sint i)" using assms by (intro sint_from_end) simp_all
  ultimately have "sint (of_nat n - ?i) = int n - from_end n (sint i)" using b assms(2) by (subst sint_sub_small) auto
  then show ?thesis using b assms(2) by (subst sint_sub_small) auto
qed

lemma zrange_live:
  assumes rep: "zset_rep env m key ttl v z" "\<not> key_is_expired env ttl" and conn: "TIKV_TXN_CLIENTS env"
    and card: "card (dom z) \<le> u32_MAX" and b: "\<bar>sint lo\<bar> < 2 ^ 62" "\<bar>sint hi\<bar> < 2 ^ 62"
  shows "body_spec F UNIV (zrange_body env key lo hi with_scores reverse) m
    (\<lambda>r m'. r = Inr (Array (concat (map (zset_frames with_scores)
       (ranks (from_end (card (dom z)) (sint lo)) (from_end (card (dom z)) (sint hi))
         (if reverse then rev (ranked z) else ranked z))))) \<and> m' = m)"
  using rep(1)
proof (rule zset_repE)
  fix i assume z: "coll_rep env m key (encode_txnkv_zset_meta_value (KEY_ENCODER env) ttl v i) v (zset_data z) (card (dom z))"
    "0 < card (dom z)" "card (dom z) < 2 ^ 63" "zset_ok z"
    and meta: "m (mkey env key) = Some (encode_txnkv_zset_meta_value (KEY_ENCODER env) ttl v i)"
  let ?n = "of_nat (card (dom z)) :: i64"
  let ?at = "\<lambda>i. if i64_lt i 0 then i + ?n else i"
  let ?lo = "if reverse then ?n - ?at hi - 1 else ?at lo" and ?hi = "if reverse then ?n - ?at lo - 1 else ?at hi"
  let ?sel = "ranks (from_end (card (dom z)) (sint lo)) (from_end (card (dom z)) (sint hi)) (if reverse then rev (ranked z) else ranked z)"
  have n: "card (dom z) < 2 ^ 32" "card (dom z) < 2 ^ 62" using card by (simp_all add: u32_MAX_def)
  note len = length_ranked [OF z(4)]
  have "zrange_loop key with_scores reverse ?lo ?hi 0 [] (map (score_pair env key v) (ranked z)) =
      Some (answer_frames with_scores reverse (ranks (sint ?lo) (sint ?hi) (ranked z)))"
    using zrange_loop_ranks [of "ranked z" 0 key with_scores reverse ?lo ?hi "[]" env v] ranked_score_ok [OF z(4)] z(3) len
    by (simp add: Let_def)
  also have "\<dots> = Some (concat (map (zset_frames with_scores) ?sel))"
    using rev_ranks [of "ranked z" "from_end (card (dom z)) (sint hi)" "from_end (card (dom z)) (sint lo)"]
    by (simp add: answer_frames_def sint_from_end [OF b(1) n(2)] sint_from_end [OF b(2) n(2)] sint_flip [OF b(1) n(1)]
        sint_flip [OF b(2) n(1)] len)
  finally have loop: "zrange_loop key with_scores reverse ?lo ?hi 0 [] (map (score_pair env key v) (ranked z)) =
      Some (concat (map (zset_frames with_scores) ?sel))" .
  have "scan_store m False (encode_txnkv_zset_score_key_range (KEY_ENCODER env) key v) (card (dom z)) =
      map (score_pair env key v) (ranked z)" if "finite (dom m)"
    using score_scan(1) [OF z(1,4) that] len by simp
  with loop show ?thesis using rep(2)
    by (auto simp: body_spec_def zrange_body_def zsets.wp_with_meta [where m = m, OF meta] wp_simps limit_word [OF card] Let_def
        resp_array_def intro!: zsets.wp_sum_key_size [OF z(1-3) conn] simp del: if_split)
qed

end
