(* ===== verification/Zset_Edits.thy ===== *)
theory Zset_Edits
  imports Zset_Ranges
begin

text \<open>
  What the commands that write sorted sets do with the maps from members to scores.
\<close>

section \<open>Adding members\<close>

text \<open>The data keys of a version, and changes of nothing but them.\<close>

definition data_in :: "env \<Rightarrow> bytes \<Rightarrow> u16 \<Rightarrow> store \<Rightarrow> (u8 \<Rightarrow> bytes \<rightharpoonup> bytes) \<Rightarrow> bool" where
  "data_in env key v m D \<longleftrightarrow> (\<forall>t r. t \<noteq> 109 \<longrightarrow> m (dkey env key v t r) = D t r)"

definition data_only :: "env \<Rightarrow> bytes \<Rightarrow> u16 \<Rightarrow> store \<Rightarrow> store \<Rightarrow> bool" where
  "data_only env key v m m' \<longleftrightarrow> (\<forall>x. m' x = m x \<or> (\<exists>t r. t \<noteq> 109 \<and> x = dkey env key v t r))"

lemma data_only_refl [simp]: "data_only env key v m m"
  by (simp add: data_only_def)

lemma data_only_upd: "data_only env key v m m' \<Longrightarrow> t \<noteq> 109 \<Longrightarrow> data_only env key v m (m'(dkey env key v t r := y))"
  by (auto simp: data_only_def)

lemma data_only_same:
  assumes "data_only env key v m m'"
  shows "m' (mkey env key) = m (mkey env key)" "m' (dkey env key v 109 r) = m (dkey env key v 109 r)"
    "others_same (KEY_ENCODER env) key m m'"
  using assms by (auto simp: data_only_def others_same_def)

lemma coll_rep_replace:
  assumes rep: "coll_rep env (m(mkey env key \<mapsto> b)) key b v D n" and only: "data_only env key v m m'" and "data_in env key v m' D'"
  shows "coll_rep env (m'(mkey env key \<mapsto> b)) key b v D' n"
proof -
  have "counted env (m'(mkey env key \<mapsto> b)) key v n"
    by (rule counted_cong [of env "m(mkey env key \<mapsto> b)"]) (use rep in \<open>auto simp: coll_rep_def data_only_same(2) [OF only]\<close>)
  moreover have "gc_ok (KEY_ENCODER env) (m'(mkey env key \<mapsto> b)) key (Some v)"
  proof -
    have gc: "m' (encode_txnkv_gc_key (KEY_ENCODER env) key) = m (encode_txnkv_gc_key (KEY_ENCODER env) key)"
      "m' (encode_txnkv_gc_version_key (KEY_ENCODER env) key v') = m (encode_txnkv_gc_version_key (KEY_ENCODER env) key v')" for v'
      using only by (auto simp: data_only_def)
    have "m' x = m x" if "versioned (KEY_ENCODER env) key v' x" "v' \<noteq> v" for x v'
      using that only unfolding data_only_def by (metis dkey_versioned)
    then show ?thesis using rep gc by (auto simp: coll_rep_def gc_ok_def) metis
  qed
  ultimately show ?thesis using assms(3) by (simp add: coll_rep_def data_in_def)
qed

definition zset_put :: "env \<Rightarrow> bytes \<Rightarrow> u16 \<Rightarrow> zset \<Rightarrow> bytes \<Rightarrow> f64 \<Rightarrow> store \<Rightarrow> store" where
  "zset_put env key v z x s m =
     (let m1 = m(dkey env key v 122 x \<mapsto> encode_txnkv_zset_data_value s) in
      case z x of
        None \<Rightarrow> m1(dkey env key v 83 (score_row s x) \<mapsto> x)
      | Some s' \<Rightarrow> m1(dkey env key v 83 (score_row s' x) := None, dkey env key v 83 (score_row s x) \<mapsto> x))"

lemma zset_put_data:
  assumes "data_in env key v m (zset_data z)" "\<not> f64_is_nan s"
  shows "data_in env key v (zset_put env key v z x s m) (zset_data (z(x \<mapsto> stored_score s)))"
    and "data_only env key v m (zset_put env key v z x s m)"
proof -
  have "encode_txnkv_zset_data_value (stored_score s) = encode_txnkv_zset_data_value s"
    using assms(2) by (simp add: encode_txnkv_zset_data_value_def)
  then show "data_in env key v (zset_put env key v z x s m) (zset_data (z(x \<mapsto> stored_score s)))"
    unfolding zset_data_put [of z x "stored_score s", symmetric] using assms
    by (auto simp: data_in_def zset_put_def Let_def split: option.splits)
  show "data_only env key v m (zset_put env key v z x s m)"
    by (auto simp: zset_put_def Let_def data_only_def split: option.splits)
qed

lemma data_only_trans: "data_only env key v m m' \<Longrightarrow> data_only env key v m' m'' \<Longrightarrow> data_only env key v m m''"
  unfolding data_only_def by metis

lemma wp_delete_old:
  assumes "z x = None \<or> (\<exists>s'. z x = Some s' \<and> score_ok s')" "\<not> f64_is_nan s"
    and "wp F p Q (db, (sn, zset_put env key v z x s m, True) # ts)"
    and err: "\<And>e m'. e \<in> F \<Longrightarrow> Q (Done (Inl (TikvClient e))) (db, (sn, m', True) # ts)"
  shows "wp F (txn_put (dkey env key v 122 x) (encode_txnkv_zset_data_value s) (
      delete_old_score env key v x s (map_option encode_txnkv_zset_data_value (z x)) (
      txn_put (dkey env key v 83 (score_row s x)) x p))) Q (db, (sn, m, True) # ts)"
proof (cases "z x")
  case (Some s')
  then have ok: "score_ok s'" "\<not> f64_is_nan s'" using assms(1) by (auto simp: score_ok_def)
  show ?thesis
  proof (cases "s' = stored_score s")
    case True
    then have "zset_put env key v z x s m = m(dkey env key v 122 x \<mapsto> encode_txnkv_zset_data_value s,
        dkey env key v 83 (score_row s x) \<mapsto> x)"
      using Some assms(2) by (simp add: zset_put_def Let_def)
    then show ?thesis using assms(3) err Some True ok f64_eq_stored [OF ok(1) assms(2)]
      by (simp add: delete_old_score_def wp_simps del: fun_upd_apply)
  next
    case False
    then show ?thesis using assms(3) err Some ok f64_eq_stored [OF ok(1) assms(2)]
      by (simp add: delete_old_score_def wp_simps zset_put_def Let_def del: fun_upd_apply)
  qed
qed (use assms(3) err in \<open>simp add: delete_old_score_def wp_simps zset_put_def Let_def del: fun_upd_apply\<close>)

text \<open>What \<^verbatim>\<open>ZADD\<close> does to the map: members are skipped that the flags \<^verbatim>\<open>NX\<close> or \<^verbatim>\<open>XX\<close> exclude.\<close>

definition zadd_takes :: "bool option \<Rightarrow> zset \<Rightarrow> bytes \<times> f64 \<Rightarrow> bool" where
  "zadd_takes exists z p \<longleftrightarrow> (case exists of None \<Rightarrow> True | Some e \<Rightarrow> e = (z (fst p) \<noteq> None))"

definition zadd_map :: "bool option \<Rightarrow> zset \<Rightarrow> (bytes \<times> f64) list \<Rightarrow> zset" where
  "zadd_map exists z ps = z ++ map_of (map (\<lambda>(x, s). (x, stored_score s)) (filter (zadd_takes exists z) ps))"

definition zadd_added :: "bool option \<Rightarrow> zset \<Rightarrow> (bytes \<times> f64) list \<Rightarrow> nat" where
  "zadd_added exists z ps = length (filter (\<lambda>p. zadd_takes exists z p \<and> z (fst p) = None) ps)"

definition zadd_changed :: "bool option \<Rightarrow> zset \<Rightarrow> (bytes \<times> f64) list \<Rightarrow> nat" where
  "zadd_changed exists z ps = length (filter (\<lambda>p. zadd_takes exists z p \<and> z (fst p) \<noteq> Some (stored_score (snd p))) ps)"

definition zadd_args :: "bytes list \<Rightarrow> f64 list \<Rightarrow> bool" where
  "zadd_args members scores \<longleftrightarrow> length members = length scores \<and> distinct members \<and>
     list_all utf8_valid members \<and> list_all (\<lambda>s. \<not> f64_is_nan s) scores"

lemma zadd_map_Cons:
  assumes "x \<notin> fst ` set ps"
  shows "zadd_map exists z ((x, s) # ps) =
    (if zadd_takes exists z (x, s) then (zadd_map exists z ps)(x \<mapsto> stored_score s) else zadd_map exists z ps)"
proof -
  have "map_of (map (\<lambda>(x, s). (x, stored_score s)) (filter (zadd_takes exists z) ps)) x = None"
    using assms by (force simp: map_of_eq_None_iff)
  then show ?thesis by (auto simp: zadd_map_def)
qed

lemma zadd_map_other: "x \<notin> fst ` set ps \<Longrightarrow> zadd_map exists z ps x = z x"
proof -
  assume "x \<notin> fst ` set ps"
  then have "map_of (map (\<lambda>(x, s). (x, stored_score s)) (filter (zadd_takes exists z) ps)) x = None"
    by (force simp: map_of_eq_None_iff)
  then show ?thesis by (simp add: zadd_map_def map_add_def)
qed

lemma changed_value:
  assumes "zset_ok z" "\<not> f64_is_nan s"
  shows "changed changed_only s (map_option encode_txnkv_zset_data_value (z x)) =
    Some (if changed_only \<and> z x \<noteq> Some (stored_score s) then 1 else 0)"
proof (cases "z x")
  case (Some s')
  then have "score_ok s'" using assms(1) by auto
  then show ?thesis using Some f64_eq_stored [OF _ assms(2), of s'] by (auto simp: changed_def score_ok_def)
qed (auto simp: changed_def)

lemma zadd_counts_Cons:
  "zadd_added exists z ((x, s) # ps) = (if zadd_takes exists z (x, s) \<and> z x = None then 1 else 0) + zadd_added exists z ps"
  "zadd_changed exists z ((x, s) # ps) =
     (if zadd_takes exists z (x, s) \<and> z x \<noteq> Some (stored_score s) then 1 else 0) + zadd_changed exists z ps"
  by (auto simp: zadd_added_def zadd_changed_def)

lemma zadd_loop_step:
  assumes "zset_ok z" "\<not> f64_is_nan s" "data_map (dkey env key v 122 x) = map_option encode_txnkv_zset_data_value (z x)"
  shows "zadd_loop env key v exists changed_only data_map (x # members) (s # scores) added updated f =
    (if zadd_takes exists z (x, s) then
       txn_put (dkey env key v 122 x) (encode_txnkv_zset_data_value s) (
       delete_old_score env key v x s (map_option encode_txnkv_zset_data_value (z x)) (
       txn_put (dkey env key v 83 (score_row s x)) x (
       zadd_loop env key v exists changed_only data_map members scores (added + (if z x = None then 1 else 0))
         (updated + (if changed_only \<and> z x \<noteq> Some (stored_score s) then 1 else 0)) f)))
     else zadd_loop env key v exists changed_only data_map members scores added updated f)"
proof -
  have "(case exists of None \<Rightarrow> True | Some e \<Rightarrow>
      e \<and> map_option encode_txnkv_zset_data_value (z x) \<noteq> None \<or> \<not> e \<and> \<not> map_option encode_txnkv_zset_data_value (z x) \<noteq> None) =
      zadd_takes exists z (x, s)"
    by (auto simp: zadd_takes_def split: option.splits)
  then show ?thesis
    unfolding zadd_loop.simps Let_def collection_keys zset_keys assms(3) changed_value [OF assms(1,2)] unwrap_def
    by (cases "z x") simp_all
qed

lemma wp_zadd_loop:
  assumes "zset_ok z0" "zadd_args members scores" "data_in env key v m (zset_data z)"
    and "\<And>x. x \<in> set members \<Longrightarrow> z x = z0 x"
    and "\<And>x. x \<in> set members \<Longrightarrow> data_map (dkey env key v 122 x) = map_option encode_txnkv_zset_data_value (z0 x)"
    and Q: "\<And>m'. \<lbrakk>data_in env key v m' (zset_data (\<lambda>x. if x \<in> set members then zadd_map exists z0 (zip members scores) x else z x));
        data_only env key v m m'\<rbrakk> \<Longrightarrow>
      wp F (f (added + of_nat (zadd_added exists z0 (zip members scores)))
        (updated + (if changed_only then of_nat (zadd_changed exists z0 (zip members scores)) else 0))) Q (db, (sn, m', True) # ts)"
    and err: "\<And>e m'. e \<in> F \<Longrightarrow> Q (Done (Inl (TikvClient e))) (db, (sn, m', True) # ts)"
  shows "wp F (zadd_loop env key v exists changed_only data_map members scores added updated f) Q (db, (sn, m, True) # ts)"
  using assms(2-6)
proof (induction members arbitrary: scores m z added updated)
  case Nil
  have "(\<lambda>x. if x \<in> set [] then zadd_map exists z0 (zip [] scores) x else z x) = z" by simp
  then show ?case using Nil(5) [of m] Nil(2) by (simp add: zadd_added_def zadd_changed_def cong: if_cong)
next
  case (Cons x members)
  obtain s scores' where scores: "scores = s # scores'" using Cons.prems(1) by (cases scores) (auto simp: zadd_args_def)
  let ?ps = "zip members scores'" and ?takes = "zadd_takes exists z0 (x, s)"
  have args: "zadd_args members scores'" "x \<notin> set members" "\<not> f64_is_nan s"
    using Cons.prems(1) by (auto simp: zadd_args_def scores)
  have x: "x \<notin> fst ` set ?ps" using args(2) by (auto dest: set_zip_leftD)
  have z: "z x = z0 x" "data_map (dkey env key v 122 x) = map_option encode_txnkv_zset_data_value (z0 x)"
    using Cons.prems(3,4) by auto
  let ?z = "if ?takes then z(x \<mapsto> stored_score s) else z"
  have final: "(\<lambda>y. if y \<in> set members then zadd_map exists z0 ?ps y else ?z y) =
      (\<lambda>y. if y \<in> set (x # members) then zadd_map exists z0 (zip (x # members) scores) y else z y)"
    using args(2) z(1) zadd_map_other [OF x] by (auto simp: scores zadd_map_Cons [OF x] fun_eq_iff)
  have rest: "wp F (zadd_loop env key v exists changed_only data_map members scores' (added + (if ?takes \<and> z0 x = None then 1 else 0))
      (updated + (if changed_only \<and> ?takes \<and> z0 x \<noteq> Some (stored_score s) then 1 else 0)) f) Q (db, (sn, m1, True) # ts)"
    if m1: "data_in env key v m1 (zset_data ?z)" "data_only env key v m m1" for m1
  proof (rule Cons.IH [OF args(1) m1(1)])
    show "?z y = z0 y" if "y \<in> set members" for y using that args(2) Cons.prems(3) [of y] by auto
    fix m' assume "data_in env key v m' (zset_data (\<lambda>y. if y \<in> set members then zadd_map exists z0 ?ps y else ?z y))"
      "data_only env key v m1 m'"
    from Cons.prems(5) [OF this(1) [unfolded final] data_only_trans [OF m1(2) this(2)]]
    show "wp F (f (added + (if ?takes \<and> z0 x = None then 1 else 0) + of_nat (zadd_added exists z0 ?ps))
        (updated + (if changed_only \<and> ?takes \<and> z0 x \<noteq> Some (stored_score s) then 1 else 0) +
          (if changed_only then of_nat (zadd_changed exists z0 ?ps) else 0))) Q (db, (sn, m', True) # ts)"
      by (auto simp: scores zadd_counts_Cons add.assoc split: if_splits)
  qed (use Cons.prems(4) in simp)
  have "z x = None \<or> (\<exists>s'. z x = Some s' \<and> score_ok s')" using z(1) assms(1) by (cases "z0 x") auto
  note put = wp_delete_old [where z = z and x = x, OF this args(3)]
  note step = zadd_loop_step [where data_map = data_map and x = x, OF assms(1) args(3) z(2)]
  show ?case
  proof (cases ?takes)
    case True
    then have "wp F (txn_put (dkey env key v 122 x) (encode_txnkv_zset_data_value s) (
       delete_old_score env key v x s (map_option encode_txnkv_zset_data_value (z x)) (
       txn_put (dkey env key v 83 (score_row s x)) x (
       zadd_loop env key v exists changed_only data_map members scores' (added + (if z x = None then 1 else 0))
         (updated + (if changed_only \<and> z x \<noteq> Some (stored_score s) then 1 else 0)) f)))) Q (db, (sn, m, True) # ts)"
      using rest [OF _ zset_put_data(2) [OF Cons.prems(2) args(3)], of x] zset_put_data(1) [OF Cons.prems(2) args(3), of x]
      by (intro put err) (simp_all add: z(1))
    then show ?thesis by (simp only: scores step z(1) True if_True)
  next
    case False
    then show ?thesis using rest [of m] Cons.prems(2) by (simp add: scores step del: zadd_loop.simps)
  qed
qed

lemma zadd_map_facts:
  assumes "zset_ok z" "zadd_args members scores"
  shows "zset_ok (zadd_map exists z (zip members scores))"
    and "card (dom (zadd_map exists z (zip members scores))) = card (dom z) + zadd_added exists z (zip members scores)"
    and "zadd_map exists z (zip members scores) = (\<lambda>x. if x \<in> set members then zadd_map exists z (zip members scores) x else z x)"
proof -
  let ?ps = "zip members scores"
  have ps: "utf8_valid (fst p)" "\<not> f64_is_nan (snd p)" if "p \<in> set ?ps" for p
    using assms(2) that by (cases p; auto simp: zadd_args_def list_all_iff dest: set_zip_leftD set_zip_rightD)+
  have dist: "distinct (map fst ?ps)" using assms(2) by (simp add: zadd_args_def)
  let ?new = "map (\<lambda>(x, s). (x, stored_score s)) (filter (zadd_takes exists z) ?ps)"
  have dom_new: "dom (map_of ?new) = fst ` set (filter (zadd_takes exists z) ?ps)" by (force simp: dom_map_of_conv_image_fst image_image)
  show "zset_ok (zadd_map exists z ?ps)"
    unfolding zset_ok_def
  proof (intro conjI allI impI)
    show "finite (dom (zadd_map exists z ?ps))" using assms(1) by (auto simp: zadd_map_def finite_dom_map_of)
    fix x s assume "zadd_map exists z ?ps x = Some s"
    then consider "z x = Some s" | "map_of ?new x = Some s" by (auto simp: zadd_map_def)
    then have "utf8_valid x \<and> score_ok s"
    proof cases
      case 2
      then obtain s' where "(x, s') \<in> set ?ps" "s = stored_score s'" by (auto dest!: map_of_SomeD)
      then show ?thesis using ps [of "(x, s')"] by simp
    qed (use assms(1) in auto)
    then show "utf8_valid x" "score_ok s" by simp_all
  qed
  let ?fresh = "filter (\<lambda>p. zadd_takes exists z p \<and> z (fst p) = None) ?ps"
  have "dom (zadd_map exists z ?ps) = dom z \<union> fst ` set ?fresh"
    unfolding zadd_map_def dom_map_add dom_new by (auto simp: image_iff)
  moreover have "dom z \<inter> fst ` set ?fresh = {}" by auto
  moreover have "card (fst ` set ?fresh) = length ?fresh"
  proof -
    have "distinct (map fst ?fresh)" using dist by (rule distinct_map_filter)
    then show ?thesis using distinct_card by fastforce
  qed
  ultimately show "card (dom (zadd_map exists z ?ps)) = card (dom z) + zadd_added exists z ?ps"
    using assms(1) by (subst (1) \<open>dom (zadd_map exists z ?ps) = _\<close>) (simp add: card_Un_disjoint zadd_added_def zset_ok_def)
  show "zadd_map exists z ?ps = (\<lambda>x. if x \<in> set members then zadd_map exists z ?ps x else z x)"
    using zadd_map_other [of _ ?ps exists z] by (fastforce simp: fun_eq_iff dest: set_zip_leftD)
qed

lemma data_in_rep: "coll_rep env (m(mkey env key \<mapsto> b)) key b v D n \<Longrightarrow> data_in env key v m D"
  by (simp add: coll_rep_def data_in_def)

text \<open>The end of \<^verbatim>\<open>ZADD\<close>: the counter is added to when members are new, and the meta value is written after an expiry.\<close>

lemma wp_put_meta:
  assumes rep: "coll_rep env (m'(mkey env key \<mapsto> b)) key b v D n" "others_same (KEY_ENCODER env) key m m'"
    and meta: "if expired then b = encode_txnkv_zset_meta_value (KEY_ENCODER env) ttl v 0 else m' (mkey env key) = Some b"
    and Q: "\<And>m''. \<lbrakk>coll_rep env m'' key b v D n; others_same (KEY_ENCODER env) key m m''\<rbrakk> \<Longrightarrow> wp F p Q (db, (sn, m'', True) # ts)"
    and err: "\<And>e m'. e \<in> F \<Longrightarrow> Q (Done (Inl (TikvClient e))) (db, (sn, m', True) # ts)"
  shows "wp F (if expired then put_zset_meta env key ttl v p else p) Q (db, (sn, m', True) # ts)"
proof (cases expired)
  case True
  have "others_same (KEY_ENCODER env) key m (m'(mkey env key \<mapsto> b))" by (rule others_same_upd) (use rep(2) in simp_all)
  then show ?thesis using Q [OF rep(1)] True meta err by (simp add: put_zset_meta_def wp_simps)
next
  case False
  then have "m'(mkey env key \<mapsto> b) = m'" using meta by (simp add: fun_upd_idem)
  then show ?thesis using Q rep False by simp
qed

lemma wp_zadd_finish:
  assumes rep: "coll_rep env (m'(mkey env key \<mapsto> b)) key b v D n" "others_same (KEY_ENCODER env) key m m'"
    and meta: "if expired then b = encode_txnkv_zset_meta_value (KEY_ENCODER env) ttl v 0 else m' (mkey env key) = Some b"
    and k: "k < 2 ^ 63"
    and Q: "\<And>m''. \<lbrakk>coll_rep env m'' key b v D (n + k); others_same (KEY_ENCODER env) key m m''\<rbrakk> \<Longrightarrow> wp F p Q (db, (sn, m'', True) # ts)"
    and err: "\<And>e m'. e \<in> F \<Longrightarrow> Q (Done (Inl (TikvClient e))) (db, (sn, m', True) # ts)"
  shows "wp F (let meta = (if expired then put_zset_meta env key ttl v p else p)
    in if i64_lt 0 (of_nat k) then update_sub_meta env key v idx (of_nat k) meta else meta) Q (db, (sn, m', True) # ts)"
proof (cases "k = 0")
  case True
  have "wp F (if expired then put_zset_meta env key ttl v p else p) Q (db, (sn, m', True) # ts)"
    by (rule wp_put_meta [OF rep meta]) (use Q True err in auto)
  then show ?thesis using True by (simp add: i64_lt_def)
next
  case False
  let ?m = "add_count env key v idx (of_nat k) m'"
  have "?m(mkey env key \<mapsto> b) = add_count env key v idx (of_nat k) (m'(mkey env key \<mapsto> b))"
    by (simp add: add_count_def fun_upd_twist)
  moreover have "coll_rep env (add_count env key v idx (of_nat k) (m'(mkey env key \<mapsto> b))) key b v D (n + k)"
    by (rule coll_rep_add [OF rep(1)]) simp
  ultimately have "coll_rep env (?m(mkey env key \<mapsto> b)) key b v D (n + k)" by simp
  moreover have "?m (mkey env key) = m' (mkey env key)" by (simp add: add_count_def)
  ultimately have put: "wp F (if expired then put_zset_meta env key ttl v p else p) Q (db, (sn, ?m, True) # ts)"
    using meta by (intro wp_put_meta [OF _ others_same_add [OF rep(2)]]) (use Q err in auto)
  have "counted env m' key v n"
    by (rule counted_cong [of env "m'(mkey env key \<mapsto> b)"]) (use rep in \<open>simp_all add: coll_rep_def\<close>)
  then have "wp F (update_sub_meta env key v idx (of_nat k) (if expired then put_zset_meta env key ttl v p else p)) Q (db, (sn, m', True) # ts)"
    by (rule wp_update_sub_meta [OF _ put err])
  moreover have "i64_lt 0 (of_nat k)" using False k by (simp add: i64_lt_def sint_of_nat_small)
  ultimately show ?thesis by (simp only: Let_def if_True)
qed

lemma wp_zadd_existing:
  assumes rep: "coll_rep env (m(mkey env key \<mapsto> b)) key b v (zset_data z) (card (dom z))" "zset_ok z"
    and meta: "if expired then b = encode_txnkv_zset_meta_value (KEY_ENCODER env) ttl v 0 else m (mkey env key) = Some b"
    and args: "zadd_args members scores" "length members < 2 ^ 63"
    and z': "z' = zadd_map exists z (zip members scores)"
    and Q: "\<And>m'. \<lbrakk>coll_rep env m' key b v (zset_data z') (card (dom z')); others_same (KEY_ENCODER env) key m m'\<rbrakk> \<Longrightarrow>
      Q (Done (Inr (of_nat ((if changed_only then zadd_changed else zadd_added) exists z (zip members scores))))) (db, (sn, m', True) # ts)"
    and err: "\<And>e m'. e \<in> F \<Longrightarrow> Q (Done (Inl (TikvClient e))) (db, (sn, m', True) # ts)"
  shows "wp F (zadd_existing env key members scores exists changed_only idx ttl v expired) Q (db, (sn, m, True) # ts)"
proof -
  let ?ps = "zip members scores"
  let ?f = "\<lambda>added_count updated_count.
      let finish = Return (if changed_only then updated_count else added_count);
          meta = (if expired then put_zset_meta env key ttl v finish else finish)
      in if i64_lt 0 added_count then update_sub_meta env key v idx added_count meta else meta"
  note data = data_in_rep [OF rep(1)]
  have "zadd_added exists z ?ps \<le> length ?ps" unfolding zadd_added_def by (rule length_filter_le)
  then have k: "zadd_added exists z ?ps < 2 ^ 63" using args(2) by simp
  have z'_eq: "(\<lambda>x. if x \<in> set members then zadd_map exists z ?ps x else z x) = z'"
    unfolding z' by (rule zadd_map_facts(3) [OF rep(2) args(1), symmetric])
  have card: "card (dom z') = card (dom z) + zadd_added exists z ?ps" unfolding z' by (rule zadd_map_facts(2) [OF rep(2) args(1)])
  have finish: "wp F (?f (of_nat (zadd_added exists z ?ps)) u) Q (db, (sn, m', True) # ts)"
    if m': "data_in env key v m' (zset_data z')" "data_only env key v m m'"
      and u: "changed_only \<Longrightarrow> u = of_nat (zadd_changed exists z ?ps)" for m' u
  proof -
    note same = data_only_same [OF m'(2)]
    have meta': "if expired then b = encode_txnkv_zset_meta_value (KEY_ENCODER env) ttl v 0 else m' (mkey env key) = Some b"
      using meta same(1) by simp
    show ?thesis unfolding Let_def [of "Return _"]
      by (rule wp_zadd_finish [OF coll_rep_replace [OF rep(1) m'(2,1)] same(3) meta' k])
        (use Q err card u in \<open>auto simp: wp_simps\<close>)
  qed
  have "wp F (zadd_loop env key v exists changed_only (collect_pairs pairs) members scores 0 0 ?f) Q (db, (sn, m, True) # ts)"
    if batch: "batch_answer m (map (dkey env key v 122) members) pairs" for pairs
  proof (rule wp_zadd_loop [OF rep(2) args(1) data])
    show "collect_pairs pairs (dkey env key v 122 x) = map_option encode_txnkv_zset_data_value (z x)" if "x \<in> set members" for x
      using collect_batch [OF batch, of "dkey env key v 122 x"] that data by (simp add: data_in_def)
    fix m' assume m': "data_in env key v m' (zset_data (\<lambda>x. if x \<in> set members then zadd_map exists z ?ps x else z x))" "data_only env key v m m'"
    show "wp F (?f (0 + of_nat (zadd_added exists z ?ps)) (0 + (if changed_only then of_nat (zadd_changed exists z ?ps) else 0)))
        Q (db, (sn, m', True) # ts)"
      unfolding add_0 by (rule finish [OF m'(1) [unfolded z'_eq] m'(2)]) simp
  qed (use err in auto)
  then show ?thesis using err by (simp add: zadd_existing_def wp_simps)
qed

lemma zadd_live:
  assumes rep: "zset_rep env m key ttl v z" "\<not> key_is_expired env ttl"
    and args: "zadd_args members scores" "length members < 2 ^ 63"
    and z': "z' = zadd_map exists z (zip members scores)" "card (dom z') < 2 ^ 63"
  shows "body_spec F UNIV (zadd_body env key members scores exists changed_only idx) m
    (\<lambda>r m'. r = Inr (of_nat ((if changed_only then zadd_changed else zadd_added) exists z (zip members scores))) \<and>
       zset_state env m' key ttl z' \<and> others_same (KEY_ENCODER env) key m m')"
  using rep(1)
proof (rule zset_repE)
  fix i assume z: "coll_rep env m key (encode_txnkv_zset_meta_value (KEY_ENCODER env) ttl v i) v (zset_data z) (card (dom z))"
    "0 < card (dom z)" "zset_ok z"
    and meta: "m (mkey env key) = Some (encode_txnkv_zset_meta_value (KEY_ENCODER env) ttl v i)"
  then have same: "m(mkey env key \<mapsto> encode_txnkv_zset_meta_value (KEY_ENCODER env) ttl v i) = m" by (simp add: fun_upd_idem)
  have "0 < card (dom z')" using z(2) zadd_map_facts(2) [OF z(3) args(1)] z'(1) by simp
  then have "z' \<noteq> Map.empty" by auto
  moreover have "zset_ok z'" using zadd_map_facts(1) [OF z(3) args(1)] z'(1) by simp
  ultimately show ?thesis using rep(2) z(1,3) meta same args z'
    by (auto simp: body_spec_def zadd_body_def zsets.wp_with_meta [where m = m, OF meta] wp_simps
        intro!: wp_zadd_existing [where b = "encode_txnkv_zset_meta_value (KEY_ENCODER env) ttl v i" and z = z and z' = z'] zset_stateI)
qed

text \<open>On a new key \<^verbatim>\<open>ZADD\<close> writes what it would write to an empty set.\<close>

lemma put_scores_loop:
  "length members = length scores \<Longrightarrow>
   put_scores env key v members scores p = zadd_loop env key v None False Map.empty members scores added updated (\<lambda>_ _. p)"
proof (induction members scores arbitrary: added updated rule: list_induct2)
  case (Cons x members s scores)
  show ?case using Cons.IH [of "added + 1" updated]
    by (simp add: Let_def changed_def delete_old_score_def unwrap_def)
qed simp

lemma wp_zadd_new:
  assumes new: "no_key env m key" "async_deletion_enabled_or_default (SERVER_CONFIG env)" "next_version env m key = Some v"
    and args: "zadd_args members scores" and z': "z' = zadd_map None Map.empty (zip members scores)"
    and Q: "\<And>m'. \<lbrakk>coll_rep env m' key (encode_txnkv_zset_meta_value (KEY_ENCODER env) 0 v 0) v (zset_data z') (card (dom z'));
        others_same (KEY_ENCODER env) key m m'\<rbrakk> \<Longrightarrow> Q (Done (Inr (of_nat (length members)))) (db, (sn, m', True) # ts)"
    and err: "\<And>e m'. e \<in> F \<Longrightarrow> Q (Done (Inl (TikvClient e))) (db, (sn, m', True) # ts)" and "exists \<noteq> Some True"
  shows "wp F (zadd_new env key members scores exists idx v) Q (db, (sn, m, True) # ts)"
proof -
  let ?b = "encode_txnkv_zset_meta_value (KEY_ENCODER env) 0 v 0" and ?ps = "zip members scores" and ?n = "of_nat (length members) :: i64"
  have ok: "zset_ok Map.empty" by (simp add: zset_ok_def)
  have rep: "coll_rep env (m(mkey env key \<mapsto> ?b)) key ?b v (zset_data Map.empty) 0"
    using coll_rep_new [OF new, of ?b] by simp
  have card: "card (dom z') = length members"
    using zadd_map_facts(2) [OF ok args, of None] args by (simp add: z' zadd_added_def zadd_takes_def zadd_args_def)
  have free: "m (skey env key v idx) = None"
    using next_version_fresh(1) [OF new(2) _ new(3)] new(1) by (simp add: no_key_def)
  have "wp F (zadd_loop env key v None False Map.empty members scores 0 0 (\<lambda>_ _.
      txn_put (skey env key v idx) (u64_to_be_bytes ?n) (put_zset_meta env key 0 v (Return ?n)))) Q (db, (sn, m, True) # ts)"
  proof (rule wp_zadd_loop [OF ok args data_in_rep [OF rep]])
    fix m' assume m': "data_in env key v m' (zset_data (\<lambda>x. if x \<in> set members then zadd_map None Map.empty ?ps x else None))"
      "data_only env key v m m'"
    have "(\<lambda>x. if x \<in> set members then zadd_map None Map.empty ?ps x else None) = z'"
      unfolding z' by (rule zadd_map_facts(3) [OF ok args, symmetric])
    with m'(1) have "data_in env key v m' (zset_data z')" by simp
    note rep' = coll_rep_add [OF coll_rep_replace [OF rep m'(2) this], of "length members" ?n idx]
    have "m'(skey env key v idx \<mapsto> u64_to_be_bytes ?n, mkey env key \<mapsto> ?b) = add_count env key v idx ?n (m'(mkey env key \<mapsto> ?b))"
      using data_only_same(2) [OF m'(2), of "u16_to_be_bytes idx"] free by (simp add: add_count_def sub_size_def fun_upd_twist)
    then have "coll_rep env (m'(skey env key v idx \<mapsto> u64_to_be_bytes ?n, mkey env key \<mapsto> ?b)) key ?b v (zset_data z') (card (dom z'))"
      using rep' card by simp
    moreover have "others_same (KEY_ENCODER env) key m (m'(skey env key v idx \<mapsto> u64_to_be_bytes ?n, mkey env key \<mapsto> ?b))"
      by (intro others_same_upd data_only_same(3) [OF m'(2)]) simp_all
    ultimately show "wp F (txn_put (skey env key v idx) (u64_to_be_bytes ?n) (put_zset_meta env key 0 v (Return ?n))) Q (db, (sn, m', True) # ts)"
      using Q err by (simp add: put_zset_meta_def wp_simps del: fun_upd_apply)
  qed (use err in auto)
  moreover have "length members = length scores" using args by (simp add: zadd_args_def)
  ultimately show ?thesis using assms(8)
    by (simp add: zadd_new_def i64_of_len_def put_scores_loop [where added = 0 and updated = 0])
qed

lemma zadd_absent:
  assumes new: "no_key env m key" "async_deletion_enabled_or_default (SERVER_CONFIG env)"
    and args: "zadd_args members scores" "members \<noteq> []" "length members < 2 ^ 63"
    and z': "z' = zadd_map exists Map.empty (zip members scores)"
  shows "body_spec F UNIV (zadd_body env key members scores exists changed_only idx) m
    (\<lambda>r m'. if next_version env m key = None then r = Inl KEY_VERSION_EXHUSTED_ERR
       else r = Inr (of_nat (zadd_added exists Map.empty (zip members scores))) \<and> zset_state env m' key 0 z' \<and>
         others_same (KEY_ENCODER env) key m m')"
    (is "body_spec F UNIV _ m ?R")
proof (rule body_specI)
  fix db sn ts
  have none: "m (mkey env key) = None" using new(1) by (simp add: no_key_def)
  let ?ps = "zip members scores"
  have ok: "zset_ok Map.empty" by (simp add: zset_ok_def)
  note facts = zadd_map_facts [OF ok args(1)]
  have "wp F (call (get_version_for_new env key) (\<lambda>version. Lock (zadd_new env key members scores exists idx version)))
      (body_post F db sn ts UNIV ?R) (db, (sn, m, False) # ts)"
  proof (rule wp_new_version [OF new(1)])
    fix v assume v: "next_version env m key = Some v"
    show "wp F (Lock (zadd_new env key members scores exists idx v)) (body_post F db sn ts UNIV ?R) (db, (sn, m, False) # ts)"
    proof (cases "exists = Some True")
      case True
      then have "zadd_added exists Map.empty ?ps = 0" "z' = Map.empty" by (simp_all add: zadd_added_def zadd_takes_def z' zadd_map_def)
      then show ?thesis using v new(1) True by (simp add: zadd_new_def wp_simps zset_state_def)
    next
      case False
      then have takes: "zadd_takes exists Map.empty = zadd_takes None Map.empty"
        by (auto simp: zadd_takes_def fun_eq_iff split: option.splits)
      then have same: "z' = zadd_map None Map.empty ?ps" "zadd_added exists Map.empty ?ps = length members"
        using args(1) by (simp_all add: z' zadd_map_def zadd_added_def takes) (simp_all add: zadd_takes_def zadd_args_def)
      have "zset_ok z'" "card (dom z') = length members" using facts [of exists] same(2) by (simp_all add: z')
      moreover from this have "z' \<noteq> Map.empty" using args(2) by auto
      ultimately have "wp F (zadd_new env key members scores exists idx v) (body_post F db sn ts UNIV ?R) (db, (sn, m, True) # ts)"
        by (intro wp_zadd_new [OF new v args(1) same(1)]) (use v False args(3) same(2) in \<open>auto simp: wp_simps intro!: zset_stateI\<close>)
      then show ?thesis by (simp add: wp_simps)
    qed
  qed (simp_all add: wp_simps)
  then show "wp F (zadd_body env key members scores exists changed_only idx) (body_post F db sn ts UNIV ?R) (db, (sn, m, False) # ts)"
    by (simp add: zadd_body_def wp_with_meta_absent [where m = m, OF none] wp_simps)
qed

section \<open>Removing members\<close>

lemma zset_ok_restrict: "zset_ok z \<Longrightarrow> zset_ok (z |` A)"
  unfolding zset_ok_def dom_restrict by (auto simp: restrict_map_def split: if_splits)

lemma wp_zset_shrink:
  assumes rep: "coll_rep env m key (encode_txnkv_zset_meta_value (KEY_ENCODER env) ttl v i) v (zset_data (z |` (- X))) (card (dom z))"
    and z: "zset_ok z" "card (dom z) < 2 ^ 63" "X \<subseteq> dom z"
    and Q: "\<And>m'. \<lbrakk>zset_state env m' key ttl (z |` (- X)); others_same (KEY_ENCODER env) key m m'\<rbrakk> \<Longrightarrow> wp F p Q (db, (sn, m', True) # ts)"
    and err: "\<And>e m'. e \<in> F \<Longrightarrow> Q (Done (Inl (TikvClient e))) (db, (sn, m', True) # ts)"
  shows "wp F (shrink_collection clear_meta_last env key v idx (of_nat (card (dom z))) (of_nat (card X)) p) Q (db, (sn, m, True) # ts)"
proof -
  let ?z = "z |` (- X)"
  have fin: "finite (dom z)" using z(1) by auto
  have "dom z \<inter> X = X" using z(3) by auto
  then have left: "card (dom z) = card (dom ?z) + card X" using card_split [OF fin, of X] by simp
  have empty: "?z = Map.empty" if "card (dom ?z) = 0"
  proof -
    have "dom ?z = {}" using that fin by simp
    then show ?thesis by (simp only: dom_eq_empty_conv)
  qed
  show ?thesis
  proof (rule wp_shrink_collection [OF rep z(2) left])
    show "zset_data ?z = (\<lambda>_. Map.empty)" if "card (dom ?z) = 0" using empty [OF that] by simp
    fix m' assume "card (dom ?z) = 0" "no_key env m' key" "others_same (KEY_ENCODER env) key m m'"
    then show "wp F p Q (db, (sn, m', True) # ts)" using empty by (intro Q) (auto simp: zset_state_def)
  next
    fix m' assume "0 < card (dom ?z)" "others_same (KEY_ENCODER env) key m m'"
      "coll_rep env m' key (encode_txnkv_zset_meta_value (KEY_ENCODER env) ttl v i) v (zset_data ?z) (card (dom ?z))"
    moreover from this(1) have "?z \<noteq> Map.empty" by (metis card.empty dom_empty less_irrefl)
    ultimately show "wp F p Q (db, (sn, m', True) # ts)"
      using zset_ok_restrict [OF z(1)] left z(2) by (intro Q zset_stateI) auto
  qed (use err in auto)
qed

text \<open>The members are deleted, the size is read, and the counter is brought down.\<close>

lemma wp_zset_removed:
  assumes rep: "coll_rep env m key (encode_txnkv_zset_meta_value (KEY_ENCODER env) ttl v i) v (zset_data z) (card (dom z))"
    and z: "zset_ok z" "0 < card (dom z)" "card (dom z) < 2 ^ 63" "X \<subseteq> dom z" and conn: "TIKV_TXN_CLIENTS env"
    and Q: "\<And>m'. \<lbrakk>zset_state env m' key ttl (z |` (- X)); others_same (KEY_ENCODER env) key m m'\<rbrakk> \<Longrightarrow> wp F p Q (db, (sn, m', True) # ts)"
    and err: "\<And>e m' h. e \<in> F \<Longrightarrow> Q (Done (Inl (TikvClient e))) (db, (sn, m', h) # ts)"
  shows "wp F (call (txnkv_sum_key_size env DT_Zset True key v) (\<lambda>len.
      Lock (shrink_collection clear_meta_last env key v idx len (of_nat (card X)) p))) Q (db, (sn, zset_cut env key v z X m, False) # ts)"
    and "wp F (shrink_collection clear_meta_last env key v idx (of_nat (card (dom z))) (of_nat (card X)) p) Q
      (db, (sn, zset_cut env key v z X m, True) # ts)"
proof -
  note cut = coll_rep_cut [OF rep z(4)]
  show shrink: "wp F (shrink_collection clear_meta_last env key v idx (of_nat (card (dom z))) (of_nat (card X)) p) Q
      (db, (sn, zset_cut env key v z X m, True) # ts)"
    by (rule wp_zset_shrink [OF cut z(1,3,4)]) (use Q others_same_trans [OF others_same_cut] err in blast)+
  show "wp F (call (txnkv_sum_key_size env DT_Zset True key v) (\<lambda>len.
      Lock (shrink_collection clear_meta_last env key v idx len (of_nat (card X)) p))) Q (db, (sn, zset_cut env key v z X m, False) # ts)"
    by (rule zsets.wp_sum_key_size [OF cut z(2,3) conn]) (use shrink err in auto)
qed

text \<open>The loops over score keys delete the members they meet.\<close>

lemma ranked_pair:
  assumes "zset_ok z" "(x, s) \<in> set (ranked z)"
  shows "z x = Some s" "\<not> f64_is_nan s" "stored_score s = s" "scorekey_data_key env key v x = dkey env key v 122 x"
  using ranked_ok [OF assms] by (simp_all add: scorekey_data_key_def utf8_lossy_valid)

lemma wp_zpop_loop:
  assumes "zset_ok z" "set ps \<subseteq> set (ranked z)"
    and "wp F (f (resp @ concat (map (zset_frames True) ps)) (cnt + of_nat (length ps))) Q
      (db, (sn, zset_cut env key v z (fst ` set ps) m, True) # ts)"
    and err: "\<And>e m'. e \<in> F \<Longrightarrow> Q (Done (Inl (TikvClient e))) (db, (sn, m', True) # ts)"
  shows "wp F (zpop_loop env key v (map (fst \<circ> score_pair env key v) ps) resp cnt f) Q (db, (sn, m, True) # ts)"
  using assms(2,3)
proof (induction ps arbitrary: m resp cnt)
  case (Cons p ps)
  obtain x s where p: "p = (x, s)" by (cases p)
  then have "(x, s) \<in> set (ranked z)" using Cons.prems(1) by auto
  note s = ranked_pair [OF assms(1) this]
  show ?case
    using Cons.IH [of "resp @ zset_frames True p" "cnt + 1"] Cons.prems zset_cut_insert [of env key v z "fst ` set ps" m x] err
    by (simp add: p score_pair_def s wp_simps zset_frames_def resp_bulk_def add.assoc del: fun_upd_apply)
qed (simp add: wp_simps)

lemma wp_delete_scorekeys:
  assumes "zset_ok z" "set ps \<subseteq> set (ranked z)"
    and "wp F (f (cnt + of_nat (length ps))) Q (db, (sn, zset_cut env key v z (fst ` set ps) m, True) # ts)"
    and err: "\<And>e m'. e \<in> F \<Longrightarrow> Q (Done (Inl (TikvClient e))) (db, (sn, m', True) # ts)"
  shows "wp F (delete_scorekeys env key v (map (fst \<circ> score_pair env key v) ps) cnt f) Q (db, (sn, m, True) # ts)"
  using assms(2,3)
proof (induction ps arbitrary: m cnt)
  case (Cons p ps)
  obtain x s where p: "p = (x, s)" by (cases p)
  then have "(x, s) \<in> set (ranked z)" using Cons.prems(1) by auto
  note s = ranked_pair [OF assms(1) this]
  show ?case
    using Cons.IH [of "cnt + 1"] Cons.prems zset_cut_insert [of env key v z "fst ` set ps" m x] err
    by (simp add: p score_pair_def s wp_simps add.assoc del: fun_upd_apply)
qed (simp add: wp_simps)

lemma wp_zremrange_loop:
  assumes "zset_ok z" "set ps \<subseteq> set (ranked z)" "0 \<le> sint idx" "sint idx + int (length ps) < 2 ^ 63"
    and "let sel = ranks (sint lo - sint idx) (sint hi - sint idx) ps in
      wp F (f (cnt + of_nat (length sel))) Q (db, (sn, zset_cut env key v z (fst ` set sel) m, True) # ts)"
    and err: "\<And>e m'. e \<in> F \<Longrightarrow> Q (Done (Inl (TikvClient e))) (db, (sn, m', True) # ts)"
  shows "wp F (zremrange_loop env key v lo hi idx cnt (map (score_pair env key v) ps) f) Q (db, (sn, m, True) # ts)"
  using assms(2-5)
proof (induction ps arbitrary: m cnt idx)
  case (Cons p ps)
  obtain x s where p: "p = (x, s)" by (cases p)
  then have "(x, s) \<in> set (ranked z)" using Cons.prems(1) by auto
  note s = ranked_pair [OF assms(1) this]
  have next_idx: "sint (idx + 1) = sint idx + 1" using Cons.prems(2,3) by (intro sint_add_small [of idx 1, simplified]) auto
  let ?sel = "ranks (sint lo - sint idx - 1) (sint hi - sint idx - 1) ps"
  have IH: "wp F (zremrange_loop env key v lo hi (idx + 1) cnt (map (score_pair env key v) ps) f) Q (db, (sn, m, True) # ts)"
    if "wp F (f (cnt + of_nat (length ?sel))) Q (db, (sn, zset_cut env key v z (fst ` set ?sel) m, True) # ts)" for m cnt
    using Cons.IH [of "idx + 1" cnt m] Cons.prems(1-3) that by (simp add: next_idx diff_diff_eq Let_def)
  show ?case
    using Cons.prems(4) zset_cut_insert [of env key v z "fst ` set ?sel" m x] err
    by (auto simp: p score_pair_def [of _ _ _ "(x, s)"] s wp_simps ranks_Cons i64_lt_def Let_def add.assoc simp del: fun_upd_apply intro!: IH)
qed (simp add: wp_simps)

lemma wp_zrem_loop:
  assumes "zset_ok z" "\<And>x. x \<in> set members \<Longrightarrow> data_map (dkey env key v 122 x) = map_option encode_txnkv_zset_data_value (z x)"
    and "wp F p Q (db, (sn, zset_cut env key v z (dom z \<inter> set members) m, True) # ts)"
    and err: "\<And>e m'. e \<in> F \<Longrightarrow> Q (Done (Inl (TikvClient e))) (db, (sn, m', True) # ts)"
  shows "wp F (zrem_loop env key v data_map members p) Q (db, (sn, m, True) # ts)"
  using assms(2,3)
proof (induction members arbitrary: m)
  case (Cons x members)
  show ?case
  proof (cases "z x")
    case None
    then have "dom z \<inter> set (x # members) = dom z \<inter> set members" by auto
    then show ?thesis using Cons None by simp
  next
    case (Some s)
    then have ok: "\<not> f64_is_nan s" "stored_score s = s" using assms(1) by (auto simp: zset_ok_def score_ok_def)
    have "dom z \<inter> set (x # members) = insert x (dom z \<inter> set members)" using Some by auto
    then have "wp F (zrem_loop env key v data_map members p) Q
        (db, (sn, m(dkey env key v 122 x := None, dkey env key v 83 (score_row s x) := None), True) # ts)"
      using Cons Some zset_cut_insert [of env key v z "dom z \<inter> set members" m x] by simp
    then show ?thesis using Cons.prems(1) [of x] Some ok err by (simp add: Let_def wp_simps del: fun_upd_apply)
  qed
qed simp

lemma ranked_part:
  assumes "zset_ok z" "set ps \<subseteq> set (ranked z)" "distinct (map fst ps)"
  shows "fst ` set ps \<subseteq> dom z" "card (fst ` set ps) = length ps"
proof -
  show "fst ` set ps \<subseteq> dom z" using assms(2) ranked_pair(1) [OF assms(1)] by force
  show "card (fst ` set ps) = length ps" using distinct_card [OF assms(3)] by simp
qed

lemma zpop_live:
  assumes rep: "zset_rep env m key ttl v z" "\<not> key_is_expired env ttl" and conn: "TIKV_TXN_CLIENTS env" and "unat cnt \<le> u32_MAX"
    and ps: "ps = take (unat cnt) (if from_min then ranked z else rev (ranked z))"
  shows "body_spec F UNIV (zpop_body env key from_min cnt idx) m
    (\<lambda>r m'. r = Inr (concat (map (zset_frames True) ps)) \<and> zset_state env m' key ttl (z |` (- fst ` set ps)) \<and>
       others_same (KEY_ENCODER env) key m m')"
  using rep(1)
proof (rule zset_repE)
  fix i assume z: "coll_rep env m key (encode_txnkv_zset_meta_value (KEY_ENCODER env) ttl v i) v (zset_data z) (card (dom z))"
    "0 < card (dom z)" "card (dom z) < 2 ^ 63" "zset_ok z"
    and meta: "m (mkey env key) = Some (encode_txnkv_zset_meta_value (KEY_ENCODER env) ttl v i)"
  have "distinct (map fst (ranked z))" using ranked_facts(2) z(4) by auto
  then have "distinct (map fst ps)" "set ps \<subseteq> set (ranked z)"
    unfolding ps using set_take_subset [of "unat cnt" "ranked z"] set_take_subset [of "unat cnt" "rev (ranked z)"]
    by (auto simp: take_map [symmetric] rev_map [symmetric])
  note part = this(2) ranked_part [OF z(4) this(2,1)]
  have scan: "map fst (scan_store m (\<not> from_min) (encode_txnkv_zset_score_key_range (KEY_ENCODER env) key v) (unat cnt)) =
      map (fst \<circ> score_pair env key v) ps" if "finite (dom m)"
    using score_scan [OF z(1,4) that] by (cases from_min) (simp_all add: ps)
  note removed = wp_zset_removed(1) [OF z(1,4,2,3) part(2) conn, unfolded part(3)]
  show ?thesis using rep(2) assms(4) scan
    by (cases from_min)
      (auto simp: body_spec_def zpop_body_def zsets.wp_with_meta [where m = m, OF meta] wp_simps u64_to_u32_def
        intro!: wp_zpop_loop [OF z(4) part(1)] removed)
qed

lemma zremrange_by_score_live:
  assumes rep: "zset_rep env m key ttl v z" "\<not> key_is_expired env ttl" and conn: "TIKV_TXN_CLIENTS env" and "card (dom z) \<le> u32_MAX"
    and nan: "\<not> f64_is_nan lo" "\<not> f64_is_nan hi"
    and ps: "ps = filter (score_between lo True hi True \<circ> snd) (ranked z)"
  shows "body_spec F UNIV (zremrange_by_score_body env key lo hi idx) m
    (\<lambda>r m'. r = Inr (of_nat (length ps)) \<and> zset_state env m' key ttl (z |` (- fst ` set ps)) \<and> others_same (KEY_ENCODER env) key m m')"
  using rep(1)
proof (rule zset_repE)
  fix i assume z: "coll_rep env m key (encode_txnkv_zset_meta_value (KEY_ENCODER env) ttl v i) v (zset_data z) (card (dom z))"
    "0 < card (dom z)" "card (dom z) < 2 ^ 63" "zset_ok z"
    and meta: "m (mkey env key) = Some (encode_txnkv_zset_meta_value (KEY_ENCODER env) ttl v i)"
  have "distinct (map fst (ranked z))" using ranked_facts(2) z(4) by auto
  then have "distinct (map fst ps)" "set ps \<subseteq> set (ranked z)" by (auto simp: ps distinct_map_filter)
  note part = this(2) ranked_part [OF z(4) this(2,1)]
  have "length ps \<le> u32_MAX" using length_filter_le [of _ "ranked z"] length_ranked [OF z(4)] assms(4) unfolding ps by (metis le_trans)
  then have scan: "map fst (scan_store m False (RangeInclusive (encode_txnkv_zset_score_key_score_start (KEY_ENCODER env) key lo True v)
      (encode_txnkv_zset_score_key_score_end (KEY_ENCODER env) key hi True v)) u32_MAX) = map (fst \<circ> score_pair env key v) ps" if "finite (dom m)"
    using score_range_scan [OF z(1,4) that nan _ refl refl, where k = u32_MAX and lo_incl = True and hi_incl = True]
    by (simp add: ps del: zset_keys)
  note removed = wp_zset_removed(1) [OF z(1,4,2,3) part(2) conn, unfolded part(3)]
  have "ps = []" if "f64_lt hi lo" unfolding ps using that by (rule none_between)
  then have "zset_state env m key ttl (z |` (- fst ` set ps))" if "f64_lt hi lo" using rep(1) that by (auto simp: zset_state_def zset_rep_def)
  then show ?thesis using rep(2) scan \<open>f64_lt hi lo \<Longrightarrow> ps = []\<close>
    by (auto simp: body_spec_def zremrange_by_score_body_def zsets.wp_with_meta [where m = m, OF meta] wp_simps
        simp del: zset_keys intro!: wp_delete_scorekeys [OF z(4) part(1)] removed)
qed

lemma zremrange_by_rank_live:
  assumes rep: "zset_rep env m key ttl v z" "\<not> key_is_expired env ttl" and conn: "TIKV_TXN_CLIENTS env" and card: "card (dom z) \<le> u32_MAX"
    and b: "\<bar>sint lo\<bar> < 2 ^ 62" "\<bar>sint hi\<bar> < 2 ^ 62"
    and ps: "ps = ranks (from_end (card (dom z)) (sint lo)) (from_end (card (dom z)) (sint hi)) (ranked z)"
  shows "body_spec F UNIV (zremrange_by_rank_body env key lo hi idx) m
    (\<lambda>r m'. r = Inr (of_nat (length ps)) \<and> zset_state env m' key ttl (z |` (- fst ` set ps)) \<and> others_same (KEY_ENCODER env) key m m')"
  using rep(1)
proof (rule zset_repE)
  fix i assume z: "coll_rep env m key (encode_txnkv_zset_meta_value (KEY_ENCODER env) ttl v i) v (zset_data z) (card (dom z))"
    "0 < card (dom z)" "card (dom z) < 2 ^ 63" "zset_ok z"
    and meta: "m (mkey env key) = Some (encode_txnkv_zset_meta_value (KEY_ENCODER env) ttl v i)"
  have n: "card (dom z) < 2 ^ 62" using card by (simp add: u32_MAX_def)
  have "distinct (map fst (ranked z))" using ranked_facts(2) z(4) by auto
  then have "distinct (map fst ps)" "set ps \<subseteq> set (ranked z)" unfolding ps by (simp_all add: distinct_ranks set_ranks)
  note part = this(2) ranked_part [OF z(4) this(2,1)]
  have scan: "scan_store m False (encode_txnkv_zset_score_key_range (KEY_ENCODER env) key v) (card (dom z)) =
      map (score_pair env key v) (ranked z)" if "finite (dom m)"
    using score_scan(1) [OF z(1,4) that] length_ranked [OF z(4)] by simp
  note removed = wp_zset_removed(2) [OF z(1,4,2,3) part(2) conn, unfolded part(3)]
  have loop: "wp F (zremrange_loop env key v (if i64_lt lo 0 then lo + of_nat (card (dom z)) else lo)
      (if i64_lt hi 0 then hi + of_nat (card (dom z)) else hi) 0 0 (map (score_pair env key v) (ranked z)) f) Q (db, (sn, m, True) # ts)"
    if "wp F (f (of_nat (length ps))) Q (db, (sn, zset_cut env key v z (fst ` set ps) m, True) # ts)"
      and "\<And>e m'. e \<in> F \<Longrightarrow> Q (Done (Inl (TikvClient e))) (db, (sn, m', True) # ts)" for Q f db sn ts
  proof (rule wp_zremrange_loop [OF z(4) subset_refl])
    show "sint (0 :: i64) + int (length (ranked z)) < 2 ^ 63" using length_ranked [OF z(4)] z(3) by simp
  qed (use that in \<open>simp_all only: sint_from_end [OF b(1) n] sint_from_end [OF b(2) n] Let_def ps sint_0 diff_zero add_0 order_refl\<close>)
  show ?thesis using rep(2) scan
    by (auto simp: body_spec_def zremrange_by_rank_body_def zsets.wp_with_meta [where m = m, OF meta] wp_simps limit_word [OF card] Let_def
        intro!: zsets.wp_sum_key_size [OF z(1-3) conn] loop removed split del: if_split)
qed

lemma zrem_live:
  assumes rep: "zset_rep env m key ttl v z" "\<not> key_is_expired env ttl" and conn: "TIKV_TXN_CLIENTS env"
  shows "body_spec F UNIV (zrem_body env key members idx) m
    (\<lambda>r m'. r = Inr (of_nat (card (dom z \<inter> set members))) \<and> zset_state env m' key ttl (z |` (- set members)) \<and>
       others_same (KEY_ENCODER env) key m m')"
  using rep(1)
proof (rule zset_repE)
  fix i assume z: "coll_rep env m key (encode_txnkv_zset_meta_value (KEY_ENCODER env) ttl v i) v (zset_data z) (card (dom z))"
    "0 < card (dom z)" "card (dom z) < 2 ^ 63" "zset_ok z"
    and meta: "m (mkey env key) = Some (encode_txnkv_zset_meta_value (KEY_ENCODER env) ttl v i)"
  let ?X = "dom z \<inter> set members"
  have "z |` (- ?X) = z |` (- set members)" by (auto simp: restrict_map_def fun_eq_iff)
  note removed = wp_zset_removed(1) [OF z(1,4,2,3) Int_lower1 [of _ "set members"] conn, unfolded this]
  have answer: "collect_pairs pairs (dkey env key v 122 x) = map_option encode_txnkv_zset_data_value (z x)"
    if "batch_answer m (map (dkey env key v 122) members) pairs" "x \<in> set members" for pairs x
    using collect_batch [OF that(1), of "dkey env key v 122 x"] that(2) zset_member_key [OF z(1)] by simp
  have removed_count: "card (dom (collect_pairs pairs)) = card ?X"
    if "batch_answer m (map (dkey env key v 122) members) pairs" for pairs
  proof -
    have pairs: "set pairs = {(k, y). k \<in> dkey env key v 122 ` set members \<and> m k = Some y}" using that by (simp add: batch_answer_def)
    have "dom (collect_pairs pairs) = fst ` set pairs" by (simp add: collect_pairs_def dom_map_of_conv_image_fst)
    also have "\<dots> = {k \<in> dkey env key v 122 ` set members. m k \<noteq> None}" unfolding pairs by force
    also have "\<dots> = dkey env key v 122 ` ?X" by (auto simp: zset_member_key [OF z(1)] image_iff)
    finally show ?thesis by (simp add: card_image inj_on_def)
  qed
  show ?thesis using rep(2) answer removed_count
    by (auto simp: body_spec_def zrem_body_def zsets.wp_with_meta [where m = m, OF meta] wp_simps Let_def i64_of_len_def
        intro!: wp_zrem_loop [OF z(4)] removed)
qed

section \<open>Incrementing a score\<close>

lemma zset_ok_put: "zset_ok z \<Longrightarrow> utf8_valid x \<Longrightarrow> \<not> f64_is_nan s \<Longrightarrow> zset_ok (z(x \<mapsto> stored_score s))"
  by (auto simp: zset_ok_def)

lemma card_dom_put: "finite (dom z) \<Longrightarrow> card (dom (z(x \<mapsto> s))) = card (dom z) + (if z x = None then 1 else 0)"
  by (auto simp: card_insert_if domIff)

lemma wp_zincrby_new:
  assumes rep: "coll_rep env (m(mkey env key \<mapsto> b)) key b v (zset_data z) (card (dom z))" "zset_ok z" "z x = None"
    and meta: "m (mkey env key) = Some b"
    and new: "s = f64_add 0 step" "\<not> f64_is_nan s" "utf8_valid x"
    and Q: "\<And>m'. \<lbrakk>coll_rep env m' key b v (zset_data (z(x \<mapsto> stored_score s))) (card (dom (z(x \<mapsto> stored_score s))));
        others_same (KEY_ENCODER env) key m m'\<rbrakk> \<Longrightarrow> Q (Done (Inr s)) (db, (sn, m', True) # ts)"
    and err: "\<And>e m'. e \<in> F \<Longrightarrow> Q (Done (Inl (TikvClient e))) (db, (sn, m', True) # ts)"
  shows "wp F (zincrby_put env key v step x 0) Q (db, (sn, add_count env key v idx 1 m, True) # ts)"
proof -
  let ?m = "add_count env key v idx 1 m"
  have m: "m(mkey env key \<mapsto> b) = m" using meta by (simp add: fun_upd_idem)
  have "of_nat (card (dom z) + 1) = of_nat (card (dom z)) + (1 :: i64)" by simp
  from coll_rep_add [OF rep(1) [unfolded m] this, of idx] have "coll_rep env ?m key b v (zset_data z) (card (dom z) + 1)" .
  moreover have meta': "?m (mkey env key) = Some b" using meta by (simp add: add_count_def)
  then have m': "?m(mkey env key \<mapsto> b) = ?m" by (simp add: fun_upd_idem)
  ultimately have rep': "coll_rep env (?m(mkey env key \<mapsto> b)) key b v (zset_data z) (card (dom z) + 1)" by simp
  note put = zset_put_data [OF data_in_rep [OF rep'] new(2), of x]
  have "zset_put env key v z x s ?m (mkey env key) = Some b" using data_only_same(1) [OF put(2)] meta' by simp
  then have "(zset_put env key v z x s ?m)(mkey env key \<mapsto> b) = zset_put env key v z x s ?m" by (simp add: fun_upd_idem)
  with coll_rep_replace [OF rep' put(2,1)]
  have "coll_rep env (zset_put env key v z x s ?m) key b v (zset_data (z(x \<mapsto> stored_score s))) (card (dom (z(x \<mapsto> stored_score s))))"
    using card_dom_put [of z x "stored_score s"] rep(2,3) by auto
  moreover have "others_same (KEY_ENCODER env) key m (zset_put env key v z x s ?m)"
    by (rule others_same_trans [OF others_same_add data_only_same(3) [OF put(2)]]) simp
  ultimately show ?thesis using Q err new(1) rep(3) by (simp add: zincrby_put_def zset_put_def Let_def wp_simps del: fun_upd_apply)
qed

lemma zincrby_live:
  assumes rep: "zset_rep env m key ttl v z" "\<not> key_is_expired env ttl"
    and number: "config_meta_key_number_or_default (SERVER_CONFIG env) \<noteq> 0"
    and new: "s = f64_add (case z x of None \<Rightarrow> 0 | Some s \<Rightarrow> s) step" "\<not> f64_is_nan s" "utf8_valid x"
    and card: "card (dom (z(x \<mapsto> s))) < 2 ^ 63"
  shows "body_spec F UNIV (zincrby_body env key step x) m
    (\<lambda>r m'. r = Inr s \<and> zset_state env m' key ttl (z(x \<mapsto> stored_score s)) \<and> others_same (KEY_ENCODER env) key m m')"
    (is "body_spec F UNIV _ m ?R")
  using rep(1)
proof (rule zset_repE)
  fix i assume z: "coll_rep env m key (encode_txnkv_zset_meta_value (KEY_ENCODER env) ttl v i) v (zset_data z) (card (dom z))"
    "zset_ok z" and meta: "m (mkey env key) = Some (encode_txnkv_zset_meta_value (KEY_ENCODER env) ttl v i)"
  let ?b = "encode_txnkv_zset_meta_value (KEY_ENCODER env) ttl v i" and ?z = "z(x \<mapsto> stored_score s)"
  have m: "m(mkey env key \<mapsto> ?b) = m" using meta by (simp add: fun_upd_idem)
  have rep': "coll_rep env (m(mkey env key \<mapsto> ?b)) key ?b v (zset_data z) (card (dom z))" using z(1) by (simp only: m)
  have state: "zset_state env m' key ttl ?z" if "coll_rep env m' key ?b v (zset_data ?z) (card (dom ?z))" for m'
    using card by (intro zset_stateI [OF that zset_ok_put [OF z(2) new(3,2)]]) simp_all
  have fin: "finite (dom z)" using z(2) by auto
  have "wp F (zincrby_existing env key step x ttl v False) (body_post F db sn ts UNIV ?R) (db, (sn, m, True) # ts)" for db sn ts
  proof (cases "z x")
    case None
    have "wp F (update_sub_meta env key v idx 1 (zincrby_put env key v step x 0)) (body_post F db sn ts UNIV ?R) (db, (sn, m, True) # ts)" for idx
      by (rule wp_update_sub_meta [of env m key v "card (dom z)"],
          use z(1) in \<open>simp add: coll_rep_def\<close>, rule wp_zincrby_new [OF rep' z(2) None meta _ new(2,3)])
        (use None new(1) state in \<open>auto simp: wp_simps\<close>)
    then show ?thesis using None number zset_member_key [OF z(1), of x]
      by (simp add: zincrby_existing_def gen_next_meta_index_def Let_def wp_simps)
  next
    case (Some prev)
    then have prev: "\<not> f64_is_nan prev" "stored_score prev = prev" using z(2) by (auto simp: zset_ok_def score_ok_def)
    note put = zset_put_data [OF data_in_rep [OF rep'] new(2), of x]
    have "(zset_put env key v z x s m)(mkey env key \<mapsto> ?b) = zset_put env key v z x s m"
      using data_only_same(1) [OF put(2)] meta by (simp add: fun_upd_idem)
    moreover have "card (dom ?z) = card (dom z)" using card_dom_put [OF fin, of x "stored_score s"] Some by simp
    ultimately have "coll_rep env (zset_put env key v z x s m) key ?b v (zset_data ?z) (card (dom ?z))"
      using coll_rep_replace [OF rep' put(2,1)] by simp
    moreover have "m(dkey env key v 83 (score_row prev x) := None, dkey env key v 122 x \<mapsto> encode_txnkv_zset_data_value s,
        dkey env key v 83 (score_row s x) \<mapsto> x) = zset_put env key v z x s m"
      using Some by (simp add: zset_put_def Let_def fun_upd_twist)
    ultimately show ?thesis
      using Some prev state data_only_same(3) [OF put(2)] zset_member_key [OF z(1), of x] new(1)
      by (simp add: zincrby_existing_def zincrby_put_def Let_def wp_simps del: fun_upd_apply)
  qed
  then show ?thesis using rep(2) by (auto simp: body_spec_def zincrby_body_def zsets.wp_with_meta [where m = m, OF meta] wp_simps)
qed

lemma zincrby_absent:
  assumes new: "no_key env m key" "async_deletion_enabled_or_default (SERVER_CONFIG env)"
    and number: "config_meta_key_number_or_default (SERVER_CONFIG env) \<noteq> 0"
    and s: "s = f64_add 0 step" "\<not> f64_is_nan s" "utf8_valid x"
  shows "body_spec F UNIV (zincrby_body env key step x) m
    (\<lambda>r m'. if next_version env m key = None then r = Inl KEY_VERSION_EXHUSTED_ERR
       else r = Inr s \<and> zset_state env m' key 0 [x \<mapsto> stored_score s] \<and> others_same (KEY_ENCODER env) key m m')"
    (is "body_spec F UNIV _ m ?R")
proof (rule body_specI)
  fix db sn ts
  have none: "m (mkey env key) = None" using new(1) by (simp add: no_key_def)
  have "wp F (call (get_version_for_new env key) (\<lambda>version. Lock (put_zset_meta env key 0 version (
      gen_next_meta_index env (\<lambda>idx. txn_put (encode_txnkv_sub_meta_key (KEY_ENCODER env) key version idx) (u64_to_be_bytes 1) (
      zincrby_put env key version step x 0)))))) (body_post F db sn ts UNIV ?R) (db, (sn, m, False) # ts)"
  proof (rule wp_new_version [OF new(1)])
    fix v assume v: "next_version env m key = Some v"
    let ?b = "encode_txnkv_zset_meta_value (KEY_ENCODER env) 0 v 0"
    let ?m = "m(mkey env key \<mapsto> ?b)"
    have rep: "coll_rep env (?m(mkey env key \<mapsto> ?b)) key ?b v (zset_data Map.empty) (card (dom (Map.empty :: zset)))"
      using coll_rep_new [OF new v, of ?b] by simp
    have ok: "zset_ok Map.empty" by (simp add: zset_ok_def)
    have same: "others_same (KEY_ENCODER env) key m ?m" by (rule others_same_upd) simp_all
    have "wp F (zincrby_put env key v step x 0) (body_post F db sn ts UNIV ?R) (db, (sn, add_count env key v idx 1 ?m, True) # ts)" for idx
      by (rule wp_zincrby_new [OF rep ok _ _ s])
        (use v zset_ok_put [OF ok s(3,2)] in \<open>auto simp: wp_simps intro!: zset_stateI others_same_trans [OF same]\<close>)
    moreover have "m (skey env key v idx) = None" for idx
      using next_version_fresh(1) [OF new(2) _ v] new(1) by (simp add: no_key_def)
    then have "add_count env key v idx 1 ?m = ?m(skey env key v idx \<mapsto> u64_to_be_bytes 1)" for idx
      by (simp add: add_count_def sub_size_def)
    ultimately show "wp F (Lock (put_zset_meta env key 0 v (gen_next_meta_index env (\<lambda>idx.
        txn_put (encode_txnkv_sub_meta_key (KEY_ENCODER env) key v idx) (u64_to_be_bytes 1) (
        zincrby_put env key v step x 0))))) (body_post F db sn ts UNIV ?R) (db, (sn, m, False) # ts)"
      using number by (simp add: put_zset_meta_def gen_next_meta_index_def Let_def wp_simps del: fun_upd_apply)
  qed (simp_all add: wp_simps)
  then show "wp F (zincrby_body env key step x) (body_post F db sn ts UNIV ?R) (db, (sn, m, False) # ts)"
    by (simp add: zincrby_body_def wp_with_meta_absent [where m = m, OF none] wp_simps)
qed

end
