(* ===== verification/Zset_Properties.thy ===== *)
theory Zset_Properties
  imports Zset_Edits
begin

text \<open>
  The properties of the sorted set commands.
\<close>

section \<open>Missing keys\<close>

lemma zset_absent:
  assumes "no_key env m key"
  shows "body_spec F UNIV (zcard_body env key) m (\<lambda>r m'. r = Inr (Integer 0) \<and> m' = m)"
    and "body_spec F UNIV (zscore_body env key x) m (\<lambda>r m'. r = Inr Null \<and> m' = m)"
    and "body_spec F UNIV (zrank_body env key x) m (\<lambda>r m'. r = Inr Null \<and> m' = m)"
    and "body_spec F UNIV (zcount_body env key slo lo_incl shi hi_incl) m (\<lambda>r m'. r = Inr (Integer 0) \<and> m' = m)"
    and "body_spec F UNIV (zrange_body env key lo hi with_scores reverse) m (\<lambda>r m'. r = Inr (Array []) \<and> m' = m)"
    and "body_spec F UNIV (zrange_by_score_body env key slo lo_incl shi hi_incl with_scores reverse) m
      (\<lambda>r m'. r = Inr (Array []) \<and> m' = m)"
    and "body_spec F UNIV (zpop_body env key from_min cnt idx) m (\<lambda>r m'. r = Inr [] \<and> m' = m)"
    and "body_spec F UNIV (zrem_body env key members idx) m (\<lambda>r m'. r = Inr 0 \<and> m' = m)"
    and "body_spec F UNIV (zremrange_by_rank_body env key lo hi idx) m (\<lambda>r m'. r = Inr 0 \<and> m' = m)"
    and "body_spec F UNIV (zremrange_by_score_body env key slo shi idx) m (\<lambda>r m'. r = Inr 0 \<and> m' = m)"
proof -
  have none: "m (mkey env key) = None" using assms by (simp add: no_key_def)
  have absent: "body_spec F UNIV (with_meta env DT_Zset key wt (Return a) f) m (\<lambda>r m'. r = Inr a \<and> m' = m)"
    for wt f and a :: 'x
    by (simp add: body_spec_def wp_with_meta_absent [where m = m, OF none] wp_simps)
  show "body_spec F UNIV (zcard_body env key) m (\<lambda>r m'. r = Inr (Integer 0) \<and> m' = m)"
    "body_spec F UNIV (zscore_body env key x) m (\<lambda>r m'. r = Inr Null \<and> m' = m)"
    "body_spec F UNIV (zrank_body env key x) m (\<lambda>r m'. r = Inr Null \<and> m' = m)"
    "body_spec F UNIV (zcount_body env key slo lo_incl shi hi_incl) m (\<lambda>r m'. r = Inr (Integer 0) \<and> m' = m)"
    "body_spec F UNIV (zrange_body env key lo hi with_scores reverse) m (\<lambda>r m'. r = Inr (Array []) \<and> m' = m)"
    "body_spec F UNIV (zrange_by_score_body env key slo lo_incl shi hi_incl with_scores reverse) m
      (\<lambda>r m'. r = Inr (Array []) \<and> m' = m)"
    "body_spec F UNIV (zpop_body env key from_min cnt idx) m (\<lambda>r m'. r = Inr [] \<and> m' = m)"
    "body_spec F UNIV (zrem_body env key members idx) m (\<lambda>r m'. r = Inr 0 \<and> m' = m)"
    "body_spec F UNIV (zremrange_by_rank_body env key lo hi idx) m (\<lambda>r m'. r = Inr 0 \<and> m' = m)"
    "body_spec F UNIV (zremrange_by_score_body env key slo shi idx) m (\<lambda>r m'. r = Inr 0 \<and> m' = m)"
    by (simp_all add: absent zcard_body_def zscore_body_def zrank_body_def zcount_body_def zrange_body_def
        zrange_by_score_body_def zpop_body_def zrem_body_def zremrange_by_rank_body_def zremrange_by_score_body_def resp_defs)
qed

lemma ranked_empty [simp]: "ranked Map.empty = []"
  by (simp add: ranked_def)

definition zset_at :: "env \<Rightarrow> store \<Rightarrow> bytes \<Rightarrow> zset \<Rightarrow> bool" where
  "zset_at env m key z \<longleftrightarrow> (\<exists>ttl. \<not> key_is_expired env ttl \<and> zset_state env m key ttl z)"

lemma zset_stateE:
  assumes "zset_state env m key ttl z"
  obtains (absent) "z = Map.empty" "no_key env m key"
  | (live) v where "zset_rep env m key ttl v z" "z \<noteq> Map.empty"
  using assms by (auto simp: zset_state_def split: if_splits)

lemma zset_read_bodies:
  assumes "zset_at env m key z" "TIKV_TXN_CLIENTS env" "card (dom z) \<le> u32_MAX"
  shows "body_spec F UNIV (zcard_body env key) m (\<lambda>r m'. r = Inr (Integer (of_nat (card (dom z)))) \<and> m' = m)"
    and "body_spec F UNIV (zscore_body env key x) m (\<lambda>r m'. r = Inr (bulk_or_null (map_option f64_to_string (z x))) \<and> m' = m)"
    and "body_spec F UNIV (zrank_body env key x) m
      (\<lambda>r m'. r = Inr (case z x of None \<Rightarrow> Null | Some s \<Rightarrow> Integer (of_nat (length (takeWhile (\<lambda>p. fst p \<noteq> x) (ranked z))))) \<and> m' = m)"
    and "\<lbrakk>\<not> f64_is_nan slo; \<not> f64_is_nan shi\<rbrakk> \<Longrightarrow> body_spec F UNIV (zcount_body env key slo lo_incl shi hi_incl) m
      (\<lambda>r m'. r = Inr (Integer (of_nat (length (filter (score_between slo lo_incl shi hi_incl \<circ> snd) (ranked z))))) \<and> m' = m)"
    and "\<lbrakk>\<bar>sint lo\<bar> < 2 ^ 62; \<bar>sint hi\<bar> < 2 ^ 62\<rbrakk> \<Longrightarrow> body_spec F UNIV (zrange_body env key lo hi with_scores reverse) m
      (\<lambda>r m'. r = Inr (Array (concat (map (zset_frames with_scores)
         (ranks (from_end (card (dom z)) (sint lo)) (from_end (card (dom z)) (sint hi))
           (if reverse then rev (ranked z) else ranked z))))) \<and> m' = m)"
    and "\<lbrakk>\<not> f64_is_nan slo; \<not> f64_is_nan shi\<rbrakk> \<Longrightarrow>
      body_spec F UNIV (if reverse then zrange_by_score_body env key shi hi_incl slo lo_incl with_scores True
        else zrange_by_score_body env key slo lo_incl shi hi_incl with_scores False) m
      (\<lambda>r m'. r = Inr (Array (answer_frames with_scores reverse
         (filter (score_between slo lo_incl shi hi_incl \<circ> snd) (ranked z)))) \<and> m' = m)"
proof -
  obtain ttl where ttl: "\<not> key_is_expired env ttl" "zset_state env m key ttl z" using assms(1) by (auto simp: zset_at_def)
  from ttl(2) show "body_spec F UNIV (zcard_body env key) m (\<lambda>r m'. r = Inr (Integer (of_nat (card (dom z)))) \<and> m' = m)"
    by (cases rule: zset_stateE) (simp add: zset_absent, rule zset_live_reads [OF _ ttl(1) assms(2)])
  from ttl(2) show "body_spec F UNIV (zscore_body env key x) m (\<lambda>r m'. r = Inr (bulk_or_null (map_option f64_to_string (z x))) \<and> m' = m)"
    by (cases rule: zset_stateE) (simp add: zset_absent bulk_or_null_def, rule zset_live_reads [OF _ ttl(1) assms(2)])
  from ttl(2) show "body_spec F UNIV (zrank_body env key x) m
      (\<lambda>r m'. r = Inr (case z x of None \<Rightarrow> Null | Some s \<Rightarrow> Integer (of_nat (length (takeWhile (\<lambda>p. fst p \<noteq> x) (ranked z))))) \<and> m' = m)"
    by (cases rule: zset_stateE) (simp add: zset_absent, rule zset_live_reads(3) [OF _ ttl(1) assms(2,3)])
  from ttl(2) show "body_spec F UNIV (zcount_body env key slo lo_incl shi hi_incl) m
      (\<lambda>r m'. r = Inr (Integer (of_nat (length (filter (score_between slo lo_incl shi hi_incl \<circ> snd) (ranked z))))) \<and> m' = m)"
    if "\<not> f64_is_nan slo" "\<not> f64_is_nan shi"
    by (cases rule: zset_stateE) (simp add: zset_absent, rule zcount_live [OF _ ttl(1) assms(3) that])
  from ttl(2) show "body_spec F UNIV (zrange_body env key lo hi with_scores reverse) m
      (\<lambda>r m'. r = Inr (Array (concat (map (zset_frames with_scores)
         (ranks (from_end (card (dom z)) (sint lo)) (from_end (card (dom z)) (sint hi))
           (if reverse then rev (ranked z) else ranked z))))) \<and> m' = m)"
    if "\<bar>sint lo\<bar> < 2 ^ 62" "\<bar>sint hi\<bar> < 2 ^ 62"
    by (cases rule: zset_stateE) (simp add: zset_absent, rule zrange_live [OF _ ttl(1) assms(2,3) that])
  from ttl(2) show "body_spec F UNIV (if reverse then zrange_by_score_body env key shi hi_incl slo lo_incl with_scores True
        else zrange_by_score_body env key slo lo_incl shi hi_incl with_scores False) m
      (\<lambda>r m'. r = Inr (Array (answer_frames with_scores reverse
         (filter (score_between slo lo_incl shi hi_incl \<circ> snd) (ranked z)))) \<and> m' = m)"
    if "\<not> f64_is_nan slo" "\<not> f64_is_nan shi"
    by (cases rule: zset_stateE)
      (simp add: zset_absent answer_frames_def, rule zrange_by_score_live [OF _ ttl(1) assms(2,3) that])
qed

section \<open>A store with one sorted set\<close>

definition zset_store :: "env \<Rightarrow> bytes \<Rightarrow> u64 \<Rightarrow> (bytes \<times> f64) list \<Rightarrow> kv_pair list" where
  "zset_store env key ttl ps =
     coll_store env key (encode_txnkv_zset_meta_value (KEY_ENCODER env) ttl 0 0) 0
       (map (\<lambda>(x, s). ((122, x), encode_txnkv_zset_data_value s)) ps @ map (\<lambda>(x, s). ((83, score_row s x), x)) ps) (length ps)"

lemma zset_store_rep:
  assumes "distinct (map fst ps)" "ps \<noteq> []" "length ps < 2 ^ 63" "list_all (\<lambda>(x, s). utf8_valid x \<and> score_ok s) ps"
  shows "zset_rep env (map_of (zset_store env key ttl ps)) key ttl 0 (map_of ps)"
proof -
  let ?al = "map (\<lambda>(x, s). ((122 :: u8, x), encode_txnkv_zset_data_value s)) ps @ map (\<lambda>(x, s). ((83, score_row s x), x)) ps"
  have members: "map_of (map (\<lambda>(x, s). ((122 :: u8, x), encode_txnkv_zset_data_value s)) qs) (t, r) =
      (if t = 122 then map_option encode_txnkv_zset_data_value (map_of qs r) else None)" for t r qs
    by (induction qs) auto
  have rows: "map_of (map (\<lambda>(x, s). ((83 :: u8, score_row s x), x)) qs) (t, r) =
      (if t = 83 then case map_of qs (drop 9 r) of None \<Rightarrow> None | Some s \<Rightarrow>
         if r = score_row s (drop 9 r) then Some (drop 9 r) else None else None)"
    if "distinct (map fst qs)" for t r qs
    using that
  proof (induction qs)
    case (Cons p qs)
    obtain x s where p: "p = (x, s)" by (cases p)
    have "map_of qs x = None" using Cons.prems p by (auto simp: map_of_eq_None_iff)
    then show ?case using Cons p by auto
  qed auto
  have data: "(\<lambda>t r. map_of ?al (t, r)) = zset_data (map_of ps)"
    by (auto simp: zset_data_def members rows [OF assms(1)] map_add_def fun_eq_iff split: option.splits)
  have card: "card (dom (map_of ps)) = length ps"
    using assms(1) by (metis dom_map_of_conv_image_fst distinct_card length_map set_map)
  have "zset_ok (map_of ps)"
    using assms(4) by (force simp: zset_ok_def list_all_iff finite_dom_map_of dest!: map_of_SomeD)
  moreover have "map_of ps \<noteq> Map.empty" using assms(2) by (cases ps) auto
  moreover have "coll_rep env (map_of (zset_store env key ttl ps)) key (encode_txnkv_zset_meta_value (KEY_ENCODER env) ttl 0 0) 0
      (zset_data (map_of ps)) (length ps)"
    unfolding zset_store_def data [symmetric] by (rule coll_store_rep) auto
  ultimately show ?thesis using assms(3) card by (auto simp: zset_rep_def)
qed

text \<open>The scores one and two, and a sorted set of two members with them.\<close>

definition f64_one :: f64 where "f64_one = 0x3FF0000000000000"
definition f64_two :: f64 where "f64_two = 0x4000000000000000"

lemma f64_one_two: "score_ok f64_one" "score_ok f64_two" "\<not> f64_is_nan f64_one" "\<not> f64_is_nan f64_two"
  "f64_rank f64_one < f64_rank f64_two" "stored_score f64_one = f64_one" "stored_score f64_two = f64_two"
  "f64_one \<noteq> f64_two"
  by (simp_all add: score_ok_def f64_one_def f64_two_def f64_is_nan_def f64_magnitude_def SIGN_MASK_def f64_rank_def stored_score_def)

definition pair_store :: "u64 \<Rightarrow> kv_pair list" where
  "pair_store ttl = zset_store env0 [107] ttl [([97], f64_two), ([98], f64_one)]"

definition pair_map :: zset where
  "pair_map = [[98] \<mapsto> f64_one, [97] \<mapsto> f64_two]"

lemma pair_map_simps [simp]:
  "pair_map [97] = Some f64_two" "pair_map [98] = Some f64_one" "dom pair_map = {[97], [98]}" "card (dom pair_map) \<le> u32_MAX"
  by (simp_all add: pair_map_def insert_commute u32_MAX_def)

lemma pair_store_rep: "zset_rep env0 (mem_data (cluster (mem_world (pair_store ttl)))) [107] ttl 0 pair_map"
  using zset_store_rep [of "[([97], f64_two), ([98], f64_one)]" env0 "[107]" ttl]
  by (simp add: pair_store_def pair_map_def f64_one_two utf8_valid_ascii del: fun_upd_apply)

lemma pair_store_state: "zset_state env0 (mem_data (cluster (mem_world (pair_store ttl)))) [107] ttl pair_map"
  using pair_store_rep [of ttl] by (auto simp: zset_state_def pair_map_def)

lemma ranked_pair_map: "ranked pair_map = [([98], f64_one), ([97], f64_two)]"
  using f64_one_two(5) by (simp add: ranked_def insert_commute)

section \<open>The properties\<close>

text \<open>(C27) The reads of a sorted set of up to \<open>2\<close> to the power of 32 members, on a key that holds a live one or nothing: \<^verbatim>\<open>ZCARD\<close> answers with the
  number of members, \<^verbatim>\<open>ZSCORE\<close> with the score of a member as decimal text, \<^verbatim>\<open>ZRANK\<close> with the number of members before it in the
  order of scores and then of members, \<^verbatim>\<open>ZCOUNT\<close> with the number of members with a score between the bounds; nothing
  that is stored changes.\<close>

theorem zset_reads:
  assumes "client_ready api data snap view F env w" "zset_at env (data (cluster w)) key z" "card (dom z) \<le> u32_MAX"
  shows "completes api data F env (do_async_txnkv_zcard env False key) w
      (\<lambda>reply m. reply = Integer (of_nat (card (dom z))) \<and> m = data (cluster w)) \<and>
    completes api data F env (do_async_txnkv_zcore env False key x) w
      (\<lambda>reply m. reply = bulk_or_null (map_option f64_to_string (z x)) \<and> m = data (cluster w)) \<and>
    completes api data F env (do_async_txnkv_zrank env False key x) w
      (\<lambda>reply m. reply = (if x \<in> dom z then Integer (of_nat (length (takeWhile (\<lambda>p. fst p \<noteq> x) (ranked z)))) else Null) \<and>
         m = data (cluster w)) \<and>
    (\<not> f64_is_nan lo \<longrightarrow> \<not> f64_is_nan hi \<longrightarrow>
      completes api data F env (do_async_txnkv_zcount env False key lo lo_incl hi hi_incl) w
        (\<lambda>reply m. reply = Integer (of_nat (length (filter (\<lambda>p. score_between lo lo_incl hi hi_incl (snd p)) (ranked z)))) \<and>
           m = data (cluster w)))"
  unfolding do_async_txnkv_zcard_def do_async_txnkv_zcore_def do_async_txnkv_zrank_def do_async_txnkv_zcount_def
  by (intro conjI impI; rule completes_exec_frame [OF assms(1)],
      rule zset_read_bodies [OF assms(2) ready_connected [OF assms(1)] assms(3)])
    (auto simp: comp_def split: option.splits)

lemma pair_at: "zset_at env0 (mem_data (cluster (mem_world (pair_store 0)))) [107] pair_map"
  using pair_store_state [of 0] by (auto simp: zset_at_def intro!: exI [of _ 0])

theorem zset_reads_witness:
  "completes mem_api mem_data {} env0 (do_async_txnkv_zrank env0 False [107] [97]) (mem_world (pair_store 0))
     (\<lambda>reply m. reply = Integer 1)"
  using zset_reads [OF mem_ready pair_at, of "[97]" f64_one f64_two True True] by (auto simp: ranked_pair_map u32_MAX_def elim!: completes_mono)

text \<open>(C28) \<^verbatim>\<open>ZRANGE\<close> and \<^verbatim>\<open>ZREVRANGE\<close> answer with the members at the positions between the bounds, negative ones counted from the end, and
  \<^verbatim>\<open>ZRANGEBYSCORE\<close> and \<^verbatim>\<open>ZREVRANGEBYSCORE\<close> with the members with a score between the bounds; in the order of scores and then of members, or in
  the reverse one, each with its score as decimal text when asked for.\<close>

theorem zrange_ordered:
  assumes "client_ready api data snap view F env w" "zset_at env (data (cluster w)) key z" "card (dom z) \<le> u32_MAX"
    and "\<bar>sint lo\<bar> < 2 ^ 62" "\<bar>sint hi\<bar> < 2 ^ 62" "\<not> f64_is_nan slo" "\<not> f64_is_nan shi"
  shows "completes api data F env (do_async_txnkv_zrange env False key lo hi with_scores reverse) w
      (\<lambda>reply m. reply = Array (concat (map (zset_frames with_scores)
           (ranks (from_end (card (dom z)) (sint lo)) (from_end (card (dom z)) (sint hi))
             (if reverse then rev (ranked z) else ranked z)))) \<and> m = data (cluster w)) \<and>
    completes api data F env (do_async_txnkv_zrange_by_score env False key slo lo_incl shi hi_incl with_scores False) w
      (\<lambda>reply m. reply = Array (concat (map (zset_frames with_scores)
           (filter (\<lambda>p. score_between slo lo_incl shi hi_incl (snd p)) (ranked z)))) \<and> m = data (cluster w)) \<and>
    completes api data F env (do_async_txnkv_zrange_by_score env False key shi hi_incl slo lo_incl with_scores True) w
      (\<lambda>reply m. reply = Array (concat (map (zset_frames with_scores)
           (rev (filter (\<lambda>p. score_between slo lo_incl shi hi_incl (snd p)) (ranked z))))) \<and> m = data (cluster w))"
proof -
  note reads = zset_read_bodies [OF assms(2) ready_connected [OF assms(1)] assms(3)]
  show ?thesis unfolding do_async_txnkv_zrange_def do_async_txnkv_zrange_by_score_def
    by (intro conjI completes_exec_frame [OF assms(1) reads(5) [OF assms(4,5)]]
        completes_exec_frame [OF assms(1) reads(6) [OF assms(6,7), where reverse = False, simplified]]
        completes_exec_frame [OF assms(1) reads(6) [OF assms(6,7), where reverse = True, simplified]])
      (auto simp: answer_frames_def comp_def)
qed

theorem zrange_ordered_witness:
  "completes mem_api mem_data {} env0 (do_async_txnkv_zrange env0 False [107] 0 (- 1) False False) (mem_world (pair_store 0))
     (\<lambda>reply m. reply = Array [Bulk [98], Bulk [97]])"
  using zrange_ordered [OF mem_ready pair_at, of 0 "- 1" f64_one f64_two False False True True]
  by (auto simp: ranked_pair_map u32_MAX_def f64_one_two from_end_def ranks_def zset_frames_def numeral_2_eq_2 elim!: completes_mono)

text \<open>(C29) \<^verbatim>\<open>ZADD\<close> of different members, to a live sorted set or to nothing: the members get their scores, with \<^verbatim>\<open>XX\<close> only those that exist and
  with \<^verbatim>\<open>NX\<close> only those that do not; the answer is the number of new members, or with \<^verbatim>\<open>CH\<close> on an existing key that of the members that
  are new or change their score; the time to live and all other keys stay, and each member is listed under its new score
  only. When all versions of a new key still wait for the garbage collector, the answer is the error and nothing is
  written.\<close>

theorem zadd_updates:
  assumes "client_ready api data snap view F env w"
    and "zset_state env (data (cluster w)) key ttl z" "\<not> key_is_expired env ttl"
    and "async_deletion_enabled_or_default (SERVER_CONFIG env)" "config_meta_key_number_or_default (SERVER_CONFIG env) \<noteq> 0"
    and "zadd_args members scores" "members \<noteq> []" "length members < 2 ^ 63"
    and "z' = zadd_map exists z (zip members scores)" "card (dom z') < 2 ^ 63"
  shows "completes api data F env (do_async_txnkv_zadd env False key members scores exists changed_only incr) w
    (\<lambda>reply m.
       if z = Map.empty \<and> next_version env (data (cluster w)) key = None then
         reply = resp_err KEY_VERSION_EXHUSTED_ERR \<and> m = data (cluster w)
       else
         reply = Integer (of_nat ((if changed_only \<and> z \<noteq> Map.empty then zadd_changed else zadd_added)
           exists z (zip members scores))) \<and>
         zset_state env m key (if z = Map.empty then 0 else ttl) z' \<and> others_same (KEY_ENCODER env) key (data (cluster w)) m)"
  using assms(2)
proof (cases rule: zset_stateE)
  case absent
  show ?thesis unfolding do_async_txnkv_zadd_def
    by (rule completes_exec_idx [OF assms(1,5) zadd_absent [OF absent(2) assms(4,6,7,8)]])
      (use assms(9) in \<open>auto simp: absent(1) resp_int_def split: option.splits if_splits\<close>)
next
  case (live v)
  show ?thesis unfolding do_async_txnkv_zadd_def
    by (rule completes_exec_idx [OF assms(1,5) zadd_live [OF live(1) assms(3,6,8,9,10)]])
      (use live(2) in \<open>auto simp: resp_int_def split: if_splits\<close>)
qed

theorem zadd_updates_witness:
  "completes mem_api mem_data {} env0 (do_async_txnkv_zadd env0 False [107] [[97], [99]] [f64_one, f64_two] None False False)
     (mem_world (pair_store 0))
     (\<lambda>reply m. reply = Integer 1 \<and>
        zset_state env0 m [107] 0 [[97] \<mapsto> f64_one, [98] \<mapsto> f64_one, [99] \<mapsto> f64_two])"
proof -
  let ?z = "zadd_map None pair_map (zip [[97], [99]] [f64_one, f64_two])"
  have z: "?z = [[97] \<mapsto> f64_one, [98] \<mapsto> f64_one, [99] \<mapsto> f64_two]"
    by (auto simp: zadd_map_def zadd_takes_def pair_map_def f64_one_two fun_eq_iff map_add_def)
  then have "card (dom ?z) < 2 ^ 63" by simp
  moreover have "zadd_args [[97], [99]] [f64_one, f64_two]" by (simp add: zadd_args_def f64_one_two utf8_valid_ascii)
  moreover have "zadd_added None pair_map (zip [[97], [99]] [f64_one, f64_two]) = 1"
    by (simp add: zadd_added_def zadd_takes_def pair_map_def)
  moreover have "pair_map \<noteq> Map.empty" by (simp add: pair_map_def)
  ultimately show ?thesis
    using zadd_updates [OF mem_ready pair_store_state [of 0], of "[[97], [99]]" "[f64_one, f64_two]" ?z None False False]
    unfolding z by (auto elim!: completes_mono)
qed

text \<open>(C30) \<^verbatim>\<open>ZREM\<close>, \<^verbatim>\<open>ZPOPMIN\<close>, \<^verbatim>\<open>ZPOPMAX\<close>, \<^verbatim>\<open>ZREMRANGEBYRANK\<close> and \<^verbatim>\<open>ZREMRANGEBYSCORE\<close> on a live sorted set remove exactly the members they name, are asked to pop from an
  end, or find between the bounds. The pops answer with the members and their scores in order, the others with the number of
  members removed; the last member takes the key with it, and no other key changes.\<close>

theorem zset_removals:
  assumes "client_ready api data snap view F env w"
    and "zset_rep env (data (cluster w)) key ttl v z" "\<not> key_is_expired env ttl" "card (dom z) \<le> u32_MAX"
    and "config_meta_key_number_or_default (SERVER_CONFIG env) \<noteq> 0"
    and "unat cnt \<le> u32_MAX" "\<bar>sint lo\<bar> < 2 ^ 62" "\<bar>sint hi\<bar> < 2 ^ 62" "\<not> f64_is_nan slo" "\<not> f64_is_nan shi"
    and "popped = take (unat cnt) (if from_min then ranked z else rev (ranked z))"
    and "by_rank = ranks (from_end (card (dom z)) (sint lo)) (from_end (card (dom z)) (sint hi)) (ranked z)"
    and "by_score = filter (\<lambda>p. score_between slo True shi True (snd p)) (ranked z)"
    and "(p, answer, gone) \<in> {
      (do_async_txnkv_zrem env False key members, Integer (of_nat (card (dom z \<inter> set members))), set members),
      (do_async_txnkv_zpop env False key from_min cnt, Array (concat (map (zset_frames True) popped)), fst ` set popped),
      (do_async_txnkv_zremrange_by_rank env False key lo hi, Integer (of_nat (length by_rank)), fst ` set by_rank),
      (do_async_txnkv_zremrange_by_score env False key slo shi, Integer (of_nat (length by_score)), fst ` set by_score)}"
  shows "completes api data F env p w (\<lambda>reply m. reply = answer \<and> zset_state env m key ttl (z |` (- gone)) \<and>
    others_same (KEY_ENCODER env) key (data (cluster w)) m)"
proof -
  note live = assms(2,3) and conn = ready_connected [OF assms(1)] and idx = completes_exec_idx [OF assms(1,5)]
  have by_score: "by_score = filter (score_between slo True shi True \<circ> snd) (ranked z)" using assms(13) by (simp add: comp_def)
  from assms(14) consider
      "p = do_async_txnkv_zrem env False key members" "answer = resp_int (of_nat (card (dom z \<inter> set members)))" "gone = set members"
    | "p = do_async_txnkv_zpop env False key from_min cnt" "answer = resp_array (concat (map (zset_frames True) popped))"
        "gone = fst ` set popped"
    | "p = do_async_txnkv_zremrange_by_rank env False key lo hi" "answer = resp_int (of_nat (length by_rank))" "gone = fst ` set by_rank"
    | "p = do_async_txnkv_zremrange_by_score env False key slo shi" "answer = resp_int (of_nat (length by_score))" "gone = fst ` set by_score"
    by (auto simp: resp_defs)
  then show ?thesis
  proof cases
    case 1
    then show ?thesis unfolding 1 do_async_txnkv_zrem_def by (intro idx [OF zrem_live [OF live conn]]) auto
  next
    case 2
    then show ?thesis unfolding 2 do_async_txnkv_zpop_def by (intro idx [OF zpop_live [OF live conn assms(6,11)]]) auto
  next
    case 3
    then show ?thesis unfolding 3 do_async_txnkv_zremrange_by_rank_def
      by (intro idx [OF zremrange_by_rank_live [OF live conn assms(4,7,8,12)]]) auto
  next
    case 4
    then show ?thesis unfolding 4 do_async_txnkv_zremrange_by_score_def
      by (intro idx [OF zremrange_by_score_live [OF live conn assms(4,9,10) by_score]]) auto
  qed
qed

theorem zset_removals_witness:
  "completes mem_api mem_data {} env0 (do_async_txnkv_zrem env0 False [107] [[97], [120]])
     (mem_world (pair_store 0)) (\<lambda>reply m. reply = Integer 1 \<and> zset_state env0 m [107] 0 [[98] \<mapsto> f64_one])"
proof -
  have "pair_map |` (- set [[97], [120]]) = [[98] \<mapsto> f64_one]" by (auto simp: pair_map_def restrict_map_def fun_eq_iff)
  moreover have "dom pair_map \<inter> set [[97], [120]] = {[97]}" by auto
  ultimately show ?thesis
    using zset_removals [OF mem_ready pair_store_rep [of 0] _ _ _ _ _ _ _ _ refl refl refl, where
        p = "do_async_txnkv_zrem env0 False [107] [[97], [120]]" and answer = "Integer 1" and gone = "set [[97], [120]]"
        and members = "[[97], [120]]" and cnt = 0 and lo = 0 and hi = 0 and slo = f64_one and shi = f64_one]
    by (auto simp: f64_one_two u32_MAX_def elim!: completes_mono)
qed

text \<open>(C31) \<^verbatim>\<open>ZINCRBY\<close>, on a live sorted set or on nothing: the member gets the IEEE sum of its score, zero when it is new, and the step; the answer is
  the sum as decimal text; the member is listed under the new score only, and is counted when it is new. A step that is
  not a number is rejected before anything is read.\<close>

theorem zincrby_adds:
  assumes "client_ready api data snap view F env w"
    and "zset_state env (data (cluster w)) key ttl z" "\<not> key_is_expired env ttl"
    and "async_deletion_enabled_or_default (SERVER_CONFIG env)" "config_meta_key_number_or_default (SERVER_CONFIG env) \<noteq> 0"
    and "s = f64_add (case z x of None \<Rightarrow> 0 | Some s \<Rightarrow> s) step" "\<not> f64_is_nan s" "utf8_valid x" "card (dom (z(x \<mapsto> s))) < 2 ^ 63"
  shows "completes api data F env (do_async_txnkv_zincrby env False key step x) w
    (\<lambda>reply m.
       if f64_is_nan step then reply = resp_err REDIS_VALUE_IS_NOT_VALID_FLOAT_ERR \<and> m = data (cluster w)
       else if z = Map.empty \<and> next_version env (data (cluster w)) key = None then
         reply = resp_err KEY_VERSION_EXHUSTED_ERR \<and> m = data (cluster w)
       else reply = Bulk (f64_to_string s) \<and> zset_state env m key (if z = Map.empty then 0 else ttl) (z(x \<mapsto> stored_score s)) \<and>
         others_same (KEY_ENCODER env) key (data (cluster w)) m)"
proof (cases "f64_is_nan step")
  case True
  then show ?thesis by (simp add: do_async_txnkv_zincrby_def completes_def Return_def)
next
  case False
  from assms(2) show ?thesis
  proof (cases rule: zset_stateE)
    case absent
    then have s: "s = f64_add 0 step" using assms(6) by simp
    show ?thesis unfolding do_async_txnkv_zincrby_def if_not_P [OF False]
      by (rule completes_exec [OF assms(1) zincrby_absent [OF absent(2) assms(4,5) s assms(7,8)]])
        (auto simp: absent(1) False resp_bulk_def split: option.splits if_splits)
  next
    case (live v)
    show ?thesis unfolding do_async_txnkv_zincrby_def if_not_P [OF False]
      by (rule completes_exec [OF assms(1) zincrby_live [OF live(1) assms(3,5-9)]])
        (use live(2) in \<open>auto simp: False resp_bulk_def\<close>)
  qed
qed

theorem zincrby_adds_witness:
  "completes mem_api mem_data {} env0 (do_async_txnkv_zincrby env0 False [107] f64_INFINITY [98]) (mem_world (pair_store 0))
     (\<lambda>reply m. reply = Bulk (ascii ''inf'') \<and> zset_state env0 m [107] 0 [[97] \<mapsto> f64_two, [98] \<mapsto> f64_INFINITY])"
proof -
  note inf_simps = f64_INFINITY_def f64_is_nan_def f64_magnitude_def f64_is_infinite_def stored_score_def SIGN_MASK_def
  have inf: "\<not> f64_is_nan f64_INFINITY" "f64_is_infinite f64_INFINITY" "stored_score f64_INFINITY = f64_INFINITY"
    "\<not> bit f64_INFINITY 63"
    by (simp_all add: inf_simps)
  have "\<not> f64_is_infinite f64_one" by (simp add: inf_simps f64_one_def)
  then have sum: "f64_add f64_one f64_INFINITY = f64_INFINITY" using inf f64_one_two by (simp add: f64_add_def)
  have decimal: "f64_to_string f64_INFINITY = ascii ''inf''" using inf by (simp add: f64_to_string_def)
  have z: "pair_map([98] \<mapsto> f64_INFINITY) = [[97] \<mapsto> f64_two, [98] \<mapsto> f64_INFINITY]" "pair_map \<noteq> Map.empty"
    by (auto simp: pair_map_def fun_eq_iff)
  have "card (dom (pair_map([98] \<mapsto> f64_INFINITY))) < 2 ^ 63" unfolding z by simp
  with sum inf show ?thesis
    using zincrby_adds [OF mem_ready pair_store_state [of 0], of f64_INFINITY "[98]" f64_INFINITY] z(2)
    by (auto simp: decimal utf8_valid_ascii z(1) simp del: fun_upd_apply elim!: completes_mono)
qed

text \<open>Every command on a sorted set whose time to live is over removes it with its data keys, its score keys and its size, or
  leaves them to the garbage collector, and answers as for an empty one, \<^verbatim>\<open>ZCOUNT\<close> with an empty array.\<close>

theorem zset_expired:
  assumes "client_ready api data snap view F env w"
    and "zset_rep env (data (cluster w)) key ttl v z" "key_is_expired env ttl"
    and "config_meta_key_number_or_default (SERVER_CONFIG env) \<noteq> 0"
    and "(p, answer) \<in> {(do_async_txnkv_zcard env False key, Integer 0), (do_async_txnkv_zcore env False key x, Null),
      (do_async_txnkv_zrank env False key x, Null), (do_async_txnkv_zcount env False key slo lo_incl shi hi_incl, Array []),
      (do_async_txnkv_zrange env False key lo hi with_scores reverse, Array []),
      (do_async_txnkv_zrange_by_score env False key slo lo_incl shi hi_incl with_scores reverse, Array []),
      (do_async_txnkv_zpop env False key from_min cnt, Array []), (do_async_txnkv_zrem env False key members, Integer 0),
      (do_async_txnkv_zremrange_by_rank env False key lo hi, Integer 0),
      (do_async_txnkv_zremrange_by_score env False key slo shi, Integer 0)}"
  shows "completes api data F env p w (\<lambda>reply m. reply = answer \<and> no_key env m key \<and>
    others_same (KEY_ENCODER env) key (data (cluster w)) m)"
  using assms(2)
proof (rule zset_repE)
  fix i assume z: "coll_rep env (data (cluster w)) key (encode_txnkv_zset_meta_value (KEY_ENCODER env) ttl v i) v (zset_data z) (card (dom z))"
    "zset_sized (zset_data z) (card (dom z))"
  let ?gone = "\<lambda>m. no_key env m key \<and> others_same (KEY_ENCODER env) key (data (cluster w)) m"
  note answer = zsets.expired_answer [OF z assms(3) ready_connected [OF assms(1)]]
  have frame: "completes api data F env (get_txn_client env (exec_in_txn env False q)) w (\<lambda>reply m. reply = fr \<and> ?gone m)"
    if "q = with_meta env DT_Zset key wt ab g" "g ttl v = zset_expire_then env key (Ret (Inr fr))" for q wt ab g fr
    by (rule completes_exec_frame [OF assms(1) answer [OF that]]) auto
  have idx: "completes api data F env (get_txn_client env (gen_next_meta_index env (\<lambda>idx.
      reply ok (exec_in_txn env False (q idx))))) w (\<lambda>reply m. reply = ok a \<and> ?gone m)"
    if "\<And>idx. q idx = with_meta env DT_Zset key wt ab (g idx)" "\<And>idx. g idx ttl v = zset_expire_then env key (Ret (Inr a))"
    for q wt ab g and a :: 'x and ok
    by (rule completes_exec_idx [OF assms(1,4) answer [OF that]]) auto
  note [simp] = assms(3) Return_def resp_defs Let_def
  from assms(5) consider
      "p = do_async_txnkv_zpop env False key from_min cnt" "answer = resp_array []"
    | "p = do_async_txnkv_zrem env False key members" "answer = resp_int 0"
    | "p = do_async_txnkv_zremrange_by_rank env False key lo hi" "answer = resp_int 0"
    | "p = do_async_txnkv_zremrange_by_score env False key slo shi" "answer = resp_int 0"
    | q wt ab g where "p = get_txn_client env (exec_in_txn env False q)" "q = with_meta env DT_Zset key wt ab g"
        "g ttl v = zset_expire_then env key (Ret (Inr answer))"
    by (elim insertE; clarsimp simp: do_async_txnkv_zcard_def do_async_txnkv_zcore_def do_async_txnkv_zrank_def
        do_async_txnkv_zcount_def do_async_txnkv_zrange_def do_async_txnkv_zrange_by_score_def zcard_body_def zscore_body_def
        zrank_body_def zcount_body_def zrange_body_def zrange_by_score_body_def)
  then show ?thesis
  proof cases
    case 1
    show ?thesis unfolding 1 do_async_txnkv_zpop_def by (rule idx, simp only: zpop_body_def, simp)
  next
    case 2
    show ?thesis unfolding 2 do_async_txnkv_zrem_def by (rule idx, simp only: zrem_body_def, simp)
  next
    case 3
    show ?thesis unfolding 3 do_async_txnkv_zremrange_by_rank_def by (rule idx, simp only: zremrange_by_rank_body_def, simp)
  next
    case 4
    show ?thesis unfolding 4 do_async_txnkv_zremrange_by_score_def by (rule idx, simp only: zremrange_by_score_body_def, simp)
  next
    case 5
    show ?thesis unfolding 5(1) by (rule frame [OF 5(2,3)])
  qed
qed

theorem zset_expired_witness:
  "completes mem_api mem_data {} env0 (do_async_txnkv_zcard env0 False [107]) (mem_world (pair_store 5))
     (\<lambda>reply m. reply = Integer 0 \<and> no_key env0 m [107])"
  by (rule completes_mono [OF zset_expired [OF mem_ready pair_store_rep [of 5]]]) (auto simp: key_is_expired_def)

end
