(* ===== verification/Keys.thy ===== *)
theory Keys
  imports Strings Lists Hashes Sets Zsets
begin

text \<open>
  The commands of \<^verbatim>\<open>src/tikv/string.rs\<close> for keys of every type: \<^verbatim>\<open>EXPIRE\<close> and its relatives, \<^verbatim>\<open>TTL\<close>, \<^verbatim>\<open>DEL\<close> and \<^verbatim>\<open>SCAN\<close>. They look at the
  type in the meta value and call the commands of the type.
\<close>

section \<open>Time to live\<close>

text \<open>\<^verbatim>\<open>timestamp == 0\<close> is \<^verbatim>\<open>PERSIST\<close>. The version is decoded before the type is looked at.\<close>

definition expire_body :: "env \<Rightarrow> bytes \<Rightarrow> u64 \<Rightarrow> i64 action" where
  "expire_body env key timestamp =
     (let enc = KEY_ENCODER env; ekey = encode_txnkv_string enc key in
      Lock (txn_get ekey (\<lambda>r.
        case r of
          Some meta_value \<Rightarrow>
            unwrap (decode_key_ttl meta_value) (\<lambda>ttl.
            if timestamp = 0 \<and> ttl = 0 then Return 0
            else
              unwrap (decode_key_type meta_value) (\<lambda>dt.
              unwrap (decode_key_version meta_value) (\<lambda>version.
              case dt of
                DT_String \<Rightarrow>
                  if key_is_expired env ttl then string_expire_then env key (Return 0)
                  else
                    unwrap (decode_key_string_slice meta_value) (\<lambda>value.
                    txn_put ekey (encode_txnkv_string_slice value timestamp) (Return 1))
              | DT_Hash \<Rightarrow>
                  if key_is_expired env ttl then hash_expire_then env key (Return 0)
                  else txn_put ekey (encode_txnkv_hash_meta_value enc timestamp version 0) (Return 1)
              | DT_List \<Rightarrow>
                  if key_is_expired env ttl then list_expire_then env key (Return 0)
                  else
                    unwrap (decode_key_list_meta meta_value) (\<lambda>(_, version, left, right).
                    txn_put ekey (encode_txnkv_list_meta_value timestamp version left right) (Return 1))
              | DT_Set \<Rightarrow>
                  if key_is_expired env ttl then set_expire_then env key (Return 0)
                  else txn_put ekey (encode_txnkv_set_meta_value enc timestamp version 0) (Return 1)
              | DT_Zset \<Rightarrow>
                  if key_is_expired env ttl then zset_expire_then env key (Return 0)
                  else txn_put ekey (encode_txnkv_zset_meta_value enc timestamp version 0) (Return 1)
              | DT_Null \<Rightarrow> Return 0)))
        | None \<Rightarrow> Return 0)))"

definition do_async_txnkv_expire :: "env \<Rightarrow> bool \<Rightarrow> bytes \<Rightarrow> u64 \<Rightarrow> Frame action" where
  "do_async_txnkv_expire env in_txn key timestamp =
     get_txn_client env (reply resp_int (exec_in_txn env in_txn (expire_body env key timestamp)))"

text \<open>The commands that remove an expired key of each type.\<close>

definition expire_typed :: "DataType \<Rightarrow> env \<Rightarrow> bytes \<Rightarrow> 'a action \<Rightarrow> 'a action" where
  "expire_typed dt env key p =
     (case dt of
        DT_String \<Rightarrow> string_expire_then env key p
      | DT_Hash \<Rightarrow> hash_expire_then env key p
      | DT_Set \<Rightarrow> set_expire_then env key p
      | DT_List \<Rightarrow> list_expire_then env key p
      | DT_Zset \<Rightarrow> zset_expire_then env key p
      | DT_Null \<Rightarrow> Unlock p)"

text \<open>\<^verbatim>\<open>ttl /= 1000\<close> on an \<^verbatim>\<open>i64\<close> rounds towards zero.\<close>

definition i64_div :: "i64 \<Rightarrow> i64 \<Rightarrow> i64" where
  "i64_div x y = word_of_int (sgn (sint x) * sgn (sint y) * (\<bar>sint x\<bar> div \<bar>sint y\<bar>))"

definition ttl_body :: "env \<Rightarrow> bytes \<Rightarrow> bool \<Rightarrow> Frame action" where
  "ttl_body env key is_millis =
     Lock (txn_get (encode_txnkv_string (KEY_ENCODER env) key) (\<lambda>r.
       case r of
         Some meta_value \<Rightarrow>
           unwrap (decode_key_type meta_value) (\<lambda>dt.
           unwrap (decode_key_ttl meta_value) (\<lambda>ttl.
           if key_is_expired env ttl then expire_typed dt env key (Return (resp_int (- 2)))
           else if ttl = 0 then Return (resp_int (- 1))
           else
             let ttl = ttl_from_timestamp env ttl in
             Return (resp_int (if is_millis then ttl else i64_div ttl 1000))))
       | None \<Rightarrow> Return (resp_int (- 2))))"

definition do_async_txnkv_ttl :: "env \<Rightarrow> bool \<Rightarrow> bytes \<Rightarrow> bool \<Rightarrow> Frame action" where
  "do_async_txnkv_ttl env in_txn key is_millis =
     get_txn_client env (exec_in_txn env in_txn (ttl_body env key is_millis))"

section \<open>Deletion\<close>

text \<open>The types are decoded first, for all keys.\<close>

primrec key_types :: "store \<Rightarrow> bytes list \<Rightarrow> DataType list option" where
  "key_types kv_map [] = Some []"
| "key_types kv_map (ekey # ekeys) =
     Option.bind (case kv_map ekey of Some v \<Rightarrow> decode_key_type v | None \<Rightarrow> Some DT_Null) (\<lambda>dt.
     map_option (\<lambda>dts. dt # dts) (key_types kv_map ekeys))"

definition del_typed :: "DataType \<Rightarrow> env \<Rightarrow> bytes \<Rightarrow> i64 action" where
  "del_typed dt env key =
     (case dt of
        DT_String \<Rightarrow> do_async_txnkv_string_del env True key
      | DT_Hash \<Rightarrow> do_async_txnkv_hash_del env True key
      | DT_List \<Rightarrow> do_async_txnkv_list_del env True key
      | DT_Set \<Rightarrow> do_async_txnkv_set_del env True key
      | DT_Zset \<Rightarrow> do_async_txnk_zset_del env True key
      | DT_Null \<Rightarrow> Return 0)"

fun del_loop :: "env \<Rightarrow> bytes list \<Rightarrow> DataType list \<Rightarrow> i64 \<Rightarrow> i64 action" where
  "del_loop env (key # keys) (dt # dts) resp =
     (if dt = DT_Null then del_loop env keys dts resp
      else call (del_typed dt env key) (\<lambda>_. del_loop env keys dts (resp + 1)))"
| "del_loop env keys dts resp = Return resp"

definition del_body :: "env \<Rightarrow> bytes list \<Rightarrow> i64 action" where
  "del_body env keys =
     (let ekeys = encode_txnkv_strings (KEY_ENCODER env) keys in
      Lock (txn_batch_get ekeys (\<lambda>pairs.
      Unlock (unwrap (key_types (collect_pairs pairs) ekeys) (\<lambda>dts. del_loop env keys dts 0)))))"

definition do_async_txnkv_del :: "env \<Rightarrow> bool \<Rightarrow> bytes list \<Rightarrow> Frame action" where
  "do_async_txnkv_del env in_txn keys =
     get_txn_client env (reply resp_int (exec_in_txn env in_txn (del_body env keys)))"

section \<open>Scanning the key space\<close>

text \<open>The variables of the loops of \<^verbatim>\<open>do_async_txnkv_scan\<close>.\<close>

record scan_state =
  scanned_keys :: "Frame list"
  retrieved_key_count :: nat
  next_key :: bytes
  left_bound :: bytes
  last_round_iter_count :: nat

text \<open>The inner loop, over the pairs of one round. \<open>is_match\<close> is the compiled regular expression.\<close>

fun scan_iter ::
  "env \<Rightarrow> (bytes \<Rightarrow> bool) \<Rightarrow> nat \<Rightarrow> kv_pair list \<Rightarrow> scan_state \<Rightarrow> (scan_state \<Rightarrow> 'a action) \<Rightarrow> 'a action" where
  "scan_iter env is_match cnt [] st f = f st"
| "scan_iter env is_match cnt (kv # kvs) st f =
     (if fst kv = left_bound st then scan_iter env is_match cnt kvs st f
      else
        let st1 = st\<lparr>left_bound := fst kv, last_round_iter_count := last_round_iter_count st + 1\<rparr> in
        unwrap (decode_key_userkey_from_metakey (fst kv)) (\<lambda>(userkey, is_meta_key).
        if \<not> is_meta_key then scan_iter env is_match cnt kvs st1 f
        else
          unwrap (decode_key_ttl (snd kv)) (\<lambda>ttl.
          (if key_is_expired env ttl
           then \<lambda>p. Unlock (call (do_async_txnkv_del env True [utf8_lossy userkey]) (\<lambda>_. Lock p)) else id) (
          let st2 = st1\<lparr>retrieved_key_count := retrieved_key_count st1 + 1,
                        scanned_keys := scanned_keys st1 @ (if is_match userkey then [resp_bulk userkey] else [])\<rparr>
          in if retrieved_key_count st1 = cnt - 1 then f (st2\<lparr>next_key := userkey\<rparr>)
             else scan_iter env is_match cnt kvs st2 f))))"

definition scan_reply :: "scan_state \<Rightarrow> Frame" where
  "scan_reply st = resp_array [resp_bulk (next_key st), resp_array (scanned_keys st)]"

text \<open>The outer loop. It moves the left bound to the right in every round but the last one; \<open>fuel\<close> bounds the rounds.\<close>

primrec scan_rounds :: "nat \<Rightarrow> env \<Rightarrow> (bytes \<Rightarrow> bool) \<Rightarrow> nat \<Rightarrow> scan_state \<Rightarrow> Frame action" where
  "scan_rounds 0 env is_match cnt st = Crash"
| "scan_rounds (Suc fuel) env is_match cnt st =
     (if retrieved_key_count st < cnt then
        if last_round_iter_count st = 0 then Return (scan_reply (st\<lparr>next_key := []\<rparr>))
        else
          txn_scan (Range (left_bound st) (encode_txnkv_keyspace_end (KEY_ENCODER env))) 256 (\<lambda>kvs.
          scan_iter env is_match cnt kvs (st\<lparr>last_round_iter_count := 0\<rparr>) (scan_rounds fuel env is_match cnt))
      else Return (scan_reply st))"

definition scan_start :: "env \<Rightarrow> bytes \<Rightarrow> scan_state" where
  "scan_start env start =
     \<lparr>scanned_keys = [], retrieved_key_count = 0, next_key = [], left_bound = encode_txnkv_string (KEY_ENCODER env) start,
      last_round_iter_count = 1\<rparr>"

definition scan_body :: "nat \<Rightarrow> env \<Rightarrow> (bytes \<Rightarrow> bool) \<Rightarrow> bytes \<Rightarrow> u32 \<Rightarrow> Frame action" where
  "scan_body fuel env is_match start cnt =
     Lock (scan_rounds fuel env is_match (unat cnt) (scan_start env start))"

text \<open>\<open>regex_new\<close> is \<^verbatim>\<open>Regex::new\<close> of the crate \<^verbatim>\<open>regex\<close>, with \<^verbatim>\<open>is_match\<close> applied to its result.\<close>

definition do_async_txnkv_scan ::
  "(bytes \<Rightarrow> (bytes \<Rightarrow> bool) option) \<Rightarrow> nat \<Rightarrow> env \<Rightarrow> bool \<Rightarrow> bytes \<Rightarrow> u32 \<Rightarrow> bytes \<Rightarrow> Frame action" where
  "do_async_txnkv_scan regex_new fuel env in_txn start cnt regex =
     get_txn_client env (unwrap (regex_new regex) (\<lambda>is_match.
       exec_in_txn env in_txn (scan_body fuel env is_match start cnt)))"

end
