(* ===== verification/Key_Properties.thy ===== *)
theory Key_Properties
  imports Keys String_Properties List_Ranges Hash_Properties Set_Properties Zset_Ranges
begin

text \<open>
  The commands for keys of every type. What they need of a type is the interface \<open>key_type\<close>, which the strings, the lists
  and the collections provide; the properties are proved over it and hold for all of them.
\<close>

section \<open>The interface of a type\<close>

text \<open>The same keys under a user key.\<close>

definition same_key :: "env \<Rightarrow> bytes \<Rightarrow> store \<Rightarrow> store \<Rightarrow> bool" where
  "same_key env key m m' \<longleftrightarrow> (\<forall>x. owned (KEY_ENCODER env) key x \<longrightarrow> m' x = m x)"

lemma others_same_key: "others_same (KEY_ENCODER env) key m m' \<Longrightarrow> key \<noteq> key' \<Longrightarrow> same_key env key' m m'"
  by (auto simp: others_same_def same_key_def dest: owned_unique)

text \<open>\<open>rep\<close> says that a key holds a value with a time to live. \<open>retimed\<close> is the meta value that the \<^verbatim>\<open>EXPIRE\<close> command writes in place of an
  old one.\<close>

locale key_type =
  fixes dt :: DataType
    and rep :: "env \<Rightarrow> store \<Rightarrow> bytes \<Rightarrow> u64 \<Rightarrow> 'x \<Rightarrow> bool"
    and del :: "env \<Rightarrow> bool \<Rightarrow> bytes \<Rightarrow> i64 action"
    and expire :: "env \<Rightarrow> bool \<Rightarrow> bytes \<Rightarrow> i64 action"
    and retimed :: "env \<Rightarrow> u64 \<Rightarrow> bytes \<Rightarrow> bytes option"
  assumes meta_law: "rep env m key ttl x \<Longrightarrow> \<exists>b v. m (mkey env key) = Some b \<and> decode_key_type b = Some dt \<and>
      decode_key_ttl b = Some ttl \<and> decode_key_version b = Some v"
    and same_law: "\<lbrakk>rep env m key ttl x; same_key env key m m'\<rbrakk> \<Longrightarrow> rep env m' key ttl x"
    and del_law: "\<lbrakk>rep env m key ttl x; TIKV_TXN_CLIENTS env\<rbrakk> \<Longrightarrow> body_spec F {False} (del env True key) m
      (\<lambda>r m'. (\<exists>n. r = Inr n) \<and> no_key env m' key \<and> others_same (KEY_ENCODER env) key m m')"
    and absent_law: "\<lbrakk>m (mkey env key) = None; TIKV_TXN_CLIENTS env\<rbrakk> \<Longrightarrow>
      body_spec F {False} (del env True key) m (\<lambda>r m'. (\<exists>n. r = Inr n) \<and> m' = m)"
    and expire_law: "\<lbrakk>rep env m key ttl x; key_is_expired env ttl; TIKV_TXN_CLIENTS env\<rbrakk> \<Longrightarrow>
      body_spec F {False} (expire env True key) m
      (\<lambda>r m'. (\<exists>n. r = Inr n) \<and> no_key env m' key \<and> others_same (KEY_ENCODER env) key m m')"
    and retime_law: "\<lbrakk>rep env m key ttl x; m (mkey env key) = Some b\<rbrakk> \<Longrightarrow>
      \<exists>b'. retimed env timestamp b = Some b' \<and> rep env (m(mkey env key \<mapsto> b')) key timestamp x"
begin

lemma wp_expire:
  assumes "rep env m key ttl x" "key_is_expired env ttl" "TIKV_TXN_CLIENTS env"
    and "\<And>m'. \<lbrakk>no_key env m' key; others_same (KEY_ENCODER env) key m m'\<rbrakk> \<Longrightarrow> wp F p Q (db, (sn, m', False) # ts)"
    and "\<And>e m'. e \<in> F \<Longrightarrow> Q (Done (Inl (TikvClient e))) (db, (sn, m', False) # ts)"
  shows "wp F (expire_then expire env key p) Q (db, (sn, m, True) # ts)"
proof -
  have "wp F (call (expire env True key) (\<lambda>_. p)) Q (db, (sn, m, False) # ts)"
    by (rule wp_call [OF expire_law [OF assms(1-3)]]) (use assms(4,5) in auto)
  then show ?thesis by (simp add: expire_then_def)
qed

end

section \<open>The types\<close>

text \<open>What the store knows of a user key, for the types that are counted collections.\<close>

lemma same_key_gc: "gc_ok (KEY_ENCODER env) m key live \<Longrightarrow> same_key env key m m' \<Longrightarrow> gc_ok (KEY_ENCODER env) m' key live"
  using versioned_owned by (auto simp: gc_ok_def same_key_def)

lemma same_key_simps:
  assumes "same_key env key m m'"
  shows "m' (mkey env key) = m (mkey env key)" "m' (dkey env key v t r) = m (dkey env key v t r)"
    "m' (lkey env key v i) = m (lkey env key v i)" "versioned (KEY_ENCODER env) key v y \<Longrightarrow> m' y = m y"
  using assms by (auto simp: same_key_def dkey_def enc_simps dest: versioned_owned)

lemma same_key_no_key: "no_key env m key \<Longrightarrow> same_key env key m m' \<Longrightarrow> no_key env m' key"
  by (auto simp: no_key_def same_key_simps elim: same_key_gc)

lemma same_key_coll:
  assumes "coll_rep env m key b v D n" "same_key env key m m'"
  shows "coll_rep env m' key b v D n"
  using assms same_key_gc by (auto simp: coll_rep_def same_key_simps(1,2) [OF assms(2)] elim: counted_cong)

lemma scoped_del:
  assumes "body_spec F H p m R" "TIKV_TXN_CLIENTS env" "\<And>r m'. R r m' \<Longrightarrow> R' r m'"
  shows "body_spec F {False} (get_txn_client env (exec_in_txn env True p)) m R'"
  using body_spec_mono [OF body_spec_scoped [OF assms(1)] assms(3)] assms(2)
  by (simp add: get_txn_client_def exec_in_txn_def)

definition string_rep :: "env \<Rightarrow> store \<Rightarrow> bytes \<Rightarrow> u64 \<Rightarrow> bytes \<Rightarrow> bool" where
  "string_rep env m key ttl s \<longleftrightarrow>
     m (mkey env key) = Some (encode_txnkv_string_value s ttl) \<and> gc_ok (KEY_ENCODER env) m key None"

lemma string_removed: "string_rep env m key ttl s \<Longrightarrow> no_key env (m(mkey env key := None)) key"
  by (auto simp: string_rep_def no_key_def gc_ok_def)

definition string_retimed :: "env \<Rightarrow> u64 \<Rightarrow> bytes \<Rightarrow> bytes option" where
  "string_retimed env timestamp b = map_option (\<lambda>value. encode_txnkv_string_slice value timestamp) (decode_key_string_slice b)"

interpretation strings: key_type DT_String string_rep do_async_txnkv_string_del do_async_txnkv_string_expire_if_needed string_retimed
proof
  fix env m key ttl s assume s: "string_rep env m key ttl s"
  then have meta: "m (mkey env key) = Some (encode_txnkv_string_value s ttl)" by (simp add: string_rep_def)
  then show "\<exists>b v. m (mkey env key) = Some b \<and> decode_key_type b = Some DT_String \<and> decode_key_ttl b = Some ttl \<and>
      decode_key_version b = Some v" by simp
  show "string_rep env m' key ttl s" if "same_key env key m m'" for m'
    using s that by (auto simp: string_rep_def same_key_simps elim: same_key_gc)
  assume conn: "TIKV_TXN_CLIENTS env"
  show "body_spec F {False} (do_async_txnkv_string_del env True key) m
      (\<lambda>r m'. (\<exists>n. r = Inr n) \<and> no_key env m' key \<and> others_same (KEY_ENCODER env) key m m')" for F
    unfolding do_async_txnkv_string_del_def
    by (rule scoped_del [where R = "\<lambda>r m'. r = Inr 1 \<and> m' = m(mkey env key := None)" and H = UNIV])
      (use meta conn string_removed [OF s] in \<open>auto simp: body_spec_def string_del_body_def Let_def wp_simps others_same_upd\<close>)
  show "body_spec F {False} (do_async_txnkv_string_expire_if_needed env True key) m
      (\<lambda>r m'. (\<exists>n. r = Inr n) \<and> no_key env m' key \<and> others_same (KEY_ENCODER env) key m m')" if "key_is_expired env ttl" for F
    by (rule body_spec_mono [OF string_expire_spec [where m = m, OF meta _ conn]])
      (use that string_removed [OF s] in \<open>auto simp: others_same_upd\<close>)
next
  fix env key F and m :: store assume "m (mkey env key) = None" "TIKV_TXN_CLIENTS env"
  then show "body_spec F {False} (do_async_txnkv_string_del env True key) m (\<lambda>r m'. (\<exists>n. r = Inr n) \<and> m' = m)"
    unfolding do_async_txnkv_string_del_def
    by (intro scoped_del [where H = UNIV]) (auto simp: body_spec_def string_del_body_def Let_def wp_simps)
next
  fix env m key ttl s b timestamp assume "string_rep env m key ttl s" "m (mkey env key) = Some b"
  then show "\<exists>b'. string_retimed env timestamp b = Some b' \<and> string_rep env (m(mkey env key \<mapsto> b')) key timestamp s"
    by (auto simp: string_rep_def string_retimed_def gc_ok_def)
qed

definition list_retimed :: "env \<Rightarrow> u64 \<Rightarrow> bytes \<Rightarrow> bytes option" where
  "list_retimed env timestamp b =
     map_option (\<lambda>(_, version, left, right). encode_txnkv_list_meta_value timestamp version left right) (decode_key_list_meta b)"

interpretation lists: key_type DT_List "\<lambda>env m key ttl xs. \<exists>v l. list_rep env m key ttl v l xs"
  do_async_txnkv_list_del do_async_txnkv_list_expire_if_needed list_retimed
proof
  fix env m key ttl xs assume "\<exists>v l. list_rep env m key ttl v l xs"
  then obtain v l where xs: "list_rep env m key ttl v l xs" by blast
  then have meta: "m (mkey env key) = Some (encode_txnkv_list_meta_value ttl v l (l + of_nat (length xs)))"
    by (simp add: list_rep_def)
  then show "\<exists>b v. m (mkey env key) = Some b \<and> decode_key_type b = Some DT_List \<and> decode_key_ttl b = Some ttl \<and>
      decode_key_version b = Some v" by simp
  show "\<exists>v l. list_rep env m' key ttl v l xs" if same: "same_key env key m m'" for m'
  proof -
    have "list_rep env m' key ttl v l xs"
      using xs same_key_gc [OF _ same] same_key_simps(4) [OF same]
      by (auto simp: list_rep_def list_cells_def list_frame_def same_key_simps(1,3) [OF same])
    then show ?thesis by blast
  qed
  assume conn: "TIKV_TXN_CLIENTS env"
  show "body_spec F {False} (do_async_txnkv_list_del env True key) m
      (\<lambda>r m'. (\<exists>n. r = Inr n) \<and> no_key env m' key \<and> others_same (KEY_ENCODER env) key m m')" for F
    unfolding do_async_txnkv_list_del_def by (rule scoped_del [OF list_del_body_rep [OF xs] conn]) auto
  show "body_spec F {False} (do_async_txnkv_list_expire_if_needed env True key) m
      (\<lambda>r m'. (\<exists>n. r = Inr n) \<and> no_key env m' key \<and> others_same (KEY_ENCODER env) key m m')" if "key_is_expired env ttl" for F
    unfolding do_async_txnkv_list_expire_if_needed_def
    by (rule scoped_del [OF list_expire_body_rep [OF xs] conn]) (use that in auto)
next
  fix env key F and m :: store assume "m (mkey env key) = None" "TIKV_TXN_CLIENTS env"
  then show "body_spec F {False} (do_async_txnkv_list_del env True key) m (\<lambda>r m'. (\<exists>n. r = Inr n) \<and> m' = m)"
    unfolding do_async_txnkv_list_del_def
    by (intro scoped_del [where H = UNIV]) (auto simp: body_spec_def list_del_body_def wp_simps)
next
  fix env m key ttl xs b timestamp assume "\<exists>v l. list_rep env m key ttl v l xs" and b: "m (mkey env key) = Some b"
  then obtain v l where xs: "list_rep env m key ttl v l xs" by blast
  let ?b = "encode_txnkv_list_meta_value timestamp v l (l + of_nat (length xs))"
  have "list_rep env (m(mkey env key \<mapsto> ?b)) key timestamp v l xs"
    using xs by (auto simp: list_rep_def list_cells_def list_frame_def gc_ok_def)
  then show "\<exists>b'. list_retimed env timestamp b = Some b' \<and> (\<exists>v l. list_rep env (m(mkey env key \<mapsto> b')) key timestamp v l xs)"
    using xs b by (auto simp: list_retimed_def list_rep_def)
qed

text \<open>The collections share their proofs.\<close>

definition coll_retimed :: "(KeyEncoder \<Rightarrow> u64 \<Rightarrow> u16 \<Rightarrow> u16 \<Rightarrow> bytes) \<Rightarrow> env \<Rightarrow> u64 \<Rightarrow> bytes \<Rightarrow> bytes option" where
  "coll_retimed meta_value env timestamp b =
     map_option (\<lambda>version. meta_value (KEY_ENCODER env) timestamp version 0) (decode_key_version b)"

locale collection_key = collection +
  fixes rep :: "env \<Rightarrow> store \<Rightarrow> bytes \<Rightarrow> u64 \<Rightarrow> u16 \<Rightarrow> 'x \<Rightarrow> bool"
    and del_body :: "env \<Rightarrow> bytes \<Rightarrow> i64 action"
  assumes rep_coll: "rep env m key ttl v x \<Longrightarrow> \<exists>i D n. coll_rep env m key (meta_value (KEY_ENCODER env) ttl v i) v D n \<and> sized D n \<and>
      (\<forall>m' ttl' i'. coll_rep env m' key (meta_value (KEY_ENCODER env) ttl' v i') v D n \<longrightarrow> rep env m' key ttl' v x)"
    and del_body_law: "\<lbrakk>rep env m key ttl v x; TIKV_TXN_CLIENTS env\<rbrakk> \<Longrightarrow> body_spec F UNIV (del_body env key) m
      (\<lambda>r m'. r = Inr 1 \<and> no_key env m' key \<and> others_same (KEY_ENCODER env) key m m')"
    and del_body_absent: "m (mkey env key) = None \<Longrightarrow> body_spec F UNIV (del_body env key) m (\<lambda>r m'. r = Inr 0 \<and> m' = m)"
    and decode_meta: "decode_key_version (meta_value enc ttl v i) = Some v" "decode_key_ttl (meta_value enc ttl v i) = Some ttl"

sublocale collection_key \<subseteq> keys: key_type dt "\<lambda>env m key ttl x. \<exists>v. rep env m key ttl v x"
  "\<lambda>env in_txn key. get_txn_client env (exec_in_txn env in_txn (del_body env key))" expire "coll_retimed meta_value"
proof
  fix env m key ttl x assume "\<exists>v. rep env m key ttl v x"
  then obtain v where x: "rep env m key ttl v x" by blast
  then obtain i D n where coll: "coll_rep env m key (meta_value (KEY_ENCODER env) ttl v i) v D n" "sized D n"
    and rep: "\<And>m' ttl' i'. coll_rep env m' key (meta_value (KEY_ENCODER env) ttl' v i') v D n \<Longrightarrow> rep env m' key ttl' v x"
    using rep_coll by blast
  show "\<exists>b v. m (mkey env key) = Some b \<and> decode_key_type b = Some dt \<and> decode_key_ttl b = Some ttl \<and> decode_key_version b = Some v"
    using coll(1) by (simp add: coll_rep_def decode_meta type_law)
  show "\<exists>v. rep env m' key ttl v x" if "same_key env key m m'" for m'
    using rep same_key_coll [OF coll(1) that] by blast
  assume conn: "TIKV_TXN_CLIENTS env"
  show "body_spec F {False} (get_txn_client env (exec_in_txn env True (del_body env key))) m
      (\<lambda>r m'. (\<exists>n. r = Inr n) \<and> no_key env m' key \<and> others_same (KEY_ENCODER env) key m m')" for F
    by (rule scoped_del [OF del_body_law [OF x conn] conn]) auto
  show "body_spec F {False} (expire env True key) m
      (\<lambda>r m'. (\<exists>n. r = Inr n) \<and> no_key env m' key \<and> others_same (KEY_ENCODER env) key m m')" if "key_is_expired env ttl" for F
    by (rule body_spec_mono [OF expire_law [OF coll that conn]]) auto
next
  fix env key F and m :: store assume "m (mkey env key) = None" and conn: "TIKV_TXN_CLIENTS env"
  then show "body_spec F {False} (get_txn_client env (exec_in_txn env True (del_body env key))) m (\<lambda>r m'. (\<exists>n. r = Inr n) \<and> m' = m)"
    by (intro scoped_del [OF del_body_absent [where m = m] conn]) auto
next
  fix env m key ttl x b timestamp assume "\<exists>v. rep env m key ttl v x" and b: "m (mkey env key) = Some b"
  then obtain v where "rep env m key ttl v x" by blast
  then obtain i D n where coll: "coll_rep env m key (meta_value (KEY_ENCODER env) ttl v i) v D n"
    and rep: "\<And>m' ttl' i'. coll_rep env m' key (meta_value (KEY_ENCODER env) ttl' v i') v D n \<Longrightarrow> rep env m' key ttl' v x"
    using rep_coll by blast
  have "decode_key_version b = Some v" using coll b by (simp add: coll_rep_def decode_meta)
  then show "\<exists>b'. coll_retimed meta_value env timestamp b = Some b' \<and> (\<exists>v. rep env (m(mkey env key \<mapsto> b')) key timestamp v x)"
    using rep [OF coll_rep_meta [OF coll]] by (auto simp: coll_retimed_def)
qed

interpretation hash_keys: collection_key DT_Hash encode_txnkv_hash_meta_value do_async_txnkv_hash_expire_if_needed hash_sized
  hash_rep hash_del_body
proof
  fix env m key ttl v h assume h: "hash_rep env m key ttl v h"
  from h obtain i where "coll_rep env m key (encode_txnkv_hash_meta_value (KEY_ENCODER env) ttl v i) v (hash_data h) (card (dom h))"
    "hash_sized (hash_data h) (card (dom h))" by (rule hash_repE)
  then show "\<exists>i D n. coll_rep env m key (encode_txnkv_hash_meta_value (KEY_ENCODER env) ttl v i) v D n \<and> hash_sized D n \<and>
      (\<forall>m' ttl' i'. coll_rep env m' key (encode_txnkv_hash_meta_value (KEY_ENCODER env) ttl' v i') v D n \<longrightarrow> hash_rep env m' key ttl' v h)"
    using h by (intro exI [of _ i] exI [of _ "hash_data h"] exI [of _ "card (dom h)"]) (auto simp: hash_rep_def)
qed (simp_all add: hash_del_spec, simp add: body_spec_def hash_del_body_def wp_simps)

interpretation set_keys: collection_key DT_Set encode_txnkv_set_meta_value do_async_txnkv_set_expire_if_needed set_sized
  set_rep set_del_body
proof
  fix env m key ttl v S assume S: "set_rep env m key ttl v S"
  from S obtain i where "coll_rep env m key (encode_txnkv_set_meta_value (KEY_ENCODER env) ttl v i) v (set_data S) (card S)"
    "set_sized (set_data S) (card S)" by (rule set_repE)
  then show "\<exists>i D n. coll_rep env m key (encode_txnkv_set_meta_value (KEY_ENCODER env) ttl v i) v D n \<and> set_sized D n \<and>
      (\<forall>m' ttl' i'. coll_rep env m' key (encode_txnkv_set_meta_value (KEY_ENCODER env) ttl' v i') v D n \<longrightarrow> set_rep env m' key ttl' v S)"
    using S by (intro exI [of _ i] exI [of _ "set_data S"] exI [of _ "card S"]) (auto simp: set_rep_def)
qed (simp_all add: set_del_spec, simp add: body_spec_def set_del_body_def wp_simps)

interpretation zset_keys: collection_key DT_Zset encode_txnkv_zset_meta_value do_async_txnkv_zset_expire_if_needed zset_sized
  zset_rep zset_del_body
proof
  fix env m key ttl v z assume z: "zset_rep env m key ttl v z"
  from z obtain i where "coll_rep env m key (encode_txnkv_zset_meta_value (KEY_ENCODER env) ttl v i) v (zset_data z) (card (dom z))"
    "zset_sized (zset_data z) (card (dom z))" by (rule zset_repE)
  then show "\<exists>i D n. coll_rep env m key (encode_txnkv_zset_meta_value (KEY_ENCODER env) ttl v i) v D n \<and> zset_sized D n \<and>
      (\<forall>m' ttl' i'. coll_rep env m' key (encode_txnkv_zset_meta_value (KEY_ENCODER env) ttl' v i') v D n \<longrightarrow> zset_rep env m' key ttl' v z)"
    using z by (intro exI [of _ i] exI [of _ "zset_data z"] exI [of _ "card (dom z)"]) (auto simp: zset_rep_def)
qed (simp_all add: zset_del_spec, simp add: body_spec_def zset_del_body_def wp_simps)

section \<open>Values of every type\<close>

datatype redis_value = StringV bytes | ListV "bytes list" | HashV "bytes \<rightharpoonup> bytes" | SetV "bytes set" | ZsetV zset

fun value_type :: "redis_value \<Rightarrow> DataType" where
  "value_type (StringV _) = DT_String"
| "value_type (ListV _) = DT_List"
| "value_type (HashV _) = DT_Hash"
| "value_type (SetV _) = DT_Set"
| "value_type (ZsetV _) = DT_Zset"

text \<open>The key holds the value, with the time to live.\<close>

fun holds :: "env \<Rightarrow> store \<Rightarrow> bytes \<Rightarrow> u64 \<Rightarrow> redis_value \<Rightarrow> bool" where
  "holds env m key ttl (StringV s) \<longleftrightarrow> string_rep env m key ttl s"
| "holds env m key ttl (ListV xs) \<longleftrightarrow> (\<exists>v l. list_rep env m key ttl v l xs)"
| "holds env m key ttl (HashV h) \<longleftrightarrow> (\<exists>v. hash_rep env m key ttl v h)"
| "holds env m key ttl (SetV S) \<longleftrightarrow> (\<exists>v. set_rep env m key ttl v S)"
| "holds env m key ttl (ZsetV z) \<longleftrightarrow> (\<exists>v. zset_rep env m key ttl v z)"

lemmas del_methods = do_async_txnkv_hash_del_def [abs_def] do_async_txnkv_set_del_def [abs_def] do_async_txnk_zset_del_def [abs_def]

text \<open>So the values of all types together are a type again.\<close>

lemmas meta_laws = strings.meta_law lists.meta_law hash_keys.keys.meta_law set_keys.keys.meta_law zset_keys.keys.meta_law
lemmas same_laws = strings.same_law lists.same_law hash_keys.keys.same_law set_keys.keys.same_law zset_keys.keys.same_law
lemmas del_laws = strings.del_law lists.del_law hash_keys.keys.del_law set_keys.keys.del_law zset_keys.keys.del_law
lemmas absent_laws = strings.absent_law lists.absent_law hash_keys.keys.absent_law set_keys.keys.absent_law zset_keys.keys.absent_law
lemmas retime_laws = strings.retime_law lists.retime_law hash_keys.keys.retime_law set_keys.keys.retime_law zset_keys.keys.retime_law

lemma holds_meta:
  "holds env m key ttl x \<Longrightarrow> \<exists>b v. m (mkey env key) = Some b \<and> decode_key_type b = Some (value_type x) \<and>
    decode_key_ttl b = Some ttl \<and> decode_key_version b = Some v"
  by (cases x) (simp_all only: holds.simps value_type.simps, (erule meta_laws)+)

lemma holds_same: "holds env m key ttl x \<Longrightarrow> same_key env key m m' \<Longrightarrow> holds env m' key ttl x"
  by (cases x) (simp_all only: holds.simps, (erule (1) same_laws)+)

lemma holds_del:
  "holds env m key ttl x \<Longrightarrow> TIKV_TXN_CLIENTS env \<Longrightarrow> body_spec F {False} (del_typed (value_type x) env key) m
    (\<lambda>r m'. (\<exists>n. r = Inr n) \<and> no_key env m' key \<and> others_same (KEY_ENCODER env) key m m')"
  by (cases x) (simp_all only: holds.simps value_type.simps del_typed_def del_methods DataType.case, (erule (1) del_laws)+)

lemma absent_del:
  "m (mkey env key) = None \<Longrightarrow> TIKV_TXN_CLIENTS env \<Longrightarrow>
    body_spec F {False} (del_typed (value_type x) env key) m (\<lambda>r m'. (\<exists>n. r = Inr n) \<and> m' = m)"
  by (cases x) (simp_all only: value_type.simps del_typed_def del_methods DataType.case, (erule (1) absent_laws)+)

lemmas expire_thens = string_expire_then_def list_expire_then_def expire_then_def

lemma wp_expire_typed:
  assumes "holds env m key ttl x" "key_is_expired env ttl" "TIKV_TXN_CLIENTS env"
    and "\<And>m'. \<lbrakk>no_key env m' key; others_same (KEY_ENCODER env) key m m'\<rbrakk> \<Longrightarrow> wp F p Q (db, (sn, m', False) # ts)"
    and "\<And>e m'. e \<in> F \<Longrightarrow> Q (Done (Inl (TikvClient e))) (db, (sn, m', False) # ts)"
  shows "wp F (expire_typed (value_type x) env key p) Q (db, (sn, m, True) # ts)"
  using strings.wp_expire [OF _ assms(2-5)] lists.wp_expire [OF _ assms(2-5)] hash_keys.keys.wp_expire [OF _ assms(2-5)]
    set_keys.keys.wp_expire [OF _ assms(2-5)] zset_keys.keys.wp_expire [OF _ assms(2-5)] assms(1)
  by (cases x) (simp_all add: expire_typed_def expire_thens)

text \<open>The meta value that \<^verbatim>\<open>EXPIRE\<close> writes.\<close>

definition retimed_value :: "DataType \<Rightarrow> env \<Rightarrow> u64 \<Rightarrow> bytes \<Rightarrow> bytes option" where
  "retimed_value dt = (case dt of DT_String \<Rightarrow> string_retimed | DT_List \<Rightarrow> list_retimed
     | DT_Hash \<Rightarrow> coll_retimed encode_txnkv_hash_meta_value | DT_Set \<Rightarrow> coll_retimed encode_txnkv_set_meta_value
     | DT_Zset \<Rightarrow> coll_retimed encode_txnkv_zset_meta_value | DT_Null \<Rightarrow> (\<lambda>_ _ _. None))"

lemma holds_retime:
  "holds env m key ttl x \<Longrightarrow> m (mkey env key) = Some b \<Longrightarrow>
    \<exists>b'. retimed_value (value_type x) env timestamp b = Some b' \<and> holds env (m(mkey env key \<mapsto> b')) key timestamp x"
  by (cases x) (simp_all only: holds.simps value_type.simps retimed_value_def DataType.case, (erule (1) retime_laws)+)

lemma expire_body_typed:
  assumes "m (mkey env key) = Some b" "decode_key_type b = Some (value_type x)" "decode_key_ttl b = Some ttl"
    "decode_key_version b = Some v" "\<not> (timestamp = 0 \<and> ttl = 0)"
  shows "wp F (expire_body env key timestamp) Q (db, (sn, m, False) # ts) \<longleftrightarrow>
    (\<forall>e\<in>F. Q (Done (Inl (TikvClient e))) (db, (sn, m, True) # ts)) \<and>
    wp F (if key_is_expired env ttl then expire_typed (value_type x) env key (Return 0)
      else unwrap (retimed_value (value_type x) env timestamp b) (\<lambda>b'. txn_put (mkey env key) b' (Return 1)))
      Q (db, (sn, m, True) # ts)"
  using assms
  by (cases x) (auto simp: expire_body_def expire_typed_def retimed_value_def string_retimed_def list_retimed_def coll_retimed_def
      Let_def wp_simps split: option.splits)

lemma expire_spec:
  assumes x: "holds env m key ttl x" and conn: "TIKV_TXN_CLIENTS env"
  shows "body_spec F UNIV (expire_body env key timestamp) m
    (\<lambda>r m'. if timestamp = 0 \<and> ttl = 0 then r = Inr 0 \<and> m' = m
       else r = Inr (if key_is_expired env ttl then 0 else 1) \<and>
         (if key_is_expired env ttl then no_key env m' key else holds env m' key timestamp x) \<and>
         others_same (KEY_ENCODER env) key m m')" (is "body_spec F UNIV _ m ?R")
proof (rule body_specI)
  fix db sn ts
  obtain b v where b: "m (mkey env key) = Some b" "decode_key_type b = Some (value_type x)" "decode_key_ttl b = Some ttl"
    "decode_key_version b = Some v" using holds_meta [OF x] by blast
  show "wp F (expire_body env key timestamp) (body_post F db sn ts UNIV ?R) (db, (sn, m, False) # ts)"
  proof (cases "timestamp = 0 \<and> ttl = 0")
    case True
    then show ?thesis using b by (auto simp: expire_body_def Let_def wp_simps)
  next
    case False
    obtain b' where "retimed_value (value_type x) env timestamp b = Some b'" "holds env (m(mkey env key \<mapsto> b')) key timestamp x"
      using holds_retime [OF x b(1)] by blast
    then show ?thesis unfolding expire_body_typed [where m = m, OF b False] using False
      by (auto simp: wp_simps others_same_upd intro!: wp_expire_typed [OF x _ conn])
  qed
qed

lemma ttl_spec:
  assumes x: "holds env m key ttl x" and conn: "TIKV_TXN_CLIENTS env"
  shows "body_spec F UNIV (ttl_body env key is_millis) m
    (\<lambda>r m'. if key_is_expired env ttl then r = Inr (Integer (- 2)) \<and> no_key env m' key \<and> others_same (KEY_ENCODER env) key m m'
       else r = Inr (Integer (if ttl = 0 then - 1 else
           let left = ttl - now_timestamp_in_millis env in if is_millis then left else i64_div left 1000)) \<and> m' = m)"
    (is "body_spec F UNIV _ m ?R")
proof (rule body_specI)
  fix db sn ts
  obtain b v where b: "m (mkey env key) = Some b" "decode_key_type b = Some (value_type x)" "decode_key_ttl b = Some ttl"
    using holds_meta [OF x] by blast
  show "wp F (ttl_body env key is_millis) (body_post F db sn ts UNIV ?R) (db, (sn, m, False) # ts)"
    using b by (auto simp: ttl_body_def wp_simps resp_int_def ttl_from_timestamp_def key_is_expired_def Let_def word_gt_0
        intro!: wp_expire_typed [OF x _ conn])
qed

section \<open>Deletion\<close>

text \<open>The key holds a value, or nothing.\<close>

definition known :: "env \<Rightarrow> store \<Rightarrow> bytes \<Rightarrow> bool" where
  "known env m key \<longleftrightarrow> no_key env m key \<or> (\<exists>ttl x. holds env m key ttl x)"

lemma known_same: "known env m key \<Longrightarrow> same_key env key m m' \<Longrightarrow> known env m' key"
  using same_key_no_key holds_same unfolding known_def by blast

text \<open>The type that \<^verbatim>\<open>DEL\<close> finds for a key.\<close>

definition stored_type :: "env \<Rightarrow> store \<Rightarrow> bytes \<Rightarrow> DataType" where
  "stored_type env m key = (case m (mkey env key) of None \<Rightarrow> DT_Null | Some b \<Rightarrow> the (decode_key_type b))"

lemma stored_types:
  assumes "\<And>key. key \<in> set keys \<Longrightarrow> known env m key \<and> kv_map (mkey env key) = m (mkey env key)"
  shows "key_types kv_map (map (mkey env) keys) = Some (map (stored_type env m) keys)"
  using assms
proof (induction keys)
  case (Cons key keys)
  then have "known env m key" "kv_map (mkey env key) = m (mkey env key)" by auto
  then have "(case kv_map (mkey env key) of Some v \<Rightarrow> decode_key_type v | None \<Rightarrow> Some DT_Null) = Some (stored_type env m key)"
    by (auto simp: known_def no_key_def stored_type_def dest!: holds_meta)
  with Cons show ?case by simp
qed simp

text \<open>Nothing but keys of the given user keys changed.\<close>

definition only_keys :: "env \<Rightarrow> bytes set \<Rightarrow> store \<Rightarrow> store \<Rightarrow> bool" where
  "only_keys env K m m' \<longleftrightarrow> (\<forall>x. (\<forall>key\<in>K. \<not> owned (KEY_ENCODER env) key x) \<longrightarrow> m' x = m x)"

lemma only_keys_step: "others_same (KEY_ENCODER env) key m m' \<Longrightarrow> only_keys env K m' m'' \<Longrightarrow> only_keys env (insert key K) m m''"
  by (auto simp: only_keys_def others_same_def)

lemma only_keys_more: "only_keys env K m m' \<Longrightarrow> only_keys env (insert key K) m m'"
  by (auto simp: only_keys_def)

text \<open>A key that was deleted before stays deleted.\<close>

lemma wp_del_loop:
  assumes conn: "TIKV_TXN_CLIENTS env" and "list_all (known env m0) keys"
    and "\<And>key. key \<in> set keys \<Longrightarrow> same_key env key m0 m \<or> no_key env m key"
    and "\<And>key. key \<in> K \<Longrightarrow> no_key env m key"
    and Q: "\<And>m'. \<lbrakk>\<And>key. key \<in> K \<union> set keys \<Longrightarrow> no_key env m' key; only_keys env (set keys) m m'\<rbrakk> \<Longrightarrow>
      Q (Done (Inr (resp + of_nat (length (filter (\<lambda>key. m0 (mkey env key) \<noteq> None) keys))))) (db, (sn, m', False) # ts)"
    and err: "\<And>e m'. e \<in> F \<Longrightarrow> Q (Done (Inl (TikvClient e))) (db, (sn, m', False) # ts)"
  shows "wp F (del_loop env keys (map (stored_type env m0) keys) resp) Q (db, (sn, m, False) # ts)"
  using assms(2-4) Q
proof (induction keys arbitrary: m resp K)
  case Nil
  then show ?case using Nil.prems(4) [of m] by (simp add: wp_simps only_keys_def)
next
  case (Cons key keys)
  have step: "wp F (del_loop env keys (map (stored_type env m0) keys) (resp + (if m0 (mkey env key) = None then 0 else 1))) Q
      (db, (sn, m', False) # ts)"
    if m': "no_key env m' key" "others_same (KEY_ENCODER env) key m m'" for m'
  proof (rule Cons.IH [where K = "insert key K"])
    show "same_key env key' m0 m' \<or> no_key env m' key'" if "key' \<in> set keys" for key'
      using m' others_same_key [OF m'(2), of key'] Cons.prems(2) [of key'] that same_key_no_key
      by (cases "key' = key") (auto simp: same_key_def)
    show "no_key env m' key'" if "key' \<in> insert key K" for key'
      using that m' others_same_key [OF m'(2), of key'] Cons.prems(3) [of key'] same_key_no_key by (cases "key' = key") auto
    fix m'' assume "\<And>key'. key' \<in> insert key K \<union> set keys \<Longrightarrow> no_key env m'' key'" "only_keys env (set keys) m' m''"
    then show "Q (Done (Inr (resp + (if m0 (mkey env key) = None then 0 else 1) +
        of_nat (length (filter (\<lambda>key. m0 (mkey env key) \<noteq> None) keys))))) (db, (sn, m'', False) # ts)"
      using Cons.prems(4) [of m''] only_keys_step [OF m'(2)] by (auto simp: ac_simps)
  qed (use Cons.prems(1) in auto)
  have known: "known env m0 key" using Cons.prems(1) by simp
  show ?case
  proof (cases "m0 (mkey env key)")
    case None
    have "no_key env m0 key" using known None by (auto simp: known_def dest: holds_meta)
    then have "no_key env m key" using Cons.prems(2) [of key] same_key_no_key by auto
    then have "wp F (del_loop env keys (map (stored_type env m0) keys) resp) Q (db, (sn, m, False) # ts)"
      using step [of m] None by simp
    then show ?thesis using None by (simp add: stored_type_def [of env m0 key])
  next
    case (Some b)
    then obtain ttl x where x: "holds env m0 key ttl x" using known by (auto simp: known_def no_key_def)
    then have type: "stored_type env m0 key = value_type x" by (auto simp: stored_type_def dest!: holds_meta)
    have "wp F (call (del_typed (value_type x) env key) (\<lambda>_. del_loop env keys (map (stored_type env m0) keys) (resp + 1))) Q
        (db, (sn, m, False) # ts)"
    proof (cases "no_key env m key")
      case True
      then show ?thesis using step [of m] Some err
        by (intro wp_call [OF absent_del [where m = m, OF _ conn]]) (auto simp: no_key_def)
    next
      case False
      then have "holds env m key ttl x" using Cons.prems(2) [of key] holds_same [OF x] by auto
      then show ?thesis using step Some err by (intro wp_call [OF holds_del [OF _ conn]]) auto
    qed
    moreover have "value_type x \<noteq> DT_Null" by (cases x) simp_all
    ultimately show ?thesis using type by simp
  qed
qed

lemma del_spec:
  assumes conn: "TIKV_TXN_CLIENTS env" and "list_all (known env m) keys"
  shows "body_spec F UNIV (del_body env keys) m
    (\<lambda>r m'. r = Inr (of_nat (length (filter (\<lambda>key. m (mkey env key) \<noteq> None) keys))) \<and>
       (\<forall>key\<in>set keys. no_key env m' key) \<and> only_keys env (set keys) m m')" (is "body_spec F UNIV _ m ?R")
proof (rule body_specI)
  fix db sn ts
  have loop: "wp F (del_loop env keys (map (stored_type env m) keys) 0) (body_post F db sn ts UNIV ?R) (db, (sn, m, False) # ts)"
    by (rule wp_del_loop [where K = "{}", OF assms]) (auto simp: wp_simps same_key_def)
  have "key_types (collect_pairs pairs) (map (mkey env) keys) = Some (map (stored_type env m) keys)"
    if "batch_answer m (map (mkey env) keys) pairs" for pairs
    using assms(2) collect_batch [OF that] by (intro stored_types) (auto simp: list_all_iff)
  then show "wp F (del_body env keys) (body_post F db sn ts UNIV ?R) (db, (sn, m, False) # ts)"
    using loop by (simp add: del_body_def Let_def wp_simps)
qed

section \<open>Scanning\<close>

lemma decode_userkey: "decode_key_userkey_from_metakey (ukp enc key @ t # s) = Some (key, t = 109 \<and> s = [])"
  by (simp add: decode_key_userkey_from_metakey_def ukp_def instance_id_slice_def slice_defs layout_defs nth_append)

text \<open>The keys of user keys, and what \<^verbatim>\<open>SCAN\<close> needs of the store: keys between the bounds are keys of user keys, and the meta values
  have a time to live that is not over.\<close>

definition scannable :: "env \<Rightarrow> store \<Rightarrow> bool" where
  "scannable env m \<longleftrightarrow>
     (\<forall>k b. m k = Some b \<and> ukp (KEY_ENCODER env) [] \<le> k \<and> k < encode_txnkv_keyspace_end (KEY_ENCODER env) \<longrightarrow>
        (\<exists>key t s. k = ukp (KEY_ENCODER env) key @ t # s \<and>
           (k = mkey env key \<longrightarrow> (\<exists>ttl. decode_key_ttl b = Some ttl \<and> \<not> key_is_expired env ttl))))"

text \<open>The user key of a meta key.\<close>

definition meta_user :: "bytes \<Rightarrow> bytes option" where
  "meta_user k = (case decode_key_userkey_from_metakey k of Some (key, is_meta_key) \<Rightarrow> if is_meta_key then Some key else None | None \<Rightarrow> None)"

definition row_ok :: "env \<Rightarrow> kv_pair \<Rightarrow> bool" where
  "row_ok env kv \<longleftrightarrow> decode_key_userkey_from_metakey (fst kv) \<noteq> None \<and>
     (meta_user (fst kv) \<noteq> None \<longrightarrow> (\<exists>ttl. decode_key_ttl (snd kv) = Some ttl \<and> \<not> key_is_expired env ttl))"

definition row_users :: "kv_pair list \<Rightarrow> bytes list" where
  "row_users rows = List.map_filter (meta_user \<circ> fst) rows"

lemma row_users_simps [simp]:
  "row_users [] = []"
  "row_users (kv # rows) = (case meta_user (fst kv) of None \<Rightarrow> row_users rows | Some key \<Rightarrow> key # row_users rows)"
  "row_users (rows @ rows') = row_users rows @ row_users rows'"
  by (simp_all add: row_users_def List.map_filter_def split: option.splits)

text \<open>One round over rows that all lie after the left bound: either it finds as many keys as are still wanted, or it goes over all of
  them.\<close>

definition scan_found :: "(bytes \<Rightarrow> bool) \<Rightarrow> nat \<Rightarrow> bytes list \<Rightarrow> scan_state \<Rightarrow> scan_state \<Rightarrow> bool" where
  "scan_found is_match cnt users st st' \<longleftrightarrow>
     retrieved_key_count st' = cnt \<and> next_key st' = users ! (cnt - retrieved_key_count st - 1) \<and>
     scanned_keys st' = scanned_keys st @ map Bulk (filter is_match (take (cnt - retrieved_key_count st) users))"

definition scan_passed :: "(bytes \<Rightarrow> bool) \<Rightarrow> kv_pair list \<Rightarrow> scan_state \<Rightarrow> scan_state" where
  "scan_passed is_match rows st =
     \<lparr>scanned_keys = scanned_keys st @ map Bulk (filter is_match (row_users rows)),
      retrieved_key_count = retrieved_key_count st + length (row_users rows), next_key = next_key st,
      left_bound = (if rows = [] then left_bound st else fst (last rows)),
      last_round_iter_count = last_round_iter_count st + length rows\<rparr>"

lemma scan_iter_rows:
  assumes "list_all (row_ok env) rows" "sorted_wrt (<) (left_bound st # map fst rows)" "retrieved_key_count st < cnt"
  shows "\<exists>st'. scan_iter env is_match cnt rows st f = f st' \<and>
    (if cnt - retrieved_key_count st \<le> length (row_users rows) then scan_found is_match cnt (row_users rows) st st'
     else st' = scan_passed is_match rows st)"
  using assms
proof (induction rows arbitrary: st)
  case Nil
  then show ?case by (cases st) (auto simp: scan_passed_def)
next
  case (Cons kv rows)
  let ?st1 = "st\<lparr>left_bound := fst kv, last_round_iter_count := last_round_iter_count st + 1\<rparr>"
  have new: "fst kv \<noteq> left_bound st" using Cons.prems(2) by auto
  have rows: "list_all (row_ok env) rows" "sorted_wrt (<) (fst kv # map fst rows)" using Cons.prems by auto
  obtain key meta where key: "decode_key_userkey_from_metakey (fst kv) = Some (key, meta)"
    using Cons.prems(1) by (auto simp: row_ok_def)
  show ?case
  proof (cases meta)
    case False
    then have user: "meta_user (fst kv) = None" using key by (simp add: meta_user_def)
    have passed: "scan_passed is_match (kv # rows) st = scan_passed is_match rows ?st1"
      and found: "scan_found is_match cnt (row_users (kv # rows)) st = scan_found is_match cnt (row_users rows) ?st1"
      and count: "length (row_users (kv # rows)) = length (row_users rows)"
      using user by (simp_all add: scan_passed_def scan_found_def fun_eq_iff)
    have iter: "scan_iter env is_match cnt (kv # rows) st f = scan_iter env is_match cnt rows ?st1 f"
      using new key False by (simp add: unwrap_def Let_def)
    show ?thesis unfolding iter passed found count using Cons.IH [of ?st1] Cons.prems(3) rows by simp
  next
    case True
    then have user: "meta_user (fst kv) = Some key" using key by (simp add: meta_user_def)
    then obtain ttl where ttl: "decode_key_ttl (snd kv) = Some ttl" "\<not> key_is_expired env ttl"
      using Cons.prems(1) by (auto simp: row_ok_def)
    let ?st2 = "?st1\<lparr>retrieved_key_count := retrieved_key_count st + 1,
      scanned_keys := scanned_keys st @ (if is_match key then [Bulk key] else [])\<rparr>"
    have iter: "scan_iter env is_match cnt (kv # rows) st f =
        (if retrieved_key_count st = cnt - 1 then f (?st2\<lparr>next_key := key\<rparr>) else scan_iter env is_match cnt rows ?st2 f)"
      using new key True ttl by (simp add: unwrap_def Let_def resp_bulk_def)
    show ?thesis
    proof (cases "retrieved_key_count st = cnt - 1")
      case True
      then have "cnt - retrieved_key_count st = 1" using Cons.prems(3) by simp
      then show ?thesis using True user Cons.prems(3) unfolding iter by (auto simp: scan_found_def)
    next
      case False
      then have more: "retrieved_key_count ?st2 < cnt" and rest: "cnt - retrieved_key_count st = Suc (cnt - retrieved_key_count ?st2)"
        using Cons.prems(3) by auto
      have passed: "scan_passed is_match (kv # rows) st = scan_passed is_match rows ?st2" using user by (simp add: scan_passed_def)
      have found: "scan_found is_match cnt (row_users (kv # rows)) st = scan_found is_match cnt (row_users rows) ?st2"
        using user more by (auto simp: scan_found_def rest nth_Cons' fun_eq_iff)
      have count: "Suc n \<le> length (row_users (kv # rows)) \<longleftrightarrow> n \<le> length (row_users rows)" for n using user by simp
      show ?thesis unfolding iter if_not_P [OF False] passed found rest count using Cons.IH [of ?st2] more rows by simp
    qed
  qed
qed

text \<open>The rows between a key and the end of the key space.\<close>

definition rows_after :: "env \<Rightarrow> store \<Rightarrow> bytes \<Rightarrow> kv_pair list" where
  "rows_after env m lb =
     map (\<lambda>k. (k, the (m k))) (sorted_list_of_set {k \<in> dom m. lb < k \<and> k < encode_txnkv_keyspace_end (KEY_ENCODER env)})"

lemma sorted_list_of_set_from:
  assumes "finite A"
  shows "sorted_list_of_set {k \<in> A. lb \<le> k} = (if lb \<in> A then [lb] else []) @ sorted_list_of_set {k \<in> A. (lb :: 'a :: linorder) < k}"
proof (rule strict_sorted_equal [OF _ strict_sorted_list_of_set])
  show "sorted_wrt (<) ((if lb \<in> A then [lb] else []) @ sorted_list_of_set {k \<in> A. lb < k})"
    using assms by (auto simp: sorted_wrt_append)
qed (use assms in \<open>auto simp: le_less\<close>)

lemma drop_sorted:
  assumes "sorted_wrt (<) L" "take j L \<noteq> []"
  shows "{k \<in> set L. last (take j L) < (k :: 'a :: linorder)} = set (drop j L)"
proof -
  from assms(1) have "sorted_wrt (<) (take j L @ drop j L)" by (simp only: append_take_drop_id)
  then have parts: "sorted_wrt (<) (take j L)" "\<And>x y. x \<in> set (take j L) \<Longrightarrow> y \<in> set (drop j L) \<Longrightarrow> x < y"
    unfolding sorted_wrt_append by auto
  have "x \<le> last (take j L)" if "x \<in> set (take j L)" for x
  proof -
    from that obtain i where "i < length (take j L)" "x = take j L ! i" unfolding in_set_conv_nth by blast
    moreover have "i \<le> length (take j L) - 1" "length (take j L) - 1 < length (take j L)" using calculation(1) by linarith+
    ultimately show ?thesis using sorted_nth_mono [OF strict_sorted_imp_sorted [OF parts(1)]] last_conv_nth [OF assms(2)] by metis
  qed
  moreover have "last (take j L) \<in> set (take j L)" using assms(2) by (rule last_in_set)
  moreover have "set L = set (take j L) \<union> set (drop j L)" by (metis append_take_drop_id set_append)
  ultimately show ?thesis using parts(2) by (auto dest: leD)
qed

lemma round_scan:
  assumes "finite (dom m)"
  shows "\<exists>pre. scan_store m False (Range lb (encode_txnkv_keyspace_end (KEY_ENCODER env))) 256 = pre @ take (256 - length pre) (rows_after env m lb) \<and>
    (pre = [] \<or> (\<exists>b. pre = [(lb, b)]))"
proof -
  let ?e = "encode_txnkv_keyspace_end (KEY_ENCODER env)"
  let ?A = "{k \<in> dom m. k < ?e}"
  have "{k \<in> dom m. in_range (Range lb ?e) k} = {k \<in> ?A. lb \<le> k}" "{k \<in> dom m. lb < k \<and> k < ?e} = {k \<in> ?A. lb < k}"
    by (auto simp: in_range.simps)
  then have "range_keys m (Range lb ?e) = (if lb \<in> ?A then [lb] else []) @ map fst (rows_after env m lb)"
    using sorted_list_of_set_from [of ?A lb] assms by (simp add: range_keys_def rows_after_def comp_def)
  moreover have "map ((\<lambda>k. (k, the (m k))) \<circ> fst) (rows_after env m lb) = rows_after env m lb"
    by (simp add: rows_after_def comp_def)
  ultimately show ?thesis
    by (intro exI [of _ "if lb \<in> ?A then [(lb, the (m lb))] else []"]) (simp add: scan_store_def take_map [symmetric] take_Cons')
qed

lemma rows_after_drop:
  assumes "finite (dom m)" "take j (rows_after env m lb) \<noteq> []"
  shows "rows_after env m (fst (last (take j (rows_after env m lb)))) = drop j (rows_after env m lb)"
proof -
  let ?e = "encode_txnkv_keyspace_end (KEY_ENCODER env)"
  let ?L = "sorted_list_of_set {k \<in> dom m. lb < k \<and> k < ?e}"
  have take: "take j ?L \<noteq> []" using assms(2) by (simp add: rows_after_def take_map)
  then have last: "fst (last (take j (rows_after env m lb))) = last (take j ?L)" by (simp add: rows_after_def take_map last_map)
  have lb: "lb < last (take j ?L)" using last_in_set [OF take] set_take_subset [of j ?L] assms(1) by auto
  have "{k \<in> dom m. last (take j ?L) < k \<and> k < ?e} = {k \<in> set ?L. last (take j ?L) < k}" using assms(1) lb by auto
  also have "\<dots> = set (drop j ?L)" using strict_sorted_list_of_set take by (rule drop_sorted)
  finally have "sorted_list_of_set {k \<in> dom m. last (take j ?L) < k \<and> k < ?e} = drop j ?L"
    by (intro strict_sorted_equal [OF _ strict_sorted_list_of_set]) (simp_all add: sorted_wrt_drop)
  then show ?thesis unfolding last by (simp add: rows_after_def drop_map)
qed

lemma rows_after_sorted: "finite (dom m) \<Longrightarrow> sorted_wrt (<) (lb # map fst (rows_after env m lb))"
  by (simp add: rows_after_def comp_def)

text \<open>The answer when the wanted keys are the first ones of a list.\<close>

definition scan_answer :: "(bytes \<Rightarrow> bool) \<Rightarrow> nat \<Rightarrow> bytes list \<Rightarrow> Frame list \<Rightarrow> Frame" where
  "scan_answer is_match n users keys =
     Array [Bulk (if n \<le> length users then users ! (n - 1) else []), Array (keys @ map Bulk (filter is_match (take n users)))]"

lemma scan_answer_later:
  "length users < n \<Longrightarrow> scan_answer is_match n (users @ users') keys =
     scan_answer is_match (n - length users) users' (keys @ map Bulk (filter is_match users))"
  by (auto simp: scan_answer_def nth_append)

lemma scan_answer_found:
  assumes "scan_found is_match cnt users st st'" "retrieved_key_count st < cnt" "cnt - retrieved_key_count st \<le> length users"
  shows "scan_reply st' = scan_answer is_match (cnt - retrieved_key_count st) (users @ users') (scanned_keys st)"
  using assms by (auto simp: scan_found_def scan_reply_def scan_answer_def resp_defs nth_append)

lemma scan_iter_skip:
  assumes "pre = [] \<or> (\<exists>b. pre = [(left_bound st, b)])"
  shows "scan_iter env is_match cnt (pre @ rows) st f = scan_iter env is_match cnt rows st f"
  using assms by auto

lemma wp_scan_rounds:
  assumes "list_all (row_ok env) (rows_after env m (left_bound st))" "retrieved_key_count st < cnt" "last_round_iter_count st \<noteq> 0"
    and "length (rows_after env m (left_bound st)) + 2 \<le> fuel"
    and "Q (Done (Inr (scan_answer is_match (cnt - retrieved_key_count st) (row_users (rows_after env m (left_bound st))) (scanned_keys st))))
      (db, (sn, m, True) # ts)"
    and err: "\<And>e. e \<in> F \<Longrightarrow> Q (Done (Inl (TikvClient e))) (db, (sn, m, True) # ts)"
  shows "wp F (scan_rounds fuel env is_match cnt st) Q (db, (sn, m, True) # ts)"
  using assms(1-5)
proof (induction fuel arbitrary: st)
  case (Suc fuel)
  let ?rows = "rows_after env m (left_bound st)" and ?st = "st\<lparr>last_round_iter_count := 0\<rparr>"
  have "wp F (scan_iter env is_match cnt (scan_store m False (Range (left_bound st) (encode_txnkv_keyspace_end (KEY_ENCODER env))) 256)
      ?st (scan_rounds fuel env is_match cnt)) Q (db, (sn, m, True) # ts)" if fin: "finite (dom m)"
  proof -
    obtain pre where pre: "scan_store m False (Range (left_bound st) (encode_txnkv_keyspace_end (KEY_ENCODER env))) 256 =
        pre @ take (256 - length pre) ?rows" "pre = [] \<or> (\<exists>b. pre = [(left_bound ?st, b)])"
      using round_scan [OF fin] by force
    define j where "j = 256 - length pre"
    have j: "0 < j" using pre(2) by (auto simp: j_def)
    define chunk where "chunk = take j ?rows"
    have rows: "?rows = chunk @ drop j ?rows" by (simp add: chunk_def)
    have users: "row_users ?rows = row_users chunk @ row_users (drop j ?rows)" by (subst rows) simp
    have "list_all (row_ok env) chunk" "sorted_wrt (<) (left_bound ?st # map fst chunk)"
      using Suc.prems(1) sorted_wrt_take [OF rows_after_sorted [OF fin, of "left_bound st" env], of "Suc j"]
      by (auto simp: chunk_def list_all_iff take_map dest: in_set_takeD)
    then obtain st' where st': "scan_iter env is_match cnt chunk ?st (scan_rounds fuel env is_match cnt) = scan_rounds fuel env is_match cnt st'"
      "if cnt - retrieved_key_count ?st \<le> length (row_users chunk) then scan_found is_match cnt (row_users chunk) ?st st'
       else st' = scan_passed is_match chunk ?st"
      using scan_iter_rows [of env chunk ?st cnt is_match "scan_rounds fuel env is_match cnt"] Suc.prems(2) by auto
    have "wp F (scan_rounds fuel env is_match cnt st') Q (db, (sn, m, True) # ts)"
    proof (cases "cnt - retrieved_key_count st \<le> length (row_users chunk)")
      case True
      then have "scan_found is_match cnt (row_users chunk) ?st st'" using st'(2) by simp
      then have "retrieved_key_count st' = cnt" "scan_reply st' = scan_answer is_match (cnt - retrieved_key_count st) (row_users ?rows) (scanned_keys st)"
        using scan_answer_found [of is_match cnt "row_users chunk" ?st st'] Suc.prems(2) True users by (auto simp: scan_found_def)
      moreover obtain n where "fuel = Suc n" using Suc.prems(4) by (cases fuel) auto
      ultimately show ?thesis using Suc.prems(5) by (simp add: wp_simps)
    next
      case False
      then have passed: "st' = scan_passed is_match chunk ?st" using st'(2) by simp
      show ?thesis
      proof (cases "chunk = []")
        case True
        then have "?rows = []" using j by (auto simp: chunk_def)
        moreover obtain n where "fuel = Suc n" using Suc.prems(4) by (cases fuel) auto
        ultimately show ?thesis using Suc.prems(2,5) unfolding passed
          by (simp add: wp_simps True scan_passed_def scan_reply_def scan_answer_def resp_defs)
      next
        case nonempty: False
        have later: "rows_after env m (left_bound st') = drop j ?rows" "last_round_iter_count st' \<noteq> 0" "retrieved_key_count st' < cnt"
          using rows_after_drop [OF fin] nonempty False by (auto simp: passed scan_passed_def chunk_def)
        have "scan_answer is_match (cnt - retrieved_key_count st) (row_users ?rows) (scanned_keys st) =
            scan_answer is_match (cnt - retrieved_key_count st') (row_users (drop j ?rows)) (scanned_keys st')"
          unfolding users using scan_answer_later [of "row_users chunk" "cnt - retrieved_key_count st"] False
          by (simp add: passed scan_passed_def)
        moreover have "0 < length ?rows" using nonempty by (auto simp: chunk_def)
        then have "length (drop j ?rows) + 2 \<le> fuel" using Suc.prems(4) j unfolding length_drop by linarith
        moreover have "list_all (row_ok env) (drop j ?rows)" using Suc.prems(1) by (auto simp: list_all_iff dest: in_set_dropD)
        ultimately show ?thesis using Suc.prems(5) later by (intro Suc.IH) auto
      qed
    qed
    then show ?thesis unfolding pre(1) scan_iter_skip [OF pre(2)] st'(1) [unfolded chunk_def j_def] .
  qed
  then show ?case using Suc.prems(2,3) err by (simp add: wp_simps)
qed simp

lemma ukp_below_end: "ukp enc u @ s < encode_txnkv_keyspace_end enc"
  by (simp add: ukp_def instance_id_slice_def layout_defs encode_txnkv_keyspace_end_def)

lemma mkey_shape: "mkey env u = ukp (KEY_ENCODER env) u @ [109]"
  by (simp add: enc_simps)

lemma meta_user_mkey: "meta_user (mkey env u) = Some u"
  by (simp add: meta_user_def mkey_shape decode_userkey)

lemma mkey_eq: "mkey env u = mkey env u' \<longleftrightarrow> u = u'"
  by (metis meta_user_mkey option.inject)

lemma mkey_less: "mkey env u < mkey env u' \<longleftrightarrow> u < u'"
  by (simp add: mkey_shape)

lemma after_start:
  assumes "mkey env start < k"
  shows "ukp (KEY_ENCODER env) [] \<le> k"
proof -
  have "ukp (KEY_ENCODER env) [] @ [] < ukp (KEY_ENCODER env) start @ [109]" by (simp only: ukp_less_iff) (cases start; simp)
  then show ?thesis using assms by (simp add: mkey_shape)
qed

lemma scannable_rows:
  assumes "scannable env m"
  shows "list_all (row_ok env) (rows_after env m (mkey env start))"
proof -
  have "row_ok env (k, the (m k))" if in_dom: "k \<in> dom m" "mkey env start < k" "k < encode_txnkv_keyspace_end (KEY_ENCODER env)" for k
  proof -
    obtain b where b: "m k = Some b" using in_dom(1) by auto
    obtain key t s where k: "k = ukp (KEY_ENCODER env) key @ t # s"
      "k = mkey env key \<Longrightarrow> \<exists>ttl. decode_key_ttl b = Some ttl \<and> \<not> key_is_expired env ttl"
      using assms b after_start [OF in_dom(2)] in_dom(3) unfolding scannable_def by blast
    then show ?thesis using b by (auto simp: row_ok_def meta_user_def decode_userkey mkey_shape split: if_splits)
  qed
  then show ?thesis
    by (cases "finite {k \<in> dom m. mkey env start < k \<and> k < encode_txnkv_keyspace_end (KEY_ENCODER env)}")
      (auto simp: rows_after_def list_all_iff)
qed

lemma filter_sorted_list_of_set: "finite A \<Longrightarrow> filter P (sorted_list_of_set A) = sorted_list_of_set {x \<in> A. P x}" for A :: "'a :: linorder set"
  by (rule strict_sorted_equal [OF strict_sorted_list_of_set]) (auto intro: sorted_wrt_filter)

lemma row_users_sorted:
  assumes "scannable env m" "finite (dom m)"
  shows "row_users (rows_after env m (mkey env start)) = sorted_list_of_set {u. start < u \<and> m (mkey env u) \<noteq> None}"
proof -
  let ?e = "encode_txnkv_keyspace_end (KEY_ENCODER env)"
  let ?A = "{k \<in> dom m. mkey env start < k \<and> k < ?e}" and ?U = "{u. start < u \<and> m (mkey env u) \<noteq> None}"
  have inj: "inj_on (mkey env) ?U" by (rule inj_on_inverseI [where g = "the \<circ> meta_user"]) (simp add: meta_user_mkey)
  have "{k \<in> ?A. meta_user k \<noteq> None} = mkey env ` ?U"
  proof (intro set_eqI iffI)
    fix k assume k: "k \<in> {k \<in> ?A. meta_user k \<noteq> None}"
    then obtain b where "m k = Some b" "ukp (KEY_ENCODER env) [] \<le> k" "k < ?e" using after_start by auto
    then obtain key t s where "k = ukp (KEY_ENCODER env) key @ t # s" using assms(1) unfolding scannable_def by blast
    moreover have "meta_user k \<noteq> None" using k by simp
    ultimately have "k = mkey env key" by (auto simp: meta_user_def decode_userkey mkey_shape split: if_splits)
    then show "k \<in> mkey env ` ?U" using k by (auto simp: mkey_less)
  next
    fix k assume "k \<in> mkey env ` ?U"
    then show "k \<in> {k \<in> ?A. meta_user k \<noteq> None}" by (auto simp: mkey_less meta_user_mkey) (simp add: mkey_shape ukp_below_end)
  qed
  moreover have "finite ?U" by (rule inj_on_finite [OF inj _ assms(2)]) auto
  ultimately have "sorted_list_of_set {k \<in> ?A. meta_user k \<noteq> None} = map (mkey env) (sorted_list_of_set ?U)"
    by (simp only:) (rule sorted_list_of_set_map, simp_all add: mkey_less)
  moreover have "finite ?A" using assms(2) by simp
  ultimately have "filter (\<lambda>k. meta_user k \<noteq> None) (sorted_list_of_set ?A) = map (mkey env) (sorted_list_of_set ?U)"
    by (simp only: filter_sorted_list_of_set)
  then show ?thesis
    by (simp add: row_users_def rows_after_def List.map_filter_def filter_map comp_def meta_user_mkey)
qed

lemma scan_spec:
  assumes "scannable env m" "0 < cnt" "card (dom m) + 2 \<le> fuel"
  shows "body_spec F UNIV (scan_body fuel env is_match start cnt) m
    (\<lambda>r m'. r = Inr (scan_answer is_match (unat cnt) (sorted_list_of_set {u. start < u \<and> m (mkey env u) \<noteq> None}) []) \<and> m' = m)"
    (is "body_spec F UNIV _ m ?R")
proof (rule body_specI)
  fix db sn ts
  have start: "left_bound (scan_start env start) = mkey env start" "scanned_keys (scan_start env start) = []"
    "retrieved_key_count (scan_start env start) = 0" "last_round_iter_count (scan_start env start) = 1"
    by (simp_all add: scan_start_def)
  have cnt: "0 < unat cnt" using assms(2) by (simp add: word_less_nat_alt)
  have "wp F (scan_rounds fuel env is_match (unat cnt) (scan_start env start)) (body_post F db sn ts UNIV ?R) (db, (sn, m, True) # ts)"
    if fin: "finite (dom m)"
  proof (rule wp_scan_rounds, unfold start)
    have "length (rows_after env m (mkey env start)) \<le> card (dom m)"
      using fin by (simp add: rows_after_def) (rule card_mono, auto)
    then show "length (rows_after env m (mkey env start)) + 2 \<le> fuel" using assms(3) by linarith
  qed (use scannable_rows [OF assms(1)] row_users_sorted [OF assms(1) fin] cnt in \<open>simp_all add: wp_simps\<close>)
  moreover have "wp F (scan_rounds fuel env is_match (unat cnt) (scan_start env start)) (body_post F db sn ts UNIV ?R) (db, (sn, m, True) # ts)"
    if "infinite (dom m)"
    using that assms(3) cnt start by (cases fuel) (simp_all add: wp_simps)
  ultimately show "wp F (scan_body fuel env is_match start cnt) (body_post F db sn ts UNIV ?R) (db, (sn, m, False) # ts)"
    by (cases "finite (dom m)") (simp_all add: scan_body_def wp_simps)
qed

section \<open>The properties\<close>

text \<open>(C32) \<^verbatim>\<open>DEL\<close> of keys of any types: afterwards none of the keys is there, with all that belongs to them or with the rest left to the
  garbage collector, nothing else has changed, and the answer is the number of keys that were there, repetitions and
  expired ones included.\<close>

theorem del_removes:
  assumes "client_ready api data snap view F env w" "list_all (known env (data (cluster w))) keys"
  shows "completes api data F env (do_async_txnkv_del env False keys) w
    (\<lambda>reply m. reply = Integer (of_nat (length (filter (\<lambda>key. data (cluster w) (mkey env key) \<noteq> None) keys))) \<and>
       list_all (no_key env m) keys \<and> only_keys env (set keys) (data (cluster w)) m)"
  unfolding do_async_txnkv_del_def
  by (rule completes_exec [OF assms(1) del_spec [OF ready_connected [OF assms(1)] assms(2)]]) (auto simp: resp_int_def list_all_iff)

lemma hash_store_holds:
  assumes "al \<noteq> []" "length al < 2 ^ 63"
  shows "holds env0 (mem_data (cluster (mem_world (hash_store env0 key ttl al)))) key ttl (HashV (map_of al))"
  using hash_store_rep [OF assms, of env0 key ttl] by auto

theorem del_removes_witness:
  "completes mem_api mem_data {} env0 (do_async_txnkv_del env0 False [[107], [107]])
     (mem_world (hash_store env0 [107] 5 [([97], [7])])) (\<lambda>reply m. reply = Integer 2 \<and> no_key env0 m [107])"
proof -
  let ?w = "mem_world (hash_store env0 [107] 5 [([97], [7])])"
  have "holds env0 (mem_data (cluster ?w)) [107] 5 (HashV [[97] \<mapsto> [7]])"
    using hash_store_holds [of "[([97], [7])]" "[107]" 5] by simp
  then have known: "list_all (known env0 (mem_data (cluster ?w))) [[107], [107]]" and "mem_data (cluster ?w) (mkey env0 [107]) \<noteq> None"
    by (auto simp: known_def simp del: holds.simps dest: holds_meta)
  then show ?thesis by (intro completes_mono [OF del_removes [OF mem_ready known]]) auto
qed

text \<open>(C33) \<^verbatim>\<open>EXPIRE\<close> and its relatives on a key of any type: a live key gets the time to live, and keeps its type and its contents, and
  the answer is 1; a key that has expired is removed and the answer is 0; \<^verbatim>\<open>PERSIST\<close> of a key without a time to live
  writes nothing and answers 0. No other key changes.\<close>

theorem expire_retimes:
  assumes "client_ready api data snap view F env w" "holds env (data (cluster w)) key ttl x"
  shows "completes api data F env (do_async_txnkv_expire env False key timestamp) w
    (\<lambda>reply m.
       if timestamp = 0 \<and> ttl = 0 then reply = Integer 0 \<and> m = data (cluster w)
       else others_same (KEY_ENCODER env) key (data (cluster w)) m \<and>
         (if key_is_expired env ttl then reply = Integer 0 \<and> no_key env m key
          else reply = Integer 1 \<and> holds env m key timestamp x))"
  unfolding do_async_txnkv_expire_def
  by (rule completes_exec [OF assms(1) expire_spec [OF assms(2) ready_connected [OF assms(1)]]])
    (auto simp: resp_int_def split: if_splits)

theorem expire_retimes_witness:
  "completes mem_api mem_data {} env0 (do_async_txnkv_expire env0 False [107] 9)
     (mem_world (hash_store env0 [107] 0 [([97], [7])])) (\<lambda>reply m. reply = Integer 1 \<and> holds env0 m [107] 9 (HashV [[97] \<mapsto> [7]]))"
proof -
  have "holds env0 (mem_data (cluster (mem_world (hash_store env0 [107] 0 [([97], [7])])))) [107] 0 (HashV [[97] \<mapsto> [7]])"
    using hash_store_holds [of "[([97], [7])]" "[107]" 0] by simp
  then show ?thesis by (intro completes_mono [OF expire_retimes [OF mem_ready]]) (auto simp del: holds.simps)
qed

text \<open>(C34) \<^verbatim>\<open>TTL\<close> and \<^verbatim>\<open>PTTL\<close> on a key of any type: \<open>-1\<close> without a time to live, the time that is left in seconds, rounded down, or in
  milliseconds, and nothing changes; \<open>-2\<close> when it has expired, and the key is removed.\<close>

theorem ttl_answers:
  assumes "client_ready api data snap view F env w" "holds env (data (cluster w)) key ttl x"
  shows "completes api data F env (do_async_txnkv_ttl env False key is_millis) w
    (\<lambda>reply m.
       if key_is_expired env ttl then
         reply = Integer (- 2) \<and> no_key env m key \<and> others_same (KEY_ENCODER env) key (data (cluster w)) m
       else m = data (cluster w) \<and>
         reply = Integer (if ttl = 0 then - 1 else
           let left = ttl - now_timestamp_in_millis env in if is_millis then left else i64_div left 1000))"
  unfolding do_async_txnkv_ttl_def
  by (rule completes_exec_frame [OF assms(1) ttl_spec [OF assms(2) ready_connected [OF assms(1)]]]) (auto split: if_splits)

theorem ttl_answers_witness:
  "completes mem_api mem_data {} env0 (do_async_txnkv_ttl env0 False [107] False)
     (mem_world (hash_store env0 [107] 0 [([97], [7])])) (\<lambda>reply m. reply = Integer (- 1))"
proof -
  have "holds env0 (mem_data (cluster (mem_world (hash_store env0 [107] 0 [([97], [7])])))) [107] 0 (HashV [[97] \<mapsto> [7]])"
    using hash_store_holds [of "[([97], [7])]" "[107]" 0] by simp
  then show ?thesis by (intro completes_mono [OF ttl_answers [OF mem_ready]]) (auto simp del: holds.simps)
qed

text \<open>(C35) \<^verbatim>\<open>SCAN\<close> ends, and on a store of keys that have not expired it answers with the user keys after the cursor in the order of their
  bytes: it looks at as many of them as the count says, lists those that match the regular expression, and the next cursor
  is the last one it looked at, or empty when there were fewer. The rounds it takes are bounded by the number of keys
  in the store.\<close>

theorem scan_lists:
  assumes "client_ready api data snap view F env w" "scannable env (data (cluster w))"
    and "0 < cnt" "card (dom (data (cluster w))) + 2 \<le> fuel" "regex_new regex = Some is_match"
  shows "completes api data F env (do_async_txnkv_scan regex_new fuel env False start cnt regex) w
    (\<lambda>reply m. m = data (cluster w) \<and>
       (let users = sorted_list_of_set {u. start < u \<and> data (cluster w) (mkey env u) \<noteq> None}; n = unat cnt in
        reply = Array [Bulk (if n \<le> length users then users ! (n - 1) else []), Array (map Bulk (filter is_match (take n users)))]))"
  unfolding do_async_txnkv_scan_def unwrap_def assms(5) option.case
  by (rule completes_exec_frame [OF assms(1) scan_spec [OF assms(2-4)]]) (auto simp: scan_answer_def Let_def)

definition string_store :: "env \<Rightarrow> (bytes \<times> bytes) list \<Rightarrow> kv_pair list" where
  "string_store env al = map (\<lambda>(u, s). (mkey env u, encode_txnkv_string_value s 0)) al"

lemma scannable_strings: "scannable env (map_of (string_store env al))"
proof -
  have rows: "\<exists>key t s. k = ukp (KEY_ENCODER env) key @ t # s \<and>
      (k = mkey env key \<longrightarrow> (\<exists>ttl. decode_key_ttl b = Some ttl \<and> \<not> key_is_expired env ttl))"
    if row: "map_of (string_store env al) k = Some b" for k b
  proof -
    obtain u s where "k = mkey env u" "b = encode_txnkv_string_value s 0"
      using map_of_SomeD [OF row] by (auto simp: string_store_def)
    then show ?thesis by (auto simp: mkey_shape)
  qed
  show ?thesis unfolding scannable_def by (intro allI impI, elim conjE, rule rows)
qed

theorem scan_lists_witness:
  "completes mem_api mem_data {} env0 (do_async_txnkv_scan (\<lambda>_. Some (\<lambda>k. k \<noteq> [98])) 9 env0 False [] 2 [])
     (mem_world (string_store env0 [([99], [1]), ([97], [1]), ([98], [1])]))
     (\<lambda>reply m. reply = Array [Bulk [98], Array [Bulk [97]]])"
proof -
  let ?al = "string_store env0 [([99], [1]), ([97], [1]), ([98], [1])]"
  have users: "{u. [] < u \<and> map_of ?al (mkey env0 u) \<noteq> None} = {[97], [98], [99]}" by (auto simp: string_store_def mkey_eq)
  have "card (dom (map_of ?al)) \<le> length ?al" using card_length [of "map fst ?al"] by (simp add: dom_map_of_conv_image_fst)
  then have card: "card (dom (mem_data (cluster (mem_world ?al)))) + 2 \<le> 9" by (simp add: string_store_def)
  have ok: "scannable env0 (mem_data (cluster (mem_world ?al)))" by (simp add: scannable_strings)
  show ?thesis
    by (rule completes_mono [OF scan_lists [OF mem_ready ok _ card refl]])
      (simp, unfold mem_world_simps users, simp add: Let_def)
qed

end
