(* ===== verification/Protocol.thy ===== *)
theory Protocol
  imports Frames
begin

text \<open>
  Reading and writing frames, \<^verbatim>\<open>src/frame.rs\<close> and \<^verbatim>\<open>src/connection.rs\<close>. A cursor is the list of the bytes after its position. The
  crate \<^verbatim>\<open>atoi\<close> is the parameter \<open>atoi\<close>. The socket is the list of what its reads return, and writing gives the bytes
  that are written.
\<close>

section \<open>Cursors\<close>

datatype frame_error = Incomplete | OtherError bytes

text \<open>The result of a function over a cursor: a value and the new cursor, an error, or a panic.\<close>

datatype 'a parsed = POk 'a bytes | PErr frame_error | PPanic

primrec pbind :: "'a parsed \<Rightarrow> ('a \<Rightarrow> bytes \<Rightarrow> 'b parsed) \<Rightarrow> 'b parsed" where
  "pbind (POk x src) f = f x src"
| "pbind (PErr e) f = PErr e"
| "pbind PPanic f = PPanic"

lemma pbind_cong [fundef_cong]:
  assumes "p = q" "\<And>x src. q = POk x src \<Longrightarrow> f x src = g x src"
  shows "pbind p f = pbind q g"
  using assms by (cases q) auto

lemma pbind_split:
  "P (pbind p f) \<longleftrightarrow> (\<forall>x src. p = POk x src \<longrightarrow> P (f x src)) \<and> (\<forall>e. p = PErr e \<longrightarrow> P (PErr e)) \<and> (p = PPanic \<longrightarrow> P PPanic)"
  by (cases p) auto

lemma pbind_ok [simp]: "pbind p f = POk y rest \<longleftrightarrow> (\<exists>x src. p = POk x src \<and> f x src = POk y rest)"
  by (cases p) auto

definition INVALID_FORMAT :: frame_error where
  "INVALID_FORMAT = OtherError (ascii ''protocol error; invalid frame format'')"

definition peek_u8 :: "bytes \<Rightarrow> u8 parsed" where
  "peek_u8 src = (case src of [] \<Rightarrow> PErr Incomplete | b # _ \<Rightarrow> POk b src)"

definition get_u8 :: "bytes \<Rightarrow> u8 parsed" where
  "get_u8 src = (case src of [] \<Rightarrow> PErr Incomplete | b # src' \<Rightarrow> POk b src')"

definition skip :: "bytes \<Rightarrow> nat \<Rightarrow> unit parsed" where
  "skip src n = (if length src < n then PErr Incomplete else POk () (drop n src))"

text \<open>\<^verbatim>\<open>get_line\<close> runs over the positions up to the second to last byte.\<close>

fun get_line_from :: "bytes \<Rightarrow> bytes \<Rightarrow> bytes parsed" where
  "get_line_from line (a # b # src) =
     (if a = 13 \<and> b = 10 then POk line src else get_line_from (line @ [a]) (b # src))"
| "get_line_from line src = PErr Incomplete"

definition get_line :: "bytes \<Rightarrow> bytes parsed" where
  "get_line src = get_line_from [] src"

definition get_decimal :: "(bytes \<Rightarrow> i64 option) \<Rightarrow> bytes \<Rightarrow> i64 parsed" where
  "get_decimal atoi src =
     pbind (get_line src) (\<lambda>line src. case atoi line of Some n \<Rightarrow> POk n src | None \<Rightarrow> PErr INVALID_FORMAT)"

text \<open>\<^verbatim>\<open>try_into\<close> from \<^verbatim>\<open>i64\<close> to \<^verbatim>\<open>usize\<close>.\<close>

definition i64_to_usize :: "i64 \<Rightarrow> bytes \<Rightarrow> nat parsed" where
  "i64_to_usize n src = (if 0 \<le> sint n then POk (nat (sint n)) src else PErr INVALID_FORMAT)"

section \<open>Checking and parsing\<close>

definition INVALID_TYPE :: "u8 \<Rightarrow> frame_error" where
  "INVALID_TYPE actual =
     OtherError (ascii ''protocol error; invalid frame type byte `'' @ nat_digits (unat actual) @ ascii ''`'')"

text \<open>\<^verbatim>\<open>Frame::check\<close>, and its loop over the elements of an array.\<close>

function (sequential) check :: "(bytes \<Rightarrow> i64 option) \<Rightarrow> bytes \<Rightarrow> unit parsed"
  and check_loop :: "(bytes \<Rightarrow> i64 option) \<Rightarrow> nat \<Rightarrow> bytes \<Rightarrow> unit parsed" where
  "check atoi src =
     pbind (get_u8 src) (\<lambda>b src.
       if b = 43 \<or> b = 45 then pbind (get_line src) (\<lambda>_ src. POk () src)
       else if b = 58 then pbind (get_decimal atoi src) (\<lambda>_ src. POk () src)
       else if b = 36 then
         pbind (peek_u8 src) (\<lambda>c src.
           if c = 45 then skip src 4
           else
             pbind (get_decimal atoi src) (\<lambda>n src.
             pbind (i64_to_usize n src) (\<lambda>len src. skip src (len + 2))))
       else if b = 42 then pbind (get_decimal atoi src) (\<lambda>len src. check_loop atoi (nat (sint len)) src)
       else PErr (INVALID_TYPE b))"
| "check_loop atoi 0 src = POk () src"
| "check_loop atoi (Suc n) src = pbind (check atoi src) (\<lambda>_ src. check_loop atoi n src)"
  by pat_completeness auto

text \<open>Every step moves the cursor on.\<close>

lemma cursor_moves:
  "get_u8 src = POk b rest \<Longrightarrow> length rest < length src"
  "peek_u8 src = POk b rest \<Longrightarrow> rest = src"
  "skip src n = POk u rest \<Longrightarrow> length rest \<le> length src"
  by (auto simp: get_u8_def peek_u8_def skip_def split: list.splits if_splits)

lemma get_line_from_moves: "get_line_from line src = POk l rest \<Longrightarrow> length rest < length src"
  by (induction line src rule: get_line_from.induct) (auto split: if_splits)

lemma line_moves: "get_line src = POk l rest \<Longrightarrow> length rest < length src"
  by (simp add: get_line_def get_line_from_moves)

lemma decimal_moves: "get_decimal atoi src = POk n rest \<Longrightarrow> length rest < length src"
  by (auto simp: get_decimal_def dest: line_moves split: option.splits)

lemma usize_same: "i64_to_usize n src = POk len rest \<Longrightarrow> rest = src"
  by (auto simp: i64_to_usize_def split: if_splits)

lemmas moves = cursor_moves line_moves decimal_moves usize_same

lemma check_moves_dom:
  "check_check_loop_dom (Inl (atoi, src)) \<Longrightarrow> check atoi src = POk u rest \<Longrightarrow> length rest < length src"
  "check_check_loop_dom (Inr (atoi, n, src)) \<Longrightarrow> check_loop atoi n src = POk u rest \<Longrightarrow> length rest \<le> length src"
proof (induction atoi src and atoi n src arbitrary: u rest and u rest rule: check_check_loop.pinduct)
  case (1 atoi src)
  let ?after = "\<lambda>b src. if b = 43 \<or> b = 45 then pbind (get_line src) (\<lambda>_ src. POk () src)
       else if b = 58 then pbind (get_decimal atoi src) (\<lambda>_ src. POk () src)
       else if b = 36 then
         pbind (peek_u8 src) (\<lambda>c src.
           if c = 45 then skip src 4
           else
             pbind (get_decimal atoi src) (\<lambda>n src.
             pbind (i64_to_usize n src) (\<lambda>len src. skip src (len + 2))))
       else if b = 42 then pbind (get_decimal atoi src) (\<lambda>len src. check_loop atoi (nat (sint len)) src)
       else PErr (INVALID_TYPE b)"
  have "pbind (get_u8 src) ?after = POk u rest" using "1.prems" by (simp only: check.psimps [OF "1.hyps"])
  then obtain b src1 where b: "get_u8 src = POk b src1" "?after b src1 = POk u rest" by (simp only: pbind_ok) blast
  have "length rest \<le> length src1"
  proof (cases "b = 42")
    case True
    then obtain n src2 where n: "get_decimal atoi src1 = POk n src2" "check_loop atoi (nat (sint n)) src2 = POk u rest" using b(2) by auto
    then have "length rest \<le> length src2" using "1.IH" [OF b(1) _ _ _ _ n(1) n(2)] True by simp
    then show ?thesis using decimal_moves [OF n(1)] by simp
  next
    case False
    then show ?thesis using b(2)
      by (auto split: if_splits dest!: moves)
  qed
  then show ?case using cursor_moves(1) [OF b(1)] by simp
next
  case (2 atoi src)
  then show ?case by (simp add: check_loop.psimps)
next
  case (3 atoi n src)
  then show ?case by (auto simp: check_loop.psimps) fastforce
qed

termination check
proof (relation "measures [case_sum (\<lambda>(_, src). length src) (\<lambda>(_, _, src). length src), case_sum (\<lambda>_. 0) (\<lambda>(_, n, _). Suc n)]")
qed (auto dest!: moves check_moves_dom)

declare check.simps [simp del]

text \<open>\<^verbatim>\<open>Frame::parse\<close>. The type byte that is none is \<^verbatim>\<open>unimplemented!\<close>; allocation does not fail.\<close>

definition string_from_utf8 :: "bytes \<Rightarrow> bytes \<Rightarrow> bytes parsed" where
  "string_from_utf8 line src = (if utf8_valid line then POk line src else PErr INVALID_FORMAT)"

function (sequential) parse :: "(bytes \<Rightarrow> i64 option) \<Rightarrow> bytes \<Rightarrow> Frame parsed"
  and parse_loop :: "(bytes \<Rightarrow> i64 option) \<Rightarrow> nat \<Rightarrow> Frame list \<Rightarrow> bytes \<Rightarrow> Frame parsed" where
  "parse atoi src =
     pbind (get_u8 src) (\<lambda>b src.
       if b = 43 then pbind (get_line src) (\<lambda>line src. pbind (string_from_utf8 line src) (\<lambda>s src. POk (Simple s) src))
       else if b = 45 then pbind (get_line src) (\<lambda>line src. pbind (string_from_utf8 line src) (\<lambda>s src. POk (ErrorOwned s) src))
       else if b = 58 then pbind (get_decimal atoi src) (\<lambda>len src. POk (Integer len) src)
       else if b = 36 then
         pbind (peek_u8 src) (\<lambda>c src.
           if c = 45 then
             pbind (get_line src) (\<lambda>line src. if line \<noteq> ascii ''-1'' then PErr INVALID_FORMAT else POk Null src)
           else
             pbind (get_decimal atoi src) (\<lambda>n src.
             pbind (i64_to_usize n src) (\<lambda>len src.
               if length src < len + 2 then PErr Incomplete
               else pbind (skip src (len + 2)) (\<lambda>_ src'. POk (Bulk (take len src)) src'))))
       else if b = 42 then
         pbind (get_decimal atoi src) (\<lambda>n src.
         pbind (i64_to_usize n src) (\<lambda>len src. parse_loop atoi len [] src))
       else PPanic)"
| "parse_loop atoi 0 out src = POk (Array out) src"
| "parse_loop atoi (Suc n) out src = pbind (parse atoi src) (\<lambda>frame src. parse_loop atoi n (out @ [frame]) src)"
  by pat_completeness auto

lemma utf8_same: "string_from_utf8 line src = POk s rest \<Longrightarrow> rest = src"
  by (auto simp: string_from_utf8_def split: if_splits)

lemma parse_moves_dom:
  "parse_parse_loop_dom (Inl (atoi, src)) \<Longrightarrow> parse atoi src = POk f rest \<Longrightarrow> length rest < length src"
  "parse_parse_loop_dom (Inr (atoi, n, out, src)) \<Longrightarrow> parse_loop atoi n out src = POk f rest \<Longrightarrow> length rest \<le> length src"
proof (induction atoi src and atoi n out src arbitrary: f rest and f rest rule: parse_parse_loop.pinduct)
  case (1 atoi src)
  obtain b src1 where b: "get_u8 src = POk b src1" using "1.prems" by (auto simp: parse.psimps [OF "1.hyps"])
  have "length rest \<le> length src1"
  proof (cases "b = 42")
    case True
    then obtain n src2 len where n: "get_decimal atoi src1 = POk n src2" "i64_to_usize n src2 = POk len src2"
      "parse_loop atoi len [] src2 = POk f rest"
      using "1.prems" b by (auto simp: parse.psimps [OF "1.hyps"] dest: usize_same)
    then have "length rest \<le> length src2" using "1.IH" [OF b _ _ _ _ _ n] True by simp
    then show ?thesis using decimal_moves [OF n(1)] by simp
  next
    case False
    then show ?thesis using "1.prems" b
      by (auto simp: parse.psimps [OF "1.hyps"] split: if_splits dest!: moves utf8_same)
  qed
  then show ?case using cursor_moves(1) [OF b] by simp
next
  case (2 atoi out src)
  then show ?case by (simp add: parse_loop.psimps)
next
  case (3 atoi n out src)
  then show ?case by (auto simp: parse_loop.psimps) fastforce
qed

termination parse
proof (relation "measures [case_sum (\<lambda>(_, src). length src) (\<lambda>(_, _, _, src). length src), case_sum (\<lambda>_. 0) (\<lambda>(_, n, _, _). Suc n)]")
qed (auto dest!: moves parse_moves_dom)

declare parse.simps [simp del]

text \<open>Comparison of a frame with a string, and its text. \<open>debug\<close> is the \<^verbatim>\<open>Debug\<close> format of the crate \<^verbatim>\<open>bytes\<close>.\<close>

fun frame_eq_str :: "Frame \<Rightarrow> bytes \<Rightarrow> bool" where
  "frame_eq_str (Simple s) other \<longleftrightarrow> s = other"
| "frame_eq_str (Bulk s) other \<longleftrightarrow> s = other"
| "frame_eq_str _ other \<longleftrightarrow> False"

fun frame_fmt :: "(bytes \<Rightarrow> bytes) \<Rightarrow> Frame \<Rightarrow> bytes" where
  "frame_fmt debug (Simple response) = response"
| "frame_fmt debug (ErrorOwned msg) = ascii ''error: '' @ msg"
| "frame_fmt debug (ErrorString msg) = ascii ''error: '' @ ascii msg"
| "frame_fmt debug (Integer num) = i64_to_string num"
| "frame_fmt debug (Bulk msg) = (if utf8_valid msg then msg else debug msg)"
| "frame_fmt debug Null = ascii ''(nil)''"
| "frame_fmt debug (Array parts) = concat (tl (map (\<lambda>part. 32 # frame_fmt debug part) parts))"

text \<open>The frames that the reply of a subscription is built from.\<close>

definition frame_array :: Frame where "frame_array = Array []"

fun push_bulk :: "Frame \<Rightarrow> bytes \<Rightarrow> Frame option" where
  "push_bulk (Array vec) bs = Some (Array (vec @ [Bulk bs]))"
| "push_bulk _ bs = None"

fun push_int :: "Frame \<Rightarrow> i64 \<Rightarrow> Frame option" where
  "push_int (Array vec) val = Some (Array (vec @ [Integer val]))"
| "push_int _ val = None"

section \<open>Connections\<close>

text \<open>\<^verbatim>\<open>parse_frame\<close>: a frame and the rest of the buffer, nothing yet, an error or a panic.\<close>

datatype frame_result = GotFrame Frame bytes | NoFrame | FrameError frame_error | FramePanic

definition parse_frame :: "(bytes \<Rightarrow> i64 option) \<Rightarrow> bytes \<Rightarrow> frame_result" where
  "parse_frame atoi buffer =
     (case check atoi buffer of
        POk _ rest \<Rightarrow>
          (let len = length buffer - length rest in
           case parse atoi buffer of
             POk frame _ \<Rightarrow> GotFrame frame (drop len buffer)
           | PErr e \<Rightarrow> FrameError e
           | PPanic \<Rightarrow> FramePanic)
      | PErr Incomplete \<Rightarrow> NoFrame
      | PErr e \<Rightarrow> FrameError e
      | PPanic \<Rightarrow> FramePanic)"

text \<open>What one read of the socket returns: bytes, none at the end of the stream, or an error.\<close>

datatype chunk = Read bytes | ReadFailed bytes

datatype read_result = ReadFrame Frame bytes "chunk list" | ReadClosed | ReadError bytes | ReadPanic

fun frame_error_text :: "frame_error \<Rightarrow> bytes" where
  "frame_error_text Incomplete = ascii ''stream ended early''"
| "frame_error_text (OtherError err) = err"

fun read_frame :: "(bytes \<Rightarrow> i64 option) \<Rightarrow> bytes \<Rightarrow> chunk list \<Rightarrow> read_result" where
  "read_frame atoi buffer chunks =
     (case parse_frame atoi buffer of
        GotFrame frame rest \<Rightarrow> ReadFrame frame rest chunks
      | FrameError e \<Rightarrow> ReadError (frame_error_text e)
      | FramePanic \<Rightarrow> ReadPanic
      | NoFrame \<Rightarrow>
          (case chunks of
             [] \<Rightarrow> if buffer = [] then ReadClosed else ReadError (ascii ''connection reset by peer'')
           | ReadFailed err # _ \<Rightarrow> ReadError err
           | Read buf # chunks' \<Rightarrow>
               if buf = [] then (if buffer = [] then ReadClosed else ReadError (ascii ''connection reset by peer''))
               else read_frame atoi (buffer @ buf) chunks'))"

declare read_frame.simps [simp del]

text \<open>The writers give the bytes they write; \<open>None\<close> is \<^verbatim>\<open>unreachable!\<close>. The buffer of \<^verbatim>\<open>write_decimal\<close> has 20 bytes, as many as the longest number.\<close>

definition CRLF :: bytes where "CRLF = [13, 10]"

definition write_decimal :: "i64 \<Rightarrow> bytes" where
  "write_decimal val = i64_to_string val @ CRLF"

fun write_value :: "Frame \<Rightarrow> bytes option" where
  "write_value (Simple val) = Some (43 # val @ CRLF)"
| "write_value (ErrorString val) = Some (45 # ascii val @ CRLF)"
| "write_value (ErrorOwned val) = Some (45 # val @ CRLF)"
| "write_value (Integer val) = Some (58 # write_decimal val)"
| "write_value Null = Some (36 # ascii ''-1'' @ CRLF)"
| "write_value (Bulk val) = Some (36 # write_decimal (i64_of_len (length val)) @ val @ CRLF)"
| "write_value (Array val) = None"

primrec write_all :: "('a \<Rightarrow> bytes option) \<Rightarrow> 'a list \<Rightarrow> bytes option" where
  "write_all write_entry [] = Some []"
| "write_all write_entry (x # xs) =
     Option.bind (write_entry x) (\<lambda>bs. map_option (\<lambda>bs'. bs @ bs') (write_all write_entry xs))"

text \<open>An array, whose entries are written by the given function; the code repeats it for three levels.\<close>

definition write_array :: "(Frame \<Rightarrow> bytes option) \<Rightarrow> Frame list \<Rightarrow> bytes option" where
  "write_array write_entry val =
     map_option (\<lambda>bs. 42 # write_decimal (i64_of_len (length val)) @ bs) (write_all write_entry val)"

definition write_frame :: "Frame \<Rightarrow> bytes option" where
  "write_frame frame =
     (case frame of
        Array val \<Rightarrow>
          write_array (\<lambda>entry.
            case entry of
              Array val \<Rightarrow>
                write_array (\<lambda>entry.
                  case entry of
                    Array val \<Rightarrow> write_array write_value val
                  | _ \<Rightarrow> write_value entry) val
            | _ \<Rightarrow> write_value entry) val
      | _ \<Rightarrow> write_value frame)"

end
