(* ===== verification/Protocol_Properties.thy ===== *)
theory Protocol_Properties
  imports Protocol
begin

text \<open>
  The protocol: what is checked is parsed and nothing panics, what is written is read back, and it does not matter how the bytes
  arrive.
\<close>

section \<open>More bytes\<close>

text \<open>A result that does not ask for more bytes stays the same when there are more.\<close>

primrec extend :: "bytes \<Rightarrow> 'a parsed \<Rightarrow> 'a parsed" where
  "extend more (POk x src) = POk x (src @ more)"
| "extend more (PErr e) = PErr e"
| "extend more PPanic = PPanic"

definition stable :: "bytes \<Rightarrow> 'a parsed \<Rightarrow> 'a parsed \<Rightarrow> bool" where
  "stable more p p' \<longleftrightarrow> p = PErr Incomplete \<or> p' = extend more p"

lemma stable_pbind:
  assumes "stable more p p'" "\<And>x src. p = POk x src \<Longrightarrow> stable more (f x src) (g x (src @ more))"
  shows "stable more (pbind p f) (pbind p' g)"
  using assms by (cases p) (auto simp: stable_def)

lemma stable_if:
  assumes "c \<Longrightarrow> stable more p p'" "\<not> c \<Longrightarrow> stable more q q'"
  shows "stable more (if c then p else q) (if c then p' else q')"
  using assms by simp

lemma stable_results:
  "stable more (POk x src) (POk x (src @ more))" "stable more (PErr e) (PErr e)" "stable more PPanic PPanic"
  by (auto simp: stable_def)

lemma stable_cursor:
  "stable more (get_u8 src) (get_u8 (src @ more))"
  "stable more (peek_u8 src) (peek_u8 (src @ more))"
  "stable more (skip src n) (skip (src @ more) n)"
  "stable more (i64_to_usize m src) (i64_to_usize m (src @ more))"
  "stable more (string_from_utf8 line src) (string_from_utf8 line (src @ more))"
  by (auto simp: stable_def get_u8_def peek_u8_def skip_def i64_to_usize_def string_from_utf8_def split: list.splits)

lemma stable_line_from: "stable more (get_line_from line src) (get_line_from line (src @ more))"
  by (induction line src rule: get_line_from.induct) (auto simp: stable_def)

lemma stable_line: "stable more (get_line src) (get_line (src @ more))"
  by (simp add: get_line_def stable_line_from)

lemma stable_decimal: "stable more (get_decimal atoi src) (get_decimal atoi (src @ more))"
  unfolding get_decimal_def
  by (rule stable_pbind [OF stable_line]) (auto simp: stable_results split: option.splits)

lemma stable_bulk:
  "stable more
     (if length src < len + 2 then PErr Incomplete
      else pbind (skip src (len + 2)) (\<lambda>_ src'. POk (Bulk (take len src)) src'))
     (if length (src @ more) < len + 2 then PErr Incomplete
      else pbind (skip (src @ more) (len + 2)) (\<lambda>_ src'. POk (Bulk (take len (src @ more))) src'))"
  by (auto simp: stable_def skip_def)

lemmas stable_intros = stable_cursor stable_line stable_decimal stable_results stable_bulk stable_pbind stable_if

lemma stable_check:
  "stable more (check atoi src) (check atoi (src @ more))"
  "stable more (check_loop atoi n src) (check_loop atoi n (src @ more))"
proof (induction atoi src and atoi n src rule: check_check_loop.induct)
  case (1 atoi src)
  show ?case unfolding check.simps [of atoi "src @ more"] check.simps [of atoi src]
    by (intro stable_intros 1) 
next
  case (3 atoi n src)
  then show ?case by (auto intro: stable_intros)
qed (simp add: stable_results)

lemma stable_parse:
  "stable more (parse atoi src) (parse atoi (src @ more))"
  "stable more (parse_loop atoi n out src) (parse_loop atoi n out (src @ more))"
proof (induction atoi src and atoi n out src rule: parse_parse_loop.induct)
  case (1 atoi src)
  show ?case unfolding parse.simps [of atoi "src @ more"] parse.simps [of atoi src]
    by (intro stable_intros 1) 
next
  case (3 atoi n src)
  then show ?case by (auto intro: stable_intros)
qed (simp add: stable_results)

section \<open>Checking and parsing agree\<close>

lemma no_panic_cursor:
  "get_u8 src \<noteq> PPanic" "peek_u8 src \<noteq> PPanic" "skip src n \<noteq> PPanic" "i64_to_usize m src \<noteq> PPanic"
  "string_from_utf8 line src \<noteq> PPanic"
  by (auto simp: get_u8_def peek_u8_def skip_def i64_to_usize_def string_from_utf8_def split: list.splits)

lemma no_panic_line_from: "get_line_from line src \<noteq> PPanic"
  by (induction line src rule: get_line_from.induct) auto

lemma no_panic_decimal: "get_line src \<noteq> PPanic" "get_decimal atoi src \<noteq> PPanic"
  by (auto simp: get_decimal_def get_line_def no_panic_line_from split: option.splits pbind_split)

lemma pbind_panic: "pbind p f = PPanic \<longleftrightarrow> p = PPanic \<or> (\<exists>x src. p = POk x src \<and> f x src = PPanic)"
  by (cases p) auto

lemma no_panic_check:
  "check atoi src \<noteq> PPanic"
  "check_loop atoi n src \<noteq> PPanic"
proof (induction atoi src and atoi n src rule: check_check_loop.induct)
  case (1 atoi src)
  then show ?case unfolding check.simps [of atoi src]
    by (auto simp: pbind_panic no_panic_cursor no_panic_decimal split: if_splits)
qed (auto simp: pbind_panic)

text \<open>What can be parsed has been checked, up to the same place, and parsing what has been checked does not panic.\<close>

definition parses :: "unit parsed \<Rightarrow> 'a parsed \<Rightarrow> bool" where
  "parses c p \<longleftrightarrow> (case p of POk _ src \<Rightarrow> c = POk () src | PErr _ \<Rightarrow> True | PPanic \<Rightarrow> \<forall>src. c \<noteq> POk () src)"

lemma parses_pbind:
  assumes "\<And>x src. p = POk x src \<Longrightarrow> parses (f x src) (g x src)"
  shows "parses (pbind p f) (pbind p g)"
  using assms by (cases p) (auto simp: parses_def)

lemma parses_then:
  assumes "parses c p" "\<And>x src. p = POk x src \<Longrightarrow> parses (f () src) (g x src)"
  shows "parses (pbind c f) (pbind p g)"
  using assms by (cases p) (auto simp: parses_def)

lemma parses_if:
  assumes "c \<Longrightarrow> parses p p'" "\<not> c \<Longrightarrow> parses q q'"
  shows "parses (if c then p else q) (if c then p' else q')"
  using assms by simp

lemma parses_results: "parses (POk () src) (POk x src)" "parses (PErr e) PPanic"
  by (auto simp: parses_def)

lemma get_line_from_split: "get_line_from line src = POk l rest \<Longrightarrow> \<exists>s. l = line @ s \<and> src = s @ CRLF @ rest"
  by (induction line src rule: get_line_from.induct) (auto simp: CRLF_def split: if_splits)

lemma get_line_split: "get_line src = POk l rest \<Longrightarrow> src = l @ CRLF @ rest"
  using get_line_from_split [of "[]" src l rest] by (simp add: get_line_def)

lemma parses_null:
  "parses (skip src 4) (pbind (get_line src) (\<lambda>line src. if line \<noteq> ascii ''-1'' then PErr INVALID_FORMAT else POk Null src))"
  by (auto simp: parses_def pbind_panic no_panic_decimal skip_def CRLF_def ascii_def dest!: get_line_split
      split: pbind_split parsed.splits if_splits)

lemma parses_bulk:
  "parses (skip src (len + 2))
     (if length src < len + 2 then PErr Incomplete
      else pbind (skip src (len + 2)) (\<lambda>_ src'. POk (Bulk (take len src)) src'))"
  by (auto simp: parses_def skip_def)

lemma parses_string: "parses (POk () src) (pbind (string_from_utf8 line src) (\<lambda>s src. POk (F s) src))"
  by (auto simp: parses_def string_from_utf8_def)

lemma parses_array:
  assumes "\<And>src'. i64_to_usize n src = POk (nat (sint n)) src' \<Longrightarrow> parses (check_loop atoi (nat (sint n)) src') (parse_loop atoi (nat (sint n)) [] src')"
  shows "parses (check_loop atoi (nat (sint n)) src) (pbind (i64_to_usize n src) (\<lambda>len src. parse_loop atoi len [] src))"
  using assms by (auto simp: i64_to_usize_def parses_def)

text \<open>The buffer of a connection never makes the server panic, whatever the bytes are.\<close>

lemma parses_check:
  "parses (check atoi src) (parse atoi src)"
  "parses (check_loop atoi n src) (parse_loop atoi n out src)"
proof (induction atoi src and atoi n out src rule: parse_parse_loop.induct)
  case (1 atoi src)
  show ?case unfolding check.simps [of atoi src] parse.simps [of atoi src]
  proof (rule parses_pbind, goal_cases branch)
    case (branch b src1)
    consider "b = 43" | "b = 45" | "b = 58" | "b = 36" | "b = 42" | "b \<notin> {43, 45, 58, 36, 42}" by blast
    then show ?case
    proof cases
      case 4
      then show ?thesis by (simp del: not_less) (intro parses_pbind parses_if parses_null parses_bulk)
    next
      case 5
      then show ?thesis using 1 [OF branch] by simp (intro parses_pbind parses_array, auto)
    qed (auto intro!: parses_pbind parses_string parses_results)
  qed
next
  case (3 atoi n out src)
  then show ?case by (auto intro!: parses_then)
qed (simp add: parses_def)

section \<open>Writing and reading back\<close>

text \<open>The encoding of a frame, and how deep arrays are nested in it.\<close>

fun encode_frame :: "Frame \<Rightarrow> bytes" where
  "encode_frame (Simple val) = 43 # val @ CRLF"
| "encode_frame (ErrorString val) = 45 # ascii val @ CRLF"
| "encode_frame (ErrorOwned val) = 45 # val @ CRLF"
| "encode_frame (Integer val) = 58 # write_decimal val"
| "encode_frame Null = 36 # ascii ''-1'' @ CRLF"
| "encode_frame (Bulk val) = 36 # write_decimal (i64_of_len (length val)) @ val @ CRLF"
| "encode_frame (Array val) = 42 # write_decimal (i64_of_len (length val)) @ concat (map encode_frame val)"

fun nesting :: "Frame \<Rightarrow> nat" where
  "nesting (Array val) = Suc (fold max (map nesting val) 0)"
| "nesting _ = 0"

fun received :: "Frame \<Rightarrow> Frame" where
  "received (ErrorString val) = ErrorOwned (ascii val)"
| "received (Array val) = Array (map received val)"
| "received frame = frame"

text \<open>A line does not contain its own end.\<close>

fun one_line :: "bytes \<Rightarrow> bool" where
  "one_line (a # b # s) \<longleftrightarrow> \<not> (a = 13 \<and> b = 10) \<and> one_line (b # s)"
| "one_line _ \<longleftrightarrow> True"

definition line_ok :: "bytes \<Rightarrow> bool" where
  "line_ok s \<longleftrightarrow> one_line s \<and> utf8_valid s"

fun sendable :: "Frame \<Rightarrow> bool" where
  "sendable (Simple val) \<longleftrightarrow> line_ok val"
| "sendable (ErrorString val) \<longleftrightarrow> line_ok (ascii val)"
| "sendable (ErrorOwned val) \<longleftrightarrow> line_ok val"
| "sendable (Integer val) \<longleftrightarrow> True"
| "sendable Null \<longleftrightarrow> True"
| "sendable (Bulk val) \<longleftrightarrow> length val < 2 ^ 63"
| "sendable (Array val) \<longleftrightarrow> length val < 2 ^ 63 \<and> list_all sendable val"

lemma fold_max: "fold max xs (a::nat) \<le> n \<longleftrightarrow> a \<le> n \<and> (\<forall>x\<in>set xs. x \<le> n)"
  by (induction xs arbitrary: a) auto

lemma write_value_encode: "write_value f = (if nesting f \<le> 0 then Some (encode_frame f) else None)"
  by (cases f) auto

lemma write_all_encode:
  assumes "\<And>f. write f = (if nesting f \<le> n then Some (encode_frame f) else None)"
  shows "write_all write fs = (if \<forall>f\<in>set fs. nesting f \<le> n then Some (concat (map encode_frame fs)) else None)"
  by (induction fs) (auto simp: assms)

lemma write_array_encode:
  assumes "\<And>f. write f = (if nesting f \<le> n then Some (encode_frame f) else None)"
  shows "(case f of Array val \<Rightarrow> write_array write val | _ \<Rightarrow> write_value f) = (if nesting f \<le> Suc n then Some (encode_frame f) else None)"
  by (cases f) (auto simp: write_array_def write_all_encode [OF assms] fold_max)

lemma write_frame_encode: "write_frame f = (if nesting f \<le> 3 then Some (encode_frame f) else None)"
  using write_array_encode [OF write_array_encode [OF write_array_encode [OF write_value_encode]]]
  by (simp add: write_frame_def numeral_3_eq_3)

lemma get_line_from_encoded: "one_line s \<Longrightarrow> get_line_from line (s @ CRLF @ rest) = POk (line @ s) rest"
  by (induction s arbitrary: line rule: one_line.induct) (auto simp: CRLF_def)

lemma get_line_encoded: "one_line s \<Longrightarrow> get_line (s @ CRLF @ rest) = POk s rest"
  by (simp add: get_line_def get_line_from_encoded)

lemma one_line_no_cr: "13 \<notin> set s \<Longrightarrow> one_line s"
  by (induction s rule: one_line.induct) auto

lemma digits_no_cr: "13 \<notin> set (nat_digits n)"
  using nat_digits_props(2) [of n] by (auto simp: list_all_iff is_digit_def)

lemma number_line: "one_line (i64_to_string n)"
  by (rule one_line_no_cr) (simp add: i64_to_string_def digits_no_cr)

lemma get_decimal_encoded:
  assumes "\<And>n. atoi (i64_to_string n) = Some n"
  shows "get_decimal atoi (write_decimal n @ rest) = POk n rest"
  by (simp add: get_decimal_def write_decimal_def get_line_encoded number_line assms)

lemma length_encoded: "n < 2 ^ 63 \<Longrightarrow> sint (i64_of_len n) = int n"
  by (simp add: i64_of_len_def sint_of_nat_small)

lemma peek_length:
  assumes "n < 2 ^ 63"
  shows "\<exists>c. peek_u8 (write_decimal (i64_of_len n) @ rest) = POk c (write_decimal (i64_of_len n) @ rest) \<and> c \<noteq> 45"
proof -
  obtain c ds where c: "nat_digits n = c # ds" using nat_digits_props(3) [of n] by (cases "nat_digits n") auto
  then have "c \<noteq> 45" using nat_digits_props(2) [of n] by (auto simp: is_digit_def)
  then show ?thesis using c by (auto simp: peek_u8_def write_decimal_def i64_to_string_def length_encoded [OF assms])
qed

lemma parse_loop_encoded:
  assumes "\<And>f t. f \<in> set fs \<Longrightarrow> parse atoi (encode_frame f @ t) = POk (received f) t"
  shows "parse_loop atoi (length fs) out (concat (map encode_frame fs) @ t) = POk (Array (out @ map received fs)) t"
  using assms by (induction fs arbitrary: out) auto

lemma parse_encoded:
  assumes "\<And>n. atoi (i64_to_string n) = Some n"
  shows "sendable f \<Longrightarrow> parse atoi (encode_frame f @ t) = POk (received f) t"
proof (induction f arbitrary: t)
  case (Bulk val)
  then obtain c where c: "peek_u8 (write_decimal (i64_of_len (length val)) @ val @ CRLF @ t) =
      POk c (write_decimal (i64_of_len (length val)) @ val @ CRLF @ t)" "c \<noteq> 45"
    using peek_length [of "length val"] by auto
  then show ?case using Bulk
    by (simp add: parse.simps get_u8_def get_decimal_encoded assms i64_to_usize_def length_encoded skip_def CRLF_def)
next
  case (Array val)
  then have loop: "parse_loop atoi (length val) [] (concat (map encode_frame val) @ t) = POk (Array (map received val)) t"
    using parse_loop_encoded [of val atoi "[]"] by (simp add: list_all_iff)
  show ?case using Array.prems
    by (simp add: parse.simps get_u8_def get_decimal_encoded assms i64_to_usize_def length_encoded loop)
next
  case Null
  show ?case using get_line_encoded [of "ascii ''-1''" t]
    by (simp add: parse.simps get_u8_def peek_u8_def ascii_def)
qed (simp_all add: parse.simps get_u8_def get_line_encoded get_decimal_encoded assms line_ok_def string_from_utf8_def)

lemma check_encoded:
  assumes "\<And>n. atoi (i64_to_string n) = Some n" "sendable f"
  shows "check atoi (encode_frame f @ t) = POk () t"
  using parses_check(1) [of atoi "encode_frame f @ t"] by (simp add: parse_encoded assms parses_def)

text \<open>A part of an encoded frame asks for the rest.\<close>

lemma check_part:
  assumes "\<And>n. atoi (i64_to_string n) = Some n" "sendable f" "encode_frame f = part @ more" "more \<noteq> []"
  shows "check atoi part = PErr Incomplete"
proof -
  have "check atoi (part @ more) = POk () []" using check_encoded [of atoi f "[]"] assms by simp
  then show ?thesis using stable_check(1) [of more atoi part] assms(4)
    by (cases "check atoi part") (auto simp: stable_def)
qed

lemma parse_frame_encoded:
  assumes "\<And>n. atoi (i64_to_string n) = Some n" "sendable f"
  shows "parse_frame atoi (encode_frame f @ t) = GotFrame (received f) t"
  by (simp add: parse_frame_def check_encoded parse_encoded assms)

lemma parse_frame_part:
  assumes "\<And>n. atoi (i64_to_string n) = Some n" "sendable f" "encode_frame f = part @ more" "more \<noteq> []"
  shows "parse_frame atoi part = NoFrame"
  by (simp add: parse_frame_def check_part [OF assms])

section \<open>Reading from a socket\<close>

lemma read_frame_encoded:
  assumes atoi: "\<And>n. atoi (i64_to_string n) = Some n" and f: "sendable f"
  shows "buffer @ concat bufs = encode_frame f @ t \<Longrightarrow> [] \<notin> set bufs \<Longrightarrow>
    \<exists>rest bufs'. read_frame atoi buffer (map Read bufs) = ReadFrame (received f) rest (map Read bufs') \<and>
      rest @ concat bufs' = t \<and> set bufs' \<subseteq> set bufs"
proof (induction bufs arbitrary: buffer)
  case Nil
  then show ?case by (simp add: read_frame.simps [of atoi "encode_frame f @ t"] parse_frame_encoded [OF atoi f])
next
  case (Cons buf bufs)
  consider (all) t' where "buffer = encode_frame f @ t'" "t' @ concat (buf # bufs) = t"
    | (part) more where "encode_frame f = buffer @ more" "more \<noteq> []"
  proof -
    obtain us where "buffer = encode_frame f @ us \<and> us @ concat (buf # bufs) = t \<or> buffer @ us = encode_frame f \<and> concat (buf # bufs) = us @ t"
      using Cons.prems(1) unfolding append_eq_append_conv2 by blast
    then show thesis using that(1) [of us] that(1) [of "[]"] that(2) [of us] by (cases "us = []") auto
  qed
  then show ?case
  proof cases
    case all
    then have "read_frame atoi buffer (map Read (buf # bufs)) = ReadFrame (received f) t' (map Read (buf # bufs))"
      by (simp add: read_frame.simps [of atoi "encode_frame f @ t'"] parse_frame_encoded [OF atoi f])
    then show ?thesis using all(2) by blast
  next
    case part
    have "read_frame atoi buffer (map Read (buf # bufs)) = read_frame atoi (buffer @ buf) (map Read bufs)"
      using Cons.prems(2) by (auto simp: read_frame.simps [of atoi buffer "Read buf # map Read bufs"] parse_frame_part [OF atoi f part])
    then show ?thesis using Cons.IH [of "buffer @ buf"] Cons.prems by auto
  qed
qed

text \<open>Reading one frame after the other until the stream ends.\<close>

inductive receives :: "(bytes \<Rightarrow> i64 option) \<Rightarrow> bytes \<Rightarrow> chunk list \<Rightarrow> Frame list \<Rightarrow> bool" for atoi where
  closed: "read_frame atoi buffer chunks = ReadClosed \<Longrightarrow> receives atoi buffer chunks []"
| frame: "\<lbrakk>read_frame atoi buffer chunks = ReadFrame f rest chunks'; receives atoi rest chunks' fs\<rbrakk> \<Longrightarrow>
    receives atoi buffer chunks (f # fs)"

lemma receives_det: "receives atoi buffer chunks fs \<Longrightarrow> receives atoi buffer chunks gs \<Longrightarrow> gs = fs"
proof (induction arbitrary: gs rule: receives.induct)
  case (frame buffer chunks f rest chunks' fs)
  from frame.prems frame.hyps(1) frame.IH show ?case by cases auto
qed (auto elim: receives.cases)

lemma receives_encoded:
  assumes atoi: "\<And>n. atoi (i64_to_string n) = Some n"
  shows "list_all sendable fs \<Longrightarrow> buffer @ concat bufs = concat (map encode_frame fs) \<Longrightarrow> [] \<notin> set bufs \<Longrightarrow>
    receives atoi buffer (map Read bufs) (map received fs)"
proof (induction fs arbitrary: buffer bufs)
  case Nil
  then have "bufs = []" by (cases bufs) auto
  moreover have "check atoi [] = PErr Incomplete" by (simp add: check.simps get_u8_def)
  ultimately show ?case using Nil by (auto simp: read_frame.simps [of atoi "[]"] parse_frame_def intro!: receives.closed)
next
  case (Cons f fs)
  then obtain rest bufs' where "read_frame atoi buffer (map Read bufs) = ReadFrame (received f) rest (map Read bufs')"
    "rest @ concat bufs' = concat (map encode_frame fs)" "set bufs' \<subseteq> set bufs"
    using read_frame_encoded [of atoi f buffer bufs, OF atoi] by auto
  then show ?case using Cons by (auto intro!: receives.frame)
qed

section \<open>Cursors only move on\<close>

definition consumes :: "bytes \<Rightarrow> 'a parsed \<Rightarrow> bool" where
  "consumes src p \<longleftrightarrow> (case p of POk _ rest \<Rightarrow> \<exists>used. src = used @ rest | _ \<Rightarrow> True)"

lemma consumes_pbind:
  assumes "consumes src p" "\<And>x rest. p = POk x rest \<Longrightarrow> consumes rest (f x rest)"
  shows "consumes src (pbind p f)"
  using assms by (cases p) (auto simp: consumes_def split: parsed.splits)

lemma consumes_if:
  assumes "c \<Longrightarrow> consumes src p" "\<not> c \<Longrightarrow> consumes src q"
  shows "consumes src (if c then p else q)"
  using assms by simp

lemma consumes_line: "consumes src (get_line src)"
  by (auto simp: consumes_def split: parsed.splits dest!: get_line_split)

lemma consumes_cursor:
  "consumes src (get_u8 src)" "consumes src (peek_u8 src)" "consumes src (skip src n)" "consumes src (i64_to_usize m src)"
  "consumes src (POk x src)" "consumes src (PErr e)"
  by (auto simp: consumes_def get_u8_def peek_u8_def skip_def i64_to_usize_def split: list.splits)
    (metis append_take_drop_id)

lemma consumes_decimal: "consumes src (get_decimal atoi src)"
  unfolding get_decimal_def
  by (rule consumes_pbind [OF consumes_line]) (auto simp: consumes_cursor split: option.splits)

lemma consumes_tl: "consumes (tl src) p \<Longrightarrow> consumes src p"
  by (cases src) (auto simp: consumes_def split: parsed.splits)

lemma consumes_check:
  "consumes (tl src) (check atoi src)"
  "consumes src (check_loop atoi n src)"
proof (induction atoi src and atoi n src rule: check_check_loop.induct)
  case (1 atoi src)
  show ?case
  proof (cases src)
    case (Cons b src1)
    then have b: "get_u8 src = POk b src1" by (simp add: get_u8_def)
    show ?thesis unfolding check.simps [of atoi src] b
      by (simp only: pbind.simps Cons list.sel)
        (intro consumes_cursor consumes_line consumes_decimal consumes_pbind consumes_if 1 [OF b])
  qed (simp add: check.simps get_u8_def consumes_cursor)
next
  case (3 atoi n src)
  then show ?case by (auto intro: consumes_pbind consumes_tl)
qed (simp add: consumes_cursor)

lemma check_consumes:
  assumes "check atoi src = POk u rest"
  obtains b used where "src = b # used @ rest"
  using assms consumes_check(1) [of src atoi] by (cases src) (auto simp: consumes_def check.simps get_u8_def)

section \<open>Properties\<close>

lemma parse_frame_cases:
  "case parse_frame atoi buffer of GotFrame frame rest \<Rightarrow> parse atoi buffer = POk frame rest \<and> length rest < length buffer
   | FramePanic \<Rightarrow> False | _ \<Rightarrow> True"
proof (cases "check atoi buffer")
  case (POk u rest)
  then have "drop (length buffer - length rest) buffer = rest" "length rest < length buffer"
    by (auto elim!: check_consumes)
  then show ?thesis using parses_check(1) [of atoi buffer] POk
    by (auto simp: parse_frame_def parses_def split: parsed.splits)
next
  case (PErr e)
  then show ?thesis by (cases e) (simp_all add: parse_frame_def)
qed (simp add: no_panic_check)

lemma read_frame_no_panic: "read_frame atoi buffer chunks \<noteq> ReadPanic"
proof (induction chunks arbitrary: buffer)
  case Nil
  then show ?case using parse_frame_cases [of atoi buffer]
    by (auto simp: read_frame.simps [of atoi buffer "[]"] split: frame_result.splits)
next
  case (Cons chunk chunks)
  then show ?case using parse_frame_cases [of atoi buffer]
    by (auto simp: read_frame.simps [of atoi buffer "chunk # chunks"] split: frame_result.splits chunk.splits)
qed

text \<open>(C36) Whatever bytes a client sends, in whatever pieces, and whatever \<^verbatim>\<open>atoi\<close> makes of its numbers, reading a frame
  does not panic: the check lets nothing through to the branch of the parser that is not implemented. A frame that is
  found in the buffer is the one that the parser reads there, and exactly the bytes that it has read are removed.\<close>

theorem read_frame_safe:
  "(case parse_frame atoi buffer of
      GotFrame frame rest \<Rightarrow> parse atoi buffer = POk frame rest \<and> length rest < length buffer
    | FramePanic \<Rightarrow> False
    | _ \<Rightarrow> True) \<and>
   read_frame atoi buffer chunks \<noteq> ReadPanic"
  using parse_frame_cases [of atoi buffer]
  by (auto simp: read_frame_no_panic split: frame_result.splits)

text \<open>(C37) Frames whose lines have no line break and are valid UTF-8 and whose arrays are nested at most three deep are
  written without a panic. Whatever pieces the bytes arrive in, the receiver reads these frames, in this order, and no
  others, and then the end of the stream; only an error is read as an owned string. The crate \<^verbatim>\<open>atoi\<close> has to read the
  numbers that are written.\<close>

theorem written_frames_read:
  assumes "\<And>n. atoi (i64_to_string n) = Some n" "list_all sendable fs" "list_all (\<lambda>f. nesting f \<le> 3) fs"
  shows "\<exists>bs. write_all write_frame fs = Some bs \<and>
    (\<forall>bufs gs. [] \<notin> set bufs \<longrightarrow> concat bufs = bs \<longrightarrow>
      (receives atoi [] (map Read bufs) gs \<longleftrightarrow> gs = map received fs))"
proof (intro exI [of _ "concat (map encode_frame fs)"] conjI allI impI)
  show "write_all write_frame fs = Some (concat (map encode_frame fs))"
    using write_all_encode [OF write_frame_encode, of fs] assms(3) by (simp add: list_all_iff)
  show "receives atoi [] (map Read bufs) gs \<longleftrightarrow> gs = map received fs"
    if "[] \<notin> set bufs" "concat bufs = concat (map encode_frame fs)" for bufs gs
    using receives_encoded [OF assms(1) assms(2), of "[]" bufs] that receives_det by auto
qed

definition sample_frames :: "Frame list" where
  "sample_frames = [Array [Bulk (ascii ''GET''), Bulk [13, 10]], ErrorString ''no'', Null]"

theorem written_frames_read_witness:
  "\<exists>bs. write_all write_frame sample_frames = Some bs \<and>
    (\<forall>bufs gs. [] \<notin> set bufs \<longrightarrow> concat bufs = bs \<longrightarrow>
      (receives parse_i64 [] (map Read bufs) gs \<longleftrightarrow>
        gs = [Array [Bulk (ascii ''GET''), Bulk [13, 10]], ErrorOwned (ascii ''no''), Null]))"
proof -
  have "map received sample_frames = [Array [Bulk (ascii ''GET''), Bulk [13, 10]], ErrorOwned (ascii ''no''), Null]"
    by (simp add: sample_frames_def)
  moreover have "list_all sendable sample_frames" "list_all (\<lambda>f. nesting f \<le> 3) sample_frames"
    by (simp_all add: sample_frames_def ascii_def line_ok_def utf8_valid_ascii)
  ultimately show ?thesis using written_frames_read [of parse_i64 sample_frames, OF parse_i64_to_string] by simp
qed

end
