(* ===== verification/Commands.thy ===== *)
theory Commands
  imports Frames Floats
begin

text \<open>
  Commands and how they are read from a request: \<^verbatim>\<open>src/parse.rs\<close>, the parsers of \<^verbatim>\<open>src/cmd/*.rs\<close> and
  \<^verbatim>\<open>Command::from_frame\<close>. A \<^verbatim>\<open>Parse\<close> is the list of the frames that are left. The structure of a command is spread over
  its constructor: the fields in the order of the source, the flag \<^verbatim>\<open>valid\<close> last. Parsers of the same text are
  one definition.
\<close>

section \<open>The cursor over a request\<close>

text \<open>Errors with the parts of their message.\<close>

datatype parse_message =
  ExpectedArray Frame
| ExpectedString Frame
| InvalidString
| InvalidNumber
| ExpectedInt Frame
| InvalidFloat
| Message string

datatype ParseError = EndOfStream | ParseOther parse_message

datatype 'a presult = ParseOk 'a | ParseErr ParseError | ParsePanic

type_synonym 'a parser = "Frame list \<Rightarrow> 'a presult \<times> Frame list"

definition pok :: "'a \<Rightarrow> 'a parser" where "pok x parts = (ParseOk x, parts)"
definition perr :: "parse_message \<Rightarrow> 'a parser" where "perr m parts = (ParseErr (ParseOther m), parts)"

definition pthen :: "'a parser \<Rightarrow> ('a \<Rightarrow> 'b parser) \<Rightarrow> 'b parser" where
  "pthen p f parts =
     (case p parts of
        (ParseOk x, parts') \<Rightarrow> f x parts'
      | (ParseErr e, parts') \<Rightarrow> (ParseErr e, parts')
      | (ParsePanic, parts') \<Rightarrow> (ParsePanic, parts'))"

definition parse_new :: "Frame \<Rightarrow> ParseError + Frame list" where
  "parse_new frame = (case frame of Array array \<Rightarrow> Inr array | frame \<Rightarrow> Inl (ParseOther (ExpectedArray frame)))"

fun next_frame :: "Frame parser" where
  "next_frame [] = (ParseErr EndOfStream, [])"
| "next_frame (frame # parts) = (ParseOk frame, parts)"

definition next_string :: "bytes parser" where
  "next_string = pthen next_frame (\<lambda>frame.
     case frame of
       Simple s \<Rightarrow> pok s
     | Bulk data \<Rightarrow> if utf8_valid data then pok data else perr InvalidString
     | frame \<Rightarrow> perr (ExpectedString frame))"

definition next_bytes :: "bytes parser" where
  "next_bytes = pthen next_frame (\<lambda>frame.
     case frame of
       Simple s \<Rightarrow> pok s
     | Bulk data \<Rightarrow> pok data
     | frame \<Rightarrow> perr (ExpectedString frame))"

definition next_int :: "i64 parser" where
  "next_int = pthen next_frame (\<lambda>frame.
     case frame of
       Integer v \<Rightarrow> pok v
     | Simple data \<Rightarrow> (case parse_i64 (utf8_lossy data) of Some value \<Rightarrow> pok value | None \<Rightarrow> perr InvalidNumber)
     | Bulk data \<Rightarrow> (case parse_i64 (utf8_lossy data) of Some value \<Rightarrow> pok value | None \<Rightarrow> perr InvalidNumber)
     | frame \<Rightarrow> perr (ExpectedInt frame))"

definition check_finish :: "Frame list \<Rightarrow> bool" where
  "check_finish parts \<longleftrightarrow> parts = []"

text \<open>\<^verbatim>\<open>if let Ok(x) = parse.next()\<close>: an error is dropped, its frame is consumed.\<close>

definition if_let_ok :: "'a parser \<Rightarrow> ('a \<Rightarrow> 'b parser) \<Rightarrow> 'b parser \<Rightarrow> 'b parser" where
  "if_let_ok p f g parts =
     (case p parts of
        (ParseOk x, parts') \<Rightarrow> f x parts'
      | (ParseErr e, parts') \<Rightarrow> g parts'
      | (ParsePanic, parts') \<Rightarrow> (ParsePanic, parts'))"

text \<open>\<^verbatim>\<open>while let Ok(x) = parse.next() { xs.push(x) }\<close>: what is collected after \<open>fuel\<close> rounds. There are as many rounds as
  frames, and one more to see the end.\<close>

primrec while_let_ok :: "nat \<Rightarrow> 'a parser \<Rightarrow> 'b \<Rightarrow> ('a \<Rightarrow> 'b \<Rightarrow> 'b parser) \<Rightarrow> 'b parser" where
  "while_let_ok 0 p acc body parts = (ParsePanic, parts)"
| "while_let_ok (Suc fuel) p acc body parts =
     if_let_ok p (\<lambda>x. pthen (body x acc) (\<lambda>acc'. while_let_ok fuel p acc' body)) (pok acc) parts"

definition while_let :: "'a parser \<Rightarrow> 'b \<Rightarrow> ('a \<Rightarrow> 'b \<Rightarrow> 'b parser) \<Rightarrow> 'b parser" where
  "while_let p acc body parts = while_let_ok (Suc (length parts)) p acc body parts"

definition collect :: "'a parser \<Rightarrow> 'a list parser" where
  "collect p = while_let p [] (\<lambda>x xs. pok (xs @ [x]))"

text \<open>\<^verbatim>\<open>parse::<f64>()?\<close> of a string.\<close>

definition parse_float :: "bytes \<Rightarrow> f64 parser" where
  "parse_float s = (case parse_f64 s of Some v \<Rightarrow> pok v | None \<Rightarrow> perr InvalidFloat)"

text \<open>\<^verbatim>\<open>unwrap()\<close>\<close>

definition punwrap :: "'a option \<Rightarrow> 'a parser" where
  "punwrap r = (\<lambda>parts. case r of Some x \<Rightarrow> (ParseOk x, parts) | None \<Rightarrow> (ParsePanic, parts))"

text \<open>The case mappings of Unicode, \<^verbatim>\<open>to_lowercase\<close> and \<^verbatim>\<open>to_uppercase\<close>, are a parameter. On ASCII they are what one
  expects.\<close>

record unicode =
  to_lowercase :: "bytes \<Rightarrow> bytes"
  to_uppercase :: "bytes \<Rightarrow> bytes"

definition to_upper :: "u8 \<Rightarrow> u8" where
  "to_upper b = (if 97 \<le> b \<and> b \<le> 122 then b - 32 else b)"

definition ascii_case :: "unicode \<Rightarrow> bool" where
  "ascii_case u \<longleftrightarrow>
     (\<forall>s. list_all (\<lambda>b. b < 128) s \<longrightarrow> to_lowercase u s = map to_lower s \<and> to_uppercase u s = map to_upper s)"

section \<open>Commands\<close>

text \<open>The variants of \<^verbatim>\<open>Command\<close>, in the groups of the source.\<close>

datatype KeyCommand =
  Del "bytes list" bool
| Get bytes bool
| Mget "bytes list" bool
| Set bytes bytes "i64 option" "bool option" bool
| SetNX bytes bytes bool
| SetEX bytes bytes i64 bool
| Mset "bytes list" "bytes list" bool
| Type bytes bool
| TTL bytes bool
| PTTL bytes bool
| Expire bytes i64 bool
| ExpireAt bytes i64 bool
| Pexpire bytes i64 bool
| PexpireAt bytes i64 bool
| Persist bytes bool
| Exists "bytes list" bool
| Incr bytes i64 bool
| Decr bytes i64 bool
| IncrBy bytes i64 bool
| DecrBy bytes i64 bool
| Strlen bytes bool
| Scan bytes i64 bytes bool
| Xscan bytes i64 bytes bool

datatype HashCommand =
  Hset bytes "kv_pair list" bool
| Hmset bytes "kv_pair list" bool
| Hsetnx bytes "kv_pair list" bool
| Hget bytes bytes bool
| Hmget bytes "bytes list" bool
| Hlen bytes bool
| Hgetall bytes bool
| Hdel bytes "bytes list" bool
| Hkeys bytes bool
| Hvals bytes bool
| Hincrby bytes bytes i64 bool
| Hexists bytes bytes bool
| Hstrlen bytes bytes bool

datatype ListCommand =
  Lpush bytes "bytes list" bool
| Rpush bytes "bytes list" bool
| Lpop bytes i64 bool
| Rpop bytes i64 bool
| Lrange bytes i64 i64 bool
| Llen bytes bool
| Lindex bytes i64 bool
| Lset bytes i64 bytes bool
| Ltrim bytes i64 i64 bool
| Lrem bytes i64 bytes bool
| Linsert bytes bool bytes bytes bool

datatype SetCommand =
  Sadd bytes "bytes list" bool
| Scard bytes bool
| Sismember bytes bytes bool
| Smismember bytes "bytes list" bool
| Smembers bytes bool
| Srandmember bytes "i64 option" bool
| Spop bytes i64 bool
| Srem bytes "bytes list" bool

datatype ZsetCommand =
  Zadd bytes "bytes list" "f64 list" "bool option" bool bool
| Zcard bytes bool
| Zscore bytes bytes bool
| Zrem bytes "bytes list" bool
| Zremrangebyscore bytes f64 f64 bool
| Zremrangebyrank bytes i64 i64 bool
| Zrange bytes i64 i64 bool bool bool
| Zrevrange bytes i64 i64 bool bool
| Zrangebyscore bytes f64 bool f64 bool bool bool
| Zrevrangebyscore bytes f64 bool f64 bool bool bool
| Zcount bytes f64 bool f64 bool bool
| Zpopmin bytes i64 bool
| Zpopmax bytes i64 bool
| Zrank bytes bytes bool
| Zincryby bytes f64 bytes bool

datatype Command =
  KeyCmd KeyCommand
| HashCmd HashCommand
| ListCmd ListCommand
| SetCmd SetCommand
| ZsetCmd ZsetCommand
| Publish bytes bytes bool
| Subscribe "bytes list" bool
| Unsubscribe "bytes list" bool
| Ping "bytes option" bool
| Eval bytes i64 "bytes list" "bytes list" bool
| Evalsha bytes i64 "bytes list" "bytes list" bool
| Script bytes bool "bytes list" bool bool bool bool
| Auth bytes bool
| Debug bytes bool
| Cluster bytes bool
| ReadWrite "bytes list" bool
| ReadOnly "bytes list" bool
| Client "bytes list" bool
| Info "bytes list" bool
| Multi
| Exec
| Discard
| Unknown bytes

section \<open>Parsers of keys, strings and counters\<close>

text \<open>One key; a list of keys; a key and a string; a key and strings.\<close>

definition parse_key :: "(bytes \<Rightarrow> bool \<Rightarrow> 'c) \<Rightarrow> 'c parser" where
  "parse_key mk = pthen next_string (\<lambda>key. pok (mk key True))"

definition parse_keys :: "(bytes list \<Rightarrow> bool \<Rightarrow> 'c) \<Rightarrow> 'c parser" where
  "parse_keys mk = pthen (collect next_string) (\<lambda>keys. pok (mk keys True))"

definition parse_key_field :: "(bytes \<Rightarrow> bytes \<Rightarrow> bool \<Rightarrow> 'c) \<Rightarrow> 'c parser" where
  "parse_key_field mk =
     pthen next_string (\<lambda>key. pthen next_string (\<lambda>field. pok (mk key field True)))"

definition parse_key_members :: "(bytes \<Rightarrow> bytes list \<Rightarrow> bool \<Rightarrow> 'c) \<Rightarrow> 'c parser" where
  "parse_key_members mk =
     pthen next_string (\<lambda>key. pthen (collect next_string) (\<lambda>members. pok (mk key members True)))"

definition parse_set :: "unicode \<Rightarrow> KeyCommand parser" where
  "parse_set u =
     pthen next_string (\<lambda>key.
     pthen next_bytes (\<lambda>value parts.
       case next_string parts of
         (ParseOk s, parts) \<Rightarrow>
           if to_uppercase u s = ascii ''EX'' then
             pthen next_int (\<lambda>secs. pok (Set key value (Some (secs * 1000)) None True)) parts
           else if to_uppercase u s = ascii ''PX'' then
             pthen next_int (\<lambda>ms. pok (Set key value (Some ms) None True)) parts
           else if to_uppercase u s = ascii ''NX'' then pok (Set key value None (Some True) True) parts
           else perr (Message ''currently `SET` only supports the expiration option'') parts
       | (ParseErr EndOfStream, parts) \<Rightarrow> pok (Set key value None None True) parts
       | (ParseErr err, parts) \<Rightarrow> (ParseErr err, parts)
       | (ParsePanic, parts) \<Rightarrow> (ParsePanic, parts)))"

definition parse_key_value :: "(bytes \<Rightarrow> bytes \<Rightarrow> bool \<Rightarrow> 'c) \<Rightarrow> 'c parser" where
  "parse_key_value mk = pthen next_string (\<lambda>key. pthen next_bytes (\<lambda>value. pok (mk key value True)))"

definition parse_setex :: "KeyCommand parser" where
  "parse_setex =
     pthen next_string (\<lambda>key. pthen next_int (\<lambda>uexpire. pthen next_bytes (\<lambda>value.
     pok (SetEX key value (uexpire * 1000) True))))"

text \<open>\<^verbatim>\<open>while let Ok(key) = parse.next_string() { if let Ok(val) = parse.next_bytes() { .. } else { return Err(..) } }\<close>\<close>

definition parse_pairs :: "kv_pair list parser" where
  "parse_pairs =
     while_let next_string [] (\<lambda>key kvs.
       if_let_ok next_bytes (\<lambda>val. pok (kvs @ [(key, val)])) (perr (Message ''protocol error'')))"

definition parse_mset :: "KeyCommand parser" where
  "parse_mset = pthen parse_pairs (\<lambda>kvs. pok (Mset (map fst kvs) (map snd kvs) True))"

definition parse_ping :: "Command parser" where
  "parse_ping parts =
     (case next_string parts of
        (ParseOk msg, parts) \<Rightarrow> pok (Ping (Some msg) True) parts
      | (ParseErr EndOfStream, parts) \<Rightarrow> pok (Ping None True) parts
      | (ParseErr e, parts) \<Rightarrow> (ParseErr e, parts)
      | (ParsePanic, parts) \<Rightarrow> (ParsePanic, parts))"

definition parse_key_int :: "(bytes \<Rightarrow> i64 \<Rightarrow> bool \<Rightarrow> 'c) \<Rightarrow> 'c parser" where
  "parse_key_int mk = pthen next_string (\<lambda>key. pthen next_int (\<lambda>n. pok (mk key n True)))"

definition parse_incrdecr :: "(bytes \<Rightarrow> i64 \<Rightarrow> bool \<Rightarrow> 'c) \<Rightarrow> bool \<Rightarrow> 'c parser" where
  "parse_incrdecr mk single_step =
     pthen next_string (\<lambda>key. pthen (if single_step then pok 1 else next_int) (\<lambda>step. pok (mk key step True)))"

definition parse_scan :: "unicode \<Rightarrow> (bytes \<Rightarrow> i64 \<Rightarrow> bytes \<Rightarrow> bool \<Rightarrow> 'c) \<Rightarrow> 'c parser" where
  "parse_scan u mk =
     pthen next_string (\<lambda>start.
     pthen (while_let next_string (10, ascii ''.*?'') (\<lambda>flag (count, regex).
       if to_uppercase u flag = ascii ''COUNT'' then if_let_ok next_int (\<lambda>c. pok (c, regex)) (pok (count, regex))
       else if to_uppercase u flag = ascii ''MATCH'' then pthen next_string (\<lambda>regex. pok (count, regex))
       else pok (count, regex))) (\<lambda>(count, regex).
     pok (mk start count regex True)))"

section \<open>Parsers of hashes, lists and sets\<close>

definition parse_hset :: "(bytes \<Rightarrow> kv_pair list \<Rightarrow> bool \<Rightarrow> 'c) \<Rightarrow> 'c parser" where
  "parse_hset mk = pthen next_string (\<lambda>key. pthen parse_pairs (\<lambda>field_and_value. pok (mk key field_and_value True)))"

definition parse_hincrby :: "HashCommand parser" where
  "parse_hincrby =
     pthen next_string (\<lambda>key. pthen next_string (\<lambda>field. pthen next_int (\<lambda>step. pok (Hincrby key field step True))))"

definition parse_push :: "(bytes \<Rightarrow> bytes list \<Rightarrow> bool \<Rightarrow> 'c) \<Rightarrow> 'c parser" where
  "parse_push mk = pthen next_string (\<lambda>key. pthen (collect next_bytes) (\<lambda>items. pok (mk key items True)))"

definition parse_key_count :: "(bytes \<Rightarrow> i64 \<Rightarrow> bool \<Rightarrow> 'c) \<Rightarrow> 'c parser" where
  "parse_key_count mk = pthen next_string (\<lambda>key. pthen (if_let_ok next_int pok (pok 1)) (\<lambda>count. pok (mk key count True)))"

definition parse_key_ints :: "(bytes \<Rightarrow> i64 \<Rightarrow> i64 \<Rightarrow> bool \<Rightarrow> 'c) \<Rightarrow> 'c parser" where
  "parse_key_ints mk =
     pthen next_string (\<lambda>key. pthen next_int (\<lambda>left. pthen next_int (\<lambda>right. pok (mk key left right True))))"

definition parse_key_int_bytes :: "(bytes \<Rightarrow> i64 \<Rightarrow> bytes \<Rightarrow> bool \<Rightarrow> 'c) \<Rightarrow> 'c parser" where
  "parse_key_int_bytes mk =
     pthen next_string (\<lambda>key. pthen next_int (\<lambda>idx. pthen next_bytes (\<lambda>element. pok (mk key idx element True))))"

definition parse_linsert :: "unicode \<Rightarrow> ListCommand parser" where
  "parse_linsert u =
     pthen next_string (\<lambda>key. pthen next_string (\<lambda>pos.
       if to_lowercase u pos = ascii ''before'' \<or> to_lowercase u pos = ascii ''after'' then
         pthen next_bytes (\<lambda>pivot. pthen next_bytes (\<lambda>element.
         pok (Linsert key (to_lowercase u pos = ascii ''before'') pivot element True)))
       else pok (Linsert [] False [] [] False)))"

definition parse_srandmember :: "SetCommand parser" where
  "parse_srandmember =
     pthen next_string (\<lambda>key. pthen (if_let_ok next_int (\<lambda>v. pok (Some v)) (pok None)) (\<lambda>count. pok (Srandmember key count True)))"

section \<open>Parsers of sorted sets\<close>

text \<open>\<^verbatim>\<open>ZADD\<close>: the flags up to the first score, then the members and the other scores.\<close>

primrec parse_zadd_flags :: "nat \<Rightarrow> unicode \<Rightarrow> bool option \<Rightarrow> bool \<Rightarrow> (bool option \<times> bool \<times> f64) parser" where
  "parse_zadd_flags 0 u exists changed_only = (\<lambda>parts. (ParsePanic, parts))"
| "parse_zadd_flags (Suc fuel) u exists changed_only =
     pthen next_string (\<lambda>s.
       if to_uppercase u s = ascii ''NX'' then parse_zadd_flags fuel u (Some False) changed_only
       else if to_uppercase u s = ascii ''XX'' then parse_zadd_flags fuel u (Some True) changed_only
       else if to_uppercase u s = ascii ''CH'' then parse_zadd_flags fuel u exists True
       else if to_uppercase u s \<in> {ascii ''GT'', ascii ''LT'', ascii ''INCR''} then parse_zadd_flags fuel u exists changed_only
       else pthen (parse_float (utf8_lossy s)) (\<lambda>score. pok (exists, changed_only, score)))"

definition parse_zadd :: "unicode \<Rightarrow> ZsetCommand parser" where
  "parse_zadd u =
     pthen next_string (\<lambda>key.
     pthen (\<lambda>parts. parse_zadd_flags (Suc (length parts)) u None False parts) (\<lambda>(exists, changed_only, score).
     pthen next_string (\<lambda>member.
     pthen (while_let next_string ([member], [score]) (\<lambda>str_score (members, scores).
       pthen next_string (\<lambda>member.
       pthen (parse_float (utf8_lossy str_score)) (\<lambda>score. pok (members @ [member], scores @ [score]))))) (\<lambda>(members, scores).
     pok (Zadd key members scores exists changed_only True)))))"

definition parse_zremrangebyscore :: "ZsetCommand parser" where
  "parse_zremrangebyscore =
     pthen next_string (\<lambda>key.
     pthen next_string (\<lambda>s. pthen (parse_float s) (\<lambda>min.
     pthen next_string (\<lambda>s. pthen (parse_float s) (\<lambda>max.
     pok (Zremrangebyscore key min max True))))))"

definition parse_zrange :: "unicode \<Rightarrow> ZsetCommand parser" where
  "parse_zrange u =
     pthen next_string (\<lambda>key. pthen next_int (\<lambda>min. pthen next_int (\<lambda>max.
     pthen (while_let next_string (False, False) (\<lambda>v (withscores, reverse).
       if to_uppercase u v = ascii ''REV'' then pok (withscores, True)
       else if to_uppercase u v = ascii ''WITHSCORES'' then pok (True, reverse)
       else pok (withscores, reverse))) (\<lambda>(withscores, reverse).
     pok (Zrange key min max withscores reverse True)))))"

definition parse_zrevrange :: "unicode \<Rightarrow> ZsetCommand parser" where
  "parse_zrevrange u =
     pthen next_string (\<lambda>key. pthen next_int (\<lambda>min. pthen next_int (\<lambda>max.
     pthen (while_let next_string False (\<lambda>v withscores. pok (withscores \<or> to_uppercase u v = ascii ''WITHSCORES''))) (\<lambda>withscores.
     pok (Zrevrange key min max withscores True)))))"

definition f64_MAX :: f64 where "f64_MAX = 0x7FEFFFFFFFFFFFFF"
definition f64_MIN :: f64 where "f64_MIN = 0xFFEFFFFFFFFFFFFF"

text \<open>One bound of a range of scores: whether it is inclusive, and its value. \<^verbatim>\<open>bmin[0]\<close> of no bytes panics, as does a number
  that cannot be parsed.\<close>

definition parse_score_bound :: "bytes \<Rightarrow> (bool \<times> f64) parser" where
  "parse_score_bound b =
     (if b = [] then (\<lambda>parts. (ParsePanic, parts))
      else if hd b = 40 then pthen (punwrap (parse_f64 (utf8_lossy (tl b)))) (\<lambda>v. pok (False, v))
      else if b = ascii ''-inf'' then pok (True, f64_MIN)
      else if b = ascii ''+inf'' then pok (True, f64_MAX)
      else pthen (punwrap (parse_f64 (utf8_lossy b))) (\<lambda>v. pok (True, v)))"

definition parse_zrangebyscore ::
  "unicode \<Rightarrow> (bytes \<Rightarrow> f64 \<Rightarrow> bool \<Rightarrow> f64 \<Rightarrow> bool \<Rightarrow> bool \<Rightarrow> bool \<Rightarrow> 'c) \<Rightarrow> 'c parser" where
  "parse_zrangebyscore u mk =
     pthen next_string (\<lambda>key.
     pthen next_bytes (\<lambda>bmin. pthen (parse_score_bound bmin) (\<lambda>(min_inclusive, min).
     pthen next_bytes (\<lambda>bmax. pthen (parse_score_bound bmax) (\<lambda>(max_inclusive, max).
     pthen (while_let next_string False (\<lambda>v withscores. pok (withscores \<or> to_uppercase u v = ascii ''WITHSCORES''))) (\<lambda>withscores.
     pok (mk key min min_inclusive max max_inclusive withscores True)))))))"

text \<open>\<^verbatim>\<open>ZCOUNT\<close> has no names for the infinities of its own: \<^verbatim>\<open>parse::<f64>\<close> reads them.\<close>

definition parse_count_bound :: "bytes \<Rightarrow> (bool \<times> f64) parser" where
  "parse_count_bound b =
     (if b = [] then (\<lambda>parts. (ParsePanic, parts))
      else if hd b = 40 then pthen (punwrap (parse_f64 (utf8_lossy (tl b)))) (\<lambda>v. pok (False, v))
      else pthen (punwrap (parse_f64 (utf8_lossy b))) (\<lambda>v. pok (True, v)))"

definition parse_zcount :: "ZsetCommand parser" where
  "parse_zcount =
     pthen next_string (\<lambda>key.
     pthen next_bytes (\<lambda>bmin. pthen (parse_count_bound bmin) (\<lambda>(min_inclusive, min).
     pthen next_bytes (\<lambda>bmax. pthen (parse_count_bound bmax) (\<lambda>(max_inclusive, max).
     pok (Zcount key min min_inclusive max max_inclusive True))))))"

definition parse_zincrby :: "ZsetCommand parser" where
  "parse_zincrby =
     pthen next_string (\<lambda>key. pthen next_bytes (\<lambda>step_byte. pthen next_string (\<lambda>member.
     pthen (parse_float (utf8_lossy step_byte)) (\<lambda>step. pok (Zincryby key step member True)))))"

section \<open>Other parsers\<close>

text \<open>\<^verbatim>\<open>SUBSCRIBE\<close> and \<^verbatim>\<open>UNSUBSCRIBE\<close> read strings up to the end; a frame that is none is an error for the one and makes the other
  invalid.\<close>

fun parse_channels :: "bytes list \<Rightarrow> bytes list parser" where
  "parse_channels channels [] = (ParseOk channels, [])"
| "parse_channels channels (frame # parts) =
     pthen next_string (\<lambda>s _. parse_channels (channels @ [s]) parts) (frame # parts)"

definition parse_subscribe :: "Command parser" where
  "parse_subscribe =
     pthen next_string (\<lambda>channel. pthen (parse_channels [channel]) (\<lambda>channels. pok (Subscribe channels True)))"

definition parse_unsubscribe :: "Command parser" where
  "parse_unsubscribe =
     if_let_ok (parse_channels []) (\<lambda>channels. pok (Unsubscribe channels True)) (pok (Unsubscribe [] False))"

primrec parse_eval_keys :: "nat \<Rightarrow> bytes list parser" where
  "parse_eval_keys 0 = pok []"
| "parse_eval_keys (Suc n) =
     if_let_ok next_string (\<lambda>key. pthen (parse_eval_keys n) (\<lambda>keys. pok (key # keys))) (pok [])"

definition parse_eval :: "(bytes \<Rightarrow> i64 \<Rightarrow> bytes list \<Rightarrow> bytes list \<Rightarrow> bool \<Rightarrow> 'c) \<Rightarrow> 'c parser" where
  "parse_eval mk =
     pthen next_string (\<lambda>script. pthen next_int (\<lambda>numkeys.
       if sint numkeys < 0 then pok (mk [] 0 [] [] False)
       else
         pthen (parse_eval_keys (nat (sint numkeys))) (\<lambda>keys.
         pthen (collect next_bytes) (\<lambda>args.
         pok (mk script numkeys keys args True)))))"

definition parse_script :: "unicode \<Rightarrow> Command parser" where
  "parse_script u =
     pthen next_string (\<lambda>subcommand.
       let sub = to_uppercase u subcommand;
           cmd = (\<lambda>script sha1_vec. Script script (sub = ascii ''LOAD'') sha1_vec (sub = ascii ''EXISTS'')
                   (sub = ascii ''FLUSH'') (sub = ascii ''KILL'') True)
       in if sub = ascii ''LOAD'' then pthen next_string (\<lambda>script. pok (cmd script []))
          else if sub = ascii ''EXISTS'' then pthen (collect next_string) (\<lambda>sha1_vec. pok (cmd [] sha1_vec))
          else pok (cmd [] []))"

definition parse_fake :: "(bytes list \<Rightarrow> bool \<Rightarrow> 'c) \<Rightarrow> bool \<Rightarrow> 'c parser" where
  "parse_fake mk needs_args =
     pthen (collect next_string) (\<lambda>args. pok (if needs_args \<and> args = [] then mk [] False else mk args True))"

section \<open>From a frame to a command\<close>

text \<open>\<^verbatim>\<open>transform_parse\<close>: a request that cannot be parsed or is not at its end is the invalid command.\<close>

datatype 'a parsed_command = Command 'a | CommandError ParseError | CommandPanic

definition transform_parse :: "'c \<Rightarrow> 'c parser \<Rightarrow> Frame list \<Rightarrow> 'c parsed_command" where
  "transform_parse new_invalid p parts =
     (case p parts of
        (ParseOk cmd, parts') \<Rightarrow> Command (if check_finish parts' then cmd else new_invalid)
      | (ParseErr _, parts') \<Rightarrow> Command new_invalid
      | (ParsePanic, parts') \<Rightarrow> CommandPanic)"

text \<open>The match on the command name, group by group.\<close>

definition key_command :: "unicode \<Rightarrow> bytes \<Rightarrow> Frame list \<Rightarrow> KeyCommand parsed_command option" where
  "key_command u name parts =
     (if name = ascii ''del'' then Some (transform_parse (Del [] False) (parse_keys Del) parts)
      else if name = ascii ''get'' then Some (transform_parse (Get [] False) (parse_key Get) parts)
      else if name = ascii ''set'' then Some (transform_parse (Set [] [] None None False) (parse_set u) parts)
      else if name = ascii ''setnx'' then Some (transform_parse (SetNX [] [] False) (parse_key_value SetNX) parts)
      else if name = ascii ''setex'' then Some (transform_parse (SetEX [] [] 0 False) parse_setex parts)
      else if name = ascii ''type'' then Some (transform_parse (Type [] False) (parse_key Type) parts)
      else if name = ascii ''mget'' then Some (transform_parse (Mget [] False) (parse_keys Mget) parts)
      else if name = ascii ''mset'' then Some (transform_parse (Mset [] [] False) parse_mset parts)
      else if name = ascii ''ttl'' then Some (transform_parse (TTL [] False) (parse_key TTL) parts)
      else if name = ascii ''pttl'' then Some (transform_parse (PTTL [] False) (parse_key PTTL) parts)
      else if name = ascii ''expire'' then Some (transform_parse (Expire [] 0 False) (parse_key_int Expire) parts)
      else if name = ascii ''expireat'' then Some (transform_parse (ExpireAt [] 0 False) (parse_key_int ExpireAt) parts)
      else if name = ascii ''pexpire'' then Some (transform_parse (Pexpire [] 0 False) (parse_key_int Pexpire) parts)
      else if name = ascii ''pexpireat'' then Some (transform_parse (PexpireAt [] 0 False) (parse_key_int PexpireAt) parts)
      else if name = ascii ''persist'' then Some (transform_parse (Persist [] False) (parse_key Persist) parts)
      else if name = ascii ''exists'' then Some (transform_parse (Exists [] False) (parse_keys Exists) parts)
      else if name = ascii ''incr'' then Some (transform_parse (Incr [] 0 False) (parse_incrdecr Incr True) parts)
      else if name = ascii ''decr'' then Some (transform_parse (Decr [] 0 False) (parse_incrdecr Decr True) parts)
      else if name = ascii ''incrby'' then Some (transform_parse (IncrBy [] 0 False) (parse_incrdecr IncrBy False) parts)
      else if name = ascii ''decrby'' then Some (transform_parse (DecrBy [] 0 False) (parse_incrdecr DecrBy False) parts)
      else if name = ascii ''strlen'' then Some (transform_parse (Strlen [] False) (parse_key Strlen) parts)
      else if name = ascii ''scan'' \<or> name = ascii ''xscan'' then
        Some (transform_parse (Scan [] 0 [] False) (parse_scan u Scan) parts)
      else None)"

definition hash_command :: "bytes \<Rightarrow> Frame list \<Rightarrow> HashCommand parsed_command option" where
  "hash_command name parts =
     (if name = ascii ''hset'' then Some (transform_parse (Hset [] [] False) (parse_hset Hset) parts)
      else if name = ascii ''hsetnx'' then Some (transform_parse (Hsetnx [] [] False) (parse_hset Hsetnx) parts)
      else if name = ascii ''hmset'' then Some (transform_parse (Hmset [] [] False) (parse_hset Hmset) parts)
      else if name = ascii ''hget'' then Some (transform_parse (Hget [] [] False) (parse_key_field Hget) parts)
      else if name = ascii ''hmget'' then Some (transform_parse (Hmget [] [] False) (parse_key_members Hmget) parts)
      else if name = ascii ''hlen'' then Some (transform_parse (Hlen [] False) (parse_key Hlen) parts)
      else if name = ascii ''hgetall'' then Some (transform_parse (Hgetall [] False) (parse_key Hgetall) parts)
      else if name = ascii ''hdel'' then Some (transform_parse (Hdel [] [] False) (parse_key_members Hdel) parts)
      else if name = ascii ''hkeys'' then Some (transform_parse (Hkeys [] False) (parse_key Hkeys) parts)
      else if name = ascii ''hvals'' then Some (transform_parse (Hvals [] False) (parse_key Hvals) parts)
      else if name = ascii ''hincrby'' then Some (transform_parse (Hincrby [] [] 0 False) parse_hincrby parts)
      else if name = ascii ''hexists'' then Some (transform_parse (Hexists [] [] False) (parse_key_field Hexists) parts)
      else if name = ascii ''hstrlen'' then Some (transform_parse (Hstrlen [] [] False) (parse_key_field Hstrlen) parts)
      else None)"

definition list_command :: "unicode \<Rightarrow> bytes \<Rightarrow> Frame list \<Rightarrow> ListCommand parsed_command option" where
  "list_command u name parts =
     (if name = ascii ''lpush'' then Some (transform_parse (Lpush [] [] False) (parse_push Lpush) parts)
      else if name = ascii ''rpush'' then Some (transform_parse (Rpush [] [] False) (parse_push Rpush) parts)
      else if name = ascii ''lpop'' then Some (transform_parse (Lpop [] 0 False) (parse_key_count Lpop) parts)
      else if name = ascii ''rpop'' then Some (transform_parse (Rpop [] 0 False) (parse_key_count Rpop) parts)
      else if name = ascii ''lrange'' then Some (transform_parse (Lrange [] 0 0 False) (parse_key_ints Lrange) parts)
      else if name = ascii ''llen'' then Some (transform_parse (Llen [] False) (parse_key Llen) parts)
      else if name = ascii ''lindex'' then Some (transform_parse (Lindex [] 0 False) (parse_key_int Lindex) parts)
      else if name = ascii ''lset'' then Some (transform_parse (Lset [] 0 [] False) (parse_key_int_bytes Lset) parts)
      else if name = ascii ''ltrim'' then Some (transform_parse (Ltrim [] 0 0 False) (parse_key_ints Ltrim) parts)
      else if name = ascii ''lrem'' then Some (transform_parse (Lrem [] 0 [] False) (parse_key_int_bytes Lrem) parts)
      else if name = ascii ''linsert'' then Some (transform_parse (Linsert [] False [] [] False) (parse_linsert u) parts)
      else None)"

definition set_command :: "bytes \<Rightarrow> Frame list \<Rightarrow> SetCommand parsed_command option" where
  "set_command name parts =
     (if name = ascii ''sadd'' then Some (transform_parse (Sadd [] [] False) (parse_key_members Sadd) parts)
      else if name = ascii ''scard'' then Some (transform_parse (Scard [] False) (parse_key Scard) parts)
      else if name = ascii ''sismember'' then Some (transform_parse (Sismember [] [] False) (parse_key_field Sismember) parts)
      else if name = ascii ''smismember'' then Some (transform_parse (Smismember [] [] False) (parse_key_members Smismember) parts)
      else if name = ascii ''smembers'' then Some (transform_parse (Smembers [] False) (parse_key Smembers) parts)
      else if name = ascii ''srandmember'' then Some (transform_parse (Srandmember [] None False) parse_srandmember parts)
      else if name = ascii ''spop'' then Some (transform_parse (Spop [] 0 False) (parse_key_count Spop) parts)
      else if name = ascii ''srem'' then Some (transform_parse (Srem [] [] False) (parse_key_members Srem) parts)
      else None)"

definition zset_command :: "unicode \<Rightarrow> bytes \<Rightarrow> Frame list \<Rightarrow> ZsetCommand parsed_command option" where
  "zset_command u name parts =
     (if name = ascii ''zadd'' then Some (transform_parse (Zadd [] [] [] None False False) (parse_zadd u) parts)
      else if name = ascii ''zcard'' then Some (transform_parse (Zcard [] False) (parse_key Zcard) parts)
      else if name = ascii ''zscore'' then Some (transform_parse (Zscore [] [] False) (parse_key_field Zscore) parts)
      else if name = ascii ''zrem'' then Some (transform_parse (Zrem [] [] False) (parse_key_members Zrem) parts)
      else if name = ascii ''zremrangebyscore'' then
        Some (transform_parse (Zremrangebyscore [] 0 0 False) parse_zremrangebyscore parts)
      else if name = ascii ''zremrangebyrank'' then
        Some (transform_parse (Zremrangebyrank [] 0 0 False) (parse_key_ints Zremrangebyrank) parts)
      else if name = ascii ''zrange'' then Some (transform_parse (Zrange [] 0 0 False False False) (parse_zrange u) parts)
      else if name = ascii ''zrevrange'' then Some (transform_parse (Zrevrange [] 0 0 False False) (parse_zrevrange u) parts)
      else if name = ascii ''zrangebyscore'' then
        Some (transform_parse (Zrangebyscore [] 0 False 0 False False False) (parse_zrangebyscore u Zrangebyscore) parts)
      else if name = ascii ''zrevrangebyscore'' then
        Some (transform_parse (Zrevrangebyscore [] 0 False 0 False False False) (parse_zrangebyscore u Zrevrangebyscore) parts)
      else if name = ascii ''zcount'' then Some (transform_parse (Zcount [] 0 False 0 False False) parse_zcount parts)
      else if name = ascii ''zpopmin'' then Some (transform_parse (Zpopmin [] 0 False) (parse_key_count Zpopmin) parts)
      else if name = ascii ''zpopmax'' then Some (transform_parse (Zpopmax [] 0 False) (parse_key_count Zpopmax) parts)
      else if name = ascii ''zrank'' then Some (transform_parse (Zrank [] [] False) (parse_key_field Zrank) parts)
      else if name = ascii ''zincrby'' then Some (transform_parse (Zincryby [] 0 [] False) parse_zincrby parts)
      else None)"

text \<open>\<^verbatim>\<open>Script::new_invalid\<close> has \<^verbatim>\<open>valid: true\<close>.\<close>

definition other_command :: "unicode \<Rightarrow> bytes \<Rightarrow> Frame list \<Rightarrow> Command parsed_command option" where
  "other_command u name parts =
     (if name = ascii ''publish'' then Some (transform_parse (Publish [] [] False) (parse_key_value Publish) parts)
      else if name = ascii ''subscribe'' then Some (transform_parse (Subscribe [] False) parse_subscribe parts)
      else if name = ascii ''unsubscribe'' then Some (transform_parse (Unsubscribe [] False) parse_unsubscribe parts)
      else if name = ascii ''ping'' then Some (transform_parse (Ping None False) parse_ping parts)
      else if name = ascii ''eval'' then Some (transform_parse (Eval [] 0 [] [] False) (parse_eval Eval) parts)
      else if name = ascii ''evalsha'' then Some (transform_parse (Evalsha [] 0 [] [] False) (parse_eval Evalsha) parts)
      else if name = ascii ''script'' then
        Some (transform_parse (Script [] False [] False False False True) (parse_script u) parts)
      else if name = ascii ''auth'' then Some (transform_parse (Auth [] False) (parse_key Auth) parts)
      else if name = ascii ''debug'' then Some (transform_parse (Debug [] False) (parse_key Debug) parts)
      else if name = ascii ''cluster'' then Some (transform_parse (Cluster [] False) (parse_key Cluster) parts)
      else if name = ascii ''readwrite'' then Some (transform_parse (ReadWrite [] False) (parse_fake ReadWrite False) parts)
      else if name = ascii ''readonly'' then Some (transform_parse (ReadOnly [] False) (parse_fake ReadOnly False) parts)
      else if name = ascii ''client'' then Some (transform_parse (Client [] False) (parse_fake Client True) parts)
      else if name = ascii ''info'' then Some (transform_parse (Info [] False) (parse_fake Info True) parts)
      else if name = ascii ''multi'' then Some (Command Multi)
      else if name = ascii ''exec'' then Some (Command Exec)
      else if name = ascii ''discard'' then Some (Command Discard)
      else None)"

primrec map_command :: "('a \<Rightarrow> 'b) \<Rightarrow> 'a parsed_command \<Rightarrow> 'b parsed_command" where
  "map_command f (Command c) = Command (f c)"
| "map_command f (CommandError e) = CommandError e"
| "map_command f CommandPanic = CommandPanic"

primrec or_else :: "'a option \<Rightarrow> 'a option \<Rightarrow> 'a option" where
  "or_else None r = r"
| "or_else (Some x) r = Some x"

definition named_command :: "unicode \<Rightarrow> bytes \<Rightarrow> Frame list \<Rightarrow> Command parsed_command" where
  "named_command u name parts =
     (case or_else (map_option (map_command KeyCmd) (key_command u name parts))
          (or_else (map_option (map_command HashCmd) (hash_command name parts))
          (or_else (map_option (map_command ListCmd) (list_command u name parts))
          (or_else (map_option (map_command SetCmd) (set_command name parts))
          (or_else (map_option (map_command ZsetCmd) (zset_command u name parts))
            (other_command u name parts))))) of
        Some r \<Rightarrow> r
      | None \<Rightarrow> Command (Unknown name))"

text \<open>At the end \<^verbatim>\<open>check_and_ensure_finish\<close> drops what is left of the request; its answer is not used.\<close>

definition from_frame :: "unicode \<Rightarrow> Frame \<Rightarrow> Command parsed_command" where
  "from_frame u frame =
     (case parse_new frame of
        Inl e \<Rightarrow> CommandError e
      | Inr parts \<Rightarrow>
          (case next_string parts of
             (ParseOk s, parts) \<Rightarrow> named_command u (to_lowercase u s) parts
           | (ParseErr e, parts) \<Rightarrow> CommandError e
           | (ParsePanic, parts) \<Rightarrow> CommandPanic))"

text \<open>\<^verbatim>\<open>Command::get_name\<close>\<close>

fun key_command_name :: "KeyCommand \<Rightarrow> string" where
  "key_command_name (Del _ _) = ''del''"
| "key_command_name (Get _ _) = ''get''"
| "key_command_name (Set _ _ _ _ _) = ''set''"
| "key_command_name (SetNX _ _ _) = ''setnx''"
| "key_command_name (SetEX _ _ _ _) = ''setex''"
| "key_command_name (Type _ _) = ''type''"
| "key_command_name (Mget _ _) = ''mget''"
| "key_command_name (Mset _ _ _) = ''mset''"
| "key_command_name (TTL _ _) = ''ttl''"
| "key_command_name (PTTL _ _) = ''pttl''"
| "key_command_name (Expire _ _ _) = ''expire''"
| "key_command_name (ExpireAt _ _ _) = ''expireat''"
| "key_command_name (Pexpire _ _ _) = ''pexpire''"
| "key_command_name (PexpireAt _ _ _) = ''pexpireat''"
| "key_command_name (Persist _ _) = ''persist''"
| "key_command_name (Exists _ _) = ''exists''"
| "key_command_name (Incr _ _ _) = ''incr''"
| "key_command_name (Decr _ _ _) = ''decr''"
| "key_command_name (IncrBy _ _ _) = ''incrby''"
| "key_command_name (DecrBy _ _ _) = ''decrby''"
| "key_command_name (Strlen _ _) = ''strlen''"
| "key_command_name (Scan _ _ _ _) = ''scan''"
| "key_command_name (Xscan _ _ _ _) = ''xscan''"

fun hash_command_name :: "HashCommand \<Rightarrow> string" where
  "hash_command_name (Hset _ _ _) = ''hset''"
| "hash_command_name (Hmset _ _ _) = ''hmset''"
| "hash_command_name (Hsetnx _ _ _) = ''hsetnx''"
| "hash_command_name (Hget _ _ _) = ''hget''"
| "hash_command_name (Hmget _ _ _) = ''hmget''"
| "hash_command_name (Hlen _ _) = ''hlen''"
| "hash_command_name (Hgetall _ _) = ''hgetall''"
| "hash_command_name (Hdel _ _ _) = ''hdel''"
| "hash_command_name (Hkeys _ _) = ''hkeys''"
| "hash_command_name (Hvals _ _) = ''hvals''"
| "hash_command_name (Hincrby _ _ _ _) = ''hincrby''"
| "hash_command_name (Hexists _ _ _) = ''hexists''"
| "hash_command_name (Hstrlen _ _ _) = ''hstrlen''"

fun list_command_name :: "ListCommand \<Rightarrow> string" where
  "list_command_name (Lpush _ _ _) = ''lpush''"
| "list_command_name (Rpush _ _ _) = ''rpush''"
| "list_command_name (Lpop _ _ _) = ''lpop''"
| "list_command_name (Rpop _ _ _) = ''rpop''"
| "list_command_name (Lrange _ _ _ _) = ''lrange''"
| "list_command_name (Llen _ _) = ''llen''"
| "list_command_name (Lindex _ _ _) = ''lindex''"
| "list_command_name (Lset _ _ _ _) = ''lset''"
| "list_command_name (Ltrim _ _ _ _) = ''ltrim''"
| "list_command_name (Lrem _ _ _ _) = ''lrem''"
| "list_command_name (Linsert _ _ _ _ _) = ''linsert''"

fun set_command_name :: "SetCommand \<Rightarrow> string" where
  "set_command_name (Sadd _ _ _) = ''sadd''"
| "set_command_name (Scard _ _) = ''scard''"
| "set_command_name (Sismember _ _ _) = ''sismember''"
| "set_command_name (Smismember _ _ _) = ''smismember''"
| "set_command_name (Smembers _ _) = ''smembers''"
| "set_command_name (Srandmember _ _ _) = ''srandmember''"
| "set_command_name (Spop _ _ _) = ''spop''"
| "set_command_name (Srem _ _ _) = ''srem''"

fun zset_command_name :: "ZsetCommand \<Rightarrow> string" where
  "zset_command_name (Zadd _ _ _ _ _ _) = ''zadd''"
| "zset_command_name (Zcard _ _) = ''zcard''"
| "zset_command_name (Zscore _ _ _) = ''zscore''"
| "zset_command_name (Zrem _ _ _) = ''zrem''"
| "zset_command_name (Zremrangebyscore _ _ _ _) = ''zremrangebyscore''"
| "zset_command_name (Zremrangebyrank _ _ _ _) = ''zremrangebyrank''"
| "zset_command_name (Zrange _ _ _ _ _ _) = ''zrange''"
| "zset_command_name (Zrevrange _ _ _ _ _) = ''zrevrange''"
| "zset_command_name (Zrangebyscore _ _ _ _ _ _ _) = ''zrangebyscore''"
| "zset_command_name (Zrevrangebyscore _ _ _ _ _ _ _) = ''zrevrangebyscore''"
| "zset_command_name (Zcount _ _ _ _ _ _) = ''zcount''"
| "zset_command_name (Zpopmin _ _ _) = ''zpopmin''"
| "zset_command_name (Zpopmax _ _ _) = ''zpopmax''"
| "zset_command_name (Zrank _ _ _) = ''zrank''"
| "zset_command_name (Zincryby _ _ _ _) = ''zincrby''"

fun get_name :: "Command \<Rightarrow> bytes" where
  "get_name (KeyCmd cmd) = ascii (key_command_name cmd)"
| "get_name (HashCmd cmd) = ascii (hash_command_name cmd)"
| "get_name (ListCmd cmd) = ascii (list_command_name cmd)"
| "get_name (SetCmd cmd) = ascii (set_command_name cmd)"
| "get_name (ZsetCmd cmd) = ascii (zset_command_name cmd)"
| "get_name (Publish _ _ _) = ascii ''pub''"
| "get_name (Subscribe _ _) = ascii ''subscribe''"
| "get_name (Unsubscribe _ _) = ascii ''unsubscribe''"
| "get_name (Ping _ _) = ascii ''ping''"
| "get_name (Eval _ _ _ _ _) = ascii ''eval''"
| "get_name (Evalsha _ _ _ _ _) = ascii ''evalsha''"
| "get_name (Script _ _ _ _ _ _ _) = ascii ''script''"
| "get_name (Auth _ _) = ascii ''auth''"
| "get_name (Debug _ _) = ascii ''debug''"
| "get_name (Cluster _ _) = ascii ''cluster''"
| "get_name (ReadWrite _ _) = ascii ''readwrite''"
| "get_name (ReadOnly _ _) = ascii ''readonly''"
| "get_name (Client _ _) = ascii ''client''"
| "get_name (Info _ _) = ascii ''info''"
| "get_name Multi = ascii ''multi''"
| "get_name Exec = ascii ''exec''"
| "get_name Discard = ascii ''discard''"
| "get_name (Unknown name) = name"

end
