(* ===== verification/Dispatch.thy ===== *)
theory Dispatch
  imports Commands Strings Lists Hashes Sets Zsets Keys
begin

text \<open>
  Commands at work: from a parsed command to the method of its context (\<^verbatim>\<open>src/cmd/*.rs\<close>), the transactions of \<^verbatim>\<open>MULTI\<close>
  (\<^verbatim>\<open>src/cmd/multi.rs\<close>) and the state of a connection (\<^verbatim>\<open>Handler::run\<close> of \<^verbatim>\<open>src/server.rs\<close>).
\<close>

section \<open>Executing a command\<close>

definition REDIS_NOT_SUPPORTED_ERR :: RTError where
  "REDIS_NOT_SUPPORTED_ERR = RTString ''ERR not supported''"

text \<open>What the crates \<^verbatim>\<open>regex\<close> and \<^verbatim>\<open>rand\<close> provide, and the bound on the rounds of \<^verbatim>\<open>SCAN\<close>.\<close>

record 'g crates =
  regex_new :: "bytes \<Rightarrow> (bytes \<Rightarrow> bool) option"
  rand :: "'g rng"
  scan_fuel :: nat

text \<open>The frame that every method of a command has: an invalid command is refused, and so is a command of
  transactions when the server runs on the raw interface.\<close>

definition when_valid :: "bool \<Rightarrow> Frame action \<Rightarrow> Frame action" where
  "when_valid valid p = (if \<not> valid then Return resp_invalid_arguments else p)"

definition txn_or_raw :: "env \<Rightarrow> Frame action \<Rightarrow> Frame action \<Rightarrow> Frame action" where
  "txn_or_raw env p q = (if is_use_txn_api (SERVER_CONFIG env) then p else q)"

definition txn_command :: "env \<Rightarrow> bool \<Rightarrow> Frame action \<Rightarrow> Frame action" where
  "txn_command env valid p = when_valid valid (txn_or_raw env p (Return (resp_err REDIS_NOT_SUPPORTED_ERR)))"

definition set_put :: "env \<Rightarrow> bool \<Rightarrow> bytes \<Rightarrow> bytes \<Rightarrow> i64 option \<Rightarrow> Frame action" where
  "set_put env in_txn key value expire =
     txn_or_raw env
       (do_async_txnkv_put env in_txn key value
          (case expire of Some ttl \<Rightarrow> timestamp_from_ttl env ttl | None \<Rightarrow> 0))
       (do_async_rawkv_put env key value)"

definition set_put_not_exists :: "env \<Rightarrow> bool \<Rightarrow> bytes \<Rightarrow> bytes \<Rightarrow> Frame action" where
  "set_put_not_exists env in_txn key value =
     txn_or_raw env (do_async_txnkv_put_not_exists env in_txn key value False)
       (do_async_rawkv_put_not_exists env key value)"

definition set_cmd :: "env \<Rightarrow> bool \<Rightarrow> bytes \<Rightarrow> bytes \<Rightarrow> i64 option \<Rightarrow> bool option \<Rightarrow> bool \<Rightarrow> Frame action" where
  "set_cmd env in_txn key value expire nx valid =
     when_valid valid (reply id
       (case nx of Some _ \<Rightarrow> set_put_not_exists env in_txn key value | None \<Rightarrow> set_put env in_txn key value expire))"

definition setex_cmd :: "env \<Rightarrow> bool \<Rightarrow> bytes \<Rightarrow> bytes \<Rightarrow> i64 \<Rightarrow> bool \<Rightarrow> Frame action" where
  "setex_cmd env in_txn key value expire valid =
     txn_command env valid (do_async_txnkv_put env in_txn key value (timestamp_from_ttl env expire))"

text \<open>\<^verbatim>\<open>self.vals[idx]\<close> panics when there are fewer values than keys.\<close>

definition batch_put_cmd :: "env \<Rightarrow> bool \<Rightarrow> bytes list \<Rightarrow> bytes list \<Rightarrow> bool \<Rightarrow> Frame action" where
  "batch_put_cmd env in_txn keys vals valid =
     when_valid valid
       (if length vals < length keys then Crash
        else txn_or_raw env
          (do_async_txnkv_batch_put env in_txn
             (map (\<lambda>(key, val). (encode_txnkv_string (KEY_ENCODER env) key, encode_txnkv_string_value val 0)) (zip keys vals)))
          (do_async_rawkv_batch_put env (map (\<lambda>(key, val). (encode_rawkv_string (KEY_ENCODER env) key, val)) (zip keys vals))))"

definition expire_cmd :: "env \<Rightarrow> bool \<Rightarrow> bool \<Rightarrow> bool \<Rightarrow> bytes \<Rightarrow> i64 \<Rightarrow> bool \<Rightarrow> Frame action" where
  "expire_cmd env in_txn is_millis expire_at key seconds valid =
     txn_command env valid
       (let ttl = (if is_millis then seconds else seconds * 1000) in
        do_async_txnkv_expire env in_txn key (if expire_at then ttl else timestamp_from_ttl env ttl))"

definition incr_by_cmd :: "env \<Rightarrow> bool \<Rightarrow> bool \<Rightarrow> bytes \<Rightarrow> i64 \<Rightarrow> bool \<Rightarrow> Frame action" where
  "incr_by_cmd env in_txn inc key step valid =
     when_valid valid
       (if \<not> inc \<and> sint step = - (2 ^ 63) then Return (resp_err DECREMENT_OVERFLOW)
        else
          let step = (if inc then step else - step) in
          txn_or_raw env (do_async_txnkv_incr env in_txn key step) (do_async_rawkv_incr env key step))"

definition scan_cmd :: "'g crates \<Rightarrow> env \<Rightarrow> bool \<Rightarrow> bytes \<Rightarrow> i64 \<Rightarrow> bytes \<Rightarrow> bool \<Rightarrow> Frame action" where
  "scan_cmd cr env in_txn start cnt regex valid =
     txn_command env valid
       (unwrap (i64_to_u32 cnt) (\<lambda>n. do_async_txnkv_scan (regex_new cr) (scan_fuel cr) env in_txn start (of_nat n) regex))"

definition hset_cmd :: "env \<Rightarrow> bool \<Rightarrow> bool \<Rightarrow> bool \<Rightarrow> bytes \<Rightarrow> kv_pair list \<Rightarrow> bool \<Rightarrow> Frame action" where
  "hset_cmd env in_txn is_hmset is_nx key field_and_value valid =
     (if \<not> valid \<or> (is_nx \<and> length field_and_value \<noteq> 1) then Return resp_invalid_arguments
      else txn_or_raw env (do_async_txnkv_hset env in_txn key field_and_value is_hmset is_nx)
        (Return (resp_err REDIS_NOT_SUPPORTED_ERR)))"

text \<open>\<^verbatim>\<open>-count\<close> wraps for the smallest number.\<close>

definition lrem_cmd :: "env \<Rightarrow> bool \<Rightarrow> bytes \<Rightarrow> i64 \<Rightarrow> bytes \<Rightarrow> bool \<Rightarrow> Frame action" where
  "lrem_cmd env in_txn key cnt element valid =
     txn_command env valid
       (if sint cnt < 0 then do_async_txnkv_lrem env in_txn key (unat (- cnt)) False element
        else do_async_txnkv_lrem env in_txn key (unat cnt) True element)"

definition srandmember_cmd :: "'g crates \<Rightarrow> env \<Rightarrow> bool \<Rightarrow> bytes \<Rightarrow> i64 option \<Rightarrow> bool \<Rightarrow> Frame action" where
  "srandmember_cmd cr env in_txn key cnt valid =
     txn_command env valid
       (case cnt of
          None \<Rightarrow> do_async_txnkv_srandmemeber (rand cr) env in_txn key 1 False False
        | Some n \<Rightarrow>
            if 0 < sint n then do_async_txnkv_srandmemeber (rand cr) env in_txn key n False True
            else do_async_txnkv_srandmemeber (rand cr) env in_txn key (- n) True True)"

text \<open>The match of \<^verbatim>\<open>Multi::exec\<close> over the commands; \<^verbatim>\<open>Command::apply\<close> makes the same calls outside a transaction.\<close>

fun exec_key :: "'g crates \<Rightarrow> env \<Rightarrow> bool \<Rightarrow> KeyCommand \<Rightarrow> Frame action" where
  "exec_key cr env t (Incr key step valid) = incr_by_cmd env t True key step valid"
| "exec_key cr env t (IncrBy key step valid) = incr_by_cmd env t True key step valid"
| "exec_key cr env t (Decr key step valid) = incr_by_cmd env t False key step valid"
| "exec_key cr env t (DecrBy key step valid) = incr_by_cmd env t False key step valid"
| "exec_key cr env t (Strlen key valid) =
     when_valid valid (txn_or_raw env (do_async_txnkv_strlen env t key) (do_async_rawkv_strlen env key))"
| "exec_key cr env t (Del keys valid) = txn_command env valid (do_async_txnkv_del env t keys)"
| "exec_key cr env t (Exists keys valid) =
     when_valid valid (txn_or_raw env (do_async_txnkv_exists env t keys) (do_async_rawkv_exists env keys))"
| "exec_key cr env t (KeyCommand.Get key valid) =
     when_valid valid (txn_or_raw env (do_async_txnkv_get env t key) (do_async_rawkv_get env key))"
| "exec_key cr env t (Set key value expire nx valid) = set_cmd env t key value expire nx valid"
| "exec_key cr env t (SetNX key value valid) =
     when_valid valid (txn_or_raw env (do_async_txnkv_put_not_exists env t key value True) (do_async_rawkv_put_not_exists env key value))"
| "exec_key cr env t (SetEX key value expire valid) = setex_cmd env t key value expire valid"
| "exec_key cr env t (Mget keys valid) =
     when_valid valid (txn_or_raw env (do_async_txnkv_batch_get env t keys) (do_async_rawkv_batch_get env keys))"
| "exec_key cr env t (Mset keys vals valid) = batch_put_cmd env t keys vals valid"
| "exec_key cr env t (Type key valid) =
     when_valid valid (txn_or_raw env (do_async_txnkv_type env t key) (do_async_rawkv_type env key))"
| "exec_key cr env t (TTL key valid) = txn_command env valid (do_async_txnkv_ttl env t key False)"
| "exec_key cr env t (PTTL key valid) = txn_command env valid (do_async_txnkv_ttl env t key True)"
| "exec_key cr env t (Expire key seconds valid) = expire_cmd env t False False key seconds valid"
| "exec_key cr env t (ExpireAt key seconds valid) = expire_cmd env t False True key seconds valid"
| "exec_key cr env t (Pexpire key seconds valid) = expire_cmd env t True False key seconds valid"
| "exec_key cr env t (PexpireAt key seconds valid) = expire_cmd env t True True key seconds valid"
| "exec_key cr env t (Persist key valid) = txn_command env valid (do_async_txnkv_expire env t key 0)"
| "exec_key cr env t (KeyCommand.Scan start cnt regex valid) = scan_cmd cr env t start cnt regex valid"
| "exec_key cr env t (Xscan start cnt regex valid) = scan_cmd cr env t start cnt regex valid"

fun exec_hash :: "env \<Rightarrow> bool \<Rightarrow> HashCommand \<Rightarrow> Frame action" where
  "exec_hash env t (Hset key kvs valid) = hset_cmd env t False False key kvs valid"
| "exec_hash env t (Hmset key kvs valid) = hset_cmd env t True False key kvs valid"
| "exec_hash env t (Hsetnx key kvs valid) = hset_cmd env t False True key kvs valid"
| "exec_hash env t (Hget key field valid) = txn_command env valid (do_async_txnkv_hget env t key field)"
| "exec_hash env t (Hmget key fs valid) = txn_command env valid (do_async_txnkv_hmget env t key fs)"
| "exec_hash env t (Hlen key valid) = txn_command env valid (do_async_txnkv_hlen env t key)"
| "exec_hash env t (Hgetall key valid) = txn_command env valid (do_async_txnkv_hgetall env t key True True)"
| "exec_hash env t (Hdel key fs valid) = txn_command env valid (do_async_txnkv_hdel env t key fs)"
| "exec_hash env t (Hkeys key valid) = txn_command env valid (do_async_txnkv_hgetall env t key True False)"
| "exec_hash env t (Hvals key valid) = txn_command env valid (do_async_txnkv_hgetall env t key False True)"
| "exec_hash env t (Hincrby key field step valid) = txn_command env valid (do_async_txnkv_hincrby env t key field step)"
| "exec_hash env t (Hexists key field valid) = txn_command env valid (do_async_txnkv_hexists env t key field)"
| "exec_hash env t (Hstrlen key field valid) = txn_command env valid (do_async_txnkv_hstrlen env t key field)"

fun exec_list :: "env \<Rightarrow> bool \<Rightarrow> ListCommand \<Rightarrow> Frame action" where
  "exec_list env t (Lpush key items valid) = txn_command env valid (do_async_txnkv_push env t key items True)"
| "exec_list env t (Rpush key items valid) = txn_command env valid (do_async_txnkv_push env t key items False)"
| "exec_list env t (Lpop key cnt valid) = txn_command env valid (do_async_txnkv_pop env t key True cnt)"
| "exec_list env t (Rpop key cnt valid) = txn_command env valid (do_async_txnkv_pop env t key False cnt)"
| "exec_list env t (Lrange key left right valid) = txn_command env valid (do_async_txnkv_lrange env t key left right)"
| "exec_list env t (Llen key valid) = txn_command env valid (do_async_txnkv_llen env t key)"
| "exec_list env t (Lindex key idx valid) = txn_command env valid (do_async_txnkv_lindex env t key idx)"
| "exec_list env t (Lset key idx element valid) = txn_command env valid (do_async_txnkv_lset env t key idx element)"
| "exec_list env t (Ltrim key start stop valid) = txn_command env valid (do_async_txnkv_ltrim env t key start stop)"
| "exec_list env t (Lrem key cnt element valid) = lrem_cmd env t key cnt element valid"
| "exec_list env t (Linsert key before_pivot pivot element valid) =
     txn_command env valid (do_async_txnkv_linsert env t key before_pivot pivot element)"

fun exec_set :: "'g crates \<Rightarrow> env \<Rightarrow> bool \<Rightarrow> SetCommand \<Rightarrow> Frame action" where
  "exec_set cr env t (Sadd key members valid) = txn_command env valid (do_async_txnkv_sadd env t key members)"
| "exec_set cr env t (Scard key valid) = txn_command env valid (do_async_txnkv_scard env t key)"
| "exec_set cr env t (Sismember key member valid) = txn_command env valid (do_async_txnkv_sismember env t key [member] False)"
| "exec_set cr env t (Smismember key members valid) = txn_command env valid (do_async_txnkv_sismember env t key members True)"
| "exec_set cr env t (Smembers key valid) = txn_command env valid (do_async_txnkv_smembers env t key)"
| "exec_set cr env t (Srandmember key cnt valid) = srandmember_cmd cr env t key cnt valid"
| "exec_set cr env t (Spop key cnt valid) = txn_command env valid (do_async_txnkv_spop env t key cnt)"
| "exec_set cr env t (Srem key members valid) = txn_command env valid (do_async_txnkv_srem env t key members)"

fun exec_zset :: "env \<Rightarrow> bool \<Rightarrow> ZsetCommand \<Rightarrow> Frame action" where
  "exec_zset env t (Zadd key members scores exists changed_only valid) =
     txn_command env valid (do_async_txnkv_zadd env t key members scores exists changed_only False)"
| "exec_zset env t (Zcard key valid) = txn_command env valid (do_async_txnkv_zcard env t key)"
| "exec_zset env t (Zscore key member valid) = txn_command env valid (do_async_txnkv_zcore env t key member)"
| "exec_zset env t (Zrem key members valid) = txn_command env valid (do_async_txnkv_zrem env t key members)"
| "exec_zset env t (Zremrangebyscore key lo hi valid) = txn_command env valid (do_async_txnkv_zremrange_by_score env t key lo hi)"
| "exec_zset env t (Zremrangebyrank key lo hi valid) = txn_command env valid (do_async_txnkv_zremrange_by_rank env t key lo hi)"
| "exec_zset env t (Zrange key lo hi withscores reverse valid) =
     txn_command env valid (do_async_txnkv_zrange env t key lo hi withscores reverse)"
| "exec_zset env t (Zrevrange key lo hi withscores valid) =
     txn_command env valid (do_async_txnkv_zrange env t key lo hi withscores True)"
| "exec_zset env t (Zrangebyscore key lo min_inclusive hi max_inclusive withscores valid) =
     txn_command env valid (do_async_txnkv_zrange_by_score env t key lo min_inclusive hi max_inclusive withscores False)"
| "exec_zset env t (Zrevrangebyscore key lo min_inclusive hi max_inclusive withscores valid) =
     txn_command env valid (do_async_txnkv_zrange_by_score env t key lo min_inclusive hi max_inclusive withscores True)"
| "exec_zset env t (Zcount key lo min_inclusive hi max_inclusive valid) =
     txn_command env valid (do_async_txnkv_zcount env t key lo min_inclusive hi max_inclusive)"
| "exec_zset env t (Zpopmin key cnt valid) = txn_command env valid (do_async_txnkv_zpop env t key True cnt)"
| "exec_zset env t (Zpopmax key cnt valid) = txn_command env valid (do_async_txnkv_zpop env t key False cnt)"
| "exec_zset env t (Zrank key member valid) = txn_command env valid (do_async_txnkv_zrank env t key member)"
| "exec_zset env t (Zincryby key step member valid) = txn_command env valid (do_async_txnkv_zincrby env t key step member)"

section \<open>Transactions of commands\<close>

definition REDIS_EXEC_ERR :: RTError where
  "REDIS_EXEC_ERR = RTString ''EXECABORT Transaction discarded because of previous errors.''"

text \<open>One command of a transaction; the commands that have no method for it are refused.\<close>

fun exec_queued :: "'g crates \<Rightarrow> env \<Rightarrow> Command \<Rightarrow> Frame action" where
  "exec_queued cr env (KeyCmd cmd) = exec_key cr env True cmd"
| "exec_queued cr env (HashCmd cmd) = exec_hash env True cmd"
| "exec_queued cr env (ListCmd cmd) = exec_list env True cmd"
| "exec_queued cr env (SetCmd cmd) = exec_set cr env True cmd"
| "exec_queued cr env (ZsetCmd cmd) = exec_zset env True cmd"
| "exec_queued cr env _ = Return resp_invalid_arguments"

fun is_error :: "Frame \<Rightarrow> bool" where
  "is_error (ErrorOwned _) = True"
| "is_error (ErrorString _) = True"
| "is_error _ = False"

text \<open>The loop over the commands gives their replies, or nothing after an error.\<close>

primrec multi_loop :: "'g crates \<Rightarrow> env \<Rightarrow> Command list \<Rightarrow> Frame list \<Rightarrow> Frame list option prog" where
  "multi_loop cr env [] resp_arr = Ret (Some resp_arr)"
| "multi_loop cr env (cmd # cmds) resp_arr =
     bindp (exec_queued cr env cmd) (\<lambda>result.
       case result of
         Inr resp \<Rightarrow> if is_error resp then Ret None else multi_loop cr env cmds (resp_arr @ [resp])
       | Inl e \<Rightarrow> Ret None)"

definition multi_exec :: "'g crates \<Rightarrow> env \<Rightarrow> Command list \<Rightarrow> Frame action" where
  "multi_exec cr env cmds =
     get_txn_client env (Begin (\<lambda>b.
       case b of
         Inl e \<Rightarrow> Throw (TikvClient e)
       | Inr _ \<Rightarrow>
           bindp (multi_loop cr env cmds []) (\<lambda>r.
             case r of
               Some resp_arr \<Rightarrow> Lock (Commit (try_tikv (\<lambda>_. Return (resp_array resp_arr))))
             | None \<Rightarrow> Lock (Rollback (try_tikv (\<lambda>_. Return (resp_err REDIS_EXEC_ERR)))))))"

section \<open>Applying a command\<close>

text \<open>The method \<^verbatim>\<open>apply\<close> of most commands on keys turns an error into its frame, \<^verbatim>\<open>unwrap_or_else(Into::into)\<close>; that of the others passes
  it on, which closes the connection.\<close>

fun keeps_error :: "KeyCommand \<Rightarrow> bool" where
  "keeps_error (Set _ _ _ _ _) = True"
| "keeps_error (KeyCommand.Scan _ _ _ _) = True"
| "keeps_error (Xscan _ _ _ _) = True"
| "keeps_error _ = False"

text \<open>What \<^verbatim>\<open>Command::apply\<close> does with a command: it writes the frame of an action, writes nothing, fails, or works on the state of
  channels, scripts, clients and the cluster.\<close>

datatype applied = Writes "Frame action" | Silent | Unsupported | Elsewhere

fun apply_command :: "'g crates \<Rightarrow> env \<Rightarrow> Command \<Rightarrow> applied" where
  "apply_command cr env (KeyCmd cmd) =
     Writes (if keeps_error cmd then exec_key cr env False cmd else reply id (exec_key cr env False cmd))"
| "apply_command cr env (HashCmd cmd) = Writes (exec_hash env False cmd)"
| "apply_command cr env (ListCmd cmd) = Writes (exec_list env False cmd)"
| "apply_command cr env (SetCmd cmd) = Writes (exec_set cr env False cmd)"
| "apply_command cr env (ZsetCmd cmd) = Writes (exec_zset env False cmd)"
| "apply_command cr env (Ping msg valid) =
     Writes (Return (if \<not> valid then resp_invalid_arguments
       else case msg of None \<Rightarrow> Simple (ascii ''PONG'') | Some msg \<Rightarrow> Bulk msg))"
| "apply_command cr env (Unknown name) =
     Writes (Return (ErrorOwned (ascii ''ERR unknown command '' @ [39] @ name @ [39])))"
| "apply_command cr env (Unsubscribe _ _) = Unsupported"
| "apply_command cr env (Auth _ _) = Silent"
| "apply_command cr env Multi = Silent"
| "apply_command cr env Exec = Silent"
| "apply_command cr env Discard = Silent"
| "apply_command cr env _ = Elsewhere"

section \<open>The commands of a connection\<close>

definition REDIS_AUTH_WHEN_DISABLED_ERR :: RTError where
  "REDIS_AUTH_WHEN_DISABLED_ERR = RTString ''ERR Client sent AUTH, but no password is set''"
definition REDIS_AUTH_INVALID_PASSWORD_ERR :: RTError where
  "REDIS_AUTH_INVALID_PASSWORD_ERR = RTString ''ERR invalid password''"
definition REDIS_AUTH_REQUIRED_ERR :: RTError where
  "REDIS_AUTH_REQUIRED_ERR = RTString ''NOAUTH Authentication required.''"
definition REDIS_MULTI_NESTED_ERR :: RTError where
  "REDIS_MULTI_NESTED_ERR = RTString ''ERR MULTI calls can not be nested''"
definition REDIS_DISCARD_WITHOUT_MULTI_ERR :: RTError where
  "REDIS_DISCARD_WITHOUT_MULTI_ERR = RTString ''ERR DISCARD without MULTI''"
definition REDIS_EXEC_WITHOUT_MULTI_ERR :: RTError where
  "REDIS_EXEC_WITHOUT_MULTI_ERR = RTString ''ERR EXEC without MULTI''"

text \<open>What of a \<^verbatim>\<open>Handler\<close> decides on a command. Of the interpreter of scripts only its presence matters.\<close>

record handler =
  inner_txn :: bool
  queued_commands :: "Command list"
  authorized :: bool
  lua :: bool

definition new_handler :: "config \<Rightarrow> handler" where
  "new_handler c = \<lparr>inner_txn = False, queued_commands = [], authorized = \<not> is_auth_enabled c, lua = False\<rparr>"

text \<open>What is left to do once the handler has written its own frames: nothing, the transaction of \<^verbatim>\<open>EXEC\<close>, or \<^verbatim>\<open>cmd.apply\<close>.\<close>

datatype work = Nothing | ExecMulti "Command list" | Apply Command

fun handle_authorized :: "handler \<Rightarrow> Command \<Rightarrow> Frame list \<times> work \<times> handler" where
  "handle_authorized h (Eval s numkeys keys args valid) =
     ([], Apply (Eval s numkeys keys args valid), h\<lparr>lua := True\<rparr>)"
| "handle_authorized h (Evalsha s numkeys keys args valid) =
     ([], Apply (Evalsha s numkeys keys args valid), h\<lparr>lua := True\<rparr>)"
| "handle_authorized h Multi =
     (if inner_txn h then ([resp_err REDIS_MULTI_NESTED_ERR], Apply Multi, h)
      else ([resp_ok], Apply Multi, h\<lparr>inner_txn := True, queued_commands := []\<rparr>))"
| "handle_authorized h Exec =
     (if \<not> inner_txn h then ([resp_err REDIS_EXEC_WITHOUT_MULTI_ERR], Nothing, h)
      else ([], ExecMulti (queued_commands h), h\<lparr>inner_txn := False\<rparr>))"
| "handle_authorized h Discard =
     (if inner_txn h then ([resp_ok], Apply Discard, h\<lparr>inner_txn := False, queued_commands := []\<rparr>)
      else ([resp_err REDIS_DISCARD_WITHOUT_MULTI_ERR], Apply Discard, h))"
| "handle_authorized h cmd =
     (if inner_txn h then ([resp_queued], Nothing, h\<lparr>queued_commands := queued_commands h @ [cmd]\<rparr>)
      else ([], Apply cmd, h))"

definition handle_command :: "config \<Rightarrow> handler \<Rightarrow> Command \<Rightarrow> Frame list \<times> work \<times> handler" where
  "handle_command c h cmd =
     (case cmd of
        Auth passwd valid \<Rightarrow>
          if \<not> valid then ([resp_invalid_arguments], Nothing, h)
          else if \<not> is_auth_enabled c then ([resp_err REDIS_AUTH_WHEN_DISABLED_ERR], Nothing, h)
          else if is_auth_matched c passwd then ([resp_ok], Nothing, h\<lparr>authorized := True\<rparr>)
          else ([resp_err REDIS_AUTH_INVALID_PASSWORD_ERR], Nothing, h)
      | _ \<Rightarrow>
          if \<not> authorized h then ([resp_err REDIS_AUTH_REQUIRED_ERR], Nothing, h)
          else handle_authorized h cmd)"

text \<open>The commands of a connection, one after the other.\<close>

primrec session :: "config \<Rightarrow> handler \<Rightarrow> Command list \<Rightarrow> (Frame list \<times> work) list \<times> handler" where
  "session c h [] = ([], h)"
| "session c h (cmd # cmds) =
     (case handle_command c h cmd of
        (frames, work, h') \<Rightarrow> (case session c h' cmds of (steps, h'') \<Rightarrow> ((frames, work) # steps, h'')))"

end
