(* ===== verification/Command_Properties.thy ===== *)
theory Command_Properties
  imports Dispatch
begin

text \<open>
  Properties of commands: every request becomes the command it names, and its parser ends and does not panic; inside the transaction of a
  caller no command opens or closes one, so that \<^verbatim>\<open>MULTI\<close> is all or nothing; a connection queues, runs and refuses commands as
  its state says.
\<close>

section \<open>Parsers\<close>

text \<open>A parser that leaves no more frames than it got, that gives only results that \<open>Q\<close> allows, and that panics only if \<open>panics\<close>.\<close>

named_theorems parser_rules

fun parse_result :: "bool \<Rightarrow> ('a \<Rightarrow> bool) \<Rightarrow> nat \<Rightarrow> 'a presult \<times> Frame list \<Rightarrow> bool" where
  "parse_result panics Q n (ParseOk x, parts) = (Q x \<and> length parts \<le> n)"
| "parse_result panics Q n (ParseErr e, parts) = (length parts \<le> n)"
| "parse_result panics Q n (ParsePanic, parts) = panics"

definition parser_ok :: "bool \<Rightarrow> ('a \<Rightarrow> bool) \<Rightarrow> 'a parser \<Rightarrow> bool" where
  "parser_ok panics Q p \<longleftrightarrow> (\<forall>parts. parse_result panics Q (length parts) (p parts))"

text \<open>A parser that takes a frame when it succeeds.\<close>

definition takes_frame :: "'a parser \<Rightarrow> bool" where
  "takes_frame p \<longleftrightarrow> (\<forall>parts x parts'. p parts = (ParseOk x, parts') \<longrightarrow> length parts' < length parts)"

lemma parse_result_le: "parse_result panics Q n r \<Longrightarrow> n \<le> m \<Longrightarrow> parse_result panics Q m r"
  by (cases "(panics, Q, n, r)" rule: parse_result.cases) auto

lemma parserD: "parser_ok panics Q p \<Longrightarrow> parse_result panics Q (length parts) (p parts)"
  by (simp add: parser_ok_def)

lemma next_frame_rules: "parser_ok panics (\<lambda>_. True) next_frame" "takes_frame next_frame"
proof -
  have "parse_result panics (\<lambda>_. True) (length parts) (next_frame parts)" for parts by (cases parts) auto
  then show "parser_ok panics (\<lambda>_. True) next_frame" by (simp add: parser_ok_def)
  have "next_frame parts = (ParseOk x, parts') \<Longrightarrow> length parts' < length parts" for parts x parts' by (cases parts) auto
  then show "takes_frame next_frame" by (simp add: takes_frame_def)
qed

lemma parser_basic [parser_rules]:
  "Q x \<Longrightarrow> parser_ok panics Q (pok x)"
  "parser_ok panics Q (perr m)"
  "panics \<Longrightarrow> parser_ok panics (\<lambda>_. True) (punwrap r)"
  "panics \<Longrightarrow> parser_ok panics Q (\<lambda>parts. (ParsePanic, parts))"
  by (auto simp: parser_ok_def pok_def perr_def punwrap_def split: option.splits)

lemma parser_then [parser_rules]:
  assumes p: "parser_ok panics (\<lambda>_. True) p" and f: "\<And>x. parser_ok panics Q (f x)"
  shows "parser_ok panics Q (pthen p f)"
proof -
  have "parse_result panics Q (length parts) (pthen p f parts)" for parts
  proof (cases "p parts")
    case (Pair r parts')
    then show ?thesis using parserD [OF p, of parts] by (cases r) (auto simp: pthen_def intro: parse_result_le [OF parserD [OF f]])
  qed
  then show ?thesis by (simp add: parser_ok_def)
qed

lemma parser_if_let [parser_rules]:
  assumes p: "parser_ok panics (\<lambda>_. True) p" and f: "\<And>x. parser_ok panics Q (f x)" and g: "parser_ok panics Q g"
  shows "parser_ok panics Q (if_let_ok p f g)"
proof -
  have "parse_result panics Q (length parts) (if_let_ok p f g parts)" for parts
  proof (cases "p parts")
    case (Pair r parts')
    then show ?thesis using parserD [OF p, of parts]
      by (cases r) (auto simp: if_let_ok_def intro: parse_result_le [OF parserD [OF f]] parse_result_le [OF parserD [OF g]])
  qed
  then show ?thesis by (simp add: parser_ok_def)
qed

lemma parser_control [parser_rules]:
  "\<lbrakk>b \<Longrightarrow> parser_ok panics Q p; \<not> b \<Longrightarrow> parser_ok panics Q q\<rbrakk> \<Longrightarrow> parser_ok panics Q (if b then p else q)"
  "(\<And>x y. parser_ok panics Q (f x y)) \<Longrightarrow> parser_ok panics Q (case_prod f xy)"
  "parser_ok panics Q (h z) \<Longrightarrow> parser_ok panics Q (Let z h)"
  by (auto split: prod.splits)

text \<open>The rounds that \<^const>\<open>while_let\<close> allows are enough.\<close>

lemma parser_while_let_ok:
  assumes p: "parser_ok panics (\<lambda>_. True) p" and q: "takes_frame p" and body: "\<And>x acc. parser_ok panics (\<lambda>_. True) (body x acc)"
  shows "length parts < n \<Longrightarrow> parse_result panics (\<lambda>_. True) (length parts) (while_let_ok n p acc body parts)"
proof (induction n arbitrary: acc parts)
  case (Suc n)
  show ?case
  proof (cases "p parts")
    case (Pair r parts')
    show ?thesis
    proof (cases r)
      case (ParseOk x)
      have less: "length parts' < length parts" using q Pair ParseOk by (auto simp: takes_frame_def)
      obtain r' parts'' where b: "body x acc parts' = (r', parts'')" by fastforce
      have "parse_result panics (\<lambda>_. True) (length parts') (r', parts'')"
        using body [of x acc] b by (metis parserD)
      then show ?thesis using Pair ParseOk less b Suc.prems
        by (cases r') (auto simp: if_let_ok_def pthen_def intro: parse_result_le [OF Suc.IH])
    qed (use Pair parserD [OF p, of parts] in \<open>simp_all add: if_let_ok_def pok_def\<close>)
  qed
qed simp

lemma parser_while_let [parser_rules]:
  "\<lbrakk>parser_ok panics (\<lambda>_. True) p; takes_frame p; \<And>x acc. parser_ok panics (\<lambda>_. True) (body x acc)\<rbrakk> \<Longrightarrow>
   parser_ok panics (\<lambda>_. True) (while_let p acc body)"
  unfolding while_let_def by (subst parser_ok_def) (blast intro: parser_while_let_ok lessI)

lemma takes_frame_then:
  assumes p: "takes_frame p" and f: "\<And>x. parser_ok True (\<lambda>_. True) (f x)"
  shows "takes_frame (pthen p f)"
  unfolding takes_frame_def
proof (intro allI impI)
  fix parts y parts''
  assume "pthen p f parts = (ParseOk y, parts'')"
  then obtain x parts' where "p parts = (ParseOk x, parts')" "f x parts' = (ParseOk y, parts'')"
    by (auto simp: pthen_def split: prod.splits presult.splits)
  then show "length parts'' < length parts"
    using p parserD [OF f [of x], of parts'] by (auto simp: takes_frame_def intro: le_less_trans)
qed

lemma parser_frame_cases:
  "parser_ok b (\<lambda>_. True) (case frame of Simple s \<Rightarrow> pok s
     | Bulk data \<Rightarrow> if utf8_valid data then pok data else perr InvalidString | frame \<Rightarrow> perr (ExpectedString frame))"
  "parser_ok b (\<lambda>_. True) (case frame of Simple s \<Rightarrow> pok s | Bulk data \<Rightarrow> pok data | frame \<Rightarrow> perr (ExpectedString frame))"
  "parser_ok b (\<lambda>_. True) (case frame of Integer v \<Rightarrow> pok v
     | Simple data \<Rightarrow> (case parse_i64 (utf8_lossy data) of Some value \<Rightarrow> pok value | None \<Rightarrow> perr InvalidNumber)
     | Bulk data \<Rightarrow> (case parse_i64 (utf8_lossy data) of Some value \<Rightarrow> pok value | None \<Rightarrow> perr InvalidNumber)
     | frame \<Rightarrow> perr (ExpectedInt frame))"
  by (auto intro: parser_basic split: Frame.splits option.splits)

lemma next_rules [parser_rules]:
  "parser_ok panics (\<lambda>_. True) next_string" "parser_ok panics (\<lambda>_. True) next_bytes" "parser_ok panics (\<lambda>_. True) next_int"
  "takes_frame next_string" "takes_frame next_bytes" "takes_frame next_int"
  unfolding next_string_def next_bytes_def next_int_def
  by (rule parser_then takes_frame_then, rule next_frame_rules, rule parser_frame_cases)+

lemma parser_collect [parser_rules]:
  "\<lbrakk>parser_ok panics (\<lambda>_. True) p; takes_frame p\<rbrakk> \<Longrightarrow> parser_ok panics (\<lambda>_. True) (collect p)"
  unfolding collect_def by (intro parser_rules TrueI)

lemma parser_channels [parser_rules]: "parser_ok panics (\<lambda>_. True) (parse_channels cs)"
proof -
  have "parse_result panics (\<lambda>_. True) (length parts) (parse_channels cs parts)" for parts
  proof (induction parts arbitrary: cs)
    case (Cons frame parts)
    obtain r parts' where "next_string (frame # parts) = (r, parts')" by fastforce
    then show ?case using parserD [OF next_rules(1) [of panics], of "frame # parts"]
      by (cases r) (auto simp: pthen_def intro: parse_result_le [OF Cons.IH])
  qed simp
  then show ?thesis by (simp add: parser_ok_def)
qed

lemma parser_helpers [parser_rules]:
  "parser_ok panics (\<lambda>_. True) (parse_float s)" "parser_ok panics (\<lambda>_. True) parse_pairs"
  "parser_ok panics (\<lambda>_. True) (parse_eval_keys n)"
  "panics \<Longrightarrow> parser_ok panics (\<lambda>_. True) (parse_score_bound b)" "panics \<Longrightarrow> parser_ok panics (\<lambda>_. True) (parse_count_bound b)"
  subgoal by (auto simp: parse_float_def intro: parser_basic split: option.splits)
  subgoal unfolding parse_pairs_def by (intro parser_rules TrueI)
  subgoal by (induction n) (auto intro!: parser_rules)
  subgoal unfolding parse_score_bound_def by (intro parser_rules TrueI)
  subgoal unfolding parse_count_bound_def by (intro parser_rules TrueI)
  done

text \<open>The flags of \<^verbatim>\<open>ZADD\<close>.\<close>

lemma parser_zadd_flags [parser_rules]:
  "parser_ok panics (\<lambda>_. True) (\<lambda>parts. parse_zadd_flags (Suc (length parts)) u exists changed_only parts)"
proof -
  have "length parts < n \<Longrightarrow> parse_result panics (\<lambda>_. True) (length parts) (parse_zadd_flags n u exists changed_only parts)" for n parts
  proof (induction n arbitrary: exists changed_only parts)
    case (Suc n)
    obtain r parts' where ns: "next_string parts = (r, parts')" by fastforce
    have score: "parse_result panics (\<lambda>_. True) m (pthen (parse_float s) (\<lambda>score. pok (exists, changed_only, score)) parts')"
      if "length parts' \<le> m" for m s
      by (rule parse_result_le [OF parserD that]) (intro parser_rules TrueI)
    show ?case
    proof (cases r)
      case (ParseOk s)
      have "length parts' < length parts" using ns ParseOk next_rules(4) by (auto simp: takes_frame_def)
      then show ?thesis using Suc.prems ns ParseOk
        by (auto simp: pthen_def [of next_string] intro: parse_result_le [OF Suc.IH] score)
    qed (use ns parserD [OF next_rules(1) [of panics], of parts] in \<open>simp_all add: pthen_def\<close>)
  qed simp
  then show ?thesis unfolding parser_ok_def by blast
qed


section \<open>Names of commands\<close>

text \<open>What a request becomes: a command that \<open>Q\<close> allows, or a panic if \<open>panics\<close>.\<close>

primrec commanded :: "bool \<Rightarrow> ('c \<Rightarrow> bool) \<Rightarrow> 'c parsed_command \<Rightarrow> bool" where
  "commanded panics Q (Command c) = Q c"
| "commanded panics Q (CommandError e) = False"
| "commanded panics Q CommandPanic = panics"


lemma commanded_map: "commanded panics (\<lambda>c. Q (f c)) r \<Longrightarrow> commanded panics Q (map_command f r)"
  by (cases r) auto



















section \<open>Commands stay inside their transaction\<close>

text \<open>Rules for every construct that programs are written with: inside the transaction of a caller a command neither opens nor
  closes one.\<close>

named_theorems local_rules

lemma txn_local_bindp: "\<lbrakk>txn_local p; \<And>x. txn_local (g x)\<rbrakk> \<Longrightarrow> txn_local (bindp p g)"
  by (induction p) auto

lemma txn_local_basic [local_rules]:
  "txn_local (Ret x)" "txn_local Crash" "txn_local (Return y)" "txn_local (Throw e)"
  "txn_local p \<Longrightarrow> txn_local (Lock p)" "txn_local p \<Longrightarrow> txn_local (Unlock p)"
  "(\<And>i. txn_local (f i)) \<Longrightarrow> txn_local (FetchIdx f)"
  "(\<And>r. txn_local (get r)) \<Longrightarrow> txn_local (prog.Get k get)"
  by (simp_all add: Return_def Throw_def)

lemma txn_local_try: "(\<And>x. txn_local (f x)) \<Longrightarrow> txn_local (try_tikv f r)"
  by (simp add: try_tikv_def split: sum.splits)

lemma txn_local_calls [local_rules]:
  "(\<And>x. txn_local (get x)) \<Longrightarrow> txn_local (txn_get k get)"
  "(\<And>x. txn_local (ex x)) \<Longrightarrow> txn_local (txn_key_exists k ex)"
  "txn_local p \<Longrightarrow> txn_local (txn_put k v p)"
  "txn_local p \<Longrightarrow> txn_local (txn_delete k p)"
  "(\<And>x. txn_local (kvs x)) \<Longrightarrow> txn_local (txn_batch_get ks kvs)"
  "(\<And>x. txn_local (kvs x)) \<Longrightarrow> txn_local (txn_scan rg n kvs)"
  "(\<And>x. txn_local (kvs x)) \<Longrightarrow> txn_local (txn_scan_reverse rg n kvs)"
  "(\<And>x. txn_local (keys x)) \<Longrightarrow> txn_local (txn_scan_keys rg n keys)"
  "(\<And>x. txn_local (keys x)) \<Longrightarrow> txn_local (txn_scan_keys_reverse rg n keys)"
  by (simp_all add: txn_get_def txn_key_exists_def txn_put_def txn_delete_def txn_batch_get_def txn_scan_def
      txn_scan_reverse_def txn_scan_keys_def txn_scan_keys_reverse_def txn_local_try)

lemma txn_local_control [local_rules]:
  "\<lbrakk>c \<Longrightarrow> txn_local p; \<not> c \<Longrightarrow> txn_local q\<rbrakk> \<Longrightarrow> txn_local (if c then p else q)"
  "\<lbrakk>c \<Longrightarrow> txn_local (f p); \<not> c \<Longrightarrow> txn_local (g p)\<rbrakk> \<Longrightarrow> txn_local ((if c then f else g) p)"
  "\<lbrakk>c \<Longrightarrow> txn_local (f3 x y k3); \<not> c \<Longrightarrow> txn_local (g3 x y k3)\<rbrakk> \<Longrightarrow> txn_local ((if c then f3 else g3) x y k3)"
  "txn_local (h x) \<Longrightarrow> txn_local (Let x h)"
  "\<lbrakk>txn_local none; \<And>y. txn_local (some y)\<rbrakk> \<Longrightarrow> txn_local (case_option none some r)"
  "(\<And>a b. txn_local (pair a b)) \<Longrightarrow> txn_local (case_prod pair ab)"
  "\<lbrakk>\<And>a. txn_local (left a); \<And>b. txn_local (right b)\<rbrakk> \<Longrightarrow> txn_local (case_sum left right s)"
  "\<lbrakk>txn_local nil; \<And>x xs. txn_local (cons x xs)\<rbrakk> \<Longrightarrow> txn_local (case_list nil cons l)"
  "\<lbrakk>txn_local p1; txn_local p2; txn_local p3; txn_local p4; txn_local p5; txn_local p6\<rbrakk> \<Longrightarrow> txn_local (case_DataType p1 p2 p3 p4 p5 p6 dt)"
  "txn_local p \<Longrightarrow> txn_local (id p)"
  "(\<And>y. txn_local (some y)) \<Longrightarrow> txn_local (unwrap r some)"
  by (auto simp: unwrap_def split: option.splits prod.splits sum.splits list.splits DataType.splits)

lemma txn_local_call [local_rules]:
  "\<lbrakk>txn_local p; \<And>x. txn_local (f x)\<rbrakk> \<Longrightarrow> txn_local (call p f)"
  "txn_local p \<Longrightarrow> txn_local (scoped p)"
  "txn_local p \<Longrightarrow> txn_local (exec_in_txn env True p)"
  "txn_local p \<Longrightarrow> txn_local (get_txn_client env p)"
  "txn_local p \<Longrightarrow> txn_local (reply ok p)"
  "(\<And>i. txn_local (idx i)) \<Longrightarrow> txn_local (gen_next_meta_index env idx)"
  "txn_local q \<Longrightarrow> txn_local (delete_all ks q)"
  by (simp_all add: call_def scoped_def exec_in_txn_def get_txn_client_def reply_def gen_next_meta_index_def Let_def Throw_def Return_def
      txn_local_bindp split: sum.splits)
    (induction ks; simp add: txn_local_calls)

lemma txn_local_version [local_rules]: "txn_local (get_version_for_new env key)"
  unfolding get_version_for_new_def by (intro local_rules)

section \<open>Lists\<close>

lemma list_loops_local [local_rules]:
  "(\<And>l r. txn_local (f l r)) \<Longrightarrow> txn_local (push_loop env key version op_left vs left right f)"
  "(\<And>fs. txn_local (g fs)) \<Longrightarrow> txn_local (pop_pairs pairs resp g)"
  "txn_local p \<Longrightarrow> txn_local (shift_elements env key version idx kvs p)"
  subgoal by (induction vs arbitrary: left right) (auto intro: local_rules)
  subgoal by (induction pairs arbitrary: resp) (auto intro: local_rules)
  subgoal by (induction kvs arbitrary: idx) (auto intro: local_rules)
  done

lemma lrem_loop_local [local_rules]:
  "(\<And>n. txn_local (f n)) \<Longrightarrow> txn_local (lrem_loop env key version from_head cnt hole kvs removed f)"
proof (induction kvs arbitrary: removed)
  case (Cons kv kvs)
  then show ?case unfolding lrem_loop.simps by (intro local_rules) auto
qed simp

lemmas list_programs =
  list_clear_def list_del_body_def do_async_txnkv_list_del_def list_expire_body_def do_async_txnkv_list_expire_if_needed_def
  with_list_meta_def list_expire_then_def push_values_def push_body_def do_async_txnkv_push_def put_list_meta_def pop_one_def
  pop_many_def pop_body_def do_async_txnkv_pop_def ltrim_at_def ltrim_body_def do_async_txnkv_ltrim_def lrange_at_def lrange_body_def
  do_async_txnkv_lrange_def llen_body_def do_async_txnkv_llen_def lindex_body_def do_async_txnkv_lindex_def lset_body_def
  do_async_txnkv_lset_def linsert_at_def linsert_body_def do_async_txnkv_linsert_def lrem_body_def do_async_txnkv_lrem_def

lemma list_local [local_rules]:
  "txn_local (do_async_txnkv_list_del env True key)"
  "txn_local (do_async_txnkv_list_expire_if_needed env True key)"
  "txn_local (do_async_txnkv_push env True key vs op_left)"
  "txn_local (do_async_txnkv_pop env True key op_left cnt)"
  "txn_local (do_async_txnkv_ltrim env True key i j)"
  "txn_local (do_async_txnkv_lrange env True key i j)"
  "txn_local (do_async_txnkv_llen env True key)"
  "txn_local (do_async_txnkv_lindex env True key i)"
  "txn_local (do_async_txnkv_lset env True key i element)"
  "txn_local (do_async_txnkv_linsert env True key before_pivot pivot element)"
  "txn_local (do_async_txnkv_lrem env True key n from_head element)"
  unfolding list_programs by (intro local_rules)+

section \<open>Hashes, sets and sorted sets\<close>

lemma delete_pairs_local [local_rules]: "(\<And>n. txn_local (f n)) \<Longrightarrow> txn_local (delete_pairs pairs n f)"
  by (induction pairs arbitrary: n) (auto intro: local_rules)

lemmas counted_programs =
  sum_key_size_body_def txnkv_sum_key_size_def with_meta_def update_sub_meta_def delete_keys_in_def clear_meta_first_def
  clear_meta_last_def shrink_collection_def leave_to_gc_def clear_collection_def remove_collection_def expire_then_def

lemma put_fields_local [local_rules]: "txn_local p \<Longrightarrow> txn_local (put_fields env key version kvs p)"
  by (induction kvs) (auto intro: local_rules)

lemmas hash_programs =
  hash_sweep_def hash_del_body_def do_async_txnkv_hash_del_def hash_expire_body_def do_async_txnkv_hash_expire_if_needed_def
  put_hash_meta_def hset_existing_def hset_new_def hset_body_def do_async_txnkv_hset_def hget_body_def do_async_txnkv_hget_def
  hstrlen_body_def do_async_txnkv_hstrlen_def hexists_body_def do_async_txnkv_hexists_def hmget_body_def do_async_txnkv_hmget_def
  hlen_body_def do_async_txnkv_hlen_def hgetall_body_def do_async_txnkv_hgetall_def hdel_body_def do_async_txnkv_hdel_def
  hincrby_put_def hincrby_existing_def hincrby_body_def do_async_txnkv_hincrby_def

lemma hash_local [local_rules]:
  "txn_local (do_async_txnkv_hash_del env True key)"
  "txn_local (do_async_txnkv_hash_expire_if_needed env True key)"
  "txn_local (do_async_txnkv_hset env True key kvs is_hmset is_nx)"
  "txn_local (do_async_txnkv_hget env True key field)"
  "txn_local (do_async_txnkv_hstrlen env True key field)"
  "txn_local (do_async_txnkv_hexists env True key field)"
  "txn_local (do_async_txnkv_hmget env True key fs)"
  "txn_local (do_async_txnkv_hlen env True key)"
  "txn_local (do_async_txnkv_hgetall env True key with_field with_value)"
  "txn_local (do_async_txnkv_hdel env True key fs)"
  "txn_local (do_async_txnkv_hincrby env True key field step)"
  unfolding hash_programs counted_programs by (intro local_rules)+

lemma put_members_local [local_rules]: "txn_local p \<Longrightarrow> txn_local (put_members env key version ms p)"
  by (induction ms) (auto intro: local_rules)

lemmas set_programs =
  set_sweep_def set_del_body_def do_async_txnkv_set_del_def set_expire_body_def do_async_txnkv_set_expire_if_needed_def
  put_set_meta_def sadd_existing_def sadd_new_def sadd_body_def do_async_txnkv_sadd_def scard_body_def do_async_txnkv_scard_def
  sismember_body_def do_async_txnkv_sismember_def smembers_body_def do_async_txnkv_smembers_def srandmember_reply_def
  srandmember_body_def do_async_txnkv_srandmemeber_def srem_body_def do_async_txnkv_srem_def spop_body_def do_async_txnkv_spop_def

lemma set_local [local_rules]:
  "txn_local (do_async_txnkv_set_del env True key)"
  "txn_local (do_async_txnkv_set_expire_if_needed env True key)"
  "txn_local (do_async_txnkv_sadd env True key ms)"
  "txn_local (do_async_txnkv_scard env True key)"
  "txn_local (do_async_txnkv_sismember env True key ms resp_in_arr)"
  "txn_local (do_async_txnkv_smembers env True key)"
  "txn_local (do_async_txnkv_srandmemeber g env True key cnt repeatable array_resp)"
  "txn_local (do_async_txnkv_srem env True key ms)"
  "txn_local (do_async_txnkv_spop env True key n)"
  unfolding set_programs counted_programs by (intro local_rules)+


lemma zset_loops_local [local_rules]:
  "txn_local p \<Longrightarrow> txn_local (delete_members env key version kvs p)"
  "txn_local p \<Longrightarrow> txn_local (put_scores env key version ms scores p)"
  "txn_local p \<Longrightarrow> txn_local (zrem_loop env key version data_map ms p)"
  "(\<And>fs n. txn_local (f fs n)) \<Longrightarrow> txn_local (zpop_loop env key version ks resp cnt f)"
  "(\<And>n. txn_local (g n)) \<Longrightarrow> txn_local (zremrange_loop env key version lo hi idx cnt kvs g)"
  "(\<And>n. txn_local (g n)) \<Longrightarrow> txn_local (delete_scorekeys env key version ks cnt g)"
  subgoal by (induction kvs) (auto intro!: local_rules)
  subgoal by (induction ms scores rule: list_induct2') (auto intro!: local_rules)
  subgoal by (induction ms) (auto simp: Let_def intro!: local_rules)
  subgoal by (induction ks arbitrary: resp cnt) (auto intro!: local_rules)
  subgoal by (induction kvs arbitrary: idx cnt) (auto intro!: local_rules)
  subgoal by (induction ks arbitrary: cnt) (auto intro!: local_rules)
  done

lemma zadd_loop_local [local_rules]:
  "(\<And>a b. txn_local (f a b)) \<Longrightarrow> txn_local (zadd_loop env key version exists changed_only data_map ms scores a b f)"
  by (induction ms scores arbitrary: a b rule: list_induct2')
    (auto simp: Let_def delete_old_score_def split del: if_split intro!: local_rules)

lemmas zset_programs =
  zset_sweep_def zset_del_body_def do_async_txnk_zset_del_def zset_expire_body_def do_async_txnkv_zset_expire_if_needed_def
  put_zset_meta_def zadd_existing_def zadd_new_def zadd_body_def do_async_txnkv_zadd_def zincrby_put_def zincrby_existing_def
  zincrby_body_def do_async_txnkv_zincrby_def zcard_body_def do_async_txnkv_zcard_def zscore_body_def do_async_txnkv_zcore_def
  zcount_body_def do_async_txnkv_zcount_def zrank_body_def do_async_txnkv_zrank_def zrange_body_def do_async_txnkv_zrange_def
  zrange_by_score_body_def do_async_txnkv_zrange_by_score_def zpop_body_def do_async_txnkv_zpop_def zrem_body_def
  do_async_txnkv_zrem_def zremrange_by_rank_body_def do_async_txnkv_zremrange_by_rank_def zremrange_by_score_body_def
  do_async_txnkv_zremrange_by_score_def

lemma zset_local [local_rules]:
  "txn_local (do_async_txnk_zset_del env True key)"
  "txn_local (do_async_txnkv_zset_expire_if_needed env True key)"
  "txn_local (do_async_txnkv_zadd env True key ms scores exists changed_only incr)"
  "txn_local (do_async_txnkv_zincrby env True key score member)"
  "txn_local (do_async_txnkv_zcard env True key)"
  "txn_local (do_async_txnkv_zcore env True key member)"
  "txn_local (do_async_txnkv_zcount env True key slo lo_in shi hi_in)"
  "txn_local (do_async_txnkv_zrank env True key member)"
  "txn_local (do_async_txnkv_zrange env True key lo hi with_scores reverse)"
  "txn_local (do_async_txnkv_zrange_by_score env True key slo lo_in shi hi_in with_scores reverse)"
  "txn_local (do_async_txnkv_zpop env True key from_min n)"
  "txn_local (do_async_txnkv_zrem env True key ms)"
  "txn_local (do_async_txnkv_zremrange_by_rank env True key lo hi)"
  "txn_local (do_async_txnkv_zremrange_by_score env True key slo shi)"
  unfolding zset_programs counted_programs by (intro local_rules)+

section \<open>Strings and keys\<close>

lemma raw_loop_local:
  assumes "\<And>f. (\<And>r. txn_local (f r)) \<Longrightarrow> txn_local (request f)"
  shows "txn_local (raw_loop request fallback n last_err)"
  by (induction n arbitrary: last_err) (auto intro!: assms split: sum.splits)

lemma raw_local [local_rules]:
  "txn_local (raw_get k)" "txn_local (raw_put k v)" "txn_local (raw_compare_and_swap k prev v)"
  "txn_local (raw_batch_get ks)" "txn_local (raw_batch_put kvs)"
  unfolding raw_get_def raw_put_def raw_compare_and_swap_def raw_batch_get_def raw_batch_put_def
  by (rule raw_loop_local, simp)+

lemma raw_call_local [local_rules]:
  "\<lbrakk>txn_local p; \<And>x. txn_local (f x)\<rbrakk> \<Longrightarrow> txn_local (raw_call p f)"
  "txn_local q \<Longrightarrow> txn_local (get_client env q)"
  by (auto simp: raw_call_def get_client_def Throw_def intro: txn_local_bindp txn_local_try)

lemma string_loops_local [local_rules]:
  "txn_local p \<Longrightarrow> txn_local (put_all kvs p)"
  "txn_local (rawkv_incr_loop n k step)"
  subgoal by (induction kvs) (auto intro!: local_rules)
  subgoal by (induction n) (auto simp: Let_def split del: if_split intro!: local_rules)
  done

lemmas string_programs =
  with_latest_def string_del_body_def do_async_txnkv_string_del_def string_expire_body_def do_async_txnkv_string_expire_if_needed_def
  string_expire_then_def get_body_def do_async_txnkv_get_def type_body_def do_async_txnkv_type_def strlen_body_def
  do_async_txnkv_strlen_def put_body_def do_async_txnkv_put_def batch_get_body_def do_async_txnkv_batch_get_def batch_put_body_def
  do_async_txnkv_batch_put_def put_not_exists_body_def do_async_txnkv_put_not_exists_def incr_put_def incr_body_def do_async_txnkv_incr_def

lemma string_del_local [local_rules]:
  "txn_local (do_async_txnkv_string_del env True key)"
  "txn_local (do_async_txnkv_string_expire_if_needed env True key)"
  unfolding string_programs by (intro local_rules)+

lemma exists_loop_local [local_rules]: "txn_local (exists_loop env kv_map keys cnt)"
proof (induction keys arbitrary: cnt)
  case (Cons key keys)
  then show ?case unfolding exists_loop.simps by (intro local_rules)
qed (simp add: Return_def)

lemma string_local [local_rules]:
  "txn_local (do_async_txnkv_get env True key)"
  "txn_local (do_async_txnkv_type env True key)"
  "txn_local (do_async_txnkv_strlen env True key)"
  "txn_local (do_async_txnkv_put env True key v ts)"
  "txn_local (do_async_txnkv_batch_get env True keys)"
  "txn_local (do_async_txnkv_batch_put env True kvs)"
  "txn_local (do_async_txnkv_put_not_exists env True key v return_number)"
  "txn_local (do_async_txnkv_exists env True keys)"
  "txn_local (do_async_txnkv_incr env True key step)"
  unfolding string_programs do_async_txnkv_exists_def exists_body_def if_True by (intro local_rules)+

lemma rawkv_local [local_rules]:
  "txn_local (do_async_rawkv_get env key)"
  "txn_local (do_async_rawkv_type env key)"
  "txn_local (do_async_rawkv_strlen env key)"
  "txn_local (do_async_rawkv_put env key v)"
  "txn_local (do_async_rawkv_batch_get env keys)"
  "txn_local (do_async_rawkv_batch_put env kvs)"
  "txn_local (do_async_rawkv_put_not_exists env key v)"
  "txn_local (do_async_rawkv_exists env keys)"
  "txn_local (do_async_rawkv_incr env key step)"
  unfolding do_async_rawkv_get_def do_async_rawkv_type_def do_async_rawkv_strlen_def do_async_rawkv_put_def
    do_async_rawkv_batch_get_def do_async_rawkv_batch_put_def do_async_rawkv_put_not_exists_def do_async_rawkv_exists_def
    do_async_rawkv_incr_def
  by (intro local_rules)+

lemma expire_then_local [local_rules]:
  "txn_local p \<Longrightarrow> txn_local (string_expire_then env key p)"
  "txn_local p \<Longrightarrow> txn_local (hash_expire_then env key p)"
  "txn_local p \<Longrightarrow> txn_local (list_expire_then env key p)"
  "txn_local p \<Longrightarrow> txn_local (set_expire_then env key p)"
  "txn_local p \<Longrightarrow> txn_local (zset_expire_then env key p)"
  unfolding string_expire_then_def list_expire_then_def expire_then_def by (intro local_rules, assumption)+

lemma typed_local [local_rules]:
  "txn_local p \<Longrightarrow> txn_local (expire_typed dt env key p)" "txn_local (del_typed dt env key)"
  by (cases dt; simp add: expire_typed_def del_typed_def string_expire_then_def list_expire_then_def expire_then_def; intro local_rules)+

lemma del_loop_local [local_rules]: "txn_local (del_loop env keys dts resp)"
  by (induction env keys dts resp rule: del_loop.induct) (auto intro!: local_rules)

lemma del_local [local_rules]: "txn_local (do_async_txnkv_del env True keys)"
  unfolding do_async_txnkv_del_def del_body_def by (intro local_rules)

lemma scan_loops_local [local_rules]:
  "(\<And>st. txn_local (f st)) \<Longrightarrow> txn_local (scan_iter env is_match cnt kvs st f)"
  "txn_local (scan_rounds fuel env is_match cnt st)"
proof -
  show iter: "(\<And>st. txn_local (f st)) \<Longrightarrow> txn_local (scan_iter env is_match cnt kvs st f)" for st and f :: "scan_state \<Rightarrow> 'x action" and kvs
  proof (induction kvs arbitrary: st)
    case (Cons kv kvs)
    then show ?case unfolding scan_iter.simps by (intro local_rules) auto
  qed simp
  show "txn_local (scan_rounds fuel env is_match cnt st)"
  proof (induction fuel arbitrary: st)
    case (Suc fuel)
    then show ?case unfolding scan_rounds.simps by (intro local_rules iter)
  qed simp
qed

lemma key_local [local_rules]:
  "txn_local (do_async_txnkv_expire env True key ts)"
  "txn_local (do_async_txnkv_ttl env True key is_millis)"
  "txn_local (do_async_txnkv_scan regex fuel env True start n pattern)"
  unfolding do_async_txnkv_expire_def expire_body_def do_async_txnkv_ttl_def ttl_body_def do_async_txnkv_scan_def scan_body_def
  by (intro local_rules)+


section \<open>Transactions of commands\<close>

lemma case_bool_local [local_rules]:
  "txn_local p \<Longrightarrow> txn_local (when_valid b p)"
  "\<lbrakk>txn_local p; txn_local q\<rbrakk> \<Longrightarrow> txn_local (txn_or_raw env p q)"
  "txn_local p \<Longrightarrow> txn_local (txn_command env b p)"
  by (simp_all add: when_valid_def txn_or_raw_def txn_command_def Return_def)

lemma exec_local [local_rules]:
  "txn_local (exec_key cr env True kc)" "txn_local (exec_hash env True hc)"
  "txn_local (exec_list env True lc)" "txn_local (exec_set cr env True sc)" "txn_local (exec_zset env True zc)"
  subgoal by (cases kc; simp only: exec_key.simps incr_by_cmd_def set_cmd_def set_put_def set_put_not_exists_def setex_cmd_def
      batch_put_cmd_def expire_cmd_def scan_cmd_def; intro local_rules)
  subgoal by (cases hc; simp only: exec_hash.simps hset_cmd_def; intro local_rules)
  subgoal by (cases lc; simp only: exec_list.simps lrem_cmd_def; intro local_rules)
  subgoal by (cases sc; simp only: exec_set.simps srandmember_cmd_def; intro local_rules)
  subgoal by (cases zc; simp only: exec_zset.simps; intro local_rules)
  done






definition cmds0 :: "Command list" where
  "cmds0 = [KeyCmd (Set [107] [118] None None True), KeyCmd (KeyCommand.Get [107] True)]"







section \<open>The commands of a connection\<close>

text \<open>The commands that wait for \<^verbatim>\<open>EXEC\<close>. \<^verbatim>\<open>EVAL\<close> and \<^verbatim>\<open>EVALSHA\<close> are not among them: the handler applies them at once.\<close>

fun queued :: "Command \<Rightarrow> bool" where
  "queued (Auth _ _) = False"
| "queued (Eval _ _ _ _ _) = False"
| "queued (Evalsha _ _ _ _ _) = False"
| "queued Multi = False"
| "queued Exec = False"
| "queued Discard = False"
| "queued _ = True"

lemma handle_queued:
  "queued cmd \<Longrightarrow> authorized h \<Longrightarrow> handle_command c h cmd =
     (if inner_txn h then ([resp_queued], Nothing, h\<lparr>queued_commands := queued_commands h @ [cmd]\<rparr>) else ([], Apply cmd, h))"
  by (cases cmd) (simp_all add: handle_command_def)

lemma session_append:
  "session c h (xs @ ys) =
     (case session c h xs of (steps, h') \<Rightarrow> (case session c h' ys of (steps', h'') \<Rightarrow> (steps @ steps', h'')))"
  by (induction xs arbitrary: h) (simp_all split: prod.splits)

lemma session_queue:
  "\<lbrakk>list_all queued cmds; authorized h; inner_txn h\<rbrakk> \<Longrightarrow>
   session c h cmds = (map (\<lambda>_. ([resp_queued], Nothing)) cmds, h\<lparr>queued_commands := queued_commands h @ cmds\<rparr>)"
  by (induction cmds arbitrary: h) (simp_all add: handle_queued)

text \<open>(C39) After \<^verbatim>\<open>MULTI\<close> the commands of an authorized connection are only queued, up to \<^verbatim>\<open>EXEC\<close>, which runs exactly these commands in
  their order as one transaction, or \<^verbatim>\<open>DISCARD\<close>, after which none of them is run; \<^verbatim>\<open>MULTI\<close> and \<^verbatim>\<open>DISCARD\<close> themselves apply
  nothing. What was queued before does not matter, and the connection is again outside a transaction.\<close>

theorem session_transaction:
  assumes "authorized h" "\<not> inner_txn h" "list_all queued cmds"
  shows "session c h (Multi # cmds @ [Exec]) =
      (([resp_ok], Apply Multi) # map (\<lambda>_. ([resp_queued], Nothing)) cmds @ [([], ExecMulti cmds)],
       h\<lparr>queued_commands := cmds\<rparr>) \<and>
    session c h (Multi # cmds @ [Discard]) =
      (([resp_ok], Apply Multi) # map (\<lambda>_. ([resp_queued], Nothing)) cmds @ [([resp_ok], Apply Discard)],
       h\<lparr>queued_commands := []\<rparr>) \<and>
    apply_command cr env Multi = Silent \<and> apply_command cr env Discard = Silent"
  using assms by (simp add: handle_command_def session_append session_queue)

theorem session_transaction_witness:
  "session None (new_handler None) (Multi # cmds0 @ [Exec]) =
    ([([resp_ok], Apply Multi), ([resp_queued], Nothing), ([resp_queued], Nothing), ([], ExecMulti cmds0)],
     (new_handler None)\<lparr>queued_commands := cmds0\<rparr>)"
  using session_transaction [of "new_handler None" cmds0 None] by (simp add: new_handler_def is_auth_enabled_def cmds0_def)

text \<open>(C40) With a password set, a connection that has not sent it gets nothing done: every command is answered with an error and leads to no
  work, and the connection stays unauthorized and outside a transaction.\<close>

theorem session_unauthorized:
  assumes "is_auth_enabled c" "list_all (\<lambda>cmd. case cmd of Auth passwd valid \<Rightarrow> \<not> (valid \<and> is_auth_matched c passwd) | _ \<Rightarrow> True) cmds"
  shows "case session c (new_handler c) cmds of
    (steps, h) \<Rightarrow> h = new_handler c \<and> length steps = length cmds \<and> list_all (\<lambda>(frames, work). work = Nothing \<and> list_all is_error frames \<and> frames \<noteq> []) steps"
  using assms(2)
proof (induction cmds)
  case (Cons cmd cmds)
  have "\<exists>f. handle_command c (new_handler c) cmd = ([f], Nothing, new_handler c) \<and> is_error f"
    using Cons.prems assms(1) by (cases cmd) (auto simp: handle_command_def new_handler_def resp_err_def resp_invalid_arguments_def
        REDIS_AUTH_REQUIRED_ERR_def REDIS_AUTH_INVALID_PASSWORD_ERR_def)
  then show ?case using Cons by (auto split: prod.splits)
qed simp

definition locked_config :: config where
  "locked_config = Some \<lparr>server = Server.make None None None None None None None None None None None None (Some [112]) None None None None None None,
     backend = Backend.make None None None None None None None None None None None None None None None None None None None None
       None None None None None None None None None None None None None None None None None\<rparr>"

theorem session_unauthorized_witness:
  "case session locked_config (new_handler locked_config) [Auth [113] True, KeyCmd (Del [[107]] True), Multi] of
    (steps, h) \<Rightarrow> h = new_handler locked_config \<and> length steps = 3 \<and>
      list_all (\<lambda>(frames, work). work = Nothing \<and> list_all is_error frames \<and> frames \<noteq> []) steps"
proof -
  have "is_auth_enabled locked_config" "\<not> is_auth_matched locked_config [113]"
    by (simp_all add: locked_config_def is_auth_enabled_def is_auth_matched_def Server.make_def)
  then show ?thesis
    using session_unauthorized [of locked_config "[Auth [113] True, KeyCmd (Del [[107]] True), Multi]"] by (simp add: numeral_3_eq_3 del: session.simps)
qed

end
